(* ===== verification/Prelude.thy ===== *)
theory Prelude imports Main begin

text \<open>
  Shared vocabulary of the development: the JavaScript value universe the dynamically typed
  entry points receive, truthiness and the \<open>||\<close> operator, string trimming, first-occurrence
  deduplication (\<open>[...new Set(xs)]\<close>), the sum-type error monad, and the generic list and map
  lemmas that several components use.

  Strings are lists of 8-bit characters, read as UTF-16 code units below 256; no component
  modelled here looks at a code unit above that range other than by equality.
  Numbers that the code uses as integers (milliseconds, counters, offsets, priorities) are
  \<open>int\<close> or \<open>nat\<close>.
\<close>

named_theorems js_defs "definitions of the JavaScript helper operators"
named_theorems model_inv "preservation facts of component invariants"

section \<open>JavaScript values\<close>

datatype jv =
    JUndef
  | JNull
  | JBool bool
  | JNum int
  | JStr string
  | JArr "jv list"
  | JObj "(string \<times> jv) list"

text \<open>Truthiness: undefined, null, false, 0 and the empty string are falsy.\<close>

fun truthy :: "jv \<Rightarrow> bool" where
  "truthy JUndef = False"
| "truthy JNull = False"
| "truthy (JBool b) = b"
| "truthy (JNum n) = (n \<noteq> 0)"
| "truthy (JStr s) = (s \<noteq> [])"
| "truthy (JArr _) = True"
| "truthy (JObj _) = True"

definition js_or :: "jv \<Rightarrow> jv \<Rightarrow> jv" where
  [js_defs]: "js_or a b = (if truthy a then a else b)"

text \<open>\<open>asRecord(value)\<close>: the properties of a plain object, none of anything else.\<close>

fun as_record :: "jv \<Rightarrow> (string \<times> jv) list" where
  "as_record (JObj ps) = ps"
| "as_record _ = []"

text \<open>Property access: an absent property reads as \<open>undefined\<close>.\<close>

definition jget :: "(string \<times> jv) list \<Rightarrow> string \<Rightarrow> jv" where
  [js_defs]: "jget ps k = (case map_of ps k of None \<Rightarrow> JUndef | Some v \<Rightarrow> v)"

text \<open>Optional chaining \<open>v?.k\<close> on a value that has no such property unless it is an object.\<close>

definition prop_of :: "jv \<Rightarrow> string \<Rightarrow> jv" where
  "prop_of v k = jget (as_record v) k"

text \<open>\<open>a || b\<close> on strings: the empty string is falsy.\<close>

definition str_or :: "string \<Rightarrow> string \<Rightarrow> string" where
  [js_defs]: "str_or a b = (if a = [] then b else a)"

text \<open>The names a plain object inherits from \<open>Object.prototype\<close>: reading one of them is not undefined.\<close>

definition prototype_names :: "string list" where
  "prototype_names = [''constructor'', ''__defineGetter__'', ''__defineSetter__'', ''hasOwnProperty'', ''__lookupGetter__'',
     ''__lookupSetter__'', ''isPrototypeOf'', ''propertyIsEnumerable'', ''toString'', ''valueOf'', ''__proto__'', ''toLocaleString'']"

section \<open>Strings\<close>

text \<open>The code units below 256 that \<open>String.prototype.trim\<close> removes.\<close>

definition is_space :: "char \<Rightarrow> bool" where
  "is_space c \<longleftrightarrow> (let n = (of_char c :: nat) in n \<in> {9, 10, 11, 12, 13, 32, 160})"

definition trim :: "string \<Rightarrow> string" where
  "trim s = rev (dropWhile is_space (rev (dropWhile is_space s)))"

definition is_prefix :: "'a list \<Rightarrow> 'a list \<Rightarrow> bool" where
  "is_prefix p s \<longleftrightarrow> take (length p) s = p"

text \<open>\<open>s.includes(p)\<close> and \<open>s.startsWith(p)\<close>.\<close>

definition contains :: "string \<Rightarrow> string \<Rightarrow> bool" where
  "contains p s \<longleftrightarrow> list_ex (\<lambda>i. is_prefix p (drop i s)) [0..<Suc (length s)]"

text \<open>\<open>xs.join(sep)\<close>.\<close>

fun join_with :: "string \<Rightarrow> string list \<Rightarrow> string" where
  "join_with sep [] = []"
| "join_with sep [x] = x"
| "join_with sep (x # xs) = x @ sep @ join_with sep xs"

lemma dropWhile_id: "(\<forall>x \<in> set xs. \<not> P x) \<Longrightarrow> dropWhile P xs = xs"
  by (cases xs) auto

lemma dropWhile_hd: "dropWhile P xs \<noteq> [] \<Longrightarrow> \<not> P (hd (dropWhile P xs))"
  by (rule hd_dropWhile)

lemma dropWhile_idem: "dropWhile P (dropWhile P xs) = dropWhile P xs"
  by (induction xs) auto

text \<open>Trimming the right end does not uncover a blank on the left end.\<close>

lemma dropWhile_trim_end:
  "dropWhile P (rev (dropWhile P (rev (dropWhile P s)))) = rev (dropWhile P (rev (dropWhile P s)))"
proof (cases "dropWhile P s")
  case Nil
  show ?thesis unfolding Nil by simp
next
  case (Cons c cs)
  then have "\<not> P c" using dropWhile_hd [of P s] by simp
  then have "rev (dropWhile P (rev cs @ [c])) = c # rev (dropWhile P (rev cs))"
    by (simp add: dropWhile_append)
  with Cons \<open>\<not> P c\<close> show ?thesis by simp
qed

lemma trim_idem [simp]: "trim (trim s) = trim s"
  by (simp add: trim_def dropWhile_trim_end dropWhile_idem)

lemma trim_Nil [simp]: "trim [] = []"
  by (simp add: trim_def)

text \<open>Decimal digits, as a template literal or \<open>String(n)\<close> prints an integer below \<open>10^21\<close>.\<close>

fun digits :: "nat \<Rightarrow> string" where
  "digits n = (if n < 10 then [char_of (48 + n)] else digits (n div 10) @ [char_of (48 + n mod 10)])"

text \<open>\<open>String(value)\<close> of a plain data value: arrays join their items with commas, null and
  undefined items as nothing; an object without a \<open>toString\<close> of its own is \<open>[object Object]\<close>.\<close>

fun js_string :: "jv \<Rightarrow> string" where
  "js_string JUndef = ''undefined''"
| "js_string JNull = ''null''"
| "js_string (JBool b) = (if b then ''true'' else ''false'')"
| "js_string (JNum n) = (if n < 0 then CHR ''-'' # digits (nat (- n)) else digits (nat n))"
| "js_string (JStr s) = s"
| "js_string (JArr xs) =
     concat (map (\<lambda>(i, x). (if i = 0 then [] else '','') @ x)
       (enumerate 0 (map (\<lambda>x. if x = JUndef \<or> x = JNull then [] else js_string x) xs)))"
| "js_string (JObj _) = ''[object Object]''"

section \<open>Deduplication keeping the first occurrence\<close>

fun dedup :: "'a list \<Rightarrow> 'a list" where
  "dedup [] = []"
| "dedup (x # xs) = x # dedup (removeAll x xs)"

lemma set_dedup [simp]: "set (dedup xs) = set xs"
  by (induction xs rule: dedup.induct) auto

lemma distinct_dedup [simp]: "distinct (dedup xs)"
  by (induction xs rule: dedup.induct) auto

lemma dedup_distinct: "distinct xs \<Longrightarrow> dedup xs = xs"
  by (induction xs) auto

lemma dedup_idem [simp]: "dedup (dedup xs) = dedup xs"
  by (simp add: dedup_distinct)

lemma dedup_eq_Nil [simp]: "dedup xs = [] \<longleftrightarrow> xs = []"
  by (cases xs) auto

lemma length_dedup_le: "length (dedup xs) \<le> length xs"
proof (induction xs rule: dedup.induct)
  case 1
  then show ?case by simp
next
  case (2 x xs)
  then show ?case
    using le_trans [OF _ length_removeAll_less_eq [of x xs]] by simp
qed

section \<open>Lists\<close>

lemma remove1_append_notin: "x \<notin> set xs \<Longrightarrow> remove1 x (xs @ x # ys) = xs @ ys"
  by (induction xs) auto

lemma set_remove1_distinct: "distinct xs \<Longrightarrow> set (remove1 x xs) = set xs - {x}"
  by simp

lemma filter_neq_distinct: "distinct xs \<Longrightarrow> filter (\<lambda>y. y \<noteq> x) xs = remove1 x xs"
  by (induction xs) (auto simp: remove1_idem)

lemma concat_map_if: "\<forall>x \<in> set xs. \<not> P x \<Longrightarrow> concat (map (\<lambda>x. if P x then f x else []) xs) = []"
  by (induction xs) auto

section \<open>Finite maps\<close>

lemma card_dom_upd_new:
  "finite (dom m) \<Longrightarrow> k \<notin> dom m \<Longrightarrow> card (dom (m(k \<mapsto> v))) = Suc (card (dom m))"
  by simp

lemma card_dom_del:
  "finite (dom m) \<Longrightarrow> k \<in> dom m \<Longrightarrow> Suc (card (dom (m(k := None)))) = card (dom m)"
  by (metis card_Suc_Diff1 dom_fun_upd)

lemma card_dom_pos: "finite (dom m) \<Longrightarrow> m k = Some v \<Longrightarrow> 0 < card (dom m)"
  by (metis card_gt_0_iff domI empty_iff)

text \<open>
  A JavaScript \<open>Map\<close>: entries in insertion order. \<open>set\<close> on a present key keeps its place,
  on a new key appends; \<open>delete\<close> removes the entry; \<open>get\<close> is \<^term>\<open>map_of\<close>.
\<close>

fun jmap_set :: "'k \<Rightarrow> 'v \<Rightarrow> ('k \<times> 'v) list \<Rightarrow> ('k \<times> 'v) list" where
  "jmap_set k v [] = [(k, v)]"
| "jmap_set k v ((k', v') # m) = (if k' = k then (k, v) # m else (k', v') # jmap_set k v m)"

definition jmap_del :: "'k \<Rightarrow> ('k \<times> 'v) list \<Rightarrow> ('k \<times> 'v) list" where
  "jmap_del k m = filter (\<lambda>e. fst e \<noteq> k) m"

definition jmap_ok :: "('k \<times> 'v) list \<Rightarrow> bool" where
  "jmap_ok m \<longleftrightarrow> distinct (map fst m)"

lemma jmap_get_set [simp]: "map_of (jmap_set k v m) = (map_of m)(k \<mapsto> v)"
  by (induction m) (auto simp: fun_eq_iff)

lemma jmap_get_del [simp]: "map_of (jmap_del k m) = (map_of m)(k := None)"
  by (induction m) (auto simp: jmap_del_def fun_eq_iff)

lemma jmap_keys_set [simp]: "fst ` set (jmap_set k v m) = insert k (fst ` set m)"
proof (induction m)
  case (Cons e m)
  then show ?case by (cases e; cases "fst e = k") (simp_all add: insert_commute)
qed simp

lemma jmap_keys_del [simp]: "fst ` set (jmap_del k m) = fst ` set m - {k}"
  by (auto simp: jmap_del_def)

lemma jmap_ok_Nil [simp]: "jmap_ok []"
  by (simp add: jmap_ok_def)

lemma jmap_ok_set [simp]: "jmap_ok m \<Longrightarrow> jmap_ok (jmap_set k v m)"
  unfolding jmap_ok_def
proof (induction m)
  case (Cons e m)
  then show ?case using jmap_keys_set [of k v m] by (cases e) auto
qed simp

lemma jmap_ok_del [simp]: "jmap_ok m \<Longrightarrow> jmap_ok (jmap_del k m)"
  by (auto simp: jmap_ok_def jmap_del_def distinct_map inj_on_def)

lemma jmap_mem: "jmap_ok m \<Longrightarrow> (k, v) \<in> set m \<longleftrightarrow> map_of m k = Some v"
  by (simp add: jmap_ok_def)

lemma jmap_key_iff: "k \<in> fst ` set m \<longleftrightarrow> map_of m k \<noteq> None"
  by (simp add: map_of_eq_None_iff)

text \<open>A weight summed over the entries (sizes, counts), and how the updates change it.\<close>

definition jmap_sum :: "('v \<Rightarrow> nat) \<Rightarrow> ('k \<times> 'v) list \<Rightarrow> nat" where
  "jmap_sum f m = sum_list (map (f \<circ> snd) m)"

lemma jmap_sum_Nil [simp]: "jmap_sum f [] = 0"
  by (simp add: jmap_sum_def)

lemma jmap_sum_set_new: "map_of m k = None \<Longrightarrow> jmap_sum f (jmap_set k v m) = jmap_sum f m + f v"
  by (induction m) (auto simp: jmap_sum_def split: if_splits)

lemma jmap_sum_set_old:
  "map_of m k = Some u \<Longrightarrow> jmap_sum f (jmap_set k v m) + f u = jmap_sum f m + f v"
  by (induction m) (auto simp: jmap_sum_def split: if_splits)

lemma jmap_del_absent: "map_of m k = None \<Longrightarrow> jmap_del k m = m"
  by (auto simp: jmap_del_def map_of_eq_None_iff image_iff filter_id_conv)

lemma jmap_sum_del: "jmap_ok m \<Longrightarrow> map_of m k = Some u \<Longrightarrow> jmap_sum f (jmap_del k m) + f u = jmap_sum f m"
proof (induction m)
  case (Cons e m)
  show ?case
  proof (cases "fst e = k")
    case True
    then have "map_of m k = None" using Cons.prems(1) by (simp add: jmap_ok_def map_of_eq_None_iff)
    then have "jmap_del k (e # m) = m" using True jmap_del_absent by (simp add: jmap_del_def)
    then show ?thesis using Cons.prems(2) True by (cases e) (simp add: jmap_sum_def)
  next
    case False
    then have "map_of m k = Some u" "jmap_ok m" using Cons.prems by (cases e; simp add: jmap_ok_def)+
    with Cons.IH False show ?thesis by (cases e) (simp add: jmap_sum_def jmap_del_def)
  qed
qed simp

lemma length_jmap_set_new: "map_of m k = None \<Longrightarrow> length (jmap_set k v m) = Suc (length m)"
  by (induction m) (auto split: if_splits)

lemma length_jmap_set_old: "map_of m k = Some u \<Longrightarrow> length (jmap_set k v m) = length m"
  by (induction m) (auto split: if_splits)

lemma length_jmap_del: "jmap_ok m \<Longrightarrow> map_of m k = Some u \<Longrightarrow> Suc (length (jmap_del k m)) = length m"
  using jmap_sum_del [of m k u "\<lambda>_. 1"] by (simp add: jmap_sum_def comp_def sum_list_triv)

section \<open>Errors as values\<close>

definition or_else :: "'a \<Rightarrow> 'a option \<Rightarrow> 'a" where
  "or_else d v = (case v of None \<Rightarrow> d | Some x \<Rightarrow> x)"

text \<open>\<open>Inl\<close> is the thrown error, \<open>Inr\<close> the returned value.\<close>

definition ebind :: "'e + 'a \<Rightarrow> ('a \<Rightarrow> 'e + 'b) \<Rightarrow> 'e + 'b" where
  "ebind r f = (case r of Inl e \<Rightarrow> Inl e | Inr x \<Rightarrow> f x)"

lemma ebind_simps [simp]: "ebind (Inl e) f = Inl e" "ebind (Inr x) f = f x"
  by (simp_all add: ebind_def)

lemma ebind_Inr_iff: "ebind r f = Inr y \<longleftrightarrow> (\<exists>x. r = Inr x \<and> f x = Inr y)"
  by (cases r) auto

end
