(* ===== verification/WaitQueue.thy ===== *)
theory WaitQueue imports Prelude begin

text \<open>
  The intrusive FIFO of \<open>packages/foundation/src/concurrency/lock-manager-contract.ts\<close>
  (\<open>IntrusiveWaitNode\<close>, \<open>IntrusiveWaitQueue\<close>): doubly linked nodes that carry their own links
  and a back pointer to the queue that holds them. Nodes and queues are mutable JavaScript
  objects, so the model is an explicit store from object identities (natural numbers) to
  their fields, and every assignment of the source is one update of that store, in the
  source's order. The refinement lemmas relate the pointer structure to the list of its
  nodes; the locale \<open>fifo_store\<close> is the contract the lock manager relies on.
\<close>

section \<open>The pointer store\<close>

record wait_node =
  previous :: "nat option"
  next_node :: "nat option"
  queue_of :: "nat option"

record wait_queue =
  head :: "nat option"
  tail :: "nat option"
  size_of :: nat

record wait_store =
  nodes :: "nat \<Rightarrow> wait_node"
  queues :: "nat \<Rightarrow> wait_queue"

definition fresh_node :: wait_node where
  "fresh_node = \<lparr>previous = None, next_node = None, queue_of = None\<rparr>"

definition new_queue :: wait_queue where
  "new_queue = \<lparr>head = None, tail = None, size_of = 0\<rparr>"

definition empty_store :: wait_store where
  "empty_store = \<lparr>nodes = (\<lambda>_. fresh_node), queues = (\<lambda>_. new_queue)\<rparr>"

text \<open>Field assignments on one node, on one queue.\<close>

definition upd_node :: "nat \<Rightarrow> (wait_node \<Rightarrow> wait_node) \<Rightarrow> wait_store \<Rightarrow> wait_store" where
  "upd_node n f s = s\<lparr>nodes := (nodes s)(n := f (nodes s n))\<rparr>"

definition upd_queue :: "nat \<Rightarrow> (wait_queue \<Rightarrow> wait_queue) \<Rightarrow> wait_store \<Rightarrow> wait_store" where
  "upd_queue q f s = s\<lparr>queues := (queues s)(q := f (queues s q))\<rparr>"

text \<open>\<open>push(node)\<close>.\<close>

definition wq_push :: "nat \<Rightarrow> nat \<Rightarrow> wait_store \<Rightarrow> wait_store" where
  "wq_push q n s =
     (let s1 = upd_node n (\<lambda>d. d\<lparr>previous := tail (queues s q)\<rparr>) s;
          s2 = upd_node n (\<lambda>d. d\<lparr>next_node := None\<rparr>) s1;
          s3 = upd_node n (\<lambda>d. d\<lparr>queue_of := Some q\<rparr>) s2;
          s4 = (case tail (queues s3 q) of
                  Some t \<Rightarrow> upd_node t (\<lambda>d. d\<lparr>next_node := Some n\<rparr>) s3
                | None \<Rightarrow> upd_queue q (\<lambda>u. u\<lparr>head := Some n\<rparr>) s3);
          s5 = upd_queue q (\<lambda>u. u\<lparr>tail := Some n\<rparr>) s4
      in upd_queue q (\<lambda>u. u\<lparr>size_of := size_of u + 1\<rparr>) s5)"

text \<open>\<open>remove(node)\<close>: a null node or a node of another queue is left alone.\<close>

definition wq_remove :: "nat \<Rightarrow> nat option \<Rightarrow> wait_store \<Rightarrow> bool \<times> wait_store" where
  "wq_remove q node s =
     (case node of None \<Rightarrow> (False, s)
      | Some n \<Rightarrow>
          if queue_of (nodes s n) \<noteq> Some q then (False, s)
          else
            (let s1 = (case previous (nodes s n) of
                         Some p \<Rightarrow> upd_node p (\<lambda>d. d\<lparr>next_node := next_node (nodes s n)\<rparr>) s
                       | None \<Rightarrow> upd_queue q (\<lambda>u. u\<lparr>head := next_node (nodes s n)\<rparr>) s);
                 s2 = (case next_node (nodes s1 n) of
                         Some x \<Rightarrow> upd_node x (\<lambda>d. d\<lparr>previous := previous (nodes s1 n)\<rparr>) s1
                       | None \<Rightarrow> upd_queue q (\<lambda>u. u\<lparr>tail := previous (nodes s1 n)\<rparr>) s1);
                 s3 = upd_node n (\<lambda>d. d\<lparr>previous := None\<rparr>) s2;
                 s4 = upd_node n (\<lambda>d. d\<lparr>next_node := None\<rparr>) s3;
                 s5 = upd_node n (\<lambda>d. d\<lparr>queue_of := None\<rparr>) s4
             in (True, upd_queue q (\<lambda>u. u\<lparr>size_of := size_of u - 1\<rparr>) s5)))"

text \<open>\<open>shift()\<close>: the head, removed.\<close>

definition wq_shift :: "nat \<Rightarrow> wait_store \<Rightarrow> nat option \<times> wait_store" where
  "wq_shift q s =
     (let node = head (queues s q)
      in (node, case node of None \<Rightarrow> s | Some n \<Rightarrow> snd (wq_remove q (Some n) s)))"

section \<open>The list a queue represents\<close>

definition first_of :: "nat list \<Rightarrow> nat option" where
  "first_of xs = (case xs of [] \<Rightarrow> None | x # _ \<Rightarrow> Some x)"

definition last_of :: "nat option \<Rightarrow> nat list \<Rightarrow> nat option" where
  "last_of p xs = (if xs = [] then p else Some (last xs))"

text \<open>\<open>linked h p xs y\<close>: the nodes of \<open>xs\<close> are linked in this order, the first one has \<open>p\<close> as
  its predecessor and the last one \<open>y\<close> as its successor.\<close>

fun linked :: "(nat \<Rightarrow> wait_node) \<Rightarrow> nat option \<Rightarrow> nat list \<Rightarrow> nat option \<Rightarrow> bool" where
  "linked h p [] y \<longleftrightarrow> True"
| "linked h p (x # xs) y \<longleftrightarrow>
     previous (h x) = p \<and>
     next_node (h x) = (case xs of [] \<Rightarrow> y | z # _ \<Rightarrow> Some z) \<and>
     linked h (Some x) xs y"

definition wq_rep :: "wait_store \<Rightarrow> nat \<Rightarrow> nat list \<Rightarrow> bool" where
  "wq_rep s q xs \<longleftrightarrow>
     distinct xs \<and>
     linked (nodes s) None xs None \<and>
     head (queues s q) = first_of xs \<and>
     tail (queues s q) = last_of None xs \<and>
     size_of (queues s q) = length xs \<and>
     (\<forall>n. queue_of (nodes s n) = Some q \<longleftrightarrow> n \<in> set xs)"

lemma first_of_simps [simp]: "first_of [] = None" "first_of (x # xs) = Some x"
  by (simp_all add: first_of_def)

lemma last_of_simps [simp]:
  "last_of p [] = p" "last_of p (xs @ [x]) = Some x" "xs \<noteq> [] \<Longrightarrow> last_of p xs = Some (last xs)"
  by (simp_all add: last_of_def)

lemma linked_cong:
  "(\<And>n. n \<in> set xs \<Longrightarrow> previous (h n) = previous (g n) \<and> next_node (h n) = next_node (g n))
   \<Longrightarrow> linked h p xs y = linked g p xs y"
  by (induction xs arbitrary: p) auto

lemma linked_upd_other [simp]: "n \<notin> set xs \<Longrightarrow> linked (h(n := d)) p xs y = linked h p xs y"
  by (rule linked_cong) auto

lemma linked_append:
  "linked h p (xs @ ys) y \<longleftrightarrow>
     linked h p xs (case ys of [] \<Rightarrow> y | z # _ \<Rightarrow> Some z) \<and> linked h (last_of p xs) ys y"
proof (induction xs arbitrary: p)
  case Nil
  then show ?case by simp
next
  case (Cons x xs)
  then show ?case by (cases xs) (auto split: list.splits)
qed

text \<open>Redirecting the end of a chain: only the successor of the last node changes.\<close>

lemma linked_set_last:
  "linked h p xs y \<Longrightarrow> distinct xs \<Longrightarrow> xs \<noteq> [] \<Longrightarrow>
     linked (h(last xs := (h (last xs))\<lparr>next_node := z\<rparr>)) p xs z"
proof (induction xs arbitrary: p)
  case Nil
  then show ?case by simp
next
  case (Cons x xs)
  then show ?case by (cases xs) auto
qed

text \<open>Redirecting the start of a chain: only the predecessor of the first node changes.\<close>

lemma linked_set_first:
  "linked h p (x # xs) y \<Longrightarrow> distinct (x # xs) \<Longrightarrow>
     linked (h(x := (h x)\<lparr>previous := z\<rparr>)) z (x # xs) y"
  by auto

section \<open>push appends, remove deletes, shift takes the head\<close>

lemmas store_defs = upd_node_def upd_queue_def Let_def

lemma nodes_push:
  "nodes (wq_push q n s) =
     (let h = (nodes s)(n := \<lparr>previous = tail (queues s q), next_node = None, queue_of = Some q\<rparr>)
      in case tail (queues s q) of None \<Rightarrow> h | Some t \<Rightarrow> h(t := (h t)\<lparr>next_node := Some n\<rparr>))"
  by (cases "nodes s n") (auto simp: wq_push_def store_defs fun_eq_iff split: option.splits)

lemma queues_push:
  "queues (wq_push q n s) =
     (queues s)(q := \<lparr>head = (if tail (queues s q) = None then Some n else head (queues s q)),
                      tail = Some n, size_of = size_of (queues s q) + 1\<rparr>)"
  by (cases "queues s q") (auto simp: wq_push_def store_defs fun_eq_iff split: option.splits)

lemma linked_push:
  assumes "linked h None xs None" "distinct xs" "n \<notin> set xs"
    and "h' = h(n := \<lparr>previous = last_of None xs, next_node = None, queue_of = r\<rparr>)"
  shows "linked (case last_of None xs of None \<Rightarrow> h'
                 | Some t \<Rightarrow> h'(t := (h' t)\<lparr>next_node := Some n\<rparr>)) None (xs @ [n]) None"
proof (cases "xs = []")
  case True
  with assms(4) show ?thesis by simp
next
  case False
  have "last xs \<noteq> n" using False assms(3) by auto
  have "linked h' None xs None" using assms(1,3,4) by simp
  then have "linked (h'(last xs := (h' (last xs))\<lparr>next_node := Some n\<rparr>)) None xs (Some n)"
    using assms(2) False by (rule linked_set_last)
  then show ?thesis using False assms(4) \<open>last xs \<noteq> n\<close> by (simp add: linked_append)
qed

lemma wq_push_rep:
  assumes rep: "wq_rep s q xs" and new: "n \<notin> set xs"
  shows "wq_rep (wq_push q n s) q (xs @ [n])"
proof -
  have t: "tail (queues s q) = last_of None xs" using rep by (simp add: wq_rep_def)
  have "linked (nodes (wq_push q n s)) None (xs @ [n]) None"
    using rep new linked_push [of "nodes s" xs n _ "Some q"]
    by (simp add: nodes_push t Let_def wq_rep_def)
  moreover have "head (queues (wq_push q n s) q) = first_of (xs @ [n])"
    using rep by (cases xs) (auto simp: queues_push wq_rep_def)
  moreover have "\<forall>m. queue_of (nodes (wq_push q n s) m) = Some q \<longleftrightarrow> m \<in> set (xs @ [n])"
    using rep new by (auto simp: nodes_push t Let_def wq_rep_def last_of_def)
  ultimately show ?thesis
    using rep new by (simp add: wq_rep_def queues_push)
qed

lemma wq_rep_disjoint:
  "wq_rep s q xs \<Longrightarrow> wq_rep s q' ys \<Longrightarrow> q' \<noteq> q \<Longrightarrow> set xs \<inter> set ys = {}"
  by (auto simp: wq_rep_def) (metis option.inject)

lemma last_of_in: "last_of None xs = Some t \<Longrightarrow> t \<in> set xs"
  by (auto simp: last_of_def split: if_splits)

lemma wq_push_frame:
  assumes "wq_rep s q xs" "wq_rep s q' ys" "q' \<noteq> q" "queue_of (nodes s n) \<noteq> Some q'"
  shows "wq_rep (wq_push q n s) q' ys"
proof -
  have n: "n \<notin> set ys" using assms(2,4) by (simp add: wq_rep_def)
  have t: "tail (queues s q) = last_of None xs" using assms(1) by (simp add: wq_rep_def)
  have disj: "t \<notin> set ys" if "last_of None xs = Some t" for t
    using last_of_in [OF that] wq_rep_disjoint [OF assms(1-3)] by blast
  have "linked (nodes (wq_push q n s)) None ys None"
    using assms(2) n disj by (auto simp: nodes_push t Let_def wq_rep_def split: option.splits)
  moreover have "\<forall>m. queue_of (nodes (wq_push q n s) m) = Some q' \<longleftrightarrow> m \<in> set ys"
    using assms n by (auto simp: nodes_push Let_def wq_rep_def split: option.splits)
  ultimately show ?thesis
    using assms(2,3) by (simp add: wq_rep_def queues_push)
qed

lemma nodes_remove:
  assumes "queue_of (nodes s n) = Some q" "previous (nodes s n) = p" "next_node (nodes s n) = x"
    and "p \<noteq> Some n" "x \<noteq> Some n" "p = None \<or> p \<noteq> x"
  shows "nodes (snd (wq_remove q (Some n) s)) =
     (let h = (case p of None \<Rightarrow> nodes s | Some a \<Rightarrow> (nodes s)(a := (nodes s a)\<lparr>next_node := x\<rparr>));
          g = (case x of None \<Rightarrow> h | Some b \<Rightarrow> h(b := (h b)\<lparr>previous := p\<rparr>))
      in g(n := fresh_node))"
  using assms
  by (cases p; cases x; cases "nodes s n")
     (auto simp: wq_remove_def store_defs fun_eq_iff fresh_node_def)

lemma queues_remove:
  assumes "queue_of (nodes s n) = Some q" "previous (nodes s n) = p" "next_node (nodes s n) = x"
    and "p \<noteq> Some n" "x \<noteq> Some n"
  shows "queues (snd (wq_remove q (Some n) s)) =
     (queues s)(q := \<lparr>head = (if p = None then x else head (queues s q)),
                      tail = (if x = None then p else tail (queues s q)),
                      size_of = size_of (queues s q) - 1\<rparr>)"
  using assms
  by (cases p; cases x; cases "queues s q")
     (auto simp: wq_remove_def store_defs fun_eq_iff)

lemma fst_remove [simp]:
  "fst (wq_remove q (Some n) s) \<longleftrightarrow> queue_of (nodes s n) = Some q"
  by (simp add: wq_remove_def Let_def)

lemma linked_remove:
  assumes l: "linked h None (as @ n # bs) None" and d: "distinct (as @ n # bs)"
    and h1: "h1 = (case last_of None as of None \<Rightarrow> h
                   | Some a \<Rightarrow> h(a := (h a)\<lparr>next_node := first_of bs\<rparr>))"
    and h2: "h2 = (case first_of bs of None \<Rightarrow> h1
                   | Some b \<Rightarrow> h1(b := (h1 b)\<lparr>previous := last_of None as\<rparr>))"
  shows "linked (h2(n := r)) None (as @ bs) None"
proof -
  have la: "linked h None as (Some n)" and lb: "linked h (Some n) bs None"
    using l by (simp_all add: linked_append)
  have a1: "linked h1 None as (first_of bs)"
  proof (cases "as = []")
    case False
    then show ?thesis
      using linked_set_last [OF la, of "first_of bs"] d h1 by simp
  qed simp
  have b1: "linked h1 (Some n) bs None"
  proof (cases "as = []")
    case False
    then have "last as \<in> set as" by simp
    moreover have "set as \<inter> set bs = {}" using d by simp
    ultimately have "last as \<notin> set bs" by blast
    then show ?thesis using lb h1 False by simp
  qed (use lb h1 in simp)
  have a2: "linked h2 None as (first_of bs)"
    using a1 d h2 by (cases bs) auto
  have b2: "linked h2 (last_of None as) bs None"
  proof (cases bs)
    case (Cons b cs)
    then show ?thesis
      using linked_set_first [of h1 "Some n" b cs None] b1 d h2 by simp
  qed simp
  have "linked h2 None (as @ bs) None"
    using a2 b2 by (simp add: linked_append first_of_def)
  then show ?thesis using d by simp
qed

lemma wq_remove_links:
  assumes rep: "wq_rep s q (as @ n # bs)"
  shows "queue_of (nodes s n) = Some q" "previous (nodes s n) = last_of None as"
    "next_node (nodes s n) = first_of bs"
    "last_of None as \<noteq> Some n" "first_of bs \<noteq> Some n"
    "last_of None as = None \<or> last_of None as \<noteq> first_of bs"
proof -
  from rep have d: "distinct (as @ n # bs)" and l: "linked (nodes s) None (as @ n # bs) None"
    by (simp_all add: wq_rep_def)
  show "queue_of (nodes s n) = Some q" using rep by (simp add: wq_rep_def)
  show "previous (nodes s n) = last_of None as" "next_node (nodes s n) = first_of bs"
    using l by (simp_all add: linked_append first_of_def)
  show "last_of None as \<noteq> Some n" using d last_of_in [of as n] by auto
  show "first_of bs \<noteq> Some n" using d by (cases bs) auto
  show "last_of None as = None \<or> last_of None as \<noteq> first_of bs"
    using d last_of_in [of as] by (cases bs) auto
qed

lemma wq_remove_rep_split:
  assumes rep: "wq_rep s q (as @ n # bs)"
  shows "wq_rep (snd (wq_remove q (Some n) s)) q (as @ bs)"
proof -
  note links = wq_remove_links [OF rep]
  let ?s = "snd (wq_remove q (Some n) s)"
  have d: "distinct (as @ n # bs)" using rep by (simp add: wq_rep_def)
  have "linked (nodes ?s) None (as @ bs) None"
    unfolding nodes_remove [OF links] Let_def
    by (rule linked_remove [where h = "nodes s"]) (use rep in \<open>simp_all add: wq_rep_def\<close>)
  moreover have "head (queues ?s q) = first_of (as @ bs)" "tail (queues ?s q) = last_of None (as @ bs)"
    using rep unfolding queues_remove [OF links(1-5)]
    by (cases as; cases bs; auto simp: wq_rep_def last_of_def)+
  moreover have "\<forall>m. queue_of (nodes ?s m) = Some q \<longleftrightarrow> m \<in> set (as @ bs)"
    using rep d unfolding nodes_remove [OF links] Let_def
    by (auto simp: wq_rep_def fresh_node_def split: option.splits)
  ultimately show ?thesis
    using rep d by (simp add: wq_rep_def queues_remove [OF links(1-5)])
qed

lemma wq_remove_rep:
  assumes "wq_rep s q xs" "n \<in> set xs"
  shows "wq_rep (snd (wq_remove q (Some n) s)) q (remove1 n xs)"
proof -
  obtain as bs where xs: "xs = as @ n # bs" "n \<notin> set as"
    using split_list_first [OF assms(2)] by blast
  then show ?thesis
    using wq_remove_rep_split [of s q as n bs] assms(1) by (simp add: remove1_append_notin)
qed

lemma wq_remove_in:
  "wq_rep s q xs \<Longrightarrow> n \<in> set xs \<Longrightarrow>
     fst (wq_remove q (Some n) s) \<and> wq_rep (snd (wq_remove q (Some n) s)) q (remove1 n xs)"
  using wq_remove_rep [of s q xs n] by (simp add: wq_rep_def)

lemma wq_remove_absent:
  "wq_rep s q xs \<Longrightarrow> n \<notin> set xs \<Longrightarrow> wq_remove q (Some n) s = (False, s)"
  by (simp add: wq_remove_def wq_rep_def)

lemma wq_remove_frame:
  assumes "wq_rep s q xs" "n \<in> set xs" "wq_rep s q' ys" "q' \<noteq> q"
  shows "wq_rep (snd (wq_remove q (Some n) s)) q' ys"
proof -
  obtain as bs where xs: "xs = as @ n # bs" using split_list [OF assms(2)] by blast
  note links = wq_remove_links [OF assms(1) [unfolded xs]]
  have disj: "set (as @ n # bs) \<inter> set ys = {}"
    using wq_rep_disjoint [OF assms(1,3,4)] xs by simp
  have a: "t \<notin> set ys" if "last_of None as = Some t" for t
    using disj last_of_in [OF that] by auto
  have b: "t \<notin> set ys" if "first_of bs = Some t" for t
    using disj that by (cases bs) auto
  have n: "n \<notin> set ys" using disj by auto
  have "linked (nodes (snd (wq_remove q (Some n) s))) None ys None"
    using assms(3) n a b unfolding nodes_remove [OF links] Let_def
    by (auto simp: wq_rep_def split: option.splits)
  moreover have "\<forall>m. queue_of (nodes (snd (wq_remove q (Some n) s)) m) = Some q' \<longleftrightarrow> m \<in> set ys"
    using assms(3) n unfolding nodes_remove [OF links] Let_def
    by (auto simp: wq_rep_def fresh_node_def split: option.splits)
  ultimately show ?thesis
    using assms(3,4) by (simp add: wq_rep_def queues_remove [OF links(1-5)])
qed

lemma wq_shift_Cons:
  assumes "wq_rep s q (x # xs)"
  shows "fst (wq_shift q s) = Some x" "wq_rep (snd (wq_shift q s)) q xs"
proof -
  have "head (queues s q) = Some x" using assms by (simp add: wq_rep_def)
  then show "fst (wq_shift q s) = Some x" "wq_rep (snd (wq_shift q s)) q xs"
    using wq_remove_rep_split [of s q "[]" x xs] assms by (simp_all add: wq_shift_def Let_def)
qed

lemma wq_shift_Nil: "wq_rep s q [] \<Longrightarrow> wq_shift q s = (None, s)"
  by (simp add: wq_shift_def wq_rep_def)

lemma wq_rep_empty: "wq_rep empty_store q []"
  by (simp add: wq_rep_def empty_store_def new_queue_def fresh_node_def)

section \<open>The FIFO contract\<close>

text \<open>Operation sequences on any FIFO, with what each call returns.\<close>

datatype 'a fifo_op = Push 'a | Remove 'a | Shift

datatype 'a fifo_out = Pushed | Removed bool | Shifted "'a option"

fun fifo_step :: "('a \<Rightarrow> 's \<Rightarrow> 's) \<Rightarrow> ('a \<Rightarrow> 's \<Rightarrow> bool \<times> 's) \<Rightarrow> ('s \<Rightarrow> 'a option \<times> 's)
    \<Rightarrow> 'a fifo_op \<Rightarrow> 's \<Rightarrow> 'a fifo_out \<times> 's" where
  "fifo_step push remove shift (Push x) s = (Pushed, push x s)"
| "fifo_step push remove shift (Remove x) s = (case remove x s of (b, s') \<Rightarrow> (Removed b, s'))"
| "fifo_step push remove shift Shift s = (case shift s of (r, s') \<Rightarrow> (Shifted r, s'))"

fun fifo_run :: "('a \<Rightarrow> 's \<Rightarrow> 's) \<Rightarrow> ('a \<Rightarrow> 's \<Rightarrow> bool \<times> 's) \<Rightarrow> ('s \<Rightarrow> 'a option \<times> 's)
    \<Rightarrow> 'a fifo_op list \<Rightarrow> 's \<Rightarrow> 'a fifo_out list \<times> 's" where
  "fifo_run push remove shift [] s = ([], s)"
| "fifo_run push remove shift (x # xs) s =
     (case fifo_step push remove shift x s of (r, s') \<Rightarrow>
        (case fifo_run push remove shift xs s' of (rs, s'') \<Rightarrow> (r # rs, s'')))"

text \<open>The abstract FIFO: a list of distinct elements.\<close>

definition list_push :: "'a \<Rightarrow> 'a list \<Rightarrow> 'a list" where
  "list_push x xs = xs @ [x]"

definition list_remove :: "'a \<Rightarrow> 'a list \<Rightarrow> bool \<times> 'a list" where
  "list_remove x xs = (x \<in> set xs, remove1 x xs)"

definition list_shift :: "'a list \<Rightarrow> 'a option \<times> 'a list" where
  "list_shift xs = (case xs of [] \<Rightarrow> (None, []) | x # ys \<Rightarrow> (Some x, ys))"

text \<open>A node is pushed only while it is in no queue: what every caller does, because it
  pushes a node once, right after creating it.\<close>

fun push_fresh :: "'a fifo_op list \<Rightarrow> 'a list \<Rightarrow> bool" where
  "push_fresh [] xs \<longleftrightarrow> True"
| "push_fresh (op # ops) xs \<longleftrightarrow>
     (case op of Push x \<Rightarrow> x \<notin> set xs | _ \<Rightarrow> True) \<and>
     push_fresh ops (snd (fifo_step list_push list_remove list_shift op xs))"

text \<open>Emptying a queue by repeated \<open>shift\<close>, as \<open>destroy\<close> does.\<close>

fun drain :: "('s \<Rightarrow> 'a option \<times> 's) \<Rightarrow> nat \<Rightarrow> 's \<Rightarrow> 'a list \<times> 's" where
  "drain shift 0 s = ([], s)"
| "drain shift (Suc n) s =
     (case shift s of
        (None, s') \<Rightarrow> ([], s')
      | (Some x, s') \<Rightarrow> (case drain shift n s' of (xs, s'') \<Rightarrow> (x # xs, s'')))"

locale fifo_store =
  fixes push :: "'a \<Rightarrow> 's \<Rightarrow> 's"
    and remove :: "'a \<Rightarrow> 's \<Rightarrow> bool \<times> 's"
    and shift :: "'s \<Rightarrow> 'a option \<times> 's"
    and rep :: "'s \<Rightarrow> 'a list \<Rightarrow> bool"
  assumes push_rep: "rep s xs \<Longrightarrow> x \<notin> set xs \<Longrightarrow> rep (push x s) (xs @ [x])"
    and remove_in: "rep s xs \<Longrightarrow> x \<in> set xs \<Longrightarrow>
      fst (remove x s) \<and> rep (snd (remove x s)) (remove1 x xs)"
    and remove_out: "rep s xs \<Longrightarrow> x \<notin> set xs \<Longrightarrow> remove x s = (False, s)"
    and shift_Nil: "rep s [] \<Longrightarrow> shift s = (None, s)"
    and shift_Cons: "rep s (x # xs) \<Longrightarrow> fst (shift s) = Some x \<and> rep (snd (shift s)) xs"
begin

lemma step_refines:
  assumes "rep s xs" and "push_fresh [x] xs"
  shows "fst (fifo_step push remove shift x s) = fst (fifo_step list_push list_remove list_shift x xs)
    \<and> rep (snd (fifo_step push remove shift x s)) (snd (fifo_step list_push list_remove list_shift x xs))"
proof (cases x)
  case (Push y)
  then show ?thesis using assms push_rep [of s xs y] by (simp add: list_push_def)
next
  case (Remove y)
  show ?thesis
  proof (cases "y \<in> set xs")
    case True
    then show ?thesis using Remove remove_in [OF assms(1) True]
      by (auto simp: list_remove_def split: prod.splits)
  next
    case False
    then show ?thesis using Remove remove_out [OF assms(1) False] assms(1)
      by (simp add: list_remove_def remove1_idem)
  qed
next
  case Shift
  then show ?thesis
    using assms(1) shift_Nil [of s] shift_Cons [of s "hd xs" "tl xs"]
    by (cases xs) (auto simp: list_shift_def split: prod.splits)
qed

lemma run_refines:
  "rep s xs \<Longrightarrow> push_fresh ops xs \<Longrightarrow>
     fst (fifo_run push remove shift ops s) = fst (fifo_run list_push list_remove list_shift ops xs)
     \<and> rep (snd (fifo_run push remove shift ops s))
           (snd (fifo_run list_push list_remove list_shift ops xs))"
proof (induction ops arbitrary: s xs)
  case Nil
  then show ?case by simp
next
  case (Cons x ops)
  let ?t = "snd (fifo_step push remove shift x s)"
  let ?ys = "snd (fifo_step list_push list_remove list_shift x xs)"
  have step: "fst (fifo_step push remove shift x s) = fst (fifo_step list_push list_remove list_shift x xs)"
      "rep ?t ?ys"
    using step_refines [of s xs x] Cons.prems by simp_all
  have "push_fresh ops ?ys" using Cons.prems by simp
  from Cons.IH [OF step(2) this] step(1) show ?case
    by (auto split: prod.splits)
qed

lemma drain_all:
  "rep s xs \<Longrightarrow> fst (drain shift (length xs) s) = xs \<and> rep (snd (drain shift (length xs) s)) []"
proof (induction xs arbitrary: s)
  case Nil
  then show ?case by simp
next
  case (Cons x xs)
  from shift_Cons [OF Cons.prems] obtain t where "shift s = (Some x, t)" "rep t xs"
    by (cases "shift s") auto
  with Cons.IH [of t] show ?case by (auto split: prod.splits)
qed

end

interpretation wqf: fifo_store "wq_push q" "\<lambda>n. wq_remove q (Some n)" "wq_shift q" "\<lambda>s xs. wq_rep s q xs"
  for q
  by unfold_locales
    (simp_all only: wq_push_rep wq_remove_in wq_remove_absent wq_shift_Nil wq_shift_Cons simp_thms)

interpretation lf: fifo_store list_push list_remove list_shift "\<lambda>s xs. s = xs \<and> distinct xs"
  by unfold_locales (auto simp: list_push_def list_remove_def list_shift_def remove1_idem)

text \<open>
  C39: any sequence of push, remove and shift calls on the pointer queue returns exactly what
  the same calls return on a plain list, and leaves the pointers representing that list:
  the intrusive queue is FIFO, removal in the middle keeps the order of the rest, removing a
  node that is not queued returns false and changes nothing.
\<close>

theorem wait_queue_refines_list:
  assumes "wq_rep s q xs" and "push_fresh ops xs"
  shows "fst (fifo_run (wq_push q) (\<lambda>n. wq_remove q (Some n)) (wq_shift q) ops s) =
           fst (fifo_run list_push list_remove list_shift ops xs)
    \<and> wq_rep (snd (fifo_run (wq_push q) (\<lambda>n. wq_remove q (Some n)) (wq_shift q) ops s)) q
           (snd (fifo_run list_push list_remove list_shift ops xs))"
  using wqf.run_refines [OF assms] .

theorem wait_queue_refines_list_witness:
  "fst (fifo_run (wq_push 0) (\<lambda>n. wq_remove 0 (Some n)) (wq_shift 0)
      [Push 5, Push 6, Push 7, Remove 6, Remove 6, Shift, Shift, Shift] empty_store) =
   [Pushed, Pushed, Pushed, Removed True, Removed False, Shifted (Some 5), Shifted (Some 7), Shifted None]"
proof -
  have "push_fresh [Push 5, Push 6, Push 7, Remove 6, Remove 6, Shift, Shift, Shift] ([] :: nat list)"
    by (simp add: list_push_def list_remove_def list_shift_def)
  from wait_queue_refines_list [OF wq_rep_empty [of 0] this]
  show ?thesis by (simp add: list_push_def list_remove_def list_shift_def)
qed

text \<open>
  Operations on one queue never disturb another queue whose nodes live in the same store.
\<close>

theorem wait_queue_frame:
  assumes "wq_rep s q xs" and "wq_rep s q' ys" and "q' \<noteq> q"
  shows "wq_rep (snd (wq_remove q n s)) q' ys \<and> wq_rep (snd (wq_shift q s)) q' ys
    \<and> (\<forall>m. queue_of (nodes s m) = None \<longrightarrow> wq_rep (wq_push q m s) q' ys)"
proof -
  have rem: "wq_rep (snd (wq_remove q n s)) q' ys" for n
  proof (cases n)
    case None
    then show ?thesis using assms(2) by (simp add: wq_remove_def)
  next
    case (Some m)
    then show ?thesis
      using wq_remove_frame [OF assms(1) _ assms(2,3)] wq_remove_absent [OF assms(1)] assms(2)
      by (cases "m \<in> set xs") auto
  qed
  then have "wq_rep (snd (wq_shift q s)) q' ys"
    using assms(2) by (simp add: wq_shift_def Let_def split: option.splits)
  then show ?thesis using rem wq_push_frame [OF assms(1,2,3)] by simp
qed

theorem wait_queue_frame_witness:
  "wq_rep (snd (wq_shift 0 (wq_push 1 8 (wq_push 0 5 empty_store)))) 1 [8]"
proof -
  let ?s = "wq_push 0 5 empty_store"
  have a: "wq_rep ?s 0 [5]" using wq_push_rep [OF wq_rep_empty [of 0], of 5] by simp
  have b: "wq_rep ?s 1 []"
    using wq_push_frame [OF wq_rep_empty [of 0] wq_rep_empty [of 1], of 5]
    by (simp add: empty_store_def fresh_node_def)
  have c: "wq_rep (wq_push 1 8 ?s) 1 [8]" using wq_push_rep [OF b, of 8] by simp
  have "queue_of (nodes ?s 8) = None" by (simp add: nodes_push empty_store_def fresh_node_def new_queue_def)
  then have d: "wq_rep (wq_push 1 8 ?s) 0 [5]" using wq_push_frame [OF b a, of 8] by simp
  show ?thesis using wait_queue_frame [OF d c] by simp
qed

end
