(* ===== verification/MinHeap.thy ===== *)
theory MinHeap imports Prelude "HOL-Library.Multiset" begin

text \<open>
  The array-backed binary min-heap that the repository writes twice, once in
  \<open>DeadlineScheduler\<close> (\<open>concurrency/lock-manager-contract.ts\<close>) and once in the protocol event
  bus (\<open>protocols/pubsub/event-bus.ts\<close>). Both push at the end and bubble up, both pop the
  first entry, move the last one to the root and sift it down. The model is generic in the
  key (\<open>entry.at\<close>). The locale \<open>min_queue\<close> is the contract both clients use; its client
  lemma says what the loop "pop while the first entry is due" returns.
\<close>

section \<open>The heap operations\<close>

definition heap_swap :: "nat \<Rightarrow> nat \<Rightarrow> 'a list \<Rightarrow> 'a list" where
  "heap_swap i j xs = xs[j := xs ! i, i := xs ! j]"

definition parent_of :: "nat \<Rightarrow> nat" where
  "parent_of i = (i - 1) div 2"

function bubble_up :: "('a \<Rightarrow> int) \<Rightarrow> nat \<Rightarrow> 'a list \<Rightarrow> 'a list" where
  "bubble_up key i xs =
     (if i > 0 then
        (if key (xs ! parent_of i) \<le> key (xs ! i) then xs
         else bubble_up key (parent_of i) (heap_swap (parent_of i) i xs))
      else xs)"
  by pat_completeness auto
termination
  by (relation "measure (\<lambda>(key, i, xs). i)") (auto simp: parent_of_def)

declare bubble_up.simps [simp del]

definition heap_push :: "('a \<Rightarrow> int) \<Rightarrow> 'a \<Rightarrow> 'a list \<Rightarrow> 'a list" where
  "heap_push key x xs = bubble_up key (length xs) (xs @ [x])"

definition smallest_of :: "('a \<Rightarrow> int) \<Rightarrow> 'a list \<Rightarrow> nat \<Rightarrow> nat" where
  "smallest_of key xs i =
     (let left = i * 2 + 1; right = left + 1;
          s1 = (if left < length xs \<and> key (xs ! left) < key (xs ! i) then left else i)
      in if right < length xs \<and> key (xs ! right) < key (xs ! s1) then right else s1)"

lemma smallest_of_range:
  "smallest_of key xs i \<noteq> i \<Longrightarrow> i < smallest_of key xs i \<and> smallest_of key xs i < length xs"
  by (auto simp: smallest_of_def Let_def split: if_splits)

lemma length_heap_swap [simp]: "length (heap_swap i j xs) = length xs"
  by (simp add: heap_swap_def)

function sift_down :: "('a \<Rightarrow> int) \<Rightarrow> nat \<Rightarrow> 'a list \<Rightarrow> 'a list" where
  "sift_down key i xs =
     (if smallest_of key xs i = i then xs
      else sift_down key (smallest_of key xs i) (heap_swap (smallest_of key xs i) i xs))"
  by pat_completeness auto
termination
proof (relation "measure (\<lambda>(key, i, xs). length xs - i)", goal_cases)
  case 1
  show ?case by simp
next
  case (2 key i xs)
  then show ?case using smallest_of_range [of key xs i] by auto
qed

declare sift_down.simps [simp del]

definition heap_pop :: "('a \<Rightarrow> int) \<Rightarrow> 'a list \<Rightarrow> 'a option \<times> 'a list" where
  "heap_pop key xs =
     (case xs of [] \<Rightarrow> (None, [])
      | first # _ \<Rightarrow>
          (let rest = butlast xs
           in if rest \<noteq> [] then (Some first, sift_down key 0 (rest[0 := last xs]))
              else (Some first, [])))"

section \<open>The heap order\<close>

definition is_heap :: "('a \<Rightarrow> int) \<Rightarrow> 'a list \<Rightarrow> bool" where
  "is_heap key xs \<longleftrightarrow> (\<forall>i < length xs. 0 < i \<longrightarrow> key (xs ! parent_of i) \<le> key (xs ! i))"

text \<open>Heap order but for the edge above \<open>k\<close>; the children of \<open>k\<close> respect its parent.\<close>

definition heap_but_up :: "('a \<Rightarrow> int) \<Rightarrow> 'a list \<Rightarrow> nat \<Rightarrow> bool" where
  "heap_but_up key xs k \<longleftrightarrow>
     (\<forall>i < length xs. 0 < i \<longrightarrow> i \<noteq> k \<longrightarrow> key (xs ! parent_of i) \<le> key (xs ! i)) \<and>
     (\<forall>i < length xs. 0 < i \<longrightarrow> 0 < k \<longrightarrow> parent_of i = k \<longrightarrow> key (xs ! parent_of k) \<le> key (xs ! i))"

text \<open>Heap order but for the edges below \<open>k\<close>.\<close>

definition heap_but_down :: "('a \<Rightarrow> int) \<Rightarrow> 'a list \<Rightarrow> nat \<Rightarrow> bool" where
  "heap_but_down key xs k \<longleftrightarrow>
     (\<forall>i < length xs. 0 < i \<longrightarrow> parent_of i \<noteq> k \<longrightarrow> key (xs ! parent_of i) \<le> key (xs ! i)) \<and>
     (\<forall>i < length xs. 0 < i \<longrightarrow> 0 < k \<longrightarrow> parent_of i = k \<longrightarrow> key (xs ! parent_of k) \<le> key (xs ! i))"

lemma parent_less: "0 < i \<Longrightarrow> parent_of i < i"
  by (auto simp: parent_of_def)

lemma parent_in_range [simp]: "0 < i \<Longrightarrow> i < n \<Longrightarrow> parent_of i < n"
  using parent_less [of i] by linarith

lemma parent_eq_iff: "0 < i \<Longrightarrow> parent_of i = k \<longleftrightarrow> i = 2 * k + 1 \<or> i = 2 * k + 2"
  by (auto simp: parent_of_def)

lemma nth_heap_swap:
  "i < length xs \<Longrightarrow> j < length xs \<Longrightarrow>
     heap_swap i j xs ! m = (if m = i then xs ! j else if m = j then xs ! i else xs ! m)"
  by (auto simp: heap_swap_def nth_list_update)

lemma mset_heap_swap [simp]:
  "i < length xs \<Longrightarrow> j < length xs \<Longrightarrow> mset (heap_swap i j xs) = mset xs"
  unfolding heap_swap_def by (rule mset_swap)

lemma heap_swap_up:
  assumes "heap_but_up key xs k" "0 < k" "k < length xs" "key (xs ! k) < key (xs ! parent_of k)"
  shows "heap_but_up key (heap_swap (parent_of k) k xs) (parent_of k)"
proof -
  let ?p = "parent_of k"
  have p: "?p < k" "?p < length xs" using assms(2,3) parent_less [of k] by simp_all
  have nth: "heap_swap ?p k xs ! m = (if m = ?p then xs ! k else if m = k then xs ! ?p else xs ! m)" for m
    using nth_heap_swap [OF p(2) assms(3)] .
  have up: "key (xs ! parent_of i) \<le> key (xs ! i)" if "i < length xs" "0 < i" "i \<noteq> k" for i
    using assms(1) that by (simp add: heap_but_up_def)
  have gp: "key (xs ! ?p) \<le> key (xs ! i)" if "i < length xs" "0 < i" "parent_of i = k" for i
    using assms(1,2) that by (simp add: heap_but_up_def)
  show ?thesis
    unfolding heap_but_up_def length_heap_swap
  proof (intro conjI allI impI)
    fix i assume i: "i < length xs" "0 < i" "i \<noteq> ?p"
    show "key (heap_swap ?p k xs ! parent_of i) \<le> key (heap_swap ?p k xs ! i)"
      using i up [of i] gp [of i] assms(4) p parent_less [of i]
      by (cases "i = k"; cases "parent_of i = k"; cases "parent_of i = ?p") (auto simp: nth)
  next
    fix i assume i: "i < length xs" "0 < i" "0 < ?p" "parent_of i = ?p"
    then have "parent_of ?p < ?p" by (simp add: parent_less)
    then show "key (heap_swap ?p k xs ! parent_of ?p) \<le> key (heap_swap ?p k xs ! i)"
      using i up [of ?p] up [of i] p by (cases "i = k") (auto simp: nth)
  qed
qed

lemma bubble_up_heap:
  "heap_but_up key xs k \<Longrightarrow> k < length xs \<Longrightarrow> is_heap key (bubble_up key k xs)"
proof (induction key k xs rule: bubble_up.induct)
  case (1 key k xs)
  show ?case
  proof (cases "0 < k \<and> key (xs ! k) < key (xs ! parent_of k)")
    case True
    then have "heap_but_up key (heap_swap (parent_of k) k xs) (parent_of k)"
      using heap_swap_up "1.prems" by blast
    moreover have "parent_of k < length xs" using True "1.prems"(2) parent_less [of k] by simp
    ultimately show ?thesis
      using True "1.IH" by (simp add: bubble_up.simps [of key k xs])
  next
    case False
    then have "key (xs ! parent_of k) \<le> key (xs ! k)" if "0 < k" using that by simp
    then show ?thesis
      using False "1.prems" by (auto simp: bubble_up.simps [of key k xs] is_heap_def heap_but_up_def)
  qed
qed

lemma mset_bubble_up: "k < length xs \<Longrightarrow> mset (bubble_up key k xs) = mset xs"
proof (induction key k xs rule: bubble_up.induct)
  case (1 key k xs)
  have "parent_of k < length xs" if "0 < k" using that "1.prems" parent_less [of k] by simp
  then show ?case using "1.IH" "1.prems" by (auto simp: bubble_up.simps [of key k xs])
qed

lemma heap_push_heap: "is_heap key xs \<Longrightarrow> is_heap key (heap_push key x xs)"
  unfolding heap_push_def
proof (rule bubble_up_heap)
  assume h: "is_heap key xs"
  show "heap_but_up key (xs @ [x]) (length xs)"
    unfolding heap_but_up_def
  proof (intro conjI allI impI)
    fix i assume "i < length (xs @ [x])" "0 < i" "i \<noteq> length xs"
    then have "i < length xs" "0 < i" by simp_all
    then show "key ((xs @ [x]) ! parent_of i) \<le> key ((xs @ [x]) ! i)"
      using h by (simp add: is_heap_def nth_append)
  next
    fix i assume "i < length (xs @ [x])" "0 < i" "parent_of i = length xs"
    then show "key ((xs @ [x]) ! parent_of (length xs)) \<le> key ((xs @ [x]) ! i)"
      using parent_less [of i] by simp
  qed
qed simp

lemma mset_heap_push [simp]: "mset (heap_push key x xs) = add_mset x (mset xs)"
  by (simp add: heap_push_def mset_bubble_up)

text \<open>The chosen child is below neither its sibling nor the sifted entry.\<close>

lemma smallest_of_min:
  assumes "i < length xs" "0 < i" "parent_of i = k"
  shows "key (xs ! smallest_of key xs k) \<le> key (xs ! i)"
proof -
  have "i = k * 2 + 1 \<or> i = k * 2 + 2" using assms(2,3) parent_eq_iff [of i k] by auto
  then show ?thesis using assms(1) by (auto simp: smallest_of_def Let_def)
qed

lemma smallest_of_le: "key (xs ! smallest_of key xs k) \<le> key (xs ! k)"
  by (auto simp: smallest_of_def Let_def)

lemma smallest_of_parent: "smallest_of key xs k \<noteq> k \<Longrightarrow> parent_of (smallest_of key xs k) = k"
  by (auto simp: smallest_of_def Let_def parent_of_def split: if_splits)

lemma heap_swap_down:
  assumes "heap_but_down key xs k" "smallest_of key xs k \<noteq> k" "k < length xs"
  shows "heap_but_down key (heap_swap (smallest_of key xs k) k xs) (smallest_of key xs k)"
proof -
  let ?s = "smallest_of key xs k"
  have s: "k < ?s" "?s < length xs" using smallest_of_range [OF assms(2)] by simp_all
  have ps: "parent_of ?s = k" by (rule smallest_of_parent [OF assms(2)])
  have nth: "heap_swap ?s k xs ! m = (if m = ?s then xs ! k else if m = k then xs ! ?s else xs ! m)" for m
    using nth_heap_swap [OF s(2) assms(3)] .
  have dn: "key (xs ! parent_of i) \<le> key (xs ! i)" if "i < length xs" "0 < i" "parent_of i \<noteq> k" for i
    using assms(1) that by (simp add: heap_but_down_def)
  have gp: "key (xs ! parent_of k) \<le> key (xs ! i)"
    if "i < length xs" "0 < i" "0 < k" "parent_of i = k" for i
    using assms(1) that by (simp add: heap_but_down_def)
  show ?thesis
    unfolding heap_but_down_def length_heap_swap
  proof (intro conjI allI impI)
    fix i assume i: "i < length xs" "0 < i" "parent_of i \<noteq> ?s"
    show "key (heap_swap ?s k xs ! parent_of i) \<le> key (heap_swap ?s k xs ! i)"
    proof (cases "parent_of i = k")
      case True
      then have "i \<noteq> k" using i(2) parent_less [of i] by auto
      then show ?thesis
        using True i(1,2) s ps smallest_of_min [OF i(1,2) True, of key] smallest_of_le [of key xs k]
        by (cases "i = ?s") (auto simp: nth)
    next
      case False
      then have "i \<noteq> ?s" using ps by auto
      then show ?thesis
        using False i dn [OF i(1,2)] gp [of ?s] s ps by (cases "i = k") (auto simp: nth)
    qed
  next
    fix i assume i: "i < length xs" "0 < i" "0 < ?s" "parent_of i = ?s"
    then have "?s < i" using parent_less [of i] by simp
    then show "key (heap_swap ?s k xs ! parent_of ?s) \<le> key (heap_swap ?s k xs ! i)"
      using i dn [OF i(1,2)] s ps by (auto simp: nth)
  qed
qed

lemma sift_down_heap:
  "heap_but_down key xs k \<Longrightarrow> k < length xs \<Longrightarrow> is_heap key (sift_down key k xs)"
proof (induction key k xs rule: sift_down.induct)
  case (1 key k xs)
  show ?case
  proof (cases "smallest_of key xs k = k")
    case True
    have "key (xs ! parent_of i) \<le> key (xs ! i)" if "i < length xs" "0 < i" for i
      using that "1.prems"(1) smallest_of_min [OF that, of k key] True
      by (cases "parent_of i = k") (auto simp: heap_but_down_def)
    then show ?thesis using True by (simp add: sift_down.simps [of key k xs] is_heap_def)
  next
    case False
    then show ?thesis
      using "1.IH" [OF False] heap_swap_down [OF "1.prems"(1) False "1.prems"(2)]
        smallest_of_range [OF False]
      by (simp add: sift_down.simps [of key k xs])
  qed
qed

lemma mset_sift_down: "k < length xs \<Longrightarrow> mset (sift_down key k xs) = mset xs"
proof (induction key k xs rule: sift_down.induct)
  case (1 key k xs)
  then show ?case
    using smallest_of_range [of key xs k] by (auto simp: sift_down.simps [of key k xs])
qed

lemma heap_head_min:
  assumes "is_heap key xs" "i < length xs"
  shows "key (xs ! 0) \<le> key (xs ! i)"
  using assms(2)
proof (induction i rule: less_induct)
  case (less i)
  show ?case
  proof (cases "i = 0")
    case False
    then have "parent_of i < i" by (simp add: parent_less)
    with less False have "key (xs ! 0) \<le> key (xs ! parent_of i)" by simp
    also have "\<dots> \<le> key (xs ! i)" using assms(1) less.prems False by (simp add: is_heap_def)
    finally show ?thesis .
  qed simp
qed

lemma heap_hd_min: "is_heap key (x # xs) \<Longrightarrow> y \<in> set (x # xs) \<Longrightarrow> key x \<le> key y"
  using heap_head_min [of key "x # xs"] by (metis in_set_conv_nth nth_Cons_0)

lemma is_heap_Nil [simp]: "is_heap key []"
  by (simp add: is_heap_def)

lemma heap_pop_Cons:
  assumes "is_heap key (x # xs)"
  shows "fst (heap_pop key (x # xs)) = Some x"
    "mset (snd (heap_pop key (x # xs))) = mset xs"
    "is_heap key (snd (heap_pop key (x # xs)))"
proof -
  let ?ys = "(butlast (x # xs))[0 := last (x # xs)]"
  show "fst (heap_pop key (x # xs)) = Some x" by (simp add: heap_pop_def Let_def)
  have m: "mset ?ys = mset xs" if "xs \<noteq> []"
    using that by (cases xs rule: rev_cases) auto
  have h: "heap_but_down key ?ys 0" if ne: "xs \<noteq> []"
    unfolding heap_but_down_def
  proof (intro conjI allI impI)
    fix i assume i: "i < length ?ys" "0 < i" "parent_of i \<noteq> 0"
    then have "parent_of i < i" "parent_of i < length ?ys" by (auto dest: parent_less)
    then have e: "?ys ! parent_of i = (x # xs) ! parent_of i" "?ys ! i = (x # xs) ! i"
      using i by (simp_all add: nth_list_update nth_butlast del: butlast.simps)
    have "i < length (x # xs)" using i(1) by (simp split: if_splits)
    then have "key ((x # xs) ! parent_of i) \<le> key ((x # xs) ! i)"
      using assms i(2) unfolding is_heap_def by blast
    then show "key (?ys ! parent_of i) \<le> key (?ys ! i)" by (simp only: e)
  qed simp
  show "mset (snd (heap_pop key (x # xs))) = mset xs"
    using m mset_sift_down [of 0 ?ys key] by (auto simp: heap_pop_def Let_def)
  show "is_heap key (snd (heap_pop key (x # xs)))"
    using h sift_down_heap [of key ?ys 0] by (auto simp: heap_pop_def Let_def)
qed

lemma heap_pop_Nil [simp]: "heap_pop key [] = (None, [])"
  by (simp add: heap_pop_def)

lemma length_sift_down [simp]: "length (sift_down key k xs) = length xs"
  by (induction key k xs rule: sift_down.induct) (simp add: sift_down.simps)

lemma length_heap_pop [simp]: "length (snd (heap_pop key xs)) = length xs - 1"
  by (auto simp: heap_pop_def Let_def split: list.splits)

lemma is_heap_cong:
  "(\<And>x. x \<in> set xs \<Longrightarrow> key x = key' x) \<Longrightarrow> is_heap key xs = is_heap key' xs"
  by (auto simp: is_heap_def)

lemma set_heap_pop: "is_heap key (x # xs) \<Longrightarrow> set (snd (heap_pop key (x # xs))) = set xs"
  using heap_pop_Cons(2) by (metis set_mset_mset)

lemma distinct_heap_pop: "is_heap key xs \<Longrightarrow> distinct xs \<Longrightarrow> distinct (snd (heap_pop key xs))"
  using heap_pop_Cons(2) [of key] by (cases xs) (auto dest: mset_eq_imp_distinct_iff)

lemma set_heap_push [simp]: "set (heap_push key x xs) = insert x (set xs)"
  by (metis mset_heap_push set_mset_add_mset_insert set_mset_mset)

lemma distinct_heap_push: "distinct (heap_push key x xs) \<longleftrightarrow> x \<notin> set xs \<and> distinct xs"
proof -
  have "mset (heap_push key x xs) = mset (x # xs)" by simp
  then have "distinct (heap_push key x xs) = distinct (x # xs)" by (rule mset_eq_imp_distinct_iff)
  then show ?thesis by simp
qed

section \<open>The priority queue contract and the loop over due entries\<close>

definition heap_peek :: "'a list \<Rightarrow> 'a option" where
  "heap_peek xs = (case xs of [] \<Rightarrow> None | x # _ \<Rightarrow> Some x)"

text \<open>\<open>while (heap.length > 0 && heap[0].at <= now) pop\<close>: the entries taken, and the rest.\<close>

fun due_loop :: "('q \<Rightarrow> 'a option) \<Rightarrow> ('q \<Rightarrow> 'a option \<times> 'q) \<Rightarrow> ('a \<Rightarrow> int) \<Rightarrow> int \<Rightarrow> nat \<Rightarrow> 'q \<Rightarrow> 'a list \<times> 'q"
where
  "due_loop peek pop key now 0 q = ([], q)"
| "due_loop peek pop key now (Suc n) q =
     (case peek q of
        None \<Rightarrow> ([], q)
      | Some x \<Rightarrow>
          if key x \<le> now then
            (case due_loop peek pop key now n (snd (pop q)) of (ys, q') \<Rightarrow> (x # ys, q'))
          else ([], q))"

locale min_queue =
  fixes push :: "'a \<Rightarrow> 'q \<Rightarrow> 'q"
    and peek :: "'q \<Rightarrow> 'a option"
    and pop :: "'q \<Rightarrow> 'a option \<times> 'q"
    and key :: "'a \<Rightarrow> int"
    and contents :: "'q \<Rightarrow> 'a multiset"
    and inv :: "'q \<Rightarrow> bool"
  assumes push_inv: "inv q \<Longrightarrow> inv (push x q)"
    and push_contents: "inv q \<Longrightarrow> contents (push x q) = add_mset x (contents q)"
    and peek_None: "inv q \<Longrightarrow> peek q = None \<longleftrightarrow> contents q = {#}"
    and peek_Some: "inv q \<Longrightarrow> peek q = Some x \<Longrightarrow> x \<in># contents q \<and> (\<forall>y \<in># contents q. key x \<le> key y)"
    and pop_peek: "inv q \<Longrightarrow> peek q = Some x \<Longrightarrow>
      fst (pop q) = Some x \<and> contents q = add_mset x (contents (snd (pop q))) \<and> inv (snd (pop q))"
begin

lemma due_spec:
  "inv q \<Longrightarrow> size (contents q) \<le> n \<Longrightarrow> due_loop peek pop key now n q = (ys, q') \<Longrightarrow>
     sorted (map key ys) \<and> mset ys = filter_mset (\<lambda>x. key x \<le> now) (contents q) \<and>
     contents q' = filter_mset (\<lambda>x. \<not> key x \<le> now) (contents q) \<and> inv q'"
proof (induction n arbitrary: q ys q')
  case 0
  then show ?case by simp
next
  case (Suc n)
  show ?case
  proof (cases "peek q")
    case None
    have "contents q = {#}" using peek_None [OF Suc.prems(1)] None by simp
    then show ?thesis using Suc.prems(1,3) None by simp
  next
    case (Some x)
    note x = peek_Some [OF Suc.prems(1) Some] and px = pop_peek [OF Suc.prems(1) Some]
    show ?thesis
    proof (cases "key x \<le> now")
      case False
      then have "\<forall>y \<in># contents q. \<not> key y \<le> now" using x by force
      then have "filter_mset (\<lambda>y. key y \<le> now) (contents q) = {#}"
        "filter_mset (\<lambda>y. \<not> key y \<le> now) (contents q) = contents q"
        by (auto simp: filter_mset_eq_conv intro: multiset_eqI)
      then show ?thesis using False Some Suc.prems by auto
    next
      case True
      obtain zs r where zr: "due_loop peek pop key now n (snd (pop q)) = (zs, r)" by fastforce
      have sz: "size (contents (snd (pop q))) \<le> n" using px Suc.prems(2) by (metis Suc_le_mono size_add_mset)
      have IH: "sorted (map key zs)" "mset zs = filter_mset (\<lambda>x. key x \<le> now) (contents (snd (pop q)))"
        "contents r = filter_mset (\<lambda>x. \<not> key x \<le> now) (contents (snd (pop q)))" "inv r"
        using Suc.IH [OF _ sz zr] px by auto
      have "\<forall>y \<in> set zs. key x \<le> key y"
      proof
        fix y assume "y \<in> set zs"
        then have "y \<in># mset zs" by simp
        then have "y \<in># contents (snd (pop q))" using IH(2) by simp
        then have "y \<in># contents q" using px by (metis union_iff add_mset_add_single)
        then show "key x \<le> key y" using x by blast
      qed
      moreover have "ys = x # zs" "q' = r" using Suc.prems(3) Some True zr by auto
      moreover have "contents q = add_mset x (contents (snd (pop q)))" using px by blast
      ultimately show ?thesis using IH True by simp
    qed
  qed
qed

end

interpretation mh: min_queue "heap_push key" heap_peek "heap_pop key" key mset "is_heap key"
  for key :: "'a \<Rightarrow> int"
proof (unfold_locales, goal_cases)
  case (1 q x)
  then show ?case by (rule heap_push_heap)
next
  case (2 q x)
  show ?case by simp
next
  case (3 q)
  show ?case by (simp add: heap_peek_def split: list.splits)
next
  case (4 q x)
  then show ?case using heap_hd_min [of key] by (cases q) (auto simp: heap_peek_def)
next
  case (5 q x)
  then show ?case using heap_pop_Cons [of key] by (cases q) (auto simp: heap_peek_def)
qed

end
