(* ===== verification/DeadlineScheduler.thy ===== *)
theory DeadlineScheduler imports MinHeap begin

text \<open>
  \<open>DeadlineScheduler\<close> of \<open>packages/foundation/src/concurrency/lock-manager-contract.ts\<close>: one
  min-heap of deadline entries with lazy deletion and one timer for the earliest of them.
  Entries are mutable objects (\<open>cancel\<close> clears \<open>active\<close> while the entry is still in the
  heap), so they live in a store and the heap holds their identities. The timer is the pair
  (armed, \<open>_timerAt\<close>); \<open>Date.now()\<close> is the argument \<open>now\<close> of \<open>_drain\<close>, which is the timer's
  callback. The run callbacks are an argument: they may call back into the scheduler.
\<close>

record deadline_entry =
  at_ms :: int
  run_id :: nat
  active :: bool

record scheduler =
  sheap :: "nat list"
  timer :: bool
  timer_at :: int
  closed :: bool
  entries :: "nat \<Rightarrow> deadline_entry"
  next_id :: nat

definition new_scheduler :: scheduler where
  "new_scheduler = \<lparr>sheap = [], timer = False, timer_at = 0, closed = False,
     entries = (\<lambda>_. \<lparr>at_ms = 0, run_id = 0, active = False\<rparr>), next_id = 0\<rparr>"

definition entry_at :: "scheduler \<Rightarrow> nat \<Rightarrow> int" where
  "entry_at s i = at_ms (entries s i)"

text \<open>\<open>_discardInactiveHead()\<close>.\<close>

function discard_inactive_head :: "scheduler \<Rightarrow> scheduler" where
  "discard_inactive_head s =
     (if sheap s \<noteq> [] \<and> \<not> active (entries s (hd (sheap s)))
      then discard_inactive_head (s\<lparr>sheap := snd (heap_pop (entry_at s) (sheap s))\<rparr>)
      else s)"
  by pat_completeness auto
termination
  by (relation "measure (\<lambda>s. length (sheap s))") auto

declare discard_inactive_head.simps [simp del]

text \<open>\<open>_arm()\<close>.\<close>

definition sched_arm :: "scheduler \<Rightarrow> scheduler" where
  "sched_arm s0 =
     (let s = discard_inactive_head s0
      in if closed s \<or> sheap s = [] then s
         else
           (let next_at = entry_at s (hd (sheap s))
            in if timer s \<and> timer_at s \<le> next_at then s
               else s\<lparr>timer := True, timer_at := next_at\<rparr>))"

text \<open>\<open>schedule(at, run)\<close>.\<close>

definition schedule :: "int \<Rightarrow> nat \<Rightarrow> scheduler \<Rightarrow> nat option \<times> scheduler" where
  "schedule at run s =
     (if closed s then (None, s)
      else
        (let i = next_id s;
             s1 = s\<lparr>entries := (entries s)(i := \<lparr>at_ms = at, run_id = run, active = True\<rparr>),
                    next_id := Suc i\<rparr>;
             s2 = s1\<lparr>sheap := heap_push (entry_at s1) i (sheap s1)\<rparr>
         in (Some i, sched_arm s2)))"

definition deactivate :: "nat \<Rightarrow> scheduler \<Rightarrow> scheduler" where
  "deactivate i s = s\<lparr>entries := (entries s)(i := (entries s i)\<lparr>active := False\<rparr>)\<rparr>"

text \<open>\<open>cancel(entry)\<close>.\<close>

definition sched_cancel :: "nat option \<Rightarrow> scheduler \<Rightarrow> scheduler" where
  "sched_cancel entry s =
     (case entry of None \<Rightarrow> s
      | Some i \<Rightarrow>
          (let s1 = discard_inactive_head (deactivate i s)
           in if sheap s1 = [] then s1\<lparr>timer := False, timer_at := 0\<rparr>
              else
                (let s2 = (if timer s1 \<and> timer_at s1 \<noteq> entry_at s1 (hd (sheap s1))
                           then s1\<lparr>timer := False, timer_at := 0\<rparr> else s1)
                 in sched_arm s2)))"

text \<open>\<open>close()\<close>.\<close>

definition sched_close :: "scheduler \<Rightarrow> scheduler" where
  "sched_close s = s\<lparr>closed := True, timer := False, timer_at := 0, sheap := []\<rparr>"

text \<open>\<open>_drain()\<close>. The callbacks may schedule further entries that are already due, so the loop
  runs on fuel; \<open>None\<close> is the loop that has not ended yet.\<close>

fun drain_loop :: "(nat \<Rightarrow> scheduler \<times> 'w \<Rightarrow> scheduler \<times> 'w) \<Rightarrow> int \<Rightarrow> nat \<Rightarrow> scheduler \<times> 'w
    \<Rightarrow> (scheduler \<times> 'w) option" where
  "drain_loop cb now 0 sw = None"
| "drain_loop cb now (Suc fuel) (s, w) =
     (if sheap s \<noteq> [] \<and> entry_at s (hd (sheap s)) \<le> now then
        (let i = hd (sheap s);
             s1 = s\<lparr>sheap := snd (heap_pop (entry_at s) (sheap s))\<rparr>
         in if \<not> active (entries s1 i) then drain_loop cb now fuel (s1, w)
            else
              (let (s2, w') = cb (run_id (entries s1 i)) (deactivate i s1, w)
               in drain_loop cb now fuel (discard_inactive_head s2, w')))
      else Some (s, w))"

definition sched_drain :: "(nat \<Rightarrow> scheduler \<times> 'w \<Rightarrow> scheduler \<times> 'w) \<Rightarrow> int \<Rightarrow> nat \<Rightarrow> scheduler \<times> 'w
    \<Rightarrow> (scheduler \<times> 'w) option" where
  "sched_drain cb now fuel sw =
     (case sw of (s, w) \<Rightarrow>
        map_option (\<lambda>(s', w'). (sched_arm s', w'))
          (drain_loop cb now fuel (discard_inactive_head (s\<lparr>timer := False, timer_at := 0\<rparr>), w)))"

section \<open>Invariants\<close>

text \<open>The heap is ordered, holds each entry once, holds only allocated entries; a closed
  scheduler is empty and has no timer.\<close>

definition sched_ok :: "scheduler \<Rightarrow> bool" where
  "sched_ok s \<longleftrightarrow> is_heap (entry_at s) (sheap s) \<and> distinct (sheap s) \<and>
     (\<forall>i \<in> set (sheap s). i < next_id s) \<and> (closed s \<longrightarrow> sheap s = [] \<and> \<not> timer s)"

definition pending :: "scheduler \<Rightarrow> nat set" where
  "pending s = {i \<in> set (sheap s). active (entries s i)}"

text \<open>No deadline is lost: while an entry is pending, the timer is armed no later than it.\<close>

definition sched_armed :: "scheduler \<Rightarrow> bool" where
  "sched_armed s \<longleftrightarrow> (\<forall>i \<in> pending s. timer s \<and> timer_at s \<le> entry_at s i)"

lemma entry_at_heap [simp]: "entry_at (s\<lparr>sheap := h\<rparr>) = entry_at s"
  by (simp add: entry_at_def fun_eq_iff)

lemma entry_at_timer [simp]:
  "entry_at (s\<lparr>timer := b\<rparr>) = entry_at s" "entry_at (s\<lparr>timer_at := t\<rparr>) = entry_at s"
  by (simp_all add: entry_at_def fun_eq_iff)

lemma discard_fields [simp]:
  "entries (discard_inactive_head s) = entries s"
  "timer (discard_inactive_head s) = timer s"
  "timer_at (discard_inactive_head s) = timer_at s"
  "closed (discard_inactive_head s) = closed s"
  "next_id (discard_inactive_head s) = next_id s"
  by (induction s rule: discard_inactive_head.induct; subst discard_inactive_head.simps; simp)+

lemma entry_at_discard [simp]: "entry_at (discard_inactive_head s) = entry_at s"
  by (simp add: entry_at_def fun_eq_iff)

lemma pop_ok:
  assumes "sched_ok s" "sheap s \<noteq> []"
  shows "sched_ok (s\<lparr>sheap := snd (heap_pop (entry_at s) (sheap s))\<rparr>)"
    "set (snd (heap_pop (entry_at s) (sheap s))) = set (sheap s) - {hd (sheap s)}"
proof -
  obtain x xs where h: "sheap s = x # xs" using assms(2) by (cases "sheap s") auto
  have hp: "is_heap (entry_at s) (x # xs)" and d: "distinct (x # xs)"
    using assms(1) h by (simp_all add: sched_ok_def)
  show "set (snd (heap_pop (entry_at s) (sheap s))) = set (sheap s) - {hd (sheap s)}"
    using set_heap_pop [OF hp] d h by auto
  show "sched_ok (s\<lparr>sheap := snd (heap_pop (entry_at s) (sheap s))\<rparr>)"
    using heap_pop_Cons(3) [OF hp] distinct_heap_pop [OF hp d] set_heap_pop [OF hp] assms(1) h
    by (auto simp: sched_ok_def)
qed

lemma discard_spec:
  "sched_ok s \<Longrightarrow> sched_ok (discard_inactive_head s) \<and> pending (discard_inactive_head s) = pending s
     \<and> set (sheap (discard_inactive_head s)) \<subseteq> set (sheap s)
     \<and> (sheap (discard_inactive_head s) \<noteq> [] \<longrightarrow>
          active (entries s (hd (sheap (discard_inactive_head s)))))"
proof (induction s rule: discard_inactive_head.induct)
  case (1 s)
  show ?case
  proof (cases "sheap s \<noteq> [] \<and> \<not> active (entries s (hd (sheap s)))")
    case True
    let ?t = "s\<lparr>sheap := snd (heap_pop (entry_at s) (sheap s))\<rparr>"
    have ne: "sheap s \<noteq> []" using True by simp
    have "pending ?t = pending s" using True pop_ok(2) [OF "1.prems" ne] by (auto simp: pending_def)
    then show ?thesis
      using "1.IH" [OF True] pop_ok [OF "1.prems" ne] True
      by (auto simp: discard_inactive_head.simps [of s])
  next
    case False
    then show ?thesis using "1.prems" by (auto simp: discard_inactive_head.simps [of s])
  qed
qed

lemma length_discard_le: "length (sheap (discard_inactive_head s)) \<le> length (sheap s)"
proof (induction s rule: discard_inactive_head.induct)
  case (1 s)
  then show ?case by (auto simp: discard_inactive_head.simps [of s])
qed

lemma head_earliest:
  assumes "sched_ok s" "i \<in> set (sheap s)"
  shows "entry_at s (hd (sheap s)) \<le> entry_at s i"
  using assms heap_hd_min [of "entry_at s"] by (cases "sheap s") (auto simp: sched_ok_def)

lemma arm_spec:
  assumes "sched_ok s"
  shows "sched_ok (sched_arm s)" "sched_armed (sched_arm s)" "pending (sched_arm s) = pending s"
    "entries (sched_arm s) = entries s"
proof -
  let ?d = "discard_inactive_head s"
  have d: "sched_ok ?d" "pending ?d = pending s" using discard_spec [OF assms] by auto
  show "sched_ok (sched_arm s)" using d(1) by (simp add: sched_arm_def Let_def sched_ok_def)
  show "pending (sched_arm s) = pending s"
    using d(2) by (simp add: sched_arm_def Let_def pending_def)
  show "entries (sched_arm s) = entries s" by (simp add: sched_arm_def Let_def)
  show "sched_armed (sched_arm s)"
    using head_earliest [OF d(1)] d(1)
    by (force simp: sched_armed_def sched_arm_def Let_def pending_def entry_at_def sched_ok_def)
qed

lemma schedule_ok:
  assumes "sched_ok s"
  shows "sched_ok (snd (schedule at run s))"
proof (cases "closed s")
  case True
  then show ?thesis using assms by (simp add: schedule_def)
next
  case False
  let ?s1 = "s\<lparr>entries := (entries s)(next_id s := \<lparr>at_ms = at, run_id = run, active = True\<rparr>),
                next_id := Suc (next_id s)\<rparr>"
  let ?s2 = "?s1\<lparr>sheap := heap_push (entry_at ?s1) (next_id s) (sheap s)\<rparr>"
  have old: "entry_at ?s1 i = entry_at s i" if "i \<in> set (sheap s)" for i
    using that assms by (auto simp: entry_at_def sched_ok_def)
  have "is_heap (entry_at ?s1) (sheap s)"
    using assms is_heap_cong [of "sheap s" "entry_at ?s1" "entry_at s", OF old] by (simp add: sched_ok_def)
  then have "is_heap (entry_at ?s1) (heap_push (entry_at ?s1) (next_id s) (sheap s))"
    by (rule heap_push_heap)
  then have "sched_ok ?s2"
    using assms False by (auto simp: sched_ok_def distinct_heap_push less_Suc_eq)
  then show ?thesis using False arm_spec(1) by (simp add: schedule_def Let_def)
qed

lemma deactivate_ok:
  assumes "sched_ok s"
  shows "sched_ok (deactivate i s)" "pending (deactivate i s) = pending s - {i}"
    "entry_at (deactivate i s) = entry_at s"
proof -
  show e: "entry_at (deactivate i s) = entry_at s" by (auto simp: deactivate_def entry_at_def fun_eq_iff)
  show "sched_ok (deactivate i s)" using assms e by (simp add: sched_ok_def) (simp add: deactivate_def)
  show "pending (deactivate i s) = pending s - {i}" by (auto simp: deactivate_def pending_def)
qed

lemma timer_ok: "sched_ok s \<Longrightarrow> sched_ok (s\<lparr>timer := False, timer_at := t\<rparr>)"
  by (simp add: sched_ok_def)

lemma cancel_ok: "sched_ok s \<Longrightarrow> sched_ok (sched_cancel e s)"
proof (cases e)
  case (Some i)
  assume ok: "sched_ok s"
  let ?d = "discard_inactive_head (deactivate i s)"
  have d: "sched_ok ?d" using discard_spec [OF deactivate_ok(1) [OF ok]] by blast
  show ?thesis
    using d timer_ok [OF d] arm_spec(1) [OF d] arm_spec(1) [OF timer_ok [OF d]] Some
    by (simp add: sched_cancel_def Let_def)
qed (simp add: sched_cancel_def)

lemma close_ok: "sched_ok (sched_close s)"
  by (simp add: sched_ok_def sched_close_def)

lemma schedule_armed:
  assumes "sched_ok s" "\<not> closed s"
  shows "sched_armed (snd (schedule at run s))"
    "pending (snd (schedule at run s)) = insert (next_id s) (pending s)"
    "fst (schedule at run s) = Some (next_id s)"
    "entry_at (snd (schedule at run s)) (next_id s) = at"
proof -
  let ?s1 = "s\<lparr>entries := (entries s)(next_id s := \<lparr>at_ms = at, run_id = run, active = True\<rparr>),
                next_id := Suc (next_id s)\<rparr>"
  let ?s2 = "?s1\<lparr>sheap := heap_push (entry_at ?s1) (next_id s) (sheap s)\<rparr>"
  have old: "entry_at ?s1 i = entry_at s i" if "i \<in> set (sheap s)" for i
    using that assms(1) by (auto simp: entry_at_def sched_ok_def)
  have fresh: "next_id s \<notin> set (sheap s)" using assms(1) by (auto simp: sched_ok_def)
  have "is_heap (entry_at ?s1) (sheap s)"
    using assms(1) is_heap_cong [of "sheap s" "entry_at ?s1" "entry_at s", OF old] by (simp add: sched_ok_def)
  then have "is_heap (entry_at ?s1) (heap_push (entry_at ?s1) (next_id s) (sheap s))"
    by (rule heap_push_heap)
  then have ok: "sched_ok ?s2"
    using assms by (auto simp: sched_ok_def distinct_heap_push less_Suc_eq)
  have p: "pending ?s2 = insert (next_id s) (pending s)" using fresh by (auto simp: pending_def)
  have e: "schedule at run s = (Some (next_id s), sched_arm ?s2)"
    using assms(2) by (simp add: schedule_def Let_def)
  show "sched_armed (snd (schedule at run s))" using arm_spec(2) [OF ok] e by simp
  show "pending (snd (schedule at run s)) = insert (next_id s) (pending s)"
    using arm_spec(3) [OF ok] p e by simp
  show "fst (schedule at run s) = Some (next_id s)" by (simp add: e)
  show "entry_at (snd (schedule at run s)) (next_id s) = at"
    using arm_spec(4) [OF ok] e by (simp add: entry_at_def)
qed

lemma cancel_armed:
  assumes "sched_ok s"
  shows "sched_armed (sched_cancel (Some i) s)" "pending (sched_cancel (Some i) s) = pending s - {i}"
proof -
  let ?d = "discard_inactive_head (deactivate i s)"
  have d: "sched_ok ?d" and p: "pending ?d = pending s - {i}"
    using discard_spec [OF deactivate_ok(1) [OF assms]] deactivate_ok(2) [OF assms] by auto
  let ?t = "?d\<lparr>timer := False, timer_at := 0\<rparr>"
  have "pending ?t = pending ?d" by (simp add: pending_def)
  then show "pending (sched_cancel (Some i) s) = pending s - {i}"
    using p arm_spec(3) [OF d] arm_spec(3) [OF timer_ok [OF d]]
    by (simp add: sched_cancel_def Let_def)
  show "sched_armed (sched_cancel (Some i) s)"
    using arm_spec(2) [OF d] arm_spec(2) [OF timer_ok [OF d]]
    by (auto simp: sched_cancel_def Let_def sched_armed_def pending_def)
qed

section \<open>Draining\<close>

lemma drain_loop_ok:
  assumes "\<And>i s w. sched_ok s \<Longrightarrow> sched_ok (fst (cb i (s, w)))"
  shows "sched_ok s \<Longrightarrow> drain_loop cb now fuel (s, w) = Some (s', w') \<Longrightarrow> sched_ok s'"
proof (induction fuel arbitrary: s w)
  case 0
  then show ?case by simp
next
  case (Suc fuel)
  let ?i = "hd (sheap s)" and ?s1 = "s\<lparr>sheap := snd (heap_pop (entry_at s) (sheap s))\<rparr>"
  show ?case
  proof (cases "sheap s \<noteq> [] \<and> entry_at s ?i \<le> now")
    case True
    have ok1: "sched_ok ?s1" using pop_ok(1) [OF Suc.prems(1)] True by simp
    obtain s2 w2 where c: "cb (run_id (entries s ?i)) (deactivate ?i ?s1, w) = (s2, w2)" by fastforce
    have "sched_ok (discard_inactive_head s2)"
      using assms [OF deactivate_ok(1) [OF ok1], of "run_id (entries s ?i)" ?i w] c discard_spec by simp
    then show ?thesis using True Suc.prems(2) c Suc.IH [OF ok1] Suc.IH
      by (auto simp: Let_def split: if_splits)
  qed (use Suc.prems in auto)
qed

text \<open>With callbacks that leave the scheduler alone, the loop ends within one unit of fuel per
  heap entry and runs exactly the pending due entries, earliest first.\<close>

definition fire :: "(nat \<Rightarrow> 'w \<Rightarrow> 'w) \<Rightarrow> scheduler \<Rightarrow> nat list \<Rightarrow> 'w \<Rightarrow> 'w" where
  "fire f s fired w = fold (\<lambda>i. f (run_id (entries s i))) fired w"

lemma run_id_deactivate [simp]: "run_id (entries (deactivate i s) j) = run_id (entries s j)"
  by (simp add: deactivate_def)

lemma drain_loop_total:
  assumes quiet: "\<And>i s w. cb i (s, w) = (s, f i w)"
  shows "sched_ok s \<Longrightarrow> length (sheap s) < fuel \<Longrightarrow>
    (sheap s \<noteq> [] \<longrightarrow> active (entries s (hd (sheap s)))) \<Longrightarrow>
    \<exists>fired s'. drain_loop cb now fuel (s, w) = Some (s', fire f s fired w) \<and> distinct fired \<and>
      set fired = {i \<in> pending s. entry_at s i \<le> now} \<and> sorted (map (entry_at s) fired) \<and>
      sched_ok s' \<and> pending s' = {i \<in> pending s. now < entry_at s i}"
proof (induction fuel arbitrary: s w)
  case 0
  then show ?case by simp
next
  case (Suc fuel)
  let ?i = "hd (sheap s)" and ?s1 = "s\<lparr>sheap := snd (heap_pop (entry_at s) (sheap s))\<rparr>"
  show ?case
  proof (cases "sheap s \<noteq> [] \<and> entry_at s ?i \<le> now")
    case False
    then have "now < entry_at s i" if "i \<in> pending s" for i
      using head_earliest [OF Suc.prems(1), of i] that by (force simp: pending_def)
    then have "{i \<in> pending s. entry_at s i \<le> now} = {}" "{i \<in> pending s. now < entry_at s i} = pending s"
      by force+
    then show ?thesis using False Suc.prems(1) by (intro exI [of _ "[]"] exI [of _ s]) (auto simp: fire_def)
  next
    case True
    let ?s3 = "discard_inactive_head (deactivate ?i ?s1)"
    have ne: "sheap s \<noteq> []" and due: "entry_at s ?i \<le> now" and act: "active (entries s ?i)"
      using True Suc.prems(3) by auto
    have ok1: "sched_ok ?s1" by (rule pop_ok(1) [OF Suc.prems(1) ne])
    have ok2: "sched_ok (deactivate ?i ?s1)" by (rule deactivate_ok(1) [OF ok1])
    have e3: "entry_at ?s3 = entry_at s" using deactivate_ok(3) [OF ok1] by simp
    have p3: "pending ?s3 = pending s - {?i}"
      using discard_spec [OF ok2] deactivate_ok(2) [OF ok1] pop_ok(2) [OF Suc.prems(1) ne]
      by (auto simp: pending_def)
    have len: "length (sheap ?s3) < fuel"
      using length_discard_le [of "deactivate ?i ?s1"] Suc.prems(2) ne
      by (cases "sheap s") (auto simp: deactivate_def)
    have hd3: "sheap ?s3 \<noteq> [] \<longrightarrow> active (entries ?s3 (hd (sheap ?s3)))"
      using discard_spec [OF ok2] by simp
    have run3: "run_id (entries ?s3 j) = run_id (entries s j)" for j by simp
    from Suc.IH [OF _ len hd3, of "f (run_id (entries s ?i)) w"] discard_spec [OF ok2]
    obtain fired s' where IH: "drain_loop cb now fuel (?s3, f (run_id (entries s ?i)) w) =
          Some (s', fire f ?s3 fired (f (run_id (entries s ?i)) w))"
        "distinct fired" "set fired = {i \<in> pending ?s3. entry_at ?s3 i \<le> now}"
        "sorted (map (entry_at ?s3) fired)" "sched_ok s'"
        "pending s' = {i \<in> pending ?s3. now < entry_at ?s3 i}"
      by blast
    have R: "drain_loop cb now (Suc fuel) (s, w) = Some (s', fire f s (?i # fired) w)"
      using True act IH(1) by (simp add: Let_def quiet fire_def run3)
    have F: "set fired = {i \<in> pending s - {?i}. entry_at s i \<le> now}"
      using IH(3) unfolding p3 e3 .
    have P: "pending s' = {i \<in> pending s - {?i}. now < entry_at s i}"
      using IH(6) unfolding p3 e3 .
    have i: "?i \<in> pending s" using act ne by (simp add: pending_def)
    have D: "distinct (?i # fired)" using IH(2) F by simp
    have F': "set (?i # fired) = {i \<in> pending s. entry_at s i \<le> now}" using F due i by auto
    have later: "j \<noteq> ?i" if "now < entry_at s j" for j using that due by (metis not_le)
    have P': "pending s' = {i \<in> pending s. now < entry_at s i}" unfolding P using later by blast
    have "entry_at s ?i \<le> entry_at s j" if "j \<in> set fired" for j
      using that F head_earliest [OF Suc.prems(1), of j] by (simp add: pending_def)
    then have S: "sorted (map (entry_at s) (?i # fired))" using IH(4) e3 by simp
    show ?thesis by (rule exI [of _ "?i # fired"], rule exI [of _ s']) (intro conjI R D F' S IH(5) P')
  qed
qed

text \<open>
  Every operation of the scheduler keeps the heap ordered and free of duplicates, and
  after scheduling, cancelling or draining the timer is armed no later than the earliest
  pending deadline, so no deadline is lost.
\<close>

theorem scheduler_no_lost_deadline:
  assumes ok: "sched_ok s"
    and cb: "\<And>i s w. sched_ok s \<Longrightarrow> sched_ok (fst (cb i (s, w)))"
  shows "sched_ok (snd (schedule at run s)) \<and> sched_ok (sched_cancel (Some e) s) \<and> sched_ok (sched_close s)
    \<and> (\<not> closed s \<longrightarrow> sched_armed (snd (schedule at run s)))
    \<and> sched_armed (sched_cancel (Some e) s)
    \<and> (\<forall>s' w'. sched_drain cb now fuel (s, w) = Some (s', w') \<longrightarrow> sched_ok s' \<and> sched_armed s')"
proof (intro conjI allI impI)
  fix s' w'
  assume d: "sched_drain cb now fuel (s, w) = Some (s', w')"
  have "sched_ok (discard_inactive_head (s\<lparr>timer := False, timer_at := 0\<rparr>))"
    using discard_spec timer_ok [OF ok] by blast
  moreover from d obtain r where "drain_loop cb now fuel
      (discard_inactive_head (s\<lparr>timer := False, timer_at := 0\<rparr>), w) = Some (r, w')" "s' = sched_arm r"
    by (auto simp: sched_drain_def)
  ultimately show "sched_ok s'" "sched_armed s'"
    using drain_loop_ok [where cb = cb, OF cb] arm_spec by blast+
qed (use assms schedule_ok cancel_ok close_ok schedule_armed cancel_armed in auto)

definition example_scheduler :: scheduler where
  "example_scheduler = snd (schedule 30 7 (snd (schedule 10 8 (snd (schedule 20 9 new_scheduler)))))"

lemma new_scheduler_ok: "sched_ok new_scheduler"
  by (simp add: sched_ok_def new_scheduler_def)

lemma example_scheduler_ok: "sched_ok example_scheduler"
  unfolding example_scheduler_def by (intro schedule_ok new_scheduler_ok)

theorem scheduler_no_lost_deadline_witness:
  "sched_ok (snd (schedule 5 1 example_scheduler)) \<and> sched_armed (sched_cancel (Some 1) example_scheduler)"
proof -
  have "sched_ok (fst ((s, w) :: scheduler \<times> unit))" if "sched_ok s" for s w using that by simp
  from scheduler_no_lost_deadline [OF example_scheduler_ok, of "\<lambda>_ sw. sw" 5 1 1 0 0 "()", OF this]
  show ?thesis by simp
qed

lemma drain_loop_keeps:
  assumes quiet: "\<And>i s w. cb i (s, w) = (s, f i w)"
  shows "drain_loop cb now fuel (s, w) = Some (s', w') \<Longrightarrow>
    run_id (entries s' i) = run_id (entries s i) \<and> at_ms (entries s' i) = at_ms (entries s i) \<and> closed s' = closed s"
proof (induction fuel arbitrary: s w)
  case 0
  then show ?case by simp
next
  case (Suc fuel)
  let ?i = "hd (sheap s)" and ?s1 = "s\<lparr>sheap := snd (heap_pop (entry_at s) (sheap s))\<rparr>"
  show ?case
  proof (cases "sheap s \<noteq> [] \<and> entry_at s ?i \<le> now")
    case True
    show ?thesis
    proof (cases "active (entries s ?i)")
      case act: True
      have "drain_loop cb now fuel (discard_inactive_head (deactivate ?i ?s1), f (run_id (entries s ?i)) w) = Some (s', w')"
        using Suc.prems True act by (simp add: Let_def quiet)
      from Suc.IH [OF this] show ?thesis by (simp add: deactivate_def)
    next
      case False
      have "drain_loop cb now fuel (?s1, w) = Some (s', w')" using Suc.prems True False by (simp add: Let_def)
      from Suc.IH [OF this] show ?thesis by simp
    qed
  next
    case False
    then have "s' = s" using Suc.prems by auto
    then show ?thesis by simp
  qed
qed

lemma sched_drain_total:
  assumes "sched_ok s" and quiet: "\<And>i s w. cb i (s, w) = (s, f i w)" and "length (sheap s) < fuel"
  shows "\<exists>fired s'. sched_drain cb now fuel (s, w) = Some (s', fire f s fired w) \<and> distinct fired
    \<and> set fired = {i \<in> pending s. entry_at s i \<le> now} \<and> sorted (map (entry_at s) fired)
    \<and> pending s' = {i \<in> pending s. now < entry_at s i} \<and> sched_armed s' \<and> sched_ok s'
    \<and> (\<forall>i. run_id (entries s' i) = run_id (entries s i) \<and> at_ms (entries s' i) = at_ms (entries s i))
    \<and> closed s' = closed s"
proof -
  let ?d = "discard_inactive_head (s\<lparr>timer := False, timer_at := 0\<rparr>)"
  have t: "sched_ok (s\<lparr>timer := False, timer_at := 0\<rparr>)" by (rule timer_ok [OF assms(1)])
  note d = discard_spec [OF t]
  have len: "length (sheap ?d) < fuel"
    using length_discard_le [of "s\<lparr>timer := False, timer_at := 0\<rparr>"] assms(3) by simp
  have e: "entry_at ?d = entry_at s" "pending ?d = pending s" "entries ?d = entries s"
    using d by (simp_all add: pending_def)
  from drain_loop_total [where cb = cb and f = f and s = ?d and fuel = fuel and now = now and w = w,
      OF quiet] d len
  obtain fired s' where r: "drain_loop cb now fuel (?d, w) = Some (s', fire f ?d fired w)"
      "distinct fired" "set fired = {i \<in> pending ?d. entry_at ?d i \<le> now}"
      "sorted (map (entry_at ?d) fired)" "sched_ok s'" "pending s' = {i \<in> pending ?d. now < entry_at ?d i}"
    by auto
  note keep = drain_loop_keeps [where cb = cb and f = f, OF quiet r(1)]
  have c: "closed (sched_arm s') = closed s" "entries (sched_arm s') = entries s'"
    using keep [of 0] by (simp_all add: sched_arm_def Let_def)
  show ?thesis
    using e arm_spec(1-3) [OF r(5)] r c keep
    by (intro exI [of _ fired] exI [of _ "sched_arm s'"]) (simp add: sched_drain_def fire_def)
qed

text \<open>
  Draining at time \<open>now\<close> returns after at most one turn per heap entry when the run
  callbacks do not touch the scheduler, runs every pending entry whose deadline has passed
  exactly once and earliest first, runs no other entry, and leaves exactly the later ones
  pending.
\<close>

theorem scheduler_drain_fires_due:
  assumes "sched_ok s" and "\<And>i s w. cb i (s, w) = (s, f i w)" and "length (sheap s) < fuel"
  shows "\<exists>fired s'. sched_drain cb now fuel (s, w) = Some (s', fire f s fired w) \<and> distinct fired
    \<and> set fired = {i \<in> pending s. entry_at s i \<le> now} \<and> sorted (map (entry_at s) fired)
    \<and> pending s' = {i \<in> pending s. now < entry_at s i} \<and> sched_armed s'"
  using sched_drain_total [where cb = cb and f = f, OF assms] by blast

theorem scheduler_drain_fires_due_witness:
  "\<exists>fired s'. sched_drain (\<lambda>i (s, w). (s, w @ [i])) 20 4 (example_scheduler, []) =
      Some (s', fire (\<lambda>i w. w @ [i]) example_scheduler fired []) \<and> sorted (map (entry_at example_scheduler) fired)"
proof -
  have len: "length (sheap example_scheduler) < 4"
    by (simp add: example_scheduler_def schedule_def new_scheduler_def sched_arm_def heap_push_def
      bubble_up.simps discard_inactive_head.simps parent_of_def heap_swap_def entry_at_def)
  show ?thesis
    using scheduler_drain_fires_due [OF example_scheduler_ok, of "\<lambda>i (s, w). (s, w @ [i])"
        "\<lambda>i w. w @ [i]" 4 20 "[]"] len by auto
qed

end
