(* ===== verification/LockContract.thy ===== *)
theory LockContract imports Prelude begin

text \<open>
  The parts of \<open>packages/foundation/src/concurrency/lock-manager-contract.ts\<close> every lock
  backend shares: the typed errors, the normalisation of keys, durations and limits, and the
  constructor that turns the optional configuration into a complete one. Numbers arrive as
  JavaScript numbers: whole numbers of milliseconds, or a value that is not finite.
\<close>

section \<open>Errors\<close>

datatype lock_error =
    LockTypeError string
  | LockTimeout int
  | LockAborted
  | LockQueueFull int
  | LockFencing
  | LockReleased
  | LockDestroyed string

section \<open>Numbers and durations\<close>

datatype js_number = Whole int | NotFinite

definition max_safe_integer :: int where
  "max_safe_integer = 2 ^ 53 - 1"

definition or_default :: "'a option \<Rightarrow> 'a \<Rightarrow> 'a" where
  "or_default v d = (case v of None \<Rightarrow> d | Some x \<Rightarrow> x)"

fun positive_duration :: "js_number option \<Rightarrow> int \<Rightarrow> string \<Rightarrow> lock_error + int" where
  "positive_duration v fallback label =
     (case or_default v (Whole fallback) of
        NotFinite \<Rightarrow> Inl (LockTypeError (label @ '' must be a positive finite number.''))
      | Whole n \<Rightarrow>
          if n \<le> 0 then Inl (LockTypeError (label @ '' must be a positive finite number.'')) else Inr n)"

fun non_negative_duration :: "js_number option \<Rightarrow> int \<Rightarrow> string \<Rightarrow> lock_error + int" where
  "non_negative_duration v fallback label =
     (case or_default v (Whole fallback) of
        NotFinite \<Rightarrow> Inl (LockTypeError (label @ '' must be a non-negative finite number.''))
      | Whole n \<Rightarrow>
          if n < 0 then Inl (LockTypeError (label @ '' must be a non-negative finite number.'')) else Inr n)"

fun positive_integer :: "js_number option \<Rightarrow> int \<Rightarrow> string \<Rightarrow> lock_error + int" where
  "positive_integer v fallback label =
     (case or_default v (Whole fallback) of
        NotFinite \<Rightarrow> Inl (LockTypeError (label @ '' must be a positive safe integer.''))
      | Whole n \<Rightarrow>
          if \<not> \<bar>n\<bar> \<le> max_safe_integer \<or> n \<le> 0
          then Inl (LockTypeError (label @ '' must be a positive safe integer.'')) else Inr n)"

text \<open>\<open>normalizeLockKey(key)\<close>; a null or undefined key is the empty string.\<close>

definition normalize_lock_key :: "string option \<Rightarrow> lock_error + string" where
  "normalize_lock_key key =
     (let normalized = trim (or_default key [])
      in if normalized = [] then Inl (LockTypeError ''Lock key must be a non-empty string.'')
         else Inr normalized)"

definition throw_if_acquire_aborted :: "bool option \<Rightarrow> lock_error + unit" where
  "throw_if_acquire_aborted signal = (if signal = Some True then Inl LockAborted else Inr ())"

section \<open>Configuration\<close>

record lock_options =
  opt_backend :: string
  opt_ttl :: "js_number option"
  opt_wait :: "js_number option"
  opt_heartbeat :: "js_number option"
  opt_depth :: "js_number option"
  opt_total :: "js_number option"

record lock_config =
  backend :: string
  default_ttl :: int
  max_wait :: int
  heartbeat_interval :: int
  max_queue_depth :: int
  max_total_depth :: int

definition make_lock_config :: "lock_options \<Rightarrow> lock_error + lock_config" where
  "make_lock_config o1 =
     ebind (positive_duration (opt_ttl o1) 30000 ''defaultTtlMs'') (\<lambda>ttl.
     ebind (non_negative_duration (opt_wait o1) 60000 ''maxWaitMs'') (\<lambda>wait.
     ebind (positive_duration (opt_heartbeat o1) 10000 ''heartbeatIntervalMs'') (\<lambda>beat.
     ebind (positive_integer (opt_depth o1) 1000 ''maxQueueDepth'') (\<lambda>depth.
     ebind (positive_integer (opt_total o1) 4096 ''maxTotalQueueDepth'') (\<lambda>total.
       Inr \<lparr>backend = str_or (opt_backend o1) ''memory'', default_ttl = ttl, max_wait = wait,
            heartbeat_interval = beat, max_queue_depth = depth, max_total_depth = total\<rparr>)))))"

definition config_ok :: "lock_config \<Rightarrow> bool" where
  "config_ok c \<longleftrightarrow> 0 < default_ttl c \<and> 0 \<le> max_wait c \<and> 0 < heartbeat_interval c \<and>
     0 < max_queue_depth c \<and> max_queue_depth c \<le> max_safe_integer \<and>
     0 < max_total_depth c \<and> max_total_depth c \<le> max_safe_integer \<and> backend c \<noteq> []"

section \<open>What the normalisation guarantees\<close>

lemma positive_duration_Inr: "positive_duration v d l = Inr n \<Longrightarrow> 0 < n"
  by (auto split: js_number.splits if_splits)

lemma non_negative_duration_Inr: "non_negative_duration v d l = Inr n \<Longrightarrow> 0 \<le> n"
  by (auto split: js_number.splits if_splits)

lemma positive_integer_Inr: "positive_integer v d l = Inr n \<Longrightarrow> 0 < n \<and> n \<le> max_safe_integer"
  by (auto split: js_number.splits if_splits)

lemma normalize_lock_key_Inr: "normalize_lock_key k = Inr s \<Longrightarrow> s \<noteq> [] \<and> trim s = s"
  by (auto simp: normalize_lock_key_def Let_def split: if_splits)

declare positive_duration.simps [simp del] non_negative_duration.simps [simp del]
  positive_integer.simps [simp del]

lemmas duration_defs = positive_duration.simps non_negative_duration.simps positive_integer.simps
  or_default_def max_safe_integer_def

lemma make_lock_config_ok: "make_lock_config o1 = Inr c \<Longrightarrow> config_ok c"
  using positive_duration_Inr non_negative_duration_Inr positive_integer_Inr
  by (auto simp: make_lock_config_def ebind_Inr_iff config_ok_def str_or_def split: if_splits)

text \<open>
  Whatever options the lock manager's constructor accepts, the configuration it stores
  has positive durations, a non-negative wait and positive safe-integer queue limits, and
  the constructor accepts a configuration with nothing set.
\<close>

theorem lock_config_bounds:
  "(\<forall>o1 c. make_lock_config o1 = Inr c \<longrightarrow> config_ok c)
   \<and> make_lock_config \<lparr>opt_backend = b, opt_ttl = None, opt_wait = None, opt_heartbeat = None,
        opt_depth = None, opt_total = None\<rparr>
      = Inr \<lparr>backend = str_or b ''memory'', default_ttl = 30000, max_wait = 60000,
          heartbeat_interval = 10000, max_queue_depth = 1000, max_total_depth = 4096\<rparr>"
  using make_lock_config_ok by (auto simp: make_lock_config_def duration_defs)

theorem lock_config_bounds_witness:
  "config_ok \<lparr>backend = ''memory'', default_ttl = 5, max_wait = 0, heartbeat_interval = 10000,
      max_queue_depth = 1, max_total_depth = 4096\<rparr>"
proof -
  let ?o = "\<lparr>opt_backend = ''memory'', opt_ttl = Some (Whole 5), opt_wait = Some (Whole 0),
      opt_heartbeat = None, opt_depth = Some (Whole 1), opt_total = None\<rparr>"
  have "make_lock_config ?o = Inr \<lparr>backend = ''memory'', default_ttl = 5, max_wait = 0,
      heartbeat_interval = 10000, max_queue_depth = 1, max_total_depth = 4096\<rparr>"
    by (simp add: make_lock_config_def duration_defs str_or_def)
  then show ?thesis using lock_config_bounds by blast
qed

end
