(* ===== verification/MemoryLock.thy ===== *)
theory MemoryLock imports LockContract DeadlineScheduler WaitQueue begin

text \<open>
  \<open>MemoryLockManager\<close> of \<open>packages/foundation/src/concurrency/lock-manager.ts\<close>: the locks held
  (a \<open>Map\<close> from keys to the current handle and its expiry timer), the FIFO of waiters per key,
  the deadline scheduler shared by all waiters, and the metrics. Handles and waiters are
  mutable objects, so they live in stores; a waiter's promise is its outcome field. The wait
  queues appear as the lists that \<open>WaitQueue\<close> proves the pointer queues to be.

  Time is the argument \<open>now\<close> of every operation (\<open>Date.now()\<close>). What the event loop does
  on its own is an operation too: \<open>expiry_timer\<close> (the \<open>setTimeout\<close> of one lock),
  \<open>wait_timer\<close> (the scheduler's timer) and \<open>abort_waiter\<close> (the abort signal of one waiter).
\<close>

section \<open>State\<close>

record lock_handle =
  lock_key :: string
  fencing_token :: int
  acquired_at :: int
  expires_at :: int
  released :: bool

record lock_entry =
  holder :: nat
  timer_due :: int

datatype wait_outcome = Waiting | Granted nat | Rejected lock_error

record mem_waiter =
  w_key :: string
  w_ttl :: int
  w_wait :: int
  w_deadline :: int
  w_entry :: "nat option"
  w_active :: bool
  w_outcome :: wait_outcome

record lock_metrics =
  total_acquired :: int
  total_released :: int
  total_timed_out :: int
  total_expired :: int
  total_backend_errors :: int
  current_active :: int
  current_waiting :: nat

record mem_lock =
  config :: lock_config
  destroyed :: bool
  locks :: "(string \<times> lock_entry) list"
  wait_queues :: "(string \<times> nat list) list"
  wait_sched :: scheduler
  metrics :: lock_metrics
  handles :: "nat \<Rightarrow> lock_handle"
  next_handle :: nat
  waiters :: "nat \<Rightarrow> mem_waiter"
  next_waiter :: nat
  fence :: int

definition new_metrics :: lock_metrics where
  "new_metrics = \<lparr>total_acquired = 0, total_released = 0, total_timed_out = 0, total_expired = 0,
     total_backend_errors = 0, current_active = 0, current_waiting = 0\<rparr>"

definition new_mem_lock :: "lock_config \<Rightarrow> int \<Rightarrow> mem_lock" where
  "new_mem_lock cfg f0 =
     \<lparr>config = cfg\<lparr>backend := ''memory''\<rparr>, destroyed = False, locks = [], wait_queues = [],
      wait_sched = new_scheduler, metrics = new_metrics,
      handles = (\<lambda>_. \<lparr>lock_key = [], fencing_token = 0, acquired_at = 0, expires_at = 0, released = True\<rparr>),
      next_handle = 0,
      waiters = (\<lambda>_. \<lparr>w_key = [], w_ttl = 0, w_wait = 0, w_deadline = 0, w_entry = None,
        w_active = False, w_outcome = Waiting\<rparr>),
      next_waiter = 0, fence = f0\<rparr>"

definition upd_handle :: "nat \<Rightarrow> (lock_handle \<Rightarrow> lock_handle) \<Rightarrow> mem_lock \<Rightarrow> mem_lock" where
  "upd_handle h f st = st\<lparr>handles := (handles st)(h := f (handles st h))\<rparr>"

definition upd_waiter :: "nat \<Rightarrow> (mem_waiter \<Rightarrow> mem_waiter) \<Rightarrow> mem_lock \<Rightarrow> mem_lock" where
  "upd_waiter w f st = st\<lparr>waiters := (waiters st)(w := f (waiters st w))\<rparr>"

definition upd_metrics :: "(lock_metrics \<Rightarrow> lock_metrics) \<Rightarrow> mem_lock \<Rightarrow> mem_lock" where
  "upd_metrics f st = st\<lparr>metrics := f (metrics st)\<rparr>"

section \<open>Operations\<close>

text \<open>\<open>_assertActive()\<close>.\<close>

definition assert_active :: "mem_lock \<Rightarrow> lock_error + unit" where
  "assert_active st = (if destroyed st then Inl (LockDestroyed (backend (config st))) else Inr ())"

text \<open>\<open>_createLockHandle(key, ttlMs)\<close>, with \<open>LockManager.fencingToken()\<close>.\<close>

definition create_lock_handle :: "string \<Rightarrow> int \<Rightarrow> int \<Rightarrow> mem_lock \<Rightarrow> nat \<times> mem_lock" where
  "create_lock_handle key ttl now st =
     (let h = next_handle st;
          token = fence st + 1;
          handle = \<lparr>lock_key = key, fencing_token = token, acquired_at = now,
                    expires_at = now + ttl, released = False\<rparr>;
          st1 = st\<lparr>fence := token, next_handle := Suc h, handles := (handles st)(h := handle)\<rparr>;
          st2 = st1\<lparr>locks := jmap_set key \<lparr>holder = h, timer_due = now + ttl\<rparr> (locks st1)\<rparr>
      in (h, upd_metrics (\<lambda>m. m\<lparr>total_acquired := total_acquired m + 1,
                               current_active := current_active m + 1\<rparr>) st2))"

text \<open>\<open>_queueFor(key)\<close>: an empty queue is created on first use.\<close>

definition queue_for :: "string \<Rightarrow> mem_lock \<Rightarrow> mem_lock" where
  "queue_for key st =
     (case map_of (wait_queues st) key of
        None \<Rightarrow> st\<lparr>wait_queues := jmap_set key [] (wait_queues st)\<rparr>
      | Some _ \<Rightarrow> st)"

definition delete_queue :: "string \<Rightarrow> mem_lock \<Rightarrow> mem_lock" where
  "delete_queue key st = st\<lparr>wait_queues := jmap_del key (wait_queues st)\<rparr>"

definition set_queue :: "string \<Rightarrow> nat list \<Rightarrow> mem_lock \<Rightarrow> mem_lock" where
  "set_queue key ws st = st\<lparr>wait_queues := jmap_set key ws (wait_queues st)\<rparr>"

definition cancel_entry :: "nat \<Rightarrow> mem_lock \<Rightarrow> mem_lock" where
  "cancel_entry w st = st\<lparr>wait_sched := sched_cancel (w_entry (waiters st w)) (wait_sched st)\<rparr>"

definition one_less_waiting :: "mem_lock \<Rightarrow> mem_lock" where
  "one_less_waiting = upd_metrics (\<lambda>m. m\<lparr>current_waiting := current_waiting m - 1\<rparr>)"

text \<open>\<open>_promoteNext(key)\<close>: the first active waiter gets the lock; without one the queue goes.\<close>

fun promote_loop :: "string \<Rightarrow> int \<Rightarrow> nat list \<Rightarrow> mem_lock \<Rightarrow> mem_lock" where
  "promote_loop key now [] st = delete_queue key st"
| "promote_loop key now (w # ws) st =
     (let st1 = set_queue key ws st
      in if \<not> w_active (waiters st1 w) then promote_loop key now ws st1
         else
           (let st2 = upd_waiter w (\<lambda>x. x\<lparr>w_active := False\<rparr>) st1;
                st3 = one_less_waiting (cancel_entry w st2);
                st4 = (if ws = [] then delete_queue key st3 else st3);
                (h, st5) = create_lock_handle key (w_ttl (waiters st4 w)) now st4
            in upd_waiter w (\<lambda>x. x\<lparr>w_outcome := Granted h\<rparr>) st5))"

definition promote_next :: "string \<Rightarrow> int \<Rightarrow> mem_lock \<Rightarrow> mem_lock" where
  "promote_next key now st =
     (case map_of (wait_queues st) key of None \<Rightarrow> st | Some ws \<Rightarrow> promote_loop key now ws st)"

definition drop_lock :: "string \<Rightarrow> mem_lock \<Rightarrow> mem_lock" where
  "drop_lock key st = st\<lparr>locks := jmap_del key (locks st)\<rparr>"

text \<open>\<open>_expireHandle(key, handle)\<close>.\<close>

definition expire_handle :: "string \<Rightarrow> nat \<Rightarrow> int \<Rightarrow> mem_lock \<Rightarrow> bool \<times> mem_lock" where
  "expire_handle key h now st =
     (case map_of (locks st) key of
        None \<Rightarrow> (False, st)
      | Some e \<Rightarrow>
          if fencing_token (handles st (holder e)) \<noteq> fencing_token (handles st h) then (False, st)
          else
            (let st1 = upd_handle h (\<lambda>x. x\<lparr>released := True\<rparr>) (drop_lock key st);
                 st2 = upd_metrics (\<lambda>m. m\<lparr>current_active := current_active m - 1,
                                         total_expired := total_expired m + 1\<rparr>) st1
             in (True, promote_next key now st2)))"

text \<open>The check both \<open>acquire\<close> and \<open>isLocked\<close> start with: an expired holder is evicted.\<close>

definition evict_expired :: "string \<Rightarrow> int \<Rightarrow> mem_lock \<Rightarrow> mem_lock" where
  "evict_expired key now st =
     (case map_of (locks st) key of
        None \<Rightarrow> st
      | Some e \<Rightarrow>
          if expires_at (handles st (holder e)) \<le> now then snd (expire_handle key (holder e) now st)
          else st)"

text \<open>What is common to a waiter leaving its queue: inactive, unlinked, uncounted, and the
  queue deleted when it was the last one.\<close>

definition leave_queue :: "nat \<Rightarrow> mem_lock \<Rightarrow> mem_lock" where
  "leave_queue w st =
     (let key = w_key (waiters st w);
          st1 = upd_waiter w (\<lambda>x. x\<lparr>w_active := False\<rparr>) st;
          ws = remove1 w (or_default (map_of (wait_queues st1) key) []);
          st2 = one_less_waiting (set_queue key ws st1)
      in if ws = [] then delete_queue key st2 else st2)"

text \<open>\<open>waiter.onAbort()\<close>.\<close>

definition abort_waiter :: "nat \<Rightarrow> mem_lock \<Rightarrow> mem_lock" where
  "abort_waiter w st =
     (if \<not> w_active (waiters st w) then st
      else upd_waiter w (\<lambda>x. x\<lparr>w_outcome := Rejected LockAborted\<rparr>) (cancel_entry w (leave_queue w st)))"

text \<open>The scheduler's run callback of a waiter.\<close>

definition timeout_waiter :: "nat \<Rightarrow> mem_lock \<Rightarrow> mem_lock" where
  "timeout_waiter w st =
     (if \<not> w_active (waiters st w) then st
      else
        (let st1 = upd_metrics (\<lambda>m. m\<lparr>total_timed_out := total_timed_out m + 1\<rparr>) (leave_queue w st)
         in upd_waiter w (\<lambda>x. x\<lparr>w_outcome := Rejected (LockTimeout (w_wait x))\<rparr>) st1))"

datatype acquire_result = Acquired nat | Queued nat

text \<open>The executor of the promise \<open>acquire\<close> returns when the lock is held.\<close>

definition enqueue_waiter :: "string \<Rightarrow> int \<Rightarrow> int \<Rightarrow> int \<Rightarrow> bool option \<Rightarrow> mem_lock \<Rightarrow> nat \<times> mem_lock" where
  "enqueue_waiter key ttl wait now signal st =
     (let w = next_waiter st;
          (entry, sched') = schedule (now + wait) w (wait_sched st);
          waiter = \<lparr>w_key = key, w_ttl = ttl, w_wait = wait, w_deadline = now + wait,
                    w_entry = entry, w_active = True, w_outcome = Waiting\<rparr>;
          st1 = st\<lparr>wait_sched := sched', next_waiter := Suc w, waiters := (waiters st)(w := waiter)\<rparr>;
          st2 = set_queue key (or_default (map_of (wait_queues st1) key) [] @ [w]) st1
      in (w, if signal = Some True then abort_waiter w st2 else st2))"

text \<open>\<open>acquire(key, options)\<close>.\<close>

definition acquire :: "string option \<Rightarrow> js_number option \<Rightarrow> js_number option \<Rightarrow> bool option \<Rightarrow> int \<Rightarrow> mem_lock
    \<Rightarrow> (lock_error + acquire_result) \<times> mem_lock" where
  "acquire key0 ttl0 wait0 signal now st =
     (case ebind (assert_active st) (\<lambda>_.
           ebind (normalize_lock_key key0) (\<lambda>key.
           ebind (throw_if_acquire_aborted signal) (\<lambda>_.
           ebind (positive_duration ttl0 (default_ttl (config st)) ''ttlMs'') (\<lambda>ttl.
           ebind (non_negative_duration wait0 (max_wait (config st)) ''waitMs'') (\<lambda>wait.
             Inr (key, ttl, wait)))))) of
        Inl e \<Rightarrow> (Inl e, st)
      | Inr (key, ttl, wait) \<Rightarrow>
          (let st1 = evict_expired key now st
           in if map_of (locks st1) key \<noteq> None then
                (if wait \<le> 0 then
                   (Inl (LockTimeout 0), upd_metrics (\<lambda>m. m\<lparr>total_timed_out := total_timed_out m + 1\<rparr>) st1)
                 else
                   (let st2 = queue_for key st1
                    in if int (current_waiting (metrics st2)) \<ge> max_queue_depth (config st2)
                       then (Inl (LockQueueFull (max_queue_depth (config st2))), st2)
                       else
                         (let st3 = upd_metrics (\<lambda>m. m\<lparr>current_waiting := current_waiting m + 1\<rparr>) st2;
                              (w, st4) = enqueue_waiter key ttl wait now signal st3
                          in (Inr (Queued w), st4))))
              else (case create_lock_handle key ttl now st1 of (h, st2) \<Rightarrow> (Inr (Acquired h), st2))))"

text \<open>\<open>release(handle)\<close>.\<close>

definition release_lock :: "nat \<Rightarrow> int \<Rightarrow> mem_lock \<Rightarrow> (lock_error + unit) \<times> mem_lock" where
  "release_lock h now st =
     (if released (handles st h) then (Inr (), st)
      else
        (case map_of (locks st) (lock_key (handles st h)) of
           None \<Rightarrow> (Inr (), st)
         | Some e \<Rightarrow>
             if fencing_token (handles st (holder e)) \<noteq> fencing_token (handles st h)
             then (Inl LockFencing, st)
             else if expires_at (handles st h) \<le> now
             then (Inr (), snd (expire_handle (lock_key (handles st h)) h now st))
             else
               (let key = lock_key (handles st h);
                    st1 = upd_handle h (\<lambda>x. x\<lparr>released := True\<rparr>) (drop_lock key st);
                    st2 = upd_metrics (\<lambda>m. m\<lparr>total_released := total_released m + 1,
                                            current_active := current_active m - 1\<rparr>) st1
                in (Inr (), promote_next key now st2))))"

text \<open>\<open>handle.heartbeat(extendMs)\<close>; \<open>key\<close> is the key the handle was created for.\<close>

definition heartbeat :: "nat \<Rightarrow> js_number option \<Rightarrow> int \<Rightarrow> mem_lock \<Rightarrow> (lock_error + unit) \<times> mem_lock" where
  "heartbeat h ext_ms now st =
     (let key = lock_key (handles st h)
      in if released (handles st h) then (Inl LockReleased, st)
         else
           (case positive_duration ext_ms (default_ttl (config st)) ''extendMs'' of
              Inl e \<Rightarrow> (Inl e, st)
            | Inr ttl \<Rightarrow>
                (case map_of (locks st) key of
                   None \<Rightarrow> (Inl LockReleased, upd_handle h (\<lambda>x. x\<lparr>released := True\<rparr>) st)
                 | Some e \<Rightarrow>
                     if fencing_token (handles st (holder e)) \<noteq> fencing_token (handles st h)
                     then (Inl LockReleased, upd_handle h (\<lambda>x. x\<lparr>released := True\<rparr>) st)
                     else if expires_at (handles st h) \<le> now
                     then (Inl LockReleased, snd (expire_handle key h now st))
                     else
                       (let st1 = upd_handle h (\<lambda>x. x\<lparr>expires_at := now + ttl\<rparr>) st
                        in (Inr (), st1\<lparr>locks := jmap_set key (e\<lparr>timer_due := now + ttl\<rparr>) (locks st1)\<rparr>)))))"

text \<open>\<open>isLocked(key)\<close>.\<close>

definition is_locked :: "string option \<Rightarrow> int \<Rightarrow> mem_lock \<Rightarrow> (lock_error + bool) \<times> mem_lock" where
  "is_locked key0 now st =
     (case ebind (assert_active st) (\<lambda>_. normalize_lock_key key0) of
        Inl e \<Rightarrow> (Inl e, st)
      | Inr key \<Rightarrow>
          (let st1 = evict_expired key now st in (Inr (map_of (locks st1) key \<noteq> None), st1)))"

text \<open>The expiry \<open>setTimeout\<close> of one lock: it fires no earlier than it is due, and only the
  timer of the current entry is still set.\<close>

definition expiry_timer :: "string \<Rightarrow> int \<Rightarrow> mem_lock \<Rightarrow> mem_lock" where
  "expiry_timer key now st =
     (case map_of (locks st) key of
        None \<Rightarrow> st
      | Some e \<Rightarrow> if timer_due e \<le> now then snd (expire_handle key (holder e) now st) else st)"

text \<open>The scheduler's timer: \<open>_drain\<close> with the waiters' timeout callbacks, none of which
  touches the scheduler.\<close>

definition wait_timer :: "int \<Rightarrow> mem_lock \<Rightarrow> mem_lock" where
  "wait_timer now st =
     (case sched_drain (\<lambda>w (s, x). (s, timeout_waiter w x)) now
             (Suc (length (sheap (wait_sched st)))) (wait_sched st, st) of
        None \<Rightarrow> st
      | Some (s', st') \<Rightarrow> st'\<lparr>wait_sched := s'\<rparr>)"

text \<open>\<open>getMetrics()\<close>: the counters, the number of queues, the number of armed waiter timers.\<close>

definition get_metrics :: "mem_lock \<Rightarrow> lock_metrics \<times> nat \<times> nat" where
  "get_metrics st = (metrics st, length (wait_queues st), if timer (wait_sched st) then 1 else 0)"

text \<open>\<open>destroy()\<close>: every held lock is released, every waiter rejected.\<close>

definition release_one :: "lock_entry \<Rightarrow> mem_lock \<Rightarrow> mem_lock" where
  "release_one e st =
     (if released (handles st (holder e)) then st
      else upd_metrics (\<lambda>m. m\<lparr>total_released := total_released m + 1\<rparr>)
             (upd_handle (holder e) (\<lambda>x. x\<lparr>released := True\<rparr>) st))"

definition release_all :: "(string \<times> lock_entry) list \<Rightarrow> mem_lock \<Rightarrow> mem_lock" where
  "release_all es st = fold (\<lambda>e. release_one (snd e)) es st"

definition reject_waiter :: "nat \<Rightarrow> mem_lock \<Rightarrow> mem_lock" where
  "reject_waiter w st =
     (let st1 = cancel_entry w (upd_waiter w (\<lambda>x. x\<lparr>w_active := False\<rparr>) st)
      in upd_waiter w (\<lambda>x. x\<lparr>w_outcome := Rejected (LockDestroyed (backend (config st1)))\<rparr>) st1)"

definition destroy :: "mem_lock \<Rightarrow> mem_lock" where
  "destroy st =
     (if destroyed st then st
      else
        (let st1 = release_all (locks st) (st\<lparr>destroyed := True\<rparr>);
             st2 = upd_metrics (\<lambda>m. m\<lparr>current_active := 0\<rparr>) (st1\<lparr>locks := []\<rparr>);
             st3 = fold reject_waiter (concat (map snd (wait_queues st2))) st2;
             st4 = upd_metrics (\<lambda>m. m\<lparr>current_waiting := 0\<rparr>) (st3\<lparr>wait_queues := []\<rparr>)
         in st4\<lparr>wait_sched := sched_close (wait_sched st4)\<rparr>))"

section \<open>Choosing the backend\<close>

text \<open>\<open>createLockManager(config)\<close> and \<open>requiredBackend(config)\<close>. The durable backends need
  asynchronous loading, so the synchronous factory refuses them.\<close>

datatype factory_error = BackendMissing | NeedsAsync string | BackendUnsupported string | BadConfig lock_error

datatype lock_manager = MemoryManager mem_lock | SqliteManager lock_options | PostgresManager lock_options

definition required_backend :: "lock_options \<Rightarrow> factory_error + string" where
  "required_backend o1 =
     (let backend = trim (opt_backend o1) in if backend = [] then Inl BackendMissing else Inr backend)"

definition memory_manager :: "lock_options \<Rightarrow> int \<Rightarrow> factory_error + lock_manager" where
  "memory_manager o1 f0 =
     (case make_lock_config (o1\<lparr>opt_backend := ''memory''\<rparr>) of
        Inl e \<Rightarrow> Inl (BadConfig e)
      | Inr cfg \<Rightarrow> Inr (MemoryManager (new_mem_lock cfg f0)))"

definition create_lock_manager :: "lock_options \<Rightarrow> int \<Rightarrow> factory_error + lock_manager" where
  "create_lock_manager o1 f0 =
     ebind (required_backend o1) (\<lambda>backend.
       if backend = ''memory'' then memory_manager o1 f0
       else if backend = ''sqlite'' then Inl (NeedsAsync ''sqlite'')
       else if backend = ''postgres'' then Inl (NeedsAsync ''postgres'')
       else Inl (BackendUnsupported (opt_backend o1)))"

definition create_lock_manager_async :: "lock_options \<Rightarrow> int \<Rightarrow> factory_error + lock_manager" where
  "create_lock_manager_async o1 f0 =
     ebind (required_backend o1) (\<lambda>backend.
       if backend = ''memory'' then memory_manager o1 f0
       else if backend = ''sqlite'' then Inr (SqliteManager o1)
       else if backend = ''postgres'' then Inr (PostgresManager o1)
       else Inl (BackendUnsupported (opt_backend o1)))"

end
