(* ===== verification/MemoryLockInv.thy ===== *)
theory MemoryLockInv imports MemoryLock begin

text \<open>
  The invariant of \<open>MemoryLockManager\<close>, one predicate per part of the state, and its
  preservation by every operation of \<open>MemoryLock\<close>: first what an update of one part does to
  its predicate, then the steps the operations share (promotion, a waiter leaving its queue),
  then the operations.
\<close>

section \<open>The invariant, by part of the state\<close>

text \<open>Each key has one current handle; a handle is unreleased exactly while it is the current
  one; fencing tokens grow with the order of acquisition.\<close>

definition locks_inv :: "(string \<times> lock_entry) list \<Rightarrow> (nat \<Rightarrow> lock_handle) \<Rightarrow> nat \<Rightarrow> int \<Rightarrow> bool" where
  "locks_inv ls H n f \<longleftrightarrow>
     jmap_ok ls \<and>
     (\<forall>k e. map_of ls k = Some e \<longrightarrow> holder e < n \<and> lock_key (H (holder e)) = k \<and>
        \<not> released (H (holder e)) \<and> timer_due e = expires_at (H (holder e))) \<and>
     (\<forall>h < n. \<not> released (H h) \<longrightarrow> (\<exists>e. map_of ls (lock_key (H h)) = Some e \<and> holder e = h)) \<and>
     (\<forall>h1 h2. h1 < h2 \<longrightarrow> h2 < n \<longrightarrow> fencing_token (H h1) < fencing_token (H h2)) \<and>
     (\<forall>h < n. fencing_token (H h) \<le> f)"

definition count_inv :: "(string \<times> lock_entry) list \<Rightarrow> lock_metrics \<Rightarrow> bool" where
  "count_inv ls m \<longleftrightarrow>
     current_active m = int (length ls) \<and>
     total_acquired m = total_released m + total_expired m + int (length ls)"

text \<open>The queues hold exactly the active waiters, each once, under its own key.\<close>

definition queue_inv :: "(string \<times> nat list) list \<Rightarrow> (nat \<Rightarrow> mem_waiter) \<Rightarrow> nat \<Rightarrow> nat \<Rightarrow> bool" where
  "queue_inv qs W n c \<longleftrightarrow>
     jmap_ok qs \<and>
     (\<forall>k ws. map_of qs k = Some ws \<longrightarrow> distinct ws \<and>
        (\<forall>w \<in> set ws. w < n \<and> w_active (W w) \<and> w_key (W w) = k)) \<and>
     (\<forall>w < n. w_active (W w) \<longrightarrow> (\<exists>ws. map_of qs (w_key (W w)) = Some ws \<and> w \<in> set ws)) \<and>
     c = jmap_sum length qs"

text \<open>The scheduler's pending entries are exactly the deadlines of the active waiters.\<close>

definition wsched_inv :: "scheduler \<Rightarrow> (nat \<Rightarrow> mem_waiter) \<Rightarrow> nat \<Rightarrow> bool" where
  "wsched_inv sc W n \<longleftrightarrow>
     sched_ok sc \<and> sched_armed sc \<and>
     (\<forall>w < n. w_active (W w) \<longrightarrow> (\<exists>i. w_entry (W w) = Some i \<and> i \<in> pending sc \<and>
        run_id (entries sc i) = w \<and> entry_at sc i = w_deadline (W w))) \<and>
     (\<forall>i \<in> pending sc. run_id (entries sc i) < n \<and> w_active (W (run_id (entries sc i))) \<and>
        w_entry (W (run_id (entries sc i))) = Some i)"

text \<open>A waiter's promise is pending exactly while the waiter is active; a granted waiter holds
  a handle of its key.\<close>

definition outcome_inv :: "(nat \<Rightarrow> mem_waiter) \<Rightarrow> nat \<Rightarrow> (nat \<Rightarrow> lock_handle) \<Rightarrow> nat \<Rightarrow> bool" where
  "outcome_inv W n H m \<longleftrightarrow>
     (\<forall>w < n. (w_active (W w) \<longleftrightarrow> w_outcome (W w) = Waiting) \<and>
        (\<forall>h. w_outcome (W w) = Granted h \<longrightarrow> h < m \<and> lock_key (H h) = w_key (W w)))"

text \<open>Nobody waits for a free lock. The key \<open>k\<close> may be the exception, in the middle of a step.\<close>

definition link_but :: "string option \<Rightarrow> mem_lock \<Rightarrow> bool" where
  "link_but k st \<longleftrightarrow> fst ` set (wait_queues st) \<subseteq> fst ` set (locks st) \<union> set_option k \<and>
     (destroyed st \<longrightarrow> locks st = [] \<and> wait_queues st = []) \<and>
     (closed (wait_sched st) \<longleftrightarrow> destroyed st)"

definition mem_inv_but :: "string option \<Rightarrow> mem_lock \<Rightarrow> bool" where
  "mem_inv_but k st \<longleftrightarrow>
     locks_inv (locks st) (handles st) (next_handle st) (fence st) \<and>
     count_inv (locks st) (metrics st) \<and>
     queue_inv (wait_queues st) (waiters st) (next_waiter st) (current_waiting (metrics st)) \<and>
     wsched_inv (wait_sched st) (waiters st) (next_waiter st) \<and>
     outcome_inv (waiters st) (next_waiter st) (handles st) (next_handle st) \<and>
     link_but k st"

abbreviation mem_inv :: "mem_lock \<Rightarrow> bool" where
  "mem_inv \<equiv> mem_inv_but None"

lemmas upd_defs = upd_handle_def upd_waiter_def upd_metrics_def one_less_waiting_def
  delete_queue_def set_queue_def drop_lock_def cancel_entry_def

section \<open>Locks\<close>

lemma locks_inv_create:
  assumes "locks_inv ls H n f" "map_of ls k = None" "released x = False" "lock_key x = k"
    "fencing_token x = f + 1" "expires_at x = t"
  shows "locks_inv (jmap_set k \<lparr>holder = n, timer_due = t\<rparr> ls) (H(n := x)) (Suc n) (f + 1)"
  unfolding locks_inv_def
proof (intro conjI allI impI)
  show "jmap_ok (jmap_set k \<lparr>holder = n, timer_due = t\<rparr> ls)" using assms(1) by (simp add: locks_inv_def)
next
  fix h assume "h < Suc n" "\<not> released ((H(n := x)) h)"
  then show "\<exists>e. map_of (jmap_set k \<lparr>holder = n, timer_due = t\<rparr> ls) (lock_key ((H(n := x)) h)) = Some e \<and> holder e = h"
  proof (cases "h = n")
    case False
    with \<open>h < Suc n\<close> \<open>\<not> released ((H(n := x)) h)\<close> have "h < n" "\<not> released (H h)" by simp_all
    with assms(1) obtain e where e: "map_of ls (lock_key (H h)) = Some e" "holder e = h"
      unfolding locks_inv_def by blast
    with assms(2) have "lock_key (H h) \<noteq> k" by auto
    with e False show ?thesis by simp
  qed (use assms(4) in simp)
next
  fix h assume "h < Suc n"
  then show "fencing_token ((H(n := x)) h) \<le> f + 1"
    using assms by (cases "h = n") (force simp: locks_inv_def less_Suc_eq)+
next
  fix h1 h2 :: nat assume "h1 < h2" "h2 < Suc n"
  then show "fencing_token ((H(n := x)) h1) < fencing_token ((H(n := x)) h2)"
    using assms by (cases "h2 = n") (force simp: locks_inv_def less_Suc_eq)+
qed (use assms in \<open>auto simp: locks_inv_def split: if_splits intro: less_SucI\<close>)

lemma locks_inv_drop:
  assumes "locks_inv ls H n f" "map_of ls k = Some e"
  shows "locks_inv (jmap_del k ls) (H(holder e := (H (holder e))\<lparr>released := True\<rparr>)) n f"
proof -
  have keep: "holder e' \<noteq> holder e" if "map_of ls k' = Some e'" "k' \<noteq> k" for k' e'
    using assms that unfolding locks_inv_def by metis
  show ?thesis
    unfolding locks_inv_def
  proof (intro conjI allI impI)
    fix h assume "h < n" "\<not> released ((H(holder e := (H (holder e))\<lparr>released := True\<rparr>)) h)"
    then have h: "h < n" "h \<noteq> holder e" "\<not> released (H h)" by (auto split: if_splits)
    with assms(1) obtain e' where e': "map_of ls (lock_key (H h)) = Some e'" "holder e' = h"
      unfolding locks_inv_def by blast
    then have "lock_key (H h) \<noteq> k" using assms(2) h(2) by auto
    then show "\<exists>e'. map_of (jmap_del k ls)
        (lock_key ((H(holder e := (H (holder e))\<lparr>released := True\<rparr>)) h)) = Some e' \<and> holder e' = h"
      using e' h(2) by auto
  qed (use assms keep in \<open>auto simp: locks_inv_def split: if_splits\<close>)
qed

lemma locks_inv_holder:
  assumes "locks_inv ls H n f" "map_of ls k = Some e" "h < n"
    "fencing_token (H (holder e)) = fencing_token (H h)"
  shows "holder e = h"
proof -
  have "holder e < n" using assms(1,2) by (simp add: locks_inv_def)
  moreover have "\<forall>h1 h2. h1 < h2 \<longrightarrow> h2 < n \<longrightarrow> fencing_token (H h1) < fencing_token (H h2)"
    using assms(1) by (simp add: locks_inv_def)
  ultimately show ?thesis using assms(3,4) by (metis less_irrefl linorder_neqE_nat)
qed

lemma locks_inv_extend:
  assumes "locks_inv ls H n f" "map_of ls k = Some e"
  shows "locks_inv (jmap_set k (e\<lparr>timer_due := t\<rparr>) ls) (H(holder e := (H (holder e))\<lparr>expires_at := t\<rparr>)) n f"
proof -
  have keep: "holder e' \<noteq> holder e" if "map_of ls k' = Some e'" "k' \<noteq> k" for k' e'
    using assms that unfolding locks_inv_def by metis
  show ?thesis
    unfolding locks_inv_def
  proof (intro conjI allI impI)
    fix h assume h: "h < n" "\<not> released ((H(holder e := (H (holder e))\<lparr>expires_at := t\<rparr>)) h)"
    then have "\<not> released (H h)" by (auto split: if_splits)
    with h(1) assms(1) obtain e' where e': "map_of ls (lock_key (H h)) = Some e'" "holder e' = h"
      unfolding locks_inv_def by blast
    then show "\<exists>e'. map_of (jmap_set k (e\<lparr>timer_due := t\<rparr>) ls)
        (lock_key ((H(holder e := (H (holder e))\<lparr>expires_at := t\<rparr>)) h)) = Some e' \<and> holder e' = h"
      using assms(2) by (cases "lock_key (H h) = k") auto
  qed (use assms keep in \<open>auto simp: locks_inv_def split: if_splits\<close>)
qed

section \<open>Queues\<close>

lemma queue_drop_waiter:
  assumes ok: "jmap_ok qs" and q: "map_of qs k = Some ws" and w: "w \<in> set ws" "distinct ws"
  defines "qs1 \<equiv> jmap_set k (remove1 w ws) qs"
  defines "qs' \<equiv> (if remove1 w ws = [] then jmap_del k qs1 else qs1)"
  shows "jmap_ok qs'" "map_of qs' = (map_of qs)(k := if remove1 w ws = [] then None else Some (remove1 w ws))"
    "jmap_sum length qs' = jmap_sum length qs - 1" "0 < jmap_sum length qs"
proof -
  show "jmap_ok qs'" using ok by (simp add: qs'_def qs1_def)
  show m: "map_of qs' = (map_of qs)(k := if remove1 w ws = [] then None else Some (remove1 w ws))"
    by (simp add: qs'_def qs1_def)
  have pos: "0 < length ws" using w(1) by (cases ws) auto
  have one: "jmap_sum length qs1 + length ws = jmap_sum length qs + (length ws - 1)"
    using jmap_sum_set_old [OF q, of length "remove1 w ws"] length_remove1 [of w ws] w(1) by (simp add: qs1_def)
  moreover have "jmap_sum length (jmap_del k qs1) = jmap_sum length qs1" if "remove1 w ws = []"
    using jmap_sum_del [of qs1 k "[]" length] ok that by (simp add: qs1_def)
  ultimately show "jmap_sum length qs' = jmap_sum length qs - 1"
    using pos by (simp add: qs'_def)
  show "0 < jmap_sum length qs" using one pos by linarith
qed

lemma queue_inv_leave:
  assumes inv: "queue_inv qs W n c" and q: "map_of qs k = Some ws" and w: "w \<in> set ws"
    and x: "\<not> w_active x"
  shows "queue_inv (if remove1 w ws = [] then jmap_del k (jmap_set k (remove1 w ws) qs)
      else jmap_set k (remove1 w ws) qs) (W(w := x)) n (c - 1)"
proof -
  have ok: "jmap_ok qs" and d: "distinct ws" and kw: "w_key (W w) = k"
    using inv q w by (auto simp: queue_inv_def)
  note D = queue_drop_waiter [OF ok q w d]
  have other: "w \<notin> set vs" if "map_of qs k' = Some vs" "k' \<noteq> k" for k' vs
    using inv that kw unfolding queue_inv_def by auto
  show ?thesis
    unfolding queue_inv_def
  proof (intro conjI allI impI)
    fix k' vs v
    assume "map_of (if remove1 w ws = [] then jmap_del k (jmap_set k (remove1 w ws) qs)
      else jmap_set k (remove1 w ws) qs) k' = Some vs"
    then have m: "(if k' = k then remove1 w ws = vs else map_of qs k' = Some vs)"
      using D(2) by (simp split: if_splits)
    show "distinct vs" using m inv q d by (auto simp: queue_inv_def split: if_splits)
    show "\<forall>v \<in> set vs. v < n \<and> w_active ((W(w := x)) v) \<and> w_key ((W(w := x)) v) = k'"
    proof
      fix v assume v: "v \<in> set vs"
      have "v \<noteq> w" using m v d other by (auto split: if_splits)
      moreover have "\<exists>us. map_of qs k' = Some us \<and> v \<in> set us"
        using m v d q by (auto split: if_splits)
      ultimately show "v < n \<and> w_active ((W(w := x)) v) \<and> w_key ((W(w := x)) v) = k'"
        using inv by (auto simp: queue_inv_def)
    qed
  next
    fix v assume v: "v < n" "w_active ((W(w := x)) v)"
    then have "v \<noteq> w" "w_active (W v)" using x by (auto split: if_splits)
    with inv v(1) obtain us where us: "map_of qs (w_key (W v)) = Some us" "v \<in> set us"
      unfolding queue_inv_def by blast
    then show "\<exists>us. map_of (if remove1 w ws = [] then jmap_del k (jmap_set k (remove1 w ws) qs)
      else jmap_set k (remove1 w ws) qs) (w_key ((W(w := x)) v)) = Some us \<and> v \<in> set us"
      using D(2) \<open>v \<noteq> w\<close> q in_set_remove1 [OF \<open>v \<noteq> w\<close>, of us]
      by (cases "w_key (W v) = k") (auto simp del: in_set_remove1)
  next
    show "c - 1 = jmap_sum length (if remove1 w ws = [] then jmap_del k (jmap_set k (remove1 w ws) qs)
      else jmap_set k (remove1 w ws) qs)" using inv D(3) by (simp add: queue_inv_def)
  qed (use D(1) in simp)
qed

lemma queue_inv_enqueue:
  assumes inv: "queue_inv qs W n c" and x: "w_active x" "w_key x = k"
  shows "queue_inv (jmap_set k (or_default (map_of qs k) [] @ [n]) qs) (W(n := x)) (Suc n) (Suc c)"
proof -
  have sum: "jmap_sum length (jmap_set k (or_default (map_of qs k) [] @ [n]) qs) = Suc (jmap_sum length qs)"
    using jmap_sum_set_new [of qs k length "[n]"]
      jmap_sum_set_old [of qs k _ length "or_default (map_of qs k) [] @ [n]"]
    by (cases "map_of qs k") (force simp: or_default_def)+
  have ws: "distinct ws \<and> (\<forall>w \<in> set ws. w < n \<and> w_active (W w) \<and> w_key (W w) = k)"
    if "ws = or_default (map_of qs k) []" for ws
    using inv that by (auto simp: queue_inv_def or_default_def split: option.splits)
  show ?thesis
    unfolding queue_inv_def
  proof (intro conjI allI impI)
    fix w assume "w < Suc n" "w_active ((W(n := x)) w)"
    then show "\<exists>ws. map_of (jmap_set k (or_default (map_of qs k) [] @ [n]) qs) (w_key ((W(n := x)) w)) = Some ws
        \<and> w \<in> set ws"
    proof (cases "w = n")
      case False
      with \<open>w < Suc n\<close> \<open>w_active ((W(n := x)) w)\<close> have "w < n" "w_active (W w)" by simp_all
      with inv obtain vs where "map_of qs (w_key (W w)) = Some vs" "w \<in> set vs"
        unfolding queue_inv_def by blast
      then show ?thesis using False by (cases "w_key (W w) = k") (simp_all add: or_default_def)
    qed (use x in simp)
  next
    fix k' vs assume m: "map_of (jmap_set k (or_default (map_of qs k) [] @ [n]) qs) k' = Some vs"
    have "distinct vs \<and> (\<forall>w \<in> set vs. w < Suc n \<and> w_active ((W(n := x)) w) \<and> w_key ((W(n := x)) w) = k')"
    proof (cases "k' = k")
      case True
      with m have "vs = or_default (map_of qs k) [] @ [n]" by simp
      then show ?thesis using ws [OF refl] x True by (auto simp: less_Suc_eq)
    next
      case False
      with m inv have "distinct vs \<and> (\<forall>w \<in> set vs. w < n \<and> w_active (W w) \<and> w_key (W w) = k')"
        by (simp add: queue_inv_def)
      then show ?thesis by auto
    qed
    then show "distinct vs" "\<forall>w \<in> set vs. w < Suc n \<and> w_active ((W(n := x)) w) \<and> w_key ((W(n := x)) w) = k'"
      by blast+
  qed (use inv sum in \<open>simp_all add: queue_inv_def\<close>)
qed

lemma queue_inv_cong:
  assumes inv: "queue_inv qs W n c" and ok: "jmap_ok qs'"
    and same: "\<And>k w ws. map_of qs' k = Some ws \<Longrightarrow> ws = [] \<or> map_of qs k = Some ws"
    and keep: "\<And>k w ws. map_of qs k = Some ws \<Longrightarrow> ws = [] \<or> map_of qs' k = Some ws"
    and sum: "jmap_sum length qs' = jmap_sum length qs"
  shows "queue_inv qs' W n c"
  unfolding queue_inv_def
proof (intro conjI allI impI)
  fix k ws assume m: "map_of qs' k = Some ws"
  have "distinct ws \<and> (\<forall>w \<in> set ws. w < n \<and> w_active (W w) \<and> w_key (W w) = k)"
    using same [OF m] inv unfolding queue_inv_def by (elim disjE) simp_all
  then show "distinct ws" "\<forall>w \<in> set ws. w < n \<and> w_active (W w) \<and> w_key (W w) = k" by blast+
next
  fix w assume "w < n" "w_active (W w)"
  with inv obtain ws where ws: "map_of qs (w_key (W w)) = Some ws" "w \<in> set ws"
    unfolding queue_inv_def by blast
  then have "ws \<noteq> []" by auto
  with keep [OF ws(1)] ws show "\<exists>ws. map_of qs' (w_key (W w)) = Some ws \<and> w \<in> set ws" by blast
qed (use inv ok sum in \<open>simp_all add: queue_inv_def\<close>)

lemma queue_inv_new:
  assumes "queue_inv qs W n c" and "map_of qs k = None"
  shows "queue_inv (jmap_set k [] qs) W n c"
  by (rule queue_inv_cong [OF assms(1)])
    (use assms in \<open>auto simp: queue_inv_def jmap_sum_set_new split: if_splits\<close>)

lemma queue_inv_del:
  assumes "queue_inv qs W n c" and "map_of qs k = Some []"
  shows "queue_inv (jmap_del k qs) W n c"
  by (rule queue_inv_cong [OF assms(1)])
    (use assms jmap_sum_del [of qs k "[]" length] in \<open>auto simp: queue_inv_def split: if_splits\<close>)

section \<open>The waiters' deadlines\<close>

lemma arm_entries [simp]: "entries (sched_arm s) = entries s" "closed (sched_arm s) = closed s"
  by (simp_all add: sched_arm_def Let_def)

lemma cancel_keeps [simp]:
  "run_id (entries (sched_cancel e s) i) = run_id (entries s i)"
  "at_ms (entries (sched_cancel e s) i) = at_ms (entries s i)"
  "closed (sched_cancel e s) = closed s"
  by (auto simp: sched_cancel_def Let_def deactivate_def split: option.splits)

lemma entry_at_cancel [simp]: "entry_at (sched_cancel e s) i = entry_at s i"
  by (simp add: entry_at_def)

lemma wsched_inv_cancel:
  assumes inv: "wsched_inv sc W n" and w: "w < n" "w_active (W w)" and x: "\<not> w_active x"
  shows "wsched_inv (sched_cancel (w_entry (W w)) sc) (W(w := x)) n"
proof -
  from inv w obtain i where i: "w_entry (W w) = Some i" "i \<in> pending sc" "run_id (entries sc i) = w"
    unfolding wsched_inv_def by blast
  have ok: "sched_ok sc" using inv by (simp add: wsched_inv_def)
  note c = cancel_ok [OF ok, of "Some i"] cancel_armed [OF ok, of i]
  show ?thesis
    unfolding wsched_inv_def i(1)
  proof (intro conjI allI impI ballI c(1) c(2))
    fix v assume v: "v < n" "w_active ((W(w := x)) v)"
    then have "v \<noteq> w" "w_active (W v)" using x by (auto split: if_splits)
    with inv v(1) obtain j where "w_entry (W v) = Some j" "j \<in> pending sc" "run_id (entries sc j) = v"
        "entry_at sc j = w_deadline (W v)"
      unfolding wsched_inv_def by blast
    then show "\<exists>j. w_entry ((W(w := x)) v) = Some j \<and> j \<in> pending (sched_cancel (Some i) sc) \<and>
        run_id (entries (sched_cancel (Some i) sc) j) = v \<and>
        entry_at (sched_cancel (Some i) sc) j = w_deadline ((W(w := x)) v)"
      using \<open>v \<noteq> w\<close> i(3) c(3) by auto
  next
    fix j assume "j \<in> pending (sched_cancel (Some i) sc)"
    then have j: "j \<in> pending sc" "j \<noteq> i" using c(3) by auto
    then have r: "run_id (entries sc j) < n" "w_active (W (run_id (entries sc j)))"
        "w_entry (W (run_id (entries sc j))) = Some j"
      using inv unfolding wsched_inv_def by blast+
    then have "run_id (entries sc j) \<noteq> w" using i(1) j(2) by auto
    then show "run_id (entries (sched_cancel (Some i) sc) j) < n"
      "w_active ((W(w := x)) (run_id (entries (sched_cancel (Some i) sc) j)))"
      "w_entry ((W(w := x)) (run_id (entries (sched_cancel (Some i) sc) j))) = Some j"
      using r by simp_all
  qed
qed

lemma schedule_fields:
  assumes "\<not> closed s"
  shows "entries (snd (schedule at run s)) = (entries s)(next_id s := \<lparr>at_ms = at, run_id = run, active = True\<rparr>)"
    "closed (snd (schedule at run s)) = closed s"
  using assms by (simp_all add: schedule_def Let_def)

lemma wsched_inv_enqueue:
  assumes inv: "wsched_inv sc W n" and op: "\<not> closed sc"
    and x: "w_entry x = fst (schedule (w_deadline x) n sc)" "w_active x"
  shows "wsched_inv (snd (schedule (w_deadline x) n sc)) (W(n := x)) (Suc n)"
proof -
  have ok: "sched_ok sc" using inv by (simp add: wsched_inv_def)
  note s = schedule_armed [OF ok op, of "w_deadline x" n] and f = schedule_fields [OF op, of "w_deadline x" n]
  have old: "i < next_id sc" if "i \<in> pending sc" for i using ok that by (auto simp: pending_def sched_ok_def)
  let ?s = "snd (schedule (w_deadline x) n sc)"
  have e: "entries ?s i = entries sc i" if "i \<in> pending sc" for i using f(1) old [OF that] by simp
  show ?thesis
    unfolding wsched_inv_def
  proof (intro conjI allI impI ballI schedule_ok [OF ok] s(1))
    fix v assume v: "v < Suc n" "w_active ((W(n := x)) v)"
    show "\<exists>i. w_entry ((W(n := x)) v) = Some i \<and> i \<in> pending ?s \<and> run_id (entries ?s i) = v \<and>
        entry_at ?s i = w_deadline ((W(n := x)) v)"
    proof (cases "v = n")
      case True
      then show ?thesis using x(1) s f(1) by (simp add: entry_at_def)
    next
      case False
      with v have "v < n" "w_active (W v)" by auto
      with inv obtain i where "w_entry (W v) = Some i" "i \<in> pending sc" "run_id (entries sc i) = v"
          "entry_at sc i = w_deadline (W v)"
        unfolding wsched_inv_def by blast
      then show ?thesis using False s(2) e by (auto simp: entry_at_def)
    qed
  next
    fix i assume "i \<in> pending ?s"
    then consider "i = next_id sc" | "i \<in> pending sc" using s(2) by auto
    then have "run_id (entries ?s i) < Suc n \<and> w_active ((W(n := x)) (run_id (entries ?s i))) \<and>
      w_entry ((W(n := x)) (run_id (entries ?s i))) = Some i"
    proof cases
      case 1
      then show ?thesis using x s(3) f(1) by simp
    next
      case 2
      then have "run_id (entries sc i) < n" "w_active (W (run_id (entries sc i)))"
          "w_entry (W (run_id (entries sc i))) = Some i" using inv unfolding wsched_inv_def by blast+
      then show ?thesis using e [OF 2] by simp
    qed
    then show "run_id (entries ?s i) < Suc n" "w_active ((W(n := x)) (run_id (entries ?s i)))"
      "w_entry ((W(n := x)) (run_id (entries ?s i))) = Some i" by blast+
  qed
qed

section \<open>A waiter leaves, the next one is promoted\<close>

definition queue_less :: "string \<Rightarrow> nat list \<Rightarrow> (string \<times> nat list) list \<Rightarrow> (string \<times> nat list) list" where
  "queue_less k ws qs = (if ws = [] then jmap_del k (jmap_set k ws qs) else jmap_set k ws qs)"

lemma queue_less_keys: "fst ` set (queue_less k ws qs) \<subseteq> insert k (fst ` set qs)"
  unfolding queue_less_def by (simp add: jmap_keys_set jmap_keys_del) blast

lemma queue_less_inv:
  assumes "queue_inv qs W n c" "map_of qs k = Some ws" "w \<in> set ws" "\<not> w_active x"
  shows "queue_inv (queue_less k (remove1 w ws) qs) (W(w := x)) n (c - 1)"
  unfolding queue_less_def by (rule queue_inv_leave [OF assms])

lemma leave_queue_eq:
  assumes "map_of (wait_queues st) (w_key (waiters st w)) = Some ws"
  shows "leave_queue w st = st\<lparr>waiters := (waiters st)(w := (waiters st w)\<lparr>w_active := False\<rparr>),
    wait_queues := queue_less (w_key (waiters st w)) (remove1 w ws) (wait_queues st),
    metrics := (metrics st)\<lparr>current_waiting := current_waiting (metrics st) - 1\<rparr>\<rparr>"
  using assms by (simp add: leave_queue_def Let_def upd_defs or_default_def queue_less_def)

lemma outcome_inv_upd:
  assumes "outcome_inv W n H m" "w_active x \<longleftrightarrow> w_outcome x = Waiting" "\<And>h. w_outcome x \<noteq> Granted h"
  shows "outcome_inv (W(w := x)) n H m"
  using assms by (auto simp: outcome_inv_def)

lemma link_but_sub:
  assumes "link_but k st" "fst ` set (wait_queues st') \<subseteq> insert key (fst ` set (wait_queues st))"
    "key \<in> fst ` set (wait_queues st)" "locks st' = locks st" "destroyed st' = destroyed st"
    "closed (wait_sched st') = closed (wait_sched st)"
    "destroyed st \<longrightarrow> wait_queues st' = []"
  shows "link_but k st'"
proof -
  have "fst ` set (wait_queues st') \<subseteq> fst ` set (wait_queues st)" using assms(2,3) by blast
  then show ?thesis using assms(1,4-7) unfolding link_but_def by (simp add: subset_trans)
qed

lemma active_queue:
  assumes "mem_inv_but k st" "w < next_waiter st" "w_active (waiters st w)"
  obtains ws where "map_of (wait_queues st) (w_key (waiters st w)) = Some ws" "w \<in> set ws"
  using assms unfolding mem_inv_but_def queue_inv_def by blast

lemma not_destroyed: "mem_inv_but k st \<Longrightarrow> map_of (wait_queues st) key = Some ws \<Longrightarrow> \<not> destroyed st"
  by (auto simp: mem_inv_but_def link_but_def)

lemma abort_waiter_inv:
  assumes inv: "mem_inv_but k st" and w: "w < next_waiter st"
  shows "mem_inv_but k (abort_waiter w st)"
proof (cases "w_active (waiters st w)")
  case True
  let ?x = "(waiters st w)\<lparr>w_active := False, w_outcome := Rejected LockAborted\<rparr>"
  obtain ws where ws: "map_of (wait_queues st) (w_key (waiters st w)) = Some ws" "w \<in> set ws"
    using active_queue [OF inv w True] .
  have st': "abort_waiter w st = st\<lparr>waiters := (waiters st)(w := ?x),
      wait_queues := queue_less (w_key (waiters st w)) (remove1 w ws) (wait_queues st),
      metrics := (metrics st)\<lparr>current_waiting := current_waiting (metrics st) - 1\<rparr>,
      wait_sched := sched_cancel (w_entry (waiters st w)) (wait_sched st)\<rparr>" (is "_ = ?st'")
    using True by (simp add: abort_waiter_def leave_queue_eq [OF ws(1)] cancel_entry_def upd_waiter_def)
  have "link_but k ?st'"
    by (rule link_but_sub [of k st _ "w_key (waiters st w)"])
      (use inv queue_less_keys ws(1) not_destroyed [OF inv ws(1)] in
        \<open>simp_all add: mem_inv_but_def jmap_key_iff\<close>)
  then show ?thesis
    using inv w True queue_less_inv [of "wait_queues st" _ _ _ _ ws w ?x] ws
      wsched_inv_cancel [of _ "waiters st" _ w ?x] outcome_inv_upd [of _ _ _ _ ?x w]
    unfolding st' by (simp add: mem_inv_but_def count_inv_def)
qed (use inv in \<open>simp add: abort_waiter_def\<close>)

lemma promote_loop_Cons:
  assumes "w_active (waiters st w)"
  shows "promote_loop key now (w # ws) st =
    st\<lparr>waiters := (waiters st)(w := (waiters st w)\<lparr>w_active := False, w_outcome := Granted (next_handle st)\<rparr>),
       wait_queues := queue_less key ws (wait_queues st),
       wait_sched := sched_cancel (w_entry (waiters st w)) (wait_sched st),
       fence := fence st + 1, next_handle := Suc (next_handle st),
       handles := (handles st)(next_handle st := \<lparr>lock_key = key, fencing_token = fence st + 1,
         acquired_at = now, expires_at = now + w_ttl (waiters st w), released = False\<rparr>),
       locks := jmap_set key \<lparr>holder = next_handle st, timer_due = now + w_ttl (waiters st w)\<rparr> (locks st),
       metrics := (metrics st)\<lparr>current_waiting := current_waiting (metrics st) - 1,
         total_acquired := total_acquired (metrics st) + 1,
         current_active := current_active (metrics st) + 1\<rparr>\<rparr>"
  using assms by (simp add: Let_def upd_defs create_lock_handle_def queue_less_def)

lemma outcome_inv_handle:
  assumes "outcome_inv W n H m"
  shows "outcome_inv W n (H(m := x)) (Suc m)"
  using assms by (auto simp: outcome_inv_def less_SucI)

lemma outcome_inv_grant:
  assumes "outcome_inv W n H m" "\<not> w_active x" "w_outcome x = Granted m" "lock_key y = w_key x"
  shows "outcome_inv (W(w := x)) n (H(m := y)) (Suc m)"
  using assms by (auto simp: outcome_inv_def less_SucI)

lemma outcome_inv_same_keys:
  assumes "outcome_inv W n H m" "lock_key y = lock_key (H h)"
  shows "outcome_inv W n (H(h := y)) m"
  using assms by (auto simp: outcome_inv_def)

lemma count_inv_create:
  assumes "count_inv ls m" "map_of ls k = None"
    "current_active m' = current_active m + 1" "total_acquired m' = total_acquired m + 1"
    "total_released m' = total_released m" "total_expired m' = total_expired m"
  shows "count_inv (jmap_set k e ls) m'"
  using assms by (simp add: count_inv_def length_jmap_set_new)

lemma promote_next_inv:
  assumes inv: "mem_inv_but (Some key) st" and free: "map_of (locks st) key = None"
  shows "mem_inv (promote_next key now st)"
proof (cases "map_of (wait_queues st) key")
  case None
  then have "key \<notin> fst ` set (wait_queues st)" by (simp add: jmap_key_iff)
  then have "link_but None st" using inv by (auto simp: mem_inv_but_def link_but_def)
  then show ?thesis using inv None by (simp add: promote_next_def mem_inv_but_def)
next
  case (Some ws)
  have nd: "\<not> destroyed st" by (rule not_destroyed [OF inv Some])
  show ?thesis
  proof (cases ws)
    case Nil
    have "link_but None (delete_queue key st)"
      using inv nd by (auto simp: mem_inv_but_def link_but_def delete_queue_def)
    then show ?thesis
      using inv Some Nil queue_inv_del by (simp add: promote_next_def mem_inv_but_def delete_queue_def)
  next
    case (Cons w us)
    have w: "w < next_waiter st" "w_active (waiters st w)" "w_key (waiters st w) = key" "distinct (w # us)"
    proof -
      have "distinct ws \<and> (\<forall>w \<in> set ws. w < next_waiter st \<and> w_active (waiters st w) \<and> w_key (waiters st w) = key)"
        using inv Some unfolding mem_inv_but_def queue_inv_def by blast
      then show "w < next_waiter st" "w_active (waiters st w)" "w_key (waiters st w) = key" "distinct (w # us)"
        using Cons by simp_all
    qed
    let ?x = "(waiters st w)\<lparr>w_active := False, w_outcome := Granted (next_handle st)\<rparr>"
    let ?y = "\<lparr>lock_key = key, fencing_token = fence st + 1, acquired_at = now,
        expires_at = now + w_ttl (waiters st w), released = False\<rparr>"
    have st': "promote_next key now st = promote_loop key now (w # us) st"
      using Some Cons by (simp add: promote_next_def)
    have lk: "locks_inv (jmap_set key \<lparr>holder = next_handle st, timer_due = now + w_ttl (waiters st w)\<rparr> (locks st))
        ((handles st)(next_handle st := ?y)) (Suc (next_handle st)) (fence st + 1)"
      using inv free by (intro locks_inv_create) (simp_all add: mem_inv_but_def)
    have qu: "queue_inv (queue_less key us (wait_queues st)) ((waiters st)(w := ?x)) (next_waiter st)
        (current_waiting (metrics st) - 1)"
      using inv Some Cons queue_less_inv [of "wait_queues st" _ _ _ key "w # us" w ?x]
      by (simp add: mem_inv_but_def)
    have sc: "wsched_inv (sched_cancel (w_entry (waiters st w)) (wait_sched st)) ((waiters st)(w := ?x)) (next_waiter st)"
      using inv w by (intro wsched_inv_cancel) (simp_all add: mem_inv_but_def)
    have oc: "outcome_inv ((waiters st)(w := ?x)) (next_waiter st) ((handles st)(next_handle st := ?y)) (Suc (next_handle st))"
      using inv w by (intro outcome_inv_grant) (simp_all add: mem_inv_but_def)
    have "fst ` set (wait_queues st) \<subseteq> insert key (fst ` set (locks st))"
      using inv by (auto simp: mem_inv_but_def link_but_def)
    then have li: "fst ` set (queue_less key us (wait_queues st)) \<subseteq> insert key (fst ` set (locks st))"
      using queue_less_keys [of key us "wait_queues st"] by blast
    show ?thesis
      unfolding st' promote_loop_Cons [where key = key and now = now and ws = us, OF w(2)] mem_inv_but_def
      using lk qu sc oc li inv nd free
      by (simp add: mem_inv_but_def link_but_def count_inv_def length_jmap_set_new)
  qed
qed

section \<open>Every operation keeps the invariant\<close>

lemma holder_eq:
  assumes "mem_inv_but k st" "map_of (locks st) key = Some e" "h < next_handle st"
    "fencing_token (handles st (holder e)) = fencing_token (handles st h)"
  shows "holder e = h"
  using assms locks_inv_holder [of "locks st" "handles st" "next_handle st" "fence st" key e h]
  by (simp add: mem_inv_but_def)

lemma unreleased_holder:
  assumes "mem_inv_but k st" "h < next_handle st" "\<not> released (handles st h)"
  obtains e where "map_of (locks st) (lock_key (handles st h)) = Some e" "holder e = h"
proof -
  have "\<forall>h < next_handle st. \<not> released (handles st h) \<longrightarrow>
      (\<exists>e. map_of (locks st) (lock_key (handles st h)) = Some e \<and> holder e = h)"
    using assms(1) unfolding mem_inv_but_def locks_inv_def by (elim conjE)
  then show ?thesis using assms(2,3) that by blast
qed

lemma drop_holder_inv:
  assumes inv: "mem_inv st" and h: "h < next_handle st" and e: "map_of (locks st) key = Some e"
    and tok: "fencing_token (handles st (holder e)) = fencing_token (handles st h)"
    and f: "\<And>m. current_active (f m) = current_active m - 1 \<and> total_acquired (f m) = total_acquired m \<and>
      total_released (f m) + total_expired (f m) = total_released m + total_expired m + 1 \<and>
      current_waiting (f m) = current_waiting m"
  shows "mem_inv (promote_next key now (upd_metrics f (upd_handle h (\<lambda>x. x\<lparr>released := True\<rparr>) (drop_lock key st))))"
    (is "mem_inv (promote_next key now ?st)")
proof -
  have he: "holder e = h" by (rule holder_eq [OF inv e h tok])
  have ok: "jmap_ok (locks st)" using inv by (simp add: mem_inv_but_def locks_inv_def)
  have lk: "locks_inv (jmap_del key (locks st)) ((handles st)(h := (handles st h)\<lparr>released := True\<rparr>))
      (next_handle st) (fence st)"
    using inv e he locks_inv_drop by (auto simp: mem_inv_but_def)
  have oc: "outcome_inv (waiters st) (next_waiter st) ((handles st)(h := (handles st h)\<lparr>released := True\<rparr>)) (next_handle st)"
    using inv by (intro outcome_inv_same_keys) (simp_all add: mem_inv_but_def)
  have li: "link_but (Some key) ?st"
    using inv e by (auto simp: mem_inv_but_def link_but_def upd_defs)
  have "length (locks st) = Suc (length (jmap_del key (locks st)))"
    using length_jmap_del [OF ok e] by simp
  then have "mem_inv_but (Some key) ?st"
    using lk oc li inv f [of "metrics st"] unfolding mem_inv_but_def by (simp add: upd_defs count_inv_def)
  then show ?thesis by (rule promote_next_inv) (simp add: upd_defs)
qed

lemma expire_handle_inv:
  assumes "mem_inv st" and "h < next_handle st"
  shows "mem_inv (snd (expire_handle key h now st))"
  using assms drop_holder_inv by (auto simp: expire_handle_def Let_def split: option.splits)

lemma lock_holder: "mem_inv_but k st \<Longrightarrow> map_of (locks st) key = Some e \<Longrightarrow> holder e < next_handle st"
  by (simp add: mem_inv_but_def locks_inv_def)

lemma evict_expired_inv: "mem_inv st \<Longrightarrow> mem_inv (evict_expired key now st)"
  using expire_handle_inv lock_holder by (auto simp: evict_expired_def split: option.splits)

lemma expiry_timer_inv: "mem_inv st \<Longrightarrow> mem_inv (expiry_timer key now st)"
  using expire_handle_inv lock_holder by (auto simp: expiry_timer_def split: option.splits)

lemma is_locked_inv: "mem_inv st \<Longrightarrow> mem_inv (snd (is_locked key now st))"
  using evict_expired_inv by (auto simp: is_locked_def Let_def split: sum.splits)

lemma release_lock_inv:
  assumes "mem_inv st" and "h < next_handle st"
  shows "mem_inv (snd (release_lock h now st))"
proof -
  let ?key = "lock_key (handles st h)"
  let ?st = "upd_metrics (\<lambda>m. m\<lparr>total_released := total_released m + 1, current_active := current_active m - 1\<rparr>)
      (upd_handle h (\<lambda>x. x\<lparr>released := True\<rparr>) (drop_lock ?key st))"
  have x: "mem_inv (snd (expire_handle ?key h now st))" by (rule expire_handle_inv [OF assms])
  show ?thesis
  proof (cases "map_of (locks st) ?key")
    case None
    then show ?thesis using assms(1) by (simp add: release_lock_def)
  next
    case (Some e)
    show ?thesis
    proof (cases "fencing_token (handles st (holder e)) = fencing_token (handles st h)")
      case True
      have p: "mem_inv (promote_next ?key now ?st)" by (rule drop_holder_inv [OF assms Some True]) simp
      show ?thesis unfolding release_lock_def Let_def using assms(1) Some True x p by simp
    next
      case False
      then show ?thesis using assms(1) Some by (simp add: release_lock_def)
    qed
  qed
qed

lemma heartbeat_inv:
  assumes inv: "mem_inv st" and h: "h < next_handle st"
  shows "mem_inv (snd (heartbeat h ms now st))"
proof -
  let ?key = "lock_key (handles st h)"
  have gone: "mem_inv (upd_handle h (\<lambda>x. x\<lparr>released := True\<rparr>) st)"
    if r: "\<not> released (handles st h)" and nt: "\<forall>e. map_of (locks st) ?key = Some e \<longrightarrow> fencing_token (handles st (holder e)) \<noteq> fencing_token (handles st h)"
  proof -
    obtain e where "map_of (locks st) ?key = Some e" "holder e = h"
      using unreleased_holder [OF inv h r] .
    then show ?thesis using nt by simp
  qed
  have beat: "mem_inv (upd_handle h (\<lambda>x. x\<lparr>expires_at := t\<rparr>) st
      \<lparr>locks := jmap_set ?key (e\<lparr>timer_due := t\<rparr>) (locks st)\<rparr>)"
    if e: "map_of (locks st) ?key = Some e" and tok: "fencing_token (handles st (holder e)) = fencing_token (handles st h)" for e t
  proof -
    have he: "holder e = h" by (rule holder_eq [OF inv e h tok])
    have "?key \<in> fst ` set (locks st)" using e by (simp add: jmap_key_iff)
    then have "insert ?key (fst ` set (locks st)) = fst ` set (locks st)" by (rule insert_absorb)
    moreover have "\<not> destroyed st" using inv e by (auto simp: mem_inv_but_def link_but_def)
    moreover have "outcome_inv (waiters st) (next_waiter st) ((handles st)(h := (handles st h)\<lparr>expires_at := t\<rparr>)) (next_handle st)"
      using inv by (intro outcome_inv_same_keys) (simp_all add: mem_inv_but_def)
    ultimately show ?thesis
      using inv locks_inv_extend [of "locks st" "handles st" "next_handle st" "fence st" ?key e t] e he
      unfolding mem_inv_but_def by (simp add: upd_defs link_but_def count_inv_def length_jmap_set_old)
  qed
  have x: "mem_inv (snd (expire_handle ?key h now st))" by (rule expire_handle_inv [OF inv h])
  show ?thesis
  proof (cases "released (handles st h)")
    case False
    show ?thesis
    proof (cases "map_of (locks st) ?key")
      case None
      then show ?thesis using inv gone [OF False] unfolding heartbeat_def Let_def by (simp split: sum.split)
    next
      case (Some e)
      show ?thesis
      proof (cases "fencing_token (handles st (holder e)) = fencing_token (handles st h)")
        case True
        have b: "mem_inv (upd_handle h (\<lambda>x. x\<lparr>expires_at := t\<rparr>) st
          \<lparr>locks := jmap_set ?key (e\<lparr>timer_due := t\<rparr>) (locks st)\<rparr>)" for t by (rule beat [OF Some True])
        then show ?thesis
          unfolding heartbeat_def Let_def using inv False Some True x
          by (simp add: upd_handle_def split: sum.split)
      next
        case other: False
        then show ?thesis using inv gone [OF False] Some unfolding heartbeat_def Let_def
          by (simp split: sum.split)
      qed
    qed
  qed (use inv in \<open>simp add: heartbeat_def\<close>)
qed

lemma create_lock_handle_inv:
  assumes inv: "mem_inv st" and free: "map_of (locks st) key = None" and nd: "\<not> destroyed st"
  shows "mem_inv (snd (create_lock_handle key ttl now st))"
proof -
  let ?y = "\<lparr>lock_key = key, fencing_token = fence st + 1, acquired_at = now, expires_at = now + ttl, released = False\<rparr>"
  have lk: "locks_inv (jmap_set key \<lparr>holder = next_handle st, timer_due = now + ttl\<rparr> (locks st))
      ((handles st)(next_handle st := ?y)) (Suc (next_handle st)) (fence st + 1)"
    using inv free by (intro locks_inv_create) (simp_all add: mem_inv_but_def)
  have "outcome_inv (waiters st) (next_waiter st) ((handles st)(next_handle st := ?y)) (Suc (next_handle st))"
    using inv by (intro outcome_inv_handle) (simp add: mem_inv_but_def)
  moreover have "fst ` set (wait_queues st) \<subseteq> insert key (fst ` set (locks st))"
    using inv by (auto simp: mem_inv_but_def link_but_def)
  ultimately show ?thesis
    using lk inv nd free unfolding mem_inv_but_def
    by (simp add: create_lock_handle_def Let_def upd_defs link_but_def count_inv_def length_jmap_set_new)
qed

lemma queue_for_inv:
  assumes inv: "mem_inv st" and held: "map_of (locks st) key \<noteq> None" and nd: "\<not> destroyed st"
  shows "mem_inv (queue_for key st)"
proof (cases "map_of (wait_queues st) key")
  case None
  have "queue_inv (jmap_set key [] (wait_queues st)) (waiters st) (next_waiter st) (current_waiting (metrics st))"
    by (rule queue_inv_new [OF _ None]) (use inv in \<open>simp add: mem_inv_but_def\<close>)
  moreover have "key \<in> fst ` set (locks st)" using held by (simp add: jmap_key_iff)
  ultimately show ?thesis using inv None nd by (simp add: queue_for_def mem_inv_but_def link_but_def)
next
  case (Some ws)
  then show ?thesis using inv by (simp add: queue_for_def)
qed

lemma enqueue_eq:
  assumes "\<not> closed (wait_sched st)"
  shows "enqueue_waiter key ttl wait now signal st =
    (let w = next_waiter st;
         x = \<lparr>w_key = key, w_ttl = ttl, w_wait = wait, w_deadline = now + wait,
           w_entry = fst (schedule (now + wait) w (wait_sched st)), w_active = True, w_outcome = Waiting\<rparr>;
         st2 = st\<lparr>wait_sched := snd (schedule (now + wait) w (wait_sched st)), next_waiter := Suc w,
           waiters := (waiters st)(w := x),
           wait_queues := jmap_set key (or_default (map_of (wait_queues st) key) [] @ [w]) (wait_queues st)\<rparr>
     in (w, if signal = Some True then abort_waiter w st2 else st2))"
  by (simp add: enqueue_waiter_def Let_def set_queue_def split: prod.split)

lemma enqueue_inv:
  assumes inv: "mem_inv st" and held: "map_of (locks st) key \<noteq> None" and nd: "\<not> destroyed st"
  shows "mem_inv (snd (enqueue_waiter key ttl wait now signal
      (upd_metrics (\<lambda>m. m\<lparr>current_waiting := current_waiting m + 1\<rparr>) st)))"
proof -
  have cl: "\<not> closed (wait_sched st)" using inv nd by (simp add: mem_inv_but_def link_but_def)
  let ?w = "next_waiter st"
  let ?x = "\<lparr>w_key = key, w_ttl = ttl, w_wait = wait, w_deadline = now + wait,
      w_entry = fst (schedule (now + wait) ?w (wait_sched st)), w_active = True, w_outcome = Waiting\<rparr>"
  let ?qs = "jmap_set key (or_default (map_of (wait_queues st) key) [] @ [?w]) (wait_queues st)"
  let ?st = "st\<lparr>metrics := (metrics st)\<lparr>current_waiting := current_waiting (metrics st) + 1\<rparr>,
      wait_sched := snd (schedule (now + wait) ?w (wait_sched st)), next_waiter := Suc ?w,
      waiters := (waiters st)(?w := ?x), wait_queues := ?qs\<rparr>"
  have "queue_inv ?qs ((waiters st)(?w := ?x)) (Suc ?w) (Suc (current_waiting (metrics st)))"
    using inv by (intro queue_inv_enqueue) (simp_all add: mem_inv_but_def)
  moreover have "wsched_inv (snd (schedule (w_deadline ?x) ?w (wait_sched st))) ((waiters st)(?w := ?x)) (Suc ?w)"
    using inv cl by (intro wsched_inv_enqueue) (simp_all add: mem_inv_but_def)
  moreover have "outcome_inv ((waiters st)(?w := ?x)) (Suc ?w) (handles st) (next_handle st)"
    using inv by (auto simp: mem_inv_but_def outcome_inv_def less_Suc_eq)
  moreover have "key \<in> fst ` set (locks st)" using held by (simp add: jmap_key_iff)
  ultimately have "mem_inv ?st"
    using inv cl nd schedule_fields(2) [OF cl, of "now + wait" ?w]
    unfolding mem_inv_but_def by (simp add: link_but_def count_inv_def)
  then show ?thesis
    using abort_waiter_inv [of None ?st ?w] cl by (simp add: enqueue_eq Let_def upd_metrics_def)
qed

lemma promote_loop_destroyed [simp]: "destroyed (promote_loop key now ws st) = destroyed st"
  by (induction key now ws st rule: promote_loop.induct)
    (simp_all add: Let_def upd_defs create_lock_handle_def)

lemma evict_destroyed [simp]: "destroyed (evict_expired key now st) = destroyed st"
  by (simp add: evict_expired_def expire_handle_def Let_def promote_next_def upd_defs split: option.split)

text \<open>The state after \<open>acquire\<close>: unchanged when an argument is rejected, otherwise one of the
  four outcomes for the evicted state.\<close>

definition acquire_args :: "string option \<Rightarrow> js_number option \<Rightarrow> js_number option \<Rightarrow> bool option \<Rightarrow> mem_lock
    \<Rightarrow> lock_error + (string \<times> int \<times> int)" where
  "acquire_args key0 ttl0 wait0 signal st =
     ebind (assert_active st) (\<lambda>_.
           ebind (normalize_lock_key key0) (\<lambda>key.
           ebind (throw_if_acquire_aborted signal) (\<lambda>_.
           ebind (positive_duration ttl0 (default_ttl (config st)) ''ttlMs'') (\<lambda>ttl.
           ebind (non_negative_duration wait0 (max_wait (config st)) ''waitMs'') (\<lambda>wait.
             Inr (key, ttl, wait))))))"

definition acquire_held :: "string \<Rightarrow> int \<Rightarrow> int \<Rightarrow> bool option \<Rightarrow> int \<Rightarrow> mem_lock
    \<Rightarrow> (lock_error + acquire_result) \<times> mem_lock" where
  "acquire_held key ttl wait signal now st1 =
     (if wait \<le> 0 then
        (Inl (LockTimeout 0), upd_metrics (\<lambda>m. m\<lparr>total_timed_out := total_timed_out m + 1\<rparr>) st1)
      else
        (let st2 = queue_for key st1
         in if int (current_waiting (metrics st2)) \<ge> max_queue_depth (config st2)
            then (Inl (LockQueueFull (max_queue_depth (config st2))), st2)
            else
              (let st3 = upd_metrics (\<lambda>m. m\<lparr>current_waiting := current_waiting m + 1\<rparr>) st2;
                   (w, st4) = enqueue_waiter key ttl wait now signal st3
               in (Inr (Queued w), st4))))"

lemma acquire_cases:
  "acquire key0 ttl0 wait0 signal now st =
     (case acquire_args key0 ttl0 wait0 signal st of
        Inl e \<Rightarrow> (Inl e, st)
      | Inr (key, ttl, wait) \<Rightarrow>
          (let st1 = evict_expired key now st
           in if map_of (locks st1) key \<noteq> None then acquire_held key ttl wait signal now st1
              else (case create_lock_handle key ttl now st1 of (h, st2) \<Rightarrow> (Inr (Acquired h), st2))))"
  unfolding acquire_def acquire_args_def acquire_held_def ..

lemma acquire_held_inv:
  assumes inv: "mem_inv st" and held: "map_of (locks st) key \<noteq> None" and nd: "\<not> destroyed st"
  shows "mem_inv (snd (acquire_held key ttl wait signal now st))"
proof -
  have "mem_inv (upd_metrics (\<lambda>m. m\<lparr>total_timed_out := total_timed_out m + 1\<rparr>) st)"
    using inv by (simp add: mem_inv_but_def upd_metrics_def count_inv_def link_but_def)
  moreover have q: "mem_inv (queue_for key st)" by (rule queue_for_inv [OF assms])
  moreover have "mem_inv (snd (enqueue_waiter key ttl wait now signal
      (upd_metrics (\<lambda>m. m\<lparr>current_waiting := current_waiting m + 1\<rparr>) (queue_for key st))))"
    by (rule enqueue_inv [OF q]) (use held nd in \<open>simp_all add: queue_for_def split: option.split\<close>)
  ultimately show ?thesis
    unfolding acquire_held_def Let_def by (simp only: snd_conv case_prod_beta split: if_split) blast
qed

lemma acquire_inv:
  assumes inv: "mem_inv st"
  shows "mem_inv (snd (acquire key ttl wait signal now st))"
proof (cases "acquire_args key ttl wait signal st")
  case (Inl e)
  then show ?thesis using inv by (simp add: acquire_cases)
next
  case (Inr r)
  obtain k t w where r: "r = (k, t, w)" by (cases r)
  have nd: "\<not> destroyed st" using Inr by (auto simp: acquire_args_def assert_active_def)
  have e: "mem_inv (evict_expired k now st)" "\<not> destroyed (evict_expired k now st)"
    using evict_expired_inv [OF inv] nd by simp_all
  show ?thesis
    using acquire_held_inv [OF e(1) _ e(2)] create_lock_handle_inv [OF e(1) _ e(2)] Inr r
    by (cases "map_of (locks (evict_expired k now st)) k = None")
      (simp_all add: acquire_cases Let_def case_prod_beta del: not_None_eq)
qed

section \<open>Timeouts\<close>

text \<open>Everything but the scheduler: what the waiters' timeout callbacks keep while the
  scheduler drains.\<close>

definition mem_inv_ns :: "mem_lock \<Rightarrow> bool" where
  "mem_inv_ns st \<longleftrightarrow>
     locks_inv (locks st) (handles st) (next_handle st) (fence st) \<and>
     count_inv (locks st) (metrics st) \<and>
     queue_inv (wait_queues st) (waiters st) (next_waiter st) (current_waiting (metrics st)) \<and>
     outcome_inv (waiters st) (next_waiter st) (handles st) (next_handle st) \<and>
     link_but None st"

lemma mem_inv_ns: "mem_inv st \<longleftrightarrow> mem_inv_ns st \<and> wsched_inv (wait_sched st) (waiters st) (next_waiter st)"
  by (auto simp: mem_inv_but_def mem_inv_ns_def)

definition timed_out :: "mem_waiter \<Rightarrow> mem_waiter" where
  "timed_out x = x\<lparr>w_active := False, w_outcome := Rejected (LockTimeout (w_wait x))\<rparr>"

lemma timeout_waiter_step:
  assumes inv: "mem_inv_ns st" and w: "w < next_waiter st"
  shows "mem_inv_ns (timeout_waiter w st)"
    "waiters (timeout_waiter w st) =
      (if w_active (waiters st w) then (waiters st)(w := timed_out (waiters st w)) else waiters st)"
    "next_waiter (timeout_waiter w st) = next_waiter st"
    "wait_sched (timeout_waiter w st) = wait_sched st"
    "locks (timeout_waiter w st) = locks st" "handles (timeout_waiter w st) = handles st"
    "destroyed (timeout_waiter w st) = destroyed st" "next_handle (timeout_waiter w st) = next_handle st"
proof -
  have all: "mem_inv_ns (timeout_waiter w st) \<and> waiters (timeout_waiter w st) =
      (if w_active (waiters st w) then (waiters st)(w := timed_out (waiters st w)) else waiters st) \<and>
      next_waiter (timeout_waiter w st) = next_waiter st \<and> wait_sched (timeout_waiter w st) = wait_sched st \<and>
      locks (timeout_waiter w st) = locks st \<and> handles (timeout_waiter w st) = handles st \<and>
      destroyed (timeout_waiter w st) = destroyed st \<and> next_handle (timeout_waiter w st) = next_handle st"
  proof (cases "w_active (waiters st w)")
    case True
    obtain ws where ws: "map_of (wait_queues st) (w_key (waiters st w)) = Some ws" "w \<in> set ws"
      using inv w True unfolding mem_inv_ns_def queue_inv_def by blast
    let ?st' = "st\<lparr>waiters := (waiters st)(w := timed_out (waiters st w)),
        wait_queues := queue_less (w_key (waiters st w)) (remove1 w ws) (wait_queues st),
        metrics := (metrics st)\<lparr>current_waiting := current_waiting (metrics st) - 1,
          total_timed_out := total_timed_out (metrics st) + 1\<rparr>\<rparr>"
    have st': "timeout_waiter w st = ?st'"
      using True by (simp add: timeout_waiter_def leave_queue_eq [OF ws(1)] upd_defs timed_out_def)
    have "link_but None ?st'"
      by (rule link_but_sub [of None st _ "w_key (waiters st w)"])
        (use inv queue_less_keys ws(1) in \<open>auto simp: mem_inv_ns_def jmap_key_iff link_but_def\<close>)
    then have "mem_inv_ns ?st'"
      using inv queue_less_inv [of "wait_queues st" _ _ _ _ ws w "timed_out (waiters st w)"] ws
        outcome_inv_upd [of _ _ _ _ "timed_out (waiters st w)" w]
      by (simp add: mem_inv_ns_def count_inv_def timed_out_def)
    then show ?thesis using True unfolding st' by simp
  qed (use inv in \<open>simp add: timeout_waiter_def\<close>)
  then show "mem_inv_ns (timeout_waiter w st)"
    "waiters (timeout_waiter w st) =
      (if w_active (waiters st w) then (waiters st)(w := timed_out (waiters st w)) else waiters st)"
    "next_waiter (timeout_waiter w st) = next_waiter st"
    "wait_sched (timeout_waiter w st) = wait_sched st"
    "locks (timeout_waiter w st) = locks st" "handles (timeout_waiter w st) = handles st"
    "destroyed (timeout_waiter w st) = destroyed st" "next_handle (timeout_waiter w st) = next_handle st"
    by simp_all
qed

lemma timeout_fold:
  assumes "mem_inv_ns st" "\<forall>w \<in> set vs. w < next_waiter st"
  defines "st' \<equiv> fold timeout_waiter vs st"
  shows "mem_inv_ns st' \<and> next_waiter st' = next_waiter st \<and> wait_sched st' = wait_sched st \<and>
    locks st' = locks st \<and> handles st' = handles st \<and> destroyed st' = destroyed st \<and>
    next_handle st' = next_handle st \<and>
    (\<forall>w. waiters st' w = (if w \<in> set vs \<and> w_active (waiters st w) then timed_out (waiters st w) else waiters st w))"
  using assms(1,2) unfolding st'_def
proof (induction vs arbitrary: st)
  case Nil
  then show ?case by simp
next
  case (Cons v vs)
  have v: "v < next_waiter st" using Cons.prems(2) by simp
  note step = timeout_waiter_step [OF Cons.prems(1) v]
  have "\<forall>w \<in> set vs. w < next_waiter (timeout_waiter v st)" using Cons.prems(2) step(3) by simp
  from Cons.IH [OF step(1) this] show ?case by (simp add: step(2-)) (auto simp: timed_out_def)
qed

lemma fire_runs: "fire f s is w = fold f (map (\<lambda>i. run_id (entries s i)) is) w"
  by (simp add: fire_def fold_map comp_def)

lemma wsched_entry:
  assumes "wsched_inv sc W n" "w < n" "w_active (W w)"
  obtains i where "w_entry (W w) = Some i" "i \<in> pending sc" "run_id (entries sc i) = w" "entry_at sc i = w_deadline (W w)"
  using assms unfolding wsched_inv_def by blast

lemma wsched_pending:
  assumes "wsched_inv sc W n" "i \<in> pending sc"
  shows "run_id (entries sc i) < n \<and> w_active (W (run_id (entries sc i))) \<and>
    w_entry (W (run_id (entries sc i))) = Some i \<and> entry_at sc i = w_deadline (W (run_id (entries sc i)))"
proof -
  have r: "run_id (entries sc i) < n" "w_active (W (run_id (entries sc i)))"
      "w_entry (W (run_id (entries sc i))) = Some i"
    using assms unfolding wsched_inv_def by blast+
  moreover obtain j where "w_entry (W (run_id (entries sc i))) = Some j" "entry_at sc j = w_deadline (W (run_id (entries sc i)))"
    using wsched_entry [OF assms(1) r(1,2)] by metis
  ultimately show ?thesis by simp
qed

lemma wsched_inv_drained:
  assumes inv: "wsched_inv sc W n" and ok: "sched_ok sc'" "sched_armed sc'"
    and p: "pending sc' = {i \<in> pending sc. now < entry_at sc i}"
    and e: "\<And>i. run_id (entries sc' i) = run_id (entries sc i)" "\<And>i. at_ms (entries sc' i) = at_ms (entries sc i)"
    and W': "\<And>w. w < n \<Longrightarrow> W' w = (if w_active (W w) \<and> w_deadline (W w) \<le> now then timed_out (W w) else W w)"
  shows "wsched_inv sc' W' n"
proof -
  have at: "entry_at sc' i = entry_at sc i" for i by (simp add: entry_at_def e)
  show ?thesis
    unfolding wsched_inv_def
  proof (intro conjI allI impI ballI ok)
    fix w assume w: "w < n" "w_active (W' w)"
    then have a: "w_active (W w)" "now < w_deadline (W w)" "W' w = W w"
      using W' [OF w(1)] by (auto simp: timed_out_def split: if_splits)
    obtain i where "w_entry (W w) = Some i" "i \<in> pending sc" "run_id (entries sc i) = w" "entry_at sc i = w_deadline (W w)"
      by (rule wsched_entry [OF inv w(1) a(1)])
    then show "\<exists>i. w_entry (W' w) = Some i \<and> i \<in> pending sc' \<and> run_id (entries sc' i) = w \<and>
        entry_at sc' i = w_deadline (W' w)"
      using a p e at by auto
  next
    fix i assume "i \<in> pending sc'"
    then have i: "i \<in> pending sc" "now < entry_at sc i" using p by auto
    note r = wsched_pending [OF inv i(1)]
    then have "W' (run_id (entries sc i)) = W (run_id (entries sc i))"
      using W' [of "run_id (entries sc i)"] i(2) by auto
    then show "run_id (entries sc' i) < n" "w_active (W' (run_id (entries sc' i)))"
      "w_entry (W' (run_id (entries sc' i))) = Some i"
      using r e by simp_all
  qed
qed

lemma wait_timer_spec:
  assumes inv: "mem_inv st"
  shows "mem_inv (wait_timer now st) \<and> locks (wait_timer now st) = locks st \<and>
    handles (wait_timer now st) = handles st \<and> next_waiter (wait_timer now st) = next_waiter st \<and>
    next_handle (wait_timer now st) = next_handle st \<and>
    (\<forall>w < next_waiter st. waiters (wait_timer now st) w =
      (if w_active (waiters st w) \<and> w_deadline (waiters st w) \<le> now then timed_out (waiters st w) else waiters st w))"
proof -
  let ?s = "wait_sched st" and ?cb = "\<lambda>w (s :: scheduler, x). (s, timeout_waiter w x)"
  have ws: "wsched_inv ?s (waiters st) (next_waiter st)" and ns: "mem_inv_ns st" using inv by (simp_all add: mem_inv_ns)
  have ok: "sched_ok ?s" using ws by (simp add: wsched_inv_def)
  obtain fired s' where d: "sched_drain ?cb now (Suc (length (sheap ?s))) (?s, st) = Some (s', fire timeout_waiter ?s fired st)"
      and fired: "set fired = {i \<in> pending ?s. entry_at ?s i \<le> now}"
      and s': "pending s' = {i \<in> pending ?s. now < entry_at ?s i}" "sched_armed s'" "sched_ok s'"
        "\<forall>i. run_id (entries s' i) = run_id (entries ?s i) \<and> at_ms (entries s' i) = at_ms (entries ?s i)"
        "closed s' = closed ?s"
    using sched_drain_total [where cb = ?cb and f = timeout_waiter and fuel = "Suc (length (sheap ?s))" and now = now and w = st, OF ok]
    by fastforce
  let ?vs = "map (\<lambda>i. run_id (entries ?s i)) fired"
  define st1 where "st1 = fold timeout_waiter ?vs st"
  have vs: "\<forall>w \<in> set ?vs. w < next_waiter st" using fired wsched_pending [OF ws] by auto
  note f = timeout_fold [OF ns vs, folded st1_def]
  have mem: "w \<in> set ?vs \<longleftrightarrow> w_active (waiters st w) \<and> w_deadline (waiters st w) \<le> now" if w: "w < next_waiter st" for w
  proof
    assume "w \<in> set ?vs"
    then show "w_active (waiters st w) \<and> w_deadline (waiters st w) \<le> now"
      using fired wsched_pending [OF ws] by auto
  next
    assume "w_active (waiters st w) \<and> w_deadline (waiters st w) \<le> now"
    then show "w \<in> set ?vs" using wsched_entry [OF ws w] fired by (metis (mono_tags, lifting) image_eqI image_set mem_Collect_eq)
  qed
  have W: "waiters st1 w = (if w_active (waiters st w) \<and> w_deadline (waiters st w) \<le> now then timed_out (waiters st w) else waiters st w)"
    if "w < next_waiter st" for w using f mem [OF that] by auto
  have "wsched_inv s' (waiters st1) (next_waiter st)"
    by (rule wsched_inv_drained [OF ws s'(3,2,1) _ _ W]) (use s'(4) in simp_all)
  moreover have same: "next_waiter st1 = next_waiter st" "wait_sched st1 = ?s" "locks st1 = locks st"
      "handles st1 = handles st" "next_handle st1 = next_handle st" using f by blast+
  moreover have "mem_inv_ns (st1\<lparr>wait_sched := s'\<rparr>)"
    using conjunct1 [OF f] s'(5) same(2) by (simp add: mem_inv_ns_def link_but_def)
  ultimately have "mem_inv (st1\<lparr>wait_sched := s'\<rparr>)" by (simp add: mem_inv_ns)
  moreover have "wait_timer now st = st1\<lparr>wait_sched := s'\<rparr>"
    unfolding wait_timer_def d by (simp add: fire_runs st1_def)
  ultimately show ?thesis using same W by simp
qed

section \<open>Destruction\<close>

lemma release_one_fields [simp]:
  "locks (release_one e st) = locks st" "wait_queues (release_one e st) = wait_queues st"
  "waiters (release_one e st) = waiters st" "next_waiter (release_one e st) = next_waiter st"
  "wait_sched (release_one e st) = wait_sched st" "next_handle (release_one e st) = next_handle st"
  "fence (release_one e st) = fence st" "destroyed (release_one e st) = destroyed st"
  "config (release_one e st) = config st"
  by (simp_all add: release_one_def upd_defs)

definition mark_released :: "nat set \<Rightarrow> (nat \<Rightarrow> lock_handle) \<Rightarrow> nat \<Rightarrow> lock_handle" where
  "mark_released A H h = (if h \<in> A then (H h)\<lparr>released := True\<rparr> else H h)"

lemma release_one_handles: "handles (release_one e st) = mark_released {holder e} (handles st)"
  by (simp add: release_one_def upd_defs mark_released_def fun_eq_iff)

lemma mark_released_twice: "mark_released A (mark_released B H) = mark_released (A \<union> B) H"
  by (simp add: mark_released_def fun_eq_iff)

lemma release_all_fields [simp]:
  "locks (release_all es st) = locks st" "wait_queues (release_all es st) = wait_queues st"
  "waiters (release_all es st) = waiters st" "next_waiter (release_all es st) = next_waiter st"
  "wait_sched (release_all es st) = wait_sched st" "next_handle (release_all es st) = next_handle st"
  "fence (release_all es st) = fence st" "destroyed (release_all es st) = destroyed st"
  "config (release_all es st) = config st"
  unfolding release_all_def by (induction es arbitrary: st) simp_all

lemma release_all_handles:
  "handles (release_all es st) = mark_released ((\<lambda>e. holder (snd e)) ` set es) (handles st)"
proof (induction es arbitrary: st)
  case Nil
  then show ?case by (simp add: release_all_def mark_released_def fun_eq_iff)
next
  case (Cons e es)
  have "release_all (e # es) st = release_all es (release_one (snd e) st)" by (simp add: release_all_def)
  then show ?case by (simp add: Cons.IH release_one_handles mark_released_twice)
qed

lemma release_all_metrics:
  assumes "distinct (map (\<lambda>e. holder (snd e)) es)" "\<forall>e \<in> set es. \<not> released (handles st (holder (snd e)))"
  shows "metrics (release_all es st) = (metrics st)\<lparr>total_released := total_released (metrics st) + int (length es)\<rparr>"
  using assms
proof (induction es arbitrary: st)
  case Nil
  then show ?case by (simp add: release_all_def)
next
  case (Cons e es)
  have s: "release_all (e # es) st = release_all es (release_one (snd e) st)" by (simp add: release_all_def)
  have "holder (snd e) \<notin> (\<lambda>e. holder (snd e)) ` set es" using Cons.prems(1) by simp
  then have "\<forall>e' \<in> set es. holder (snd e') \<noteq> holder (snd e)" unfolding image_iff by force
  then have "\<forall>e' \<in> set es. \<not> released (handles (release_one (snd e) st) (holder (snd e')))"
    using Cons.prems(2) by (simp add: release_one_handles mark_released_def)
  then have "metrics (release_all es (release_one (snd e) st)) = (metrics (release_one (snd e) st))
      \<lparr>total_released := total_released (metrics (release_one (snd e) st)) + int (length es)\<rparr>"
    using Cons.IH Cons.prems(1) by simp
  then show ?case using Cons.prems(2) s by (simp add: release_one_def upd_defs)
qed

definition rejected :: "string \<Rightarrow> mem_waiter \<Rightarrow> mem_waiter" where
  "rejected b x = x\<lparr>w_active := False, w_outcome := Rejected (LockDestroyed b)\<rparr>"

lemma reject_waiter_fields [simp]:
  "locks (reject_waiter w st) = locks st" "wait_queues (reject_waiter w st) = wait_queues st"
  "metrics (reject_waiter w st) = metrics st" "next_waiter (reject_waiter w st) = next_waiter st"
  "handles (reject_waiter w st) = handles st" "next_handle (reject_waiter w st) = next_handle st"
  "fence (reject_waiter w st) = fence st" "destroyed (reject_waiter w st) = destroyed st"
  "config (reject_waiter w st) = config st"
  "waiters (reject_waiter w st) = (waiters st)(w := rejected (backend (config st)) (waiters st w))"
  "wait_sched (reject_waiter w st) = sched_cancel (w_entry (waiters st w)) (wait_sched st)"
  by (simp_all add: reject_waiter_def Let_def upd_defs rejected_def)

lemma reject_fold_fields [simp]:
  "locks (fold reject_waiter ws st) = locks st" "wait_queues (fold reject_waiter ws st) = wait_queues st"
  "metrics (fold reject_waiter ws st) = metrics st" "next_waiter (fold reject_waiter ws st) = next_waiter st"
  "handles (fold reject_waiter ws st) = handles st" "next_handle (fold reject_waiter ws st) = next_handle st"
  "fence (fold reject_waiter ws st) = fence st" "destroyed (fold reject_waiter ws st) = destroyed st"
  "config (fold reject_waiter ws st) = config st"
  by (induction ws arbitrary: st) simp_all

lemma reject_fold_waiters:
  "waiters (fold reject_waiter ws st) w =
     (if w \<in> set ws then rejected (backend (config st)) (waiters st w) else waiters st w)"
  by (induction ws arbitrary: st) (auto simp: rejected_def)

lemma queued_waiters:
  assumes "queue_inv qs W n c"
  shows "set (concat (map snd qs)) = {w. w < n \<and> w_active (W w)}"
proof -
  have ok: "jmap_ok qs" using assms by (simp add: queue_inv_def)
  have "w \<in> set (concat (map snd qs)) \<longleftrightarrow> (\<exists>k ws. map_of qs k = Some ws \<and> w \<in> set ws)" for w
    using jmap_mem [OF ok] by (force simp: image_iff)
  then show ?thesis using assms unfolding queue_inv_def by blast
qed

lemma queued_distinct:
  assumes "queue_inv qs W n c"
  shows "distinct (concat (map snd qs))"
proof -
  have ok: "jmap_ok qs" using assms by (simp add: queue_inv_def)
  have q: "distinct (snd e) \<and> (\<forall>w \<in> set (snd e). w_key (W w) = fst e)" if "e \<in> set qs" for e
  proof -
    have "map_of qs (fst e) = Some (snd e)" using that jmap_mem [OF ok, of "fst e" "snd e"] by simp
    then show ?thesis using assms by (simp add: queue_inv_def)
  qed
  from ok q show ?thesis
  proof (induction qs)
    case (Cons e qs)
    have "set (snd e) \<inter> set (snd e') = {}" if "e' \<in> set qs" for e'
    proof -
      have "fst e \<noteq> fst e'" using Cons.prems(1) that by (force simp: jmap_ok_def)
      then show ?thesis using Cons.prems(2) [of e] Cons.prems(2) [of e'] that by force
    qed
    moreover have "distinct (concat (map snd qs))"
      using Cons.IH Cons.prems by (simp add: jmap_ok_def)
    ultimately show ?case using Cons.prems(2) [of e] by auto
  qed simp
qed

lemma locks_distinct:
  assumes "locks_inv ls H n f"
  shows "distinct (map (\<lambda>e. holder (snd e)) ls)" "\<forall>e \<in> set ls. \<not> released (H (holder (snd e)))"
    "{h. h < n \<and> \<not> released (H h)} \<subseteq> (\<lambda>e. holder (snd e)) ` set ls"
proof -
  have ok: "jmap_ok ls" using assms by (simp add: locks_inv_def)
  have get: "map_of ls (fst e) = Some (snd e)" if "e \<in> set ls" for e
    using that jmap_mem [OF ok, of "fst e" "snd e"] by simp
  have key: "lock_key (H (holder (snd e))) = fst e \<and> \<not> released (H (holder (snd e)))" if "e \<in> set ls" for e
    using get [OF that] assms by (simp add: locks_inv_def)
  have "inj_on (\<lambda>e. holder (snd e)) (set ls)"
  proof (rule inj_onI)
    fix x y assume xy: "x \<in> set ls" "y \<in> set ls" "holder (snd x) = holder (snd y)"
    then have "fst x = fst y" using key by metis
    then show "x = y" using get xy by (metis option.inject prod.expand)
  qed
  then show "distinct (map (\<lambda>e. holder (snd e)) ls)"
    using ok by (simp add: distinct_map jmap_ok_def)
  show "\<forall>e \<in> set ls. \<not> released (H (holder (snd e)))" using key by blast
  show "{h. h < n \<and> \<not> released (H h)} \<subseteq> (\<lambda>e. holder (snd e)) ` set ls"
  proof clarify
    fix h assume "h < n" "\<not> released (H h)"
    then obtain e where "map_of ls (lock_key (H h)) = Some e" "holder e = h"
      using assms unfolding locks_inv_def by blast
    then show "h \<in> (\<lambda>e. holder (snd e)) ` set ls" by (force dest: map_of_SomeD)
  qed
qed

lemma destroy_spec:
  assumes inv: "mem_inv st" and nd: "\<not> destroyed st"
  shows "mem_inv (destroy st) \<and> locks (destroy st) = [] \<and> wait_queues (destroy st) = [] \<and>
    destroyed (destroy st) \<and> (\<forall>h < next_handle st. released (handles (destroy st) h)) \<and>
    (\<forall>w < next_waiter st. waiters (destroy st) w =
       (if w_active (waiters st w) then rejected (backend (config st)) (waiters st w) else waiters st w)) \<and>
    total_released (metrics (destroy st)) = total_released (metrics st) + int (length (locks st)) \<and>
    next_handle (destroy st) = next_handle st \<and> next_waiter (destroy st) = next_waiter st"
proof -
  define st1 where "st1 = release_all (locks st) (st\<lparr>destroyed := True\<rparr>)"
  define st2 where "st2 = upd_metrics (\<lambda>m. m\<lparr>current_active := 0\<rparr>) (st1\<lparr>locks := []\<rparr>)"
  define st3 where "st3 = fold reject_waiter (concat (map snd (wait_queues st2))) st2"
  define st4 where "st4 = upd_metrics (\<lambda>m. m\<lparr>current_waiting := 0\<rparr>) (st3\<lparr>wait_queues := []\<rparr>)"
  define st5 where "st5 = st4\<lparr>wait_sched := sched_close (wait_sched st4)\<rparr>"
  have d: "destroy st = st5"
    using nd by (simp add: destroy_def Let_def st5_def st4_def st3_def st2_def st1_def)
  have li: "locks_inv (locks st) (handles st) (next_handle st) (fence st)"
    and ci: "count_inv (locks st) (metrics st)"
    and qi: "queue_inv (wait_queues st) (waiters st) (next_waiter st) (current_waiting (metrics st))"
    and oi: "outcome_inv (waiters st) (next_waiter st) (handles st) (next_handle st)"
    using inv by (simp_all add: mem_inv_but_def)
  note ld = locks_distinct [OF li]
  let ?A = "(\<lambda>e. holder (snd e)) ` set (locks st)"
  have W: "waiters st5 w = (if w < next_waiter st \<and> w_active (waiters st w)
      then rejected (backend (config st)) (waiters st w) else waiters st w)" for w
    using queued_waiters [OF qi]
    by (simp add: st5_def st4_def st3_def st2_def st1_def upd_metrics_def reject_fold_waiters)
  have H: "handles st5 = mark_released ?A (handles st)"
    by (simp add: st5_def st4_def st3_def st2_def st1_def upd_metrics_def release_all_handles)
  have M: "metrics st5 = (metrics st)\<lparr>total_released := total_released (metrics st) + int (length (locks st)),
      current_active := 0, current_waiting := 0\<rparr>"
    using release_all_metrics [OF ld(1), of "st\<lparr>destroyed := True\<rparr>"] ld(2)
    by (simp add: st5_def st4_def st3_def st2_def st1_def upd_metrics_def)
  have R: "locks st5 = []" "wait_queues st5 = []" "destroyed st5" "next_handle st5 = next_handle st"
      "next_waiter st5 = next_waiter st" "fence st5 = fence st"
      "wait_sched st5 = sched_close (wait_sched st4)"
    by (simp_all add: st5_def st4_def st3_def st2_def st1_def upd_metrics_def)
  have rel: "released (handles st5 h)" if "h < next_handle st" for h
    using ld(3) that unfolding H by (auto simp: mark_released_def)
  have dead: "\<not> w_active (waiters st5 w)" if "w < next_waiter st" for w
    using that by (simp add: W rejected_def)
  have "locks_inv [] (handles st5) (next_handle st) (fence st)"
    using li rel by (simp add: locks_inv_def H mark_released_def)
  moreover have "count_inv [] (metrics st5)" using ci by (simp add: count_inv_def M)
  moreover have "queue_inv [] (waiters st5) (next_waiter st) 0" using dead by (simp add: queue_inv_def)
  moreover have "wsched_inv (wait_sched st5) (waiters st5) (next_waiter st)"
    using dead close_ok by (simp add: wsched_inv_def R sched_armed_def pending_def sched_close_def sched_ok_def)
  moreover have "outcome_inv (waiters st5) (next_waiter st) (handles st5) (next_handle st)"
    using oi by (auto simp: outcome_inv_def W H rejected_def mark_released_def)
  moreover have "link_but None st5" by (simp add: link_but_def R sched_close_def)
  ultimately have "mem_inv st5" by (simp add: mem_inv_but_def R M)
  then show ?thesis unfolding d using R rel W M by simp
qed

end
