(* ===== verification/MemoryLockSafety.thy ===== *)
theory MemoryLockSafety imports MemoryLockInv begin

text \<open>
  The runs of a \<open>MemoryLockManager\<close>: any interleaving of calls, expiry timers, waiter timers and
  abort signals, at any times. What holds in every reachable state, and what the calls that
  matter most guarantee.
\<close>

section \<open>Runs\<close>

text \<open>Handles and waiters can only be passed back once they have been given out.\<close>

inductive lock_step :: "mem_lock \<Rightarrow> mem_lock \<Rightarrow> bool" where
  step_acquire: "lock_step st (snd (acquire key ttl wait signal now st))"
| step_release: "h < next_handle st \<Longrightarrow> lock_step st (snd (release_lock h now st))"
| step_heartbeat: "h < next_handle st \<Longrightarrow> lock_step st (snd (heartbeat h ms now st))"
| step_is_locked: "lock_step st (snd (is_locked key now st))"
| step_expiry: "lock_step st (expiry_timer key now st)"
| step_timeout: "lock_step st (wait_timer now st)"
| step_abort: "w < next_waiter st \<Longrightarrow> lock_step st (abort_waiter w st)"
| step_destroy: "lock_step st (destroy st)"

inductive lock_reachable :: "lock_config \<Rightarrow> int \<Rightarrow> mem_lock \<Rightarrow> bool" for cfg f0 where
  reach_new: "lock_reachable cfg f0 (new_mem_lock cfg f0)"
| reach_step: "lock_reachable cfg f0 st \<Longrightarrow> lock_step st st' \<Longrightarrow> lock_reachable cfg f0 st'"

inductive_cases lock_stepE: "lock_step st st'"

lemma destroy_inv: "mem_inv st \<Longrightarrow> mem_inv (destroy st)"
  using destroy_spec by (cases "destroyed st") (auto simp: destroy_def)

lemma lock_step_inv: "lock_step st st' \<Longrightarrow> mem_inv st \<Longrightarrow> mem_inv st'"
  by (induction rule: lock_step.induct)
    (simp_all add: acquire_inv release_lock_inv heartbeat_inv is_locked_inv expiry_timer_inv
      wait_timer_spec abort_waiter_inv destroy_inv)

lemma new_mem_lock_inv: "mem_inv (new_mem_lock cfg f0)"
  by (simp add: mem_inv_but_def new_mem_lock_def locks_inv_def count_inv_def queue_inv_def wsched_inv_def
    outcome_inv_def link_but_def new_metrics_def new_scheduler_def sched_ok_def sched_armed_def pending_def)

lemma reachable_inv: "lock_reachable cfg f0 st \<Longrightarrow> mem_inv st"
  by (induction rule: lock_reachable.induct) (simp_all add: new_mem_lock_inv lock_step_inv)

section \<open>Mutual exclusion and fencing\<close>

lemma mem_inv_locks: "mem_inv st \<Longrightarrow> locks_inv (locks st) (handles st) (next_handle st) (fence st)"
  by (simp add: mem_inv_but_def)

lemma unreleased_unique:
  assumes inv: "mem_inv st" and h: "h < next_handle st" "h' < next_handle st"
    "\<not> released (handles st h)" "\<not> released (handles st h')" "lock_key (handles st h) = lock_key (handles st h')"
  shows "h = h'"
proof -
  obtain e where e: "map_of (locks st) (lock_key (handles st h)) = Some e" "holder e = h"
    by (rule unreleased_holder [OF inv h(1,3)])
  obtain e' where e': "map_of (locks st) (lock_key (handles st h')) = Some e'" "holder e' = h'"
    by (rule unreleased_holder [OF inv h(2,4)])
  show ?thesis using e e' h(5) by simp
qed

text \<open>
  C1: mutual exclusion. In every reachable state two handles of one key that are both
  unreleased are the same handle, and it is the one the lock table names.
\<close>

theorem lock_mutual_exclusion:
  assumes "lock_reachable cfg f0 st" and "h < next_handle st" and "h' < next_handle st"
    and "\<not> released (handles st h)" and "\<not> released (handles st h')"
    and "lock_key (handles st h) = lock_key (handles st h')"
  shows "h = h' \<and> (\<exists>e. map_of (locks st) (lock_key (handles st h)) = Some e \<and> holder e = h)"
proof -
  have inv: "mem_inv st" by (rule reachable_inv [OF assms(1)])
  obtain e where "map_of (locks st) (lock_key (handles st h)) = Some e" "holder e = h"
    by (rule unreleased_holder [OF inv assms(2,4)])
  then show ?thesis using unreleased_unique [OF inv assms(2-)] by simp
qed

definition demo_config :: lock_config where
  "demo_config = \<lparr>backend = ''memory'', default_ttl = 100, max_wait = 50, heartbeat_interval = 10,
     max_queue_depth = 2, max_total_depth = 8\<rparr>"

text \<open>One holder of \<open>k\<close> and two waiters, queued at times 1 and 2.\<close>

definition demo_held :: mem_lock where
  "demo_held = snd (acquire (Some ''k'') None None None 0 (new_mem_lock demo_config 7))"

definition demo_queued :: mem_lock where
  "demo_queued = snd (acquire (Some ''k'') None None None 2 (snd (acquire (Some ''k'') None None None 1 demo_held)))"

lemma demo_reachable: "lock_reachable demo_config 7 demo_held" "lock_reachable demo_config 7 demo_queued"
  unfolding demo_queued_def demo_held_def by (intro reach_step [OF _ step_acquire] reach_new)+

lemmas demo_eval = acquire_def assert_active_def normalize_lock_key_def throw_if_acquire_aborted_def duration_defs
  evict_expired_def create_lock_handle_def queue_for_def set_queue_def enqueue_waiter_def upd_defs schedule_def
  sched_arm_def discard_inactive_head.simps heap_push_def bubble_up.simps parent_of_def heap_swap_def entry_at_def
  new_mem_lock_def new_metrics_def new_scheduler_def demo_config_def trim_def is_space_def

lemma demo_held_state:
  "next_handle demo_held = 1 \<and> map_of (locks demo_held) ''k'' = Some \<lparr>holder = 0, timer_due = 100\<rparr> \<and>
   handles demo_held 0 = \<lparr>lock_key = ''k'', fencing_token = 8, acquired_at = 0, expires_at = 100, released = False\<rparr>"
  by (simp add: demo_held_def demo_eval)

theorem lock_mutual_exclusion_witness:
  "\<exists>e. map_of (locks demo_held) ''k'' = Some e \<and> holder e = 0"
  using lock_mutual_exclusion [OF demo_reachable(1), of 0 0] demo_held_state by simp

lemma promote_loop_next_handle: "next_handle st \<le> next_handle (promote_loop key now ws st)"
  by (induction key now ws st rule: promote_loop.induct)
    (auto simp: Let_def upd_defs create_lock_handle_def)

lemma evict_next_handle: "next_handle st \<le> next_handle (evict_expired key now st)"
proof -
  have "next_handle st \<le> next_handle (promote_next key now st')" if "next_handle st' = next_handle st" for st'
    using promote_loop_next_handle [of st' key now] that by (simp add: promote_next_def split: option.split)
  then show ?thesis by (simp add: evict_expired_def expire_handle_def Let_def upd_defs split: option.split)
qed

lemma acquire_Acquired:
  assumes "acquire key ttl wait signal now st = (Inr (Acquired h), st')"
  shows "next_handle st \<le> h \<and> next_handle st' = Suc h \<and> \<not> released (handles st' h) \<and>
    normalize_lock_key key = Inr (lock_key (handles st' h)) \<and> now < expires_at (handles st' h) \<and>
    map_of (locks st') (lock_key (handles st' h)) = Some \<lparr>holder = h, timer_due = expires_at (handles st' h)\<rparr>"
proof -
  obtain k t w where a: "acquire_args key ttl wait signal st = Inr (k, t, w)"
    using assms by (cases "acquire_args key ttl wait signal st") (auto simp: acquire_cases)
  then have k: "normalize_lock_key key = Inr k" "0 < t"
    using positive_duration_Inr by (auto simp: acquire_args_def ebind_Inr_iff)
  have c: "create_lock_handle k t now (evict_expired k now st) = (h, st')"
    using assms a
    by (auto simp: acquire_cases Let_def acquire_held_def split: if_splits prod.splits)
  then show ?thesis
    using k evict_next_handle [of st k now] by (auto simp: create_lock_handle_def Let_def upd_metrics_def)
qed

text \<open>
  C11: fencing. In every reachable state the tokens grow strictly in the order the handles
  were issued, and a handle that \<open>acquire\<close> returns is unreleased, of the normalised key, not
  yet expired, and has a larger token than every handle issued before.
\<close>

theorem lock_fencing_order:
  assumes "lock_reachable cfg f0 st"
  shows "(\<forall>h1 h2. h1 < h2 \<and> h2 < next_handle st \<longrightarrow>
      fencing_token (handles st h1) < fencing_token (handles st h2))
    \<and> (\<forall>key ttl wait signal now h st'. acquire key ttl wait signal now st = (Inr (Acquired h), st') \<longrightarrow>
      \<not> released (handles st' h) \<and> normalize_lock_key key = Inr (lock_key (handles st' h)) \<and>
      now < expires_at (handles st' h) \<and>
      (\<forall>h' < next_handle st. fencing_token (handles st' h') < fencing_token (handles st' h)))"
proof -
  have ord: "\<forall>h1 h2. h1 < h2 \<and> h2 < next_handle s \<longrightarrow> fencing_token (handles s h1) < fencing_token (handles s h2)"
    if "mem_inv s" for s using mem_inv_locks [OF that] by (simp add: locks_inv_def)
  have inv: "mem_inv st" by (rule reachable_inv [OF assms])
  show ?thesis
  proof (intro conjI ord [OF inv] allI impI)
    fix key ttl wait signal now h st'
    assume a: "acquire key ttl wait signal now st = (Inr (Acquired h), st')"
    note A = acquire_Acquired [OF a]
    then show "\<not> released (handles st' h)" "normalize_lock_key key = Inr (lock_key (handles st' h))"
      "now < expires_at (handles st' h)" by blast+
    have "mem_inv st'" using acquire_inv [OF inv, of key ttl wait signal now] a by simp
    fix h' assume "h' < next_handle st"
    then show "fencing_token (handles st' h') < fencing_token (handles st' h)"
      using ord [OF \<open>mem_inv st'\<close>] A by auto
  qed
qed

theorem lock_fencing_order_witness:
  "\<exists>st'. acquire (Some ''j'') None None None 5 demo_held = (Inr (Acquired 1), st') \<and>
     fencing_token (handles st' 0) < fencing_token (handles st' 1)"
proof -
  have "fst (acquire (Some ''j'') None None None 5 demo_held) = Inr (Acquired 1)"
    by (simp add: demo_held_def demo_eval)
  then obtain st' where a: "acquire (Some ''j'') None None None 5 demo_held = (Inr (Acquired 1), st')"
    by (metis prod.collapse)
  then have "\<forall>h' < next_handle demo_held. fencing_token (handles st' h') < fencing_token (handles st' 1)"
    using lock_fencing_order [OF demo_reachable(1)] by blast
  then show ?thesis using a demo_held_state by simp
qed

section \<open>Hand-off, timeouts, destruction\<close>


lemma demo_queued_state:
  "next_handle demo_queued = 1 \<and> next_waiter demo_queued = 2 \<and> map_of (wait_queues demo_queued) ''k'' = Some [0, 1] \<and>
   handles demo_queued 0 = \<lparr>lock_key = ''k'', fencing_token = 8, acquired_at = 0, expires_at = 100, released = False\<rparr> \<and>
   w_active (waiters demo_queued 0) \<and> w_active (waiters demo_queued 1) \<and>
   w_deadline (waiters demo_queued 0) = 51 \<and> w_deadline (waiters demo_queued 1) = 52 \<and> \<not> destroyed demo_queued"
  by (simp add: demo_queued_def demo_held_def demo_eval)


text \<open>
  When the waiters' timer runs at \<open>now\<close>, exactly the waiting requests whose deadline has
  passed are rejected with a timeout, every other request is untouched, no lock changes
  hands, and what still waits has a later deadline.
\<close>

theorem wait_timer_rejects_due:
  assumes "lock_reachable cfg f0 st" and "w < next_waiter st"
  shows "waiters (wait_timer now st) w =
      (if w_active (waiters st w) \<and> w_deadline (waiters st w) \<le> now
       then (waiters st w)\<lparr>w_active := False, w_outcome := Rejected (LockTimeout (w_wait (waiters st w)))\<rparr>
       else waiters st w)
    \<and> locks (wait_timer now st) = locks st
    \<and> (w_active (waiters (wait_timer now st) w) \<longrightarrow> now < w_deadline (waiters (wait_timer now st) w))"
  using wait_timer_spec [OF reachable_inv [OF assms(1)], of now] assms(2) by (simp add: timed_out_def not_le)

theorem wait_timer_rejects_due_witness:
  "w_outcome (waiters (wait_timer 51 demo_queued) 0) = Rejected (LockTimeout (w_wait (waiters demo_queued 0)))
   \<and> waiters (wait_timer 51 demo_queued) 1 = waiters demo_queued 1"
  using wait_timer_rejects_due [OF demo_reachable(2), of 0 51] wait_timer_rejects_due [OF demo_reachable(2), of 1 51]
    demo_queued_state by simp

text \<open>
  C2: nobody waits in vain. In every reachable state a waiter whose promise is pending is
  queued under its key, that key is locked with an expiry timer set for the holder's expiry,
  and the waiters' timer is armed no later than the waiter's deadline.
\<close>

theorem waiter_not_stranded:
  assumes "lock_reachable cfg f0 st" and "w < next_waiter st" and "w_outcome (waiters st w) = Waiting"
  shows "(\<exists>ws. map_of (wait_queues st) (w_key (waiters st w)) = Some ws \<and> w \<in> set ws)
    \<and> (\<exists>e. map_of (locks st) (w_key (waiters st w)) = Some e \<and> timer_due e = expires_at (handles st (holder e)))
    \<and> timer (wait_sched st) \<and> timer_at (wait_sched st) \<le> w_deadline (waiters st w)"
proof -
  have inv: "mem_inv st" by (rule reachable_inv [OF assms(1)])
  have act: "w_active (waiters st w)" using inv assms(2,3) by (simp add: mem_inv_but_def outcome_inv_def)
  obtain ws where ws: "map_of (wait_queues st) (w_key (waiters st w)) = Some ws" "w \<in> set ws"
    by (rule active_queue [OF inv assms(2) act])
  have "w_key (waiters st w) \<in> fst ` set (wait_queues st)" using ws(1) by (simp add: jmap_key_iff)
  then have "w_key (waiters st w) \<in> fst ` set (locks st)" using inv by (auto simp: mem_inv_but_def link_but_def)
  then obtain e where e: "map_of (locks st) (w_key (waiters st w)) = Some e" by (auto simp: jmap_key_iff)
  moreover have "\<forall>k e. map_of (locks st) k = Some e \<longrightarrow> holder e < next_handle st \<and> lock_key (handles st (holder e)) = k \<and>
        \<not> released (handles st (holder e)) \<and> timer_due e = expires_at (handles st (holder e))"
    using mem_inv_locks [OF inv] unfolding locks_inv_def by (elim conjE)
  ultimately have "timer_due e = expires_at (handles st (holder e))" by blast
  moreover have wi: "wsched_inv (wait_sched st) (waiters st) (next_waiter st)" using inv by (simp add: mem_inv_but_def)
  obtain i where "i \<in> pending (wait_sched st)" "entry_at (wait_sched st) i = w_deadline (waiters st w)"
    using wsched_entry [OF wi assms(2) act] by metis
  moreover have "sched_armed (wait_sched st)" using wi by (simp add: wsched_inv_def)
  ultimately show ?thesis using ws e by (auto simp: sched_armed_def)
qed

theorem waiter_not_stranded_witness:
  "w_outcome (waiters demo_queued 1) = Waiting \<and> timer (wait_sched demo_queued) \<and> timer_at (wait_sched demo_queued) \<le> 52"
proof -
  have "w_outcome (waiters demo_queued 1) = Waiting" by (simp add: demo_queued_def demo_held_def demo_eval)
  then show ?thesis using waiter_not_stranded [OF demo_reachable(2), of 1] demo_queued_state by simp
qed

text \<open>
  The metrics are accounts. In every reachable state each acquired lock is still held,
  was released or expired; the number of active locks is the size of the lock table and the
  number of waiting requests is the number of pending promises.
\<close>

theorem lock_metrics_accounting:
  assumes "lock_reachable cfg f0 st"
  shows "total_acquired (metrics st) = total_released (metrics st) + total_expired (metrics st) + current_active (metrics st)
    \<and> current_active (metrics st) = int (length (locks st))
    \<and> current_waiting (metrics st) = card {w. w < next_waiter st \<and> w_outcome (waiters st w) = Waiting}"
proof -
  have inv: "mem_inv st" by (rule reachable_inv [OF assms])
  have qi: "queue_inv (wait_queues st) (waiters st) (next_waiter st) (current_waiting (metrics st))"
    using inv by (simp add: mem_inv_but_def)
  have "{w. w < next_waiter st \<and> w_outcome (waiters st w) = Waiting} = {w. w < next_waiter st \<and> w_active (waiters st w)}"
    using inv by (auto simp: mem_inv_but_def outcome_inv_def)
  then have "{w. w < next_waiter st \<and> w_outcome (waiters st w) = Waiting} = set (concat (map snd (wait_queues st)))"
    using queued_waiters [OF qi] by simp
  moreover have "current_waiting (metrics st) = length (concat (map snd (wait_queues st)))"
    using qi by (simp add: queue_inv_def jmap_sum_def length_concat comp_def)
  moreover have "distinct (concat (map snd (wait_queues st)))" by (rule queued_distinct [OF qi])
  ultimately have "current_waiting (metrics st) = card {w. w < next_waiter st \<and> w_outcome (waiters st w) = Waiting}"
    by (simp add: distinct_card del: set_concat)
  then show ?thesis using inv by (simp add: mem_inv_but_def count_inv_def)
qed

theorem lock_metrics_accounting_witness:
  "current_waiting (metrics demo_queued) = card {w. w < 2 \<and> w_outcome (waiters demo_queued w) = Waiting}"
  using lock_metrics_accounting [OF demo_reachable(2)] demo_queued_state by simp

text \<open>
  Destroying the manager settles everything: every handle is released, every pending
  request is rejected, nothing is queued or locked, every later \<open>acquire\<close> fails, and a second
  \<open>destroy\<close> changes nothing.
\<close>

theorem destroy_settles_all:
  assumes "lock_reachable cfg f0 st" and "\<not> destroyed st"
  shows "(\<forall>h < next_handle st. released (handles (destroy st) h))
    \<and> (\<forall>w < next_waiter st. w_outcome (waiters st w) = Waiting \<longrightarrow>
        w_outcome (waiters (destroy st) w) = Rejected (LockDestroyed (backend (config st))))
    \<and> locks (destroy st) = [] \<and> wait_queues (destroy st) = []
    \<and> (\<exists>b. acquire key ttl wait signal now (destroy st) = (Inl (LockDestroyed b), destroy st))
    \<and> destroy (destroy st) = destroy st"
proof -
  have inv: "mem_inv st" by (rule reachable_inv [OF assms(1)])
  note d = destroy_spec [OF inv assms(2)]
  have act: "w_active (waiters st w)" if "w < next_waiter st" "w_outcome (waiters st w) = Waiting" for w
    using inv that by (simp add: mem_inv_but_def outcome_inv_def)
  have "destroy (destroy st) = destroy st" using d by (subst destroy_def) simp
  moreover have "\<exists>b. acquire key ttl wait signal now (destroy st) = (Inl (LockDestroyed b), destroy st)"
    using d by (simp add: acquire_def assert_active_def)
  ultimately show ?thesis using d act by (simp add: rejected_def)
qed

theorem destroy_settles_all_witness:
  "released (handles (destroy demo_queued) 0) \<and> wait_queues (destroy demo_queued) = []"
  using destroy_settles_all [OF demo_reachable(2)] demo_queued_state by simp

end
