(* ===== verification/WorkQueueMachine.thy ===== *)
theory WorkQueueMachine imports Prelude begin

text \<open>
  The work queue's state machine,
  \<open>packages/foundation/src/workflow/state-machine/work-queue/state-machine.ts\<close>: the states, the
  transition table, the legality checks callers make before they change a work item, and the
  module's own verifiers. A state is a constructor, its string value is \<open>state_value\<close>; states
  and transitions arrive as strings, \<open>None\<close> is null or undefined.
\<close>

section \<open>States and transitions\<close>

datatype wq_state = Queued | Running | InDoubt | RetryWait | Completed | Failed | Cancelled | Expired | Recovered

definition work_queue_states :: "wq_state list" where
  "work_queue_states = [Queued, Running, InDoubt, RetryWait, Completed, Failed, Cancelled, Expired, Recovered]"

fun state_value :: "wq_state \<Rightarrow> string" where
  "state_value Queued = ''queued''"
| "state_value Running = ''running''"
| "state_value InDoubt = ''in_doubt''"
| "state_value RetryWait = ''retry_wait''"
| "state_value Completed = ''completed''"
| "state_value Failed = ''failed''"
| "state_value Cancelled = ''cancelled''"
| "state_value Expired = ''expired''"
| "state_value Recovered = ''recovered''"

definition terminal_states :: "wq_state list" where
  "terminal_states = [Completed, Cancelled, Expired]"

definition safe_intervention_states :: "wq_state list" where
  "safe_intervention_states = [Queued, RetryWait, Failed, Recovered, Completed, Cancelled, Expired]"

record wq_transition =
  t_from :: "wq_state option list"
  t_to :: "wq_state list"
  lease_bound :: bool
  fallback :: bool

definition trans :: "wq_state option list \<Rightarrow> wq_state list \<Rightarrow> wq_transition" where
  "trans f t = \<lparr>t_from = f, t_to = t, lease_bound = False, fallback = False\<rparr>"

definition work_queue_transitions :: "(string \<times> wq_transition) list" where
  "work_queue_transitions =
    [(''enqueue'', trans [None] [Queued, RetryWait]),
     (''retention_snapshot'', trans [None] work_queue_states),
     (''claim'', trans [Some Queued, Some Recovered] [Running]),
     (''progress'', (trans [Some Running] [Running])\<lparr>lease_bound := True\<rparr>),
     (''interrupt'', (trans [Some Running] [InDoubt])\<lparr>lease_bound := True\<rparr>),
     (''termination_acknowledged'', (trans [Some InDoubt] [Queued, RetryWait, Failed, Completed])\<lparr>lease_bound := True\<rparr>),
     (''complete'', (trans [Some Running] [Completed])\<lparr>lease_bound := True\<rparr>),
     (''retry'', (trans [Some Running] [Queued, RetryWait, Failed])\<lparr>lease_bound := True\<rparr>),
     (''fail'', trans [Some Queued, Some RetryWait, Some Running, Some InDoubt, Some Recovered] [Failed]),
     (''recover'', trans [Some Failed] [Recovered]),
     (''lease_expired'', (trans [Some Running] [InDoubt])\<lparr>fallback := True\<rparr>),
     (''delay_matured'', (trans [Some RetryWait] [Queued])\<lparr>fallback := True\<rparr>),
     (''cancel_running'', (trans [Some Running] [Cancelled])\<lparr>lease_bound := True\<rparr>),
     (''cancel'', trans [Some Queued, Some RetryWait, Some Running, Some InDoubt, Some Recovered] [Cancelled]),
     (''expire'', trans [Some Queued, Some RetryWait, Some Running, Some InDoubt, Some Recovered] [Expired]),
     (''requeue_recovered'', trans [Some Recovered] [Queued, RetryWait, Failed, Cancelled])]"

section \<open>Queries\<close>

definition state_of_value :: "string option \<Rightarrow> wq_state option" where
  "state_of_value v = (case v of None \<Rightarrow> None | Some s \<Rightarrow> find (\<lambda>x. state_value x = s) work_queue_states)"

definition is_work_queue_state :: "string option \<Rightarrow> bool" where
  "is_work_queue_state v \<longleftrightarrow> list_ex (\<lambda>x. Some (state_value x) = v) work_queue_states"

definition is_terminal :: "string option \<Rightarrow> bool" where
  "is_terminal v \<longleftrightarrow> (case state_of_value v of None \<Rightarrow> False | Some s \<Rightarrow> s \<in> set terminal_states)"

definition is_safe_intervention :: "string option \<Rightarrow> bool" where
  "is_safe_intervention v \<longleftrightarrow>
     (case state_of_value v of None \<Rightarrow> False | Some s \<Rightarrow> s \<in> set safe_intervention_states)"

definition get_transition :: "string \<Rightarrow> wq_transition option" where
  "get_transition name = map_of work_queue_transitions name"

text \<open>\<open>getAllowedTargetStates\<close>: a null from state is the state of an item that does not exist yet;
  an unknown from state allows nothing.\<close>

definition allowed_targets :: "string \<Rightarrow> string option \<Rightarrow> wq_state list" where
  "allowed_targets name from_state =
     (case get_transition name of
        None \<Rightarrow> []
      | Some d \<Rightarrow>
          (case from_state of
             None \<Rightarrow> if None \<in> set (t_from d) then t_to d else []
           | Some v \<Rightarrow>
               (case state_of_value (Some v) of
                  None \<Rightarrow> []
                | Some s \<Rightarrow> if Some s \<in> set (t_from d) then t_to d else [])))"

definition is_legal :: "string \<Rightarrow> string option \<Rightarrow> string option \<Rightarrow> bool" where
  "is_legal name from_state to_state \<longleftrightarrow>
     (case state_of_value to_state of None \<Rightarrow> False | Some s \<Rightarrow> s \<in> set (allowed_targets name from_state))"

definition assert_legal :: "string \<Rightarrow> string option \<Rightarrow> string option \<Rightarrow> string + unit" where
  "assert_legal name from_state to_state =
     (if is_legal name from_state to_state then Inr ()
      else Inl (''Illegal work queue transition: '' @ name @ '' '' @
        (case from_state of None \<Rightarrow> ''none'' | Some s \<Rightarrow> s) @ '' -> '' @
        (case to_state of None \<Rightarrow> ''undefined'' | Some s \<Rightarrow> s)))"

section \<open>The module's verifiers\<close>

record matrix_cell =
  cell_from :: wq_state
  cell_event :: string
  cell_legal :: bool
  cell_to :: "wq_state list"

definition build_matrix :: "matrix_cell list" where
  "build_matrix =
     concat (map (\<lambda>s. map (\<lambda>e. let targets = allowed_targets e (Some (state_value s))
         in \<lparr>cell_from = s, cell_event = e, cell_legal = targets \<noteq> [], cell_to = targets\<rparr>)
       (map fst work_queue_transitions)) work_queue_states)"

definition missing_cells :: "matrix_cell list \<Rightarrow> string list" where
  "missing_cells matrix =
     concat (map (\<lambda>s. concat (map (\<lambda>e.
         if list_ex (\<lambda>c. cell_from c = s \<and> cell_event c = e) matrix then []
         else [''Missing state machine matrix cell: '' @ state_value s @ '' x '' @ e])
       (map fst work_queue_transitions))) work_queue_states)"

definition terminal_exits :: "matrix_cell list \<Rightarrow> string list" where
  "terminal_exits matrix =
     concat (map (\<lambda>s. if filter (\<lambda>c. cell_from c = s \<and> cell_legal c) matrix \<noteq> []
       then [''Terminal state has legal exits: '' @ state_value s] else []) terminal_states)"

definition dead_ends :: "matrix_cell list \<Rightarrow> string list" where
  "dead_ends matrix =
     concat (map (\<lambda>s. if \<not> is_terminal (Some (state_value s)) \<and> filter (\<lambda>c. cell_from c = s \<and> cell_legal c) matrix = []
       then [''Non-terminal state has no legal outgoing transitions: '' @ state_value s] else []) work_queue_states)"

definition cell_errors :: "matrix_cell \<Rightarrow> string list" where
  "cell_errors c =
     (if \<not> cell_legal c \<and> cell_to c \<noteq> []
      then [''Illegal matrix cell exposes target states: '' @ state_value (cell_from c) @ '' x '' @ cell_event c] else [])
     @ concat (map (\<lambda>t. case assert_legal (cell_event c) (Some (state_value (cell_from c))) (Some (state_value t)) of
         Inl msg \<Rightarrow> [msg] | Inr _ \<Rightarrow> []) (cell_to c))"

record proof_report =
  p_ok :: bool
  p_cells :: nat
  p_states :: nat
  p_events :: nat
  p_errors :: "string list"
  p_matrix :: "matrix_cell list"

definition verify_proof :: proof_report where
  "verify_proof =
     (let matrix = build_matrix;
          errors = missing_cells matrix @ terminal_exits matrix @ dead_ends matrix @ concat (map cell_errors matrix)
      in \<lparr>p_ok = (errors = []), p_cells = length matrix, p_states = length work_queue_states,
          p_events = length work_queue_transitions, p_errors = errors, p_matrix = matrix\<rparr>)"

definition transition_errors :: "string \<times> wq_transition \<Rightarrow> string list" where
  "transition_errors e =
     (case e of (name, d) \<Rightarrow>
        (if t_from d = [] then [''Transition '' @ name @ '' has no from states.''] else [])
        @ (if t_to d = [] then [''Transition '' @ name @ '' has no target states.''] else [])
        @ concat (map (\<lambda>f. case f of None \<Rightarrow> []
            | Some s \<Rightarrow> (if s \<notin> set work_queue_states
                 then [''Transition '' @ name @ '' has unknown from state '' @ state_value s @ ''.''] else [])
               @ (if is_terminal (Some (state_value s))
                 then [''Transition '' @ name @ '' leaves terminal state '' @ state_value s @ ''.''] else [])) (t_from d))
        @ concat (map (\<lambda>s. if s \<notin> set work_queue_states
            then [''Transition '' @ name @ '' has unknown target state '' @ state_value s @ ''.''] else []) (t_to d)))"

record machine_description =
  d_states :: "wq_state list"
  d_terminal :: "wq_state list"
  d_safe :: "wq_state list"
  d_transitions :: "(string \<times> wq_transition) list"

definition describe_machine :: machine_description where
  "describe_machine = \<lparr>d_states = work_queue_states, d_terminal = terminal_states,
     d_safe = safe_intervention_states, d_transitions = work_queue_transitions\<rparr>"

record machine_report =
  m_ok :: bool
  m_errors :: "string list"
  m_machine :: machine_description
  m_proof :: proof_report

definition machine_errors :: "string list" where
  "machine_errors =
     concat (map (\<lambda>s. if s \<in> set work_queue_states then []
         else [''Unknown terminal state: '' @ state_value s]) terminal_states)
      @ concat (map (\<lambda>s. if s \<in> set work_queue_states then []
         else [''Unknown safe intervention state: '' @ state_value s]) safe_intervention_states)
      @ concat (map transition_errors work_queue_transitions)"

definition verify_machine :: machine_report where
  "verify_machine = \<lparr>m_ok = (machine_errors = []), m_errors = machine_errors,
     m_machine = describe_machine, m_proof = verify_proof\<rparr>"

section \<open>Facts about the table\<close>

lemma all_states: "s \<in> set work_queue_states"
  by (cases s) (simp_all add: work_queue_states_def)

lemma state_value_inj: "state_value s = state_value t \<longleftrightarrow> s = t"
  by (cases s; cases t) simp_all

lemma state_of_value_Some [simp]: "state_of_value (Some (state_value s)) = Some s"
  by (cases s) (simp_all add: state_of_value_def work_queue_states_def)

lemma state_of_value_iff: "state_of_value v = Some s \<longleftrightarrow> v = Some (state_value s)"
proof
  assume "state_of_value v = Some s"
  then show "v = Some (state_value s)"
    unfolding state_of_value_def by (cases v) (auto simp: find_Some_iff)
qed simp

lemma is_terminal_iff: "is_terminal (Some (state_value s)) \<longleftrightarrow> s \<in> set terminal_states"
  by (simp add: is_terminal_def)

text \<open>The steps between existing states, and the table as a relation.\<close>

definition wq_next :: "string \<Rightarrow> wq_state option \<Rightarrow> wq_state \<Rightarrow> bool" where
  "wq_next name s t \<longleftrightarrow> (\<exists>d. map_of work_queue_transitions name = Some d \<and> s \<in> set (t_from d) \<and> t \<in> set (t_to d))"

lemma is_legal_iff:
  "is_legal name (map_option state_value s) (Some (state_value t)) \<longleftrightarrow> wq_next name s t"
  by (cases s; cases "map_of work_queue_transitions name")
    (simp_all add: is_legal_def allowed_targets_def get_transition_def wq_next_def)

text \<open>Facts about every edge are checked once, over the list of edges.\<close>

definition wq_edges :: "(string \<times> wq_state option \<times> wq_state) list" where
  "wq_edges = concat (map (\<lambda>e. concat (map (\<lambda>f. map (\<lambda>t. (fst e, f, t)) (t_to (snd e))) (t_from (snd e))))
     work_queue_transitions)"

lemma wq_next_edge: "wq_next name s t \<Longrightarrow> (name, s, t) \<in> set wq_edges"
  by (force simp: wq_next_def wq_edges_def dest: map_of_SomeD)

lemma wq_edges_all: "list_all P wq_edges \<Longrightarrow> wq_next name s t \<Longrightarrow> P (name, s, t)"
  using wq_next_edge by (fastforce simp: list_all_iff)

lemma terminal_no_exit: "wq_next name (Some s) t \<Longrightarrow> s \<notin> set terminal_states"
proof -
  have "list_all (\<lambda>(n, f, t). f \<notin> Some ` set terminal_states) wq_edges" by code_simp
  then show "wq_next name (Some s) t \<Longrightarrow> s \<notin> set terminal_states" using wq_edges_all by fastforce
qed

lemma busy_from_claim:
  "wq_next name s t \<Longrightarrow> s \<notin> {Some Running, Some InDoubt} \<Longrightarrow> t \<in> {Running, InDoubt} \<Longrightarrow>
     name = ''claim'' \<or> name = ''retention_snapshot''"
proof -
  have "list_all (\<lambda>(n, f, t). f \<notin> {Some Running, Some InDoubt} \<longrightarrow> t \<in> {Running, InDoubt} \<longrightarrow>
      n = ''claim'' \<or> n = ''retention_snapshot'') wq_edges" by code_simp
  then show "wq_next name s t \<Longrightarrow> s \<notin> {Some Running, Some InDoubt} \<Longrightarrow> t \<in> {Running, InDoubt} \<Longrightarrow>
     name = ''claim'' \<or> name = ''retention_snapshot''" using wq_edges_all by fastforce
qed

lemma completed_from_busy:
  "wq_next name s Completed \<Longrightarrow> name \<noteq> ''retention_snapshot'' \<Longrightarrow>
     s \<in> {Some Running, Some InDoubt} \<and> name \<in> {''complete'', ''termination_acknowledged''}"
proof -
  have "list_all (\<lambda>(n, f, t). t = Completed \<longrightarrow> n \<noteq> ''retention_snapshot'' \<longrightarrow>
      f \<in> {Some Running, Some InDoubt} \<and> n \<in> {''complete'', ''termination_acknowledged''}) wq_edges" by code_simp
  then show "wq_next name s Completed \<Longrightarrow> name \<noteq> ''retention_snapshot'' \<Longrightarrow>
     s \<in> {Some Running, Some InDoubt} \<and> name \<in> {''complete'', ''termination_acknowledged''}"
    using wq_edges_all by fastforce
qed

lemma from_none: "wq_next name None t \<Longrightarrow> name = ''enqueue'' \<or> name = ''retention_snapshot''"
proof -
  have "list_all (\<lambda>(n, f, t). f = None \<longrightarrow> n = ''enqueue'' \<or> n = ''retention_snapshot'') wq_edges" by code_simp
  then show "wq_next name None t \<Longrightarrow> name = ''enqueue'' \<or> name = ''retention_snapshot''" using wq_edges_all by fastforce
qed

lemma snapshot_from_none: "wq_next ''retention_snapshot'' s t \<Longrightarrow> s = None"
proof -
  have "list_all (\<lambda>(n, f, t). n = ''retention_snapshot'' \<longrightarrow> f = None) wq_edges" by code_simp
  then show "wq_next ''retention_snapshot'' s t \<Longrightarrow> s = None" using wq_edges_all by fastforce
qed

section \<open>The life of a work item\<close>

inductive wq_run :: "wq_state option \<Rightarrow> string list \<Rightarrow> wq_state option \<Rightarrow> bool" where
  run_Nil: "wq_run s [] s"
| run_Cons: "wq_next name s t \<Longrightarrow> wq_run (Some t) names u \<Longrightarrow> wq_run s (name # names) u"

inductive_cases run_NilE: "wq_run s [] u"
inductive_cases run_ConsE: "wq_run s (name # names) u"

text \<open>
  The legality check is exactly the transition table: a transition between known states
  is accepted if and only if the table lists it, an unknown transition or state value is
  never accepted, and the assertion fails with the documented message exactly then.
\<close>

theorem legality_is_the_table:
  "(is_legal name from_state to_state \<longleftrightarrow>
      (\<exists>t. to_state = Some (state_value t) \<and>
        (from_state = None \<and> wq_next name None t \<or>
         (\<exists>s. from_state = Some (state_value s) \<and> wq_next name (Some s) t))))
   \<and> assert_legal name from_state to_state =
      (if is_legal name from_state to_state then Inr ()
       else Inl (''Illegal work queue transition: '' @ name @ '' '' @ or_else ''none'' from_state @ '' -> '' @
          or_else ''undefined'' to_state))"
  by (cases from_state; cases to_state; cases "map_of work_queue_transitions name";
      cases "state_of_value from_state"; cases "state_of_value to_state")
    (auto simp: is_legal_def allowed_targets_def get_transition_def wq_next_def assert_legal_def or_else_def
      state_of_value_iff state_value_inj)

text \<open>
  Terminal states are final, every other state can still complete: no run leaves
  completed, cancelled or expired, and from every non-terminal state some sequence of legal
  transitions reaches completed.
\<close>

theorem terminal_states_final:
  "(s \<in> set terminal_states \<longrightarrow> (\<forall>names u. wq_run (Some s) names u \<longrightarrow> names = [] \<and> u = Some s))
   \<and> (s \<notin> set terminal_states \<longrightarrow> (\<exists>names. wq_run (Some s) names (Some Completed)))"
proof (intro conjI impI allI)
  fix names u assume "s \<in> set terminal_states" "wq_run (Some s) names u"
  from this(2,1) show "names = []" "u = Some s"
    using terminal_no_exit by (cases names; auto elim: run_NilE run_ConsE)+
next
  assume "s \<notin> set terminal_states"
  have step: "is_legal n (Some (state_value a)) (Some (state_value b)) \<Longrightarrow> wq_run (Some b) ns u \<Longrightarrow>
      wq_run (Some a) (n # ns) u" for n a b ns u
    using is_legal_iff [of n "Some a" b] run_Cons by simp
  have running: "wq_run (Some Running) [''complete''] (Some Completed)"
    by (rule step [where b = Completed, OF _ run_Nil]) code_simp
  have queued: "wq_run (Some Queued) [''claim'', ''complete''] (Some Completed)"
    by (rule step [where b = Running, OF _ running]) code_simp
  have recovered: "wq_run (Some Recovered) [''claim'', ''complete''] (Some Completed)"
    by (rule step [where b = Running, OF _ running]) code_simp
  have retry: "wq_run (Some RetryWait) [''delay_matured'', ''claim'', ''complete''] (Some Completed)"
    by (rule step [where b = Queued, OF _ queued]) code_simp
  have failed: "wq_run (Some Failed) [''recover'', ''claim'', ''complete''] (Some Completed)"
    by (rule step [where b = Recovered, OF _ recovered]) code_simp
  have doubt: "wq_run (Some InDoubt) [''termination_acknowledged''] (Some Completed)"
    by (rule step [where b = Completed, OF _ run_Nil]) code_simp
  show "\<exists>names. wq_run (Some s) names (Some Completed)"
    using running queued recovered retry failed doubt \<open>s \<notin> set terminal_states\<close>
    by (cases s) (auto simp: terminal_states_def)
qed

theorem terminal_states_final_witness:
  "(\<exists>names. wq_run (Some Failed) names (Some Completed)) \<and> \<not> wq_run (Some Expired) [''claim''] (Some Running)"
  using terminal_states_final [of Failed] terminal_states_final [of Expired] by (auto simp: terminal_states_def)

lemma unclaimed_never_busy:
  "wq_run s names u \<Longrightarrow> s \<notin> {Some Running, Some InDoubt} \<Longrightarrow> s \<noteq> None \<Longrightarrow> s \<noteq> Some Completed \<Longrightarrow>
     ''claim'' \<notin> set names \<Longrightarrow> u \<notin> {Some Running, Some InDoubt, Some Completed}"
proof (induction rule: wq_run.induct)
  case (run_Cons name s t names u)
  have n: "name \<noteq> ''retention_snapshot''" using run_Cons.hyps(1) run_Cons.prems(2) snapshot_from_none by blast
  have "t \<notin> {Running, InDoubt}" using busy_from_claim [OF run_Cons.hyps(1)] run_Cons.prems n by auto
  moreover have "t \<noteq> Completed" using completed_from_busy run_Cons.hyps(1) run_Cons.prems(1) n by blast
  ultimately show ?case using run_Cons.IH run_Cons.prems by simp
qed simp

text \<open>
  No work item completes without having been leased: in every run that starts by
  enqueuing an item and ends in completed, the item was claimed.
\<close>

theorem completion_requires_claim:
  assumes "wq_run None (''enqueue'' # names) (Some Completed)"
  shows "''claim'' \<in> set names"
proof (rule ccontr)
  assume no: "''claim'' \<notin> set names"
  obtain t where t: "wq_next ''enqueue'' None t" "wq_run (Some t) names (Some Completed)"
    using assms by (auto elim: run_ConsE)
  have "t = Queued \<or> t = RetryWait"
    using t(1) by (auto simp: wq_next_def work_queue_transitions_def trans_def)
  then show False using unclaimed_never_busy [OF t(2)] no by auto
qed

theorem completion_requires_claim_witness:
  "\<exists>names. wq_run None (''enqueue'' # names) (Some Completed) \<and> ''claim'' \<in> set names"
proof -
  have step: "is_legal n (map_option state_value a) (Some (state_value b)) \<Longrightarrow> wq_run (Some b) ns u \<Longrightarrow> wq_run a (n # ns) u"
    for n a b ns u
    using is_legal_iff [of n a b] run_Cons by simp
  have "wq_run None [''enqueue'', ''claim'', ''complete''] (Some Completed)"
    by (rule step [where b = Queued], code_simp, rule step [where b = Running], code_simp,
      rule step [where b = Completed], code_simp, rule run_Nil)
  then show ?thesis using completion_requires_claim by blast
qed

section \<open>The verifiers accept the table\<close>

definition matrix_cell_of :: "wq_state \<Rightarrow> string \<Rightarrow> matrix_cell" where
  "matrix_cell_of s e = (let targets = allowed_targets e (Some (state_value s))
     in \<lparr>cell_from = s, cell_event = e, cell_legal = targets \<noteq> [], cell_to = targets\<rparr>)"

lemma build_matrix_alt:
  "build_matrix = concat (map (\<lambda>s. map (matrix_cell_of s) (map fst work_queue_transitions)) work_queue_states)"
  by (simp add: build_matrix_def matrix_cell_of_def comp_def)

lemma set_build_matrix: "set build_matrix = (\<Union>s \<in> set work_queue_states. matrix_cell_of s ` fst ` set work_queue_transitions)"
  by (simp add: build_matrix_alt image_image)

lemma matrix_cell_fields [simp]: "cell_from (matrix_cell_of s e) = s" "cell_event (matrix_cell_of s e) = e"
  "cell_legal (matrix_cell_of s e) \<longleftrightarrow> allowed_targets e (Some (state_value s)) \<noteq> []"
  "cell_to (matrix_cell_of s e) = allowed_targets e (Some (state_value s))"
  by (simp_all add: matrix_cell_of_def Let_def)

lemma allowed_target_next:
  "t \<in> set (allowed_targets e (Some (state_value s))) \<longleftrightarrow> wq_next e (Some s) t"
  using is_legal_iff [of e "Some s" t] by (simp add: is_legal_def)

lemma matrix_errors:
  "missing_cells build_matrix = []" "terminal_exits build_matrix = []" "dead_ends build_matrix = []"
  "concat (map cell_errors build_matrix) = []"
proof -
  show "missing_cells build_matrix = []"
    by (auto simp: missing_cells_def list_ex_iff set_build_matrix)
  have "\<not> cell_legal (matrix_cell_of s e)" if "s \<in> set terminal_states" for s e
  proof -
    have "allowed_targets e (Some (state_value s)) = []"
      using allowed_target_next terminal_no_exit that by (metis list.set_intros(1) neq_Nil_conv)
    then show ?thesis by simp
  qed
  then show "terminal_exits build_matrix = []"
    by (auto simp: terminal_exits_def filter_empty_conv set_build_matrix)
  have out: "\<exists>e \<in> fst ` set work_queue_transitions. cell_legal (matrix_cell_of s e)" if "s \<notin> set terminal_states" for s
  proof -
    have "list_ex (\<lambda>e. allowed_targets e (Some (state_value s)) \<noteq> []) (map fst work_queue_transitions)"
      using that by (cases s) (simp add: terminal_states_def, code_simp)+
    then show ?thesis by (force simp: list_ex_iff)
  qed
  have "filter (\<lambda>c. cell_from c = s \<and> cell_legal c) build_matrix \<noteq> []" if live: "s \<notin> set terminal_states" for s
  proof -
    obtain e where e: "e \<in> fst ` set work_queue_transitions" "cell_legal (matrix_cell_of s e)" using out [OF live] ..
    have "matrix_cell_of s e \<in> set build_matrix" using e(1) all_states unfolding set_build_matrix by blast
    then show ?thesis using e(2) by (auto simp: filter_empty_conv intro!: bexI [of _ "matrix_cell_of s e"])
  qed
  then have "\<not> (\<not> is_terminal (Some (state_value s)) \<and> filter (\<lambda>c. cell_from c = s \<and> cell_legal c) build_matrix = [])" for s
    unfolding is_terminal_iff by blast
  then show "dead_ends build_matrix = []" unfolding dead_ends_def by (intro concat_map_if ballI)
  have "cell_errors (matrix_cell_of s e) = []" for s e
    by (auto simp: cell_errors_def assert_legal_def is_legal_def)
  then show "concat (map cell_errors build_matrix) = []" by (auto simp: set_build_matrix)
qed

lemma length_build_matrix: "length build_matrix = length work_queue_states * length work_queue_transitions"
  unfolding build_matrix_alt by (simp add: length_concat comp_def sum_list_triv)

lemma transition_errors_none: "list_all (\<lambda>e. transition_errors e = []) work_queue_transitions"
  by code_simp

lemma machine_errors_none: "machine_errors = []"
proof -
  have "concat (map transition_errors work_queue_transitions) = []"
    using transition_errors_none by (simp only: concat_eq_Nil_conv list_all_iff set_map ball_simps)
  moreover have "concat (map (\<lambda>s. if s \<in> set work_queue_states then [] else f s) xs) = []" for f :: "wq_state \<Rightarrow> string list" and xs
    by (simp add: all_states)
  ultimately show ?thesis unfolding machine_errors_def by (simp only: append_Nil)
qed

text \<open>
  The shipped table passes the module's own verification: no error is reported, the
  matrix has all 9 x 16 cells, and the proof part is ok.
\<close>

theorem work_queue_machine_verified:
  "m_ok verify_machine \<and> m_errors verify_machine = [] \<and> p_ok (m_proof verify_machine) \<and>
   p_cells (m_proof verify_machine) = 144 \<and> p_states (m_proof verify_machine) = 9 \<and>
   p_events (m_proof verify_machine) = 16"
proof -
  have v: "verify_proof = \<lparr>p_ok = True, p_cells = length build_matrix, p_states = length work_queue_states,
      p_events = length work_queue_transitions, p_errors = [], p_matrix = build_matrix\<rparr>"
    unfolding verify_proof_def Let_def matrix_errors by simp
  have "length work_queue_states = 9" "length work_queue_transitions = 16"
    by (simp_all add: work_queue_states_def work_queue_transitions_def)
  then show ?thesis using length_build_matrix machine_errors_none by (simp add: v verify_machine_def)
qed

end
