(* ===== verification/WorkQueuePolicy.thy ===== *)
theory WorkQueuePolicy imports LockContract "HOL-Library.Word" "HOL-Library.Multiset" begin

text \<open>
  The arithmetic of the work queue, \<open>packages/foundation/src/work-queue/\<close>: priority classes,
  the weighted service cycle and ageing (\<open>scheduling.ts\<close>), credit limits and deterministic
  backoff (\<open>policies.ts\<close>), and the UUIDv7 identities (\<open>identity.ts\<close>). Numbers are those of
  \<open>LockContract\<close>: \<open>Number(value)\<close> is a whole number or not finite (a fractional argument
  is truncated by every one of these functions before use). SHA-256 and the random source are
  arguments.
\<close>

unbundle bit_operations_syntax

section \<open>Priorities\<close>

datatype priority_class = Critical | High | Normal | Low

definition priority_weights :: "(priority_class \<times> nat) list" where
  "priority_weights = [(Critical, 8), (High, 4), (Normal, 2), (Low, 1)]"

definition priority_cycle :: "priority_class list" where
  "priority_cycle = concat (map (\<lambda>(c, w). replicate w c) priority_weights)"

definition as_int :: "js_number \<Rightarrow> int \<Rightarrow> int" where
  "as_int v d = (case v of Whole n \<Rightarrow> n | NotFinite \<Rightarrow> d)"

definition normalize_priority :: "js_number \<Rightarrow> int \<times> priority_class" where
  "normalize_priority v =
     (let priority = as_int v 0
      in if priority \<ge> 2 then (2, Critical)
         else if priority = 1 then (1, High)
         else if priority < 0 then (-1, Low)
         else (0, Normal))"

text \<open>The cursor is a stored non-negative number; anything else counts as zero.\<close>

definition cursor_value :: "js_number \<Rightarrow> nat" where
  "cursor_value cursor = nat (max 0 (as_int cursor 0))"

definition priority_class_at :: "js_number \<Rightarrow> priority_class" where
  "priority_class_at cursor = priority_cycle ! (cursor_value cursor mod length priority_cycle)"

definition next_cursor :: "js_number \<Rightarrow> nat" where
  "next_cursor cursor = (cursor_value cursor + 1) mod length priority_cycle"

definition class_order :: "priority_class list" where
  "class_order = [Low, Normal, High, Critical]"

fun index_of :: "'a \<Rightarrow> 'a list \<Rightarrow> nat" where
  "index_of x [] = 0"
| "index_of x (y # ys) = (if x = y then 0 else Suc (index_of x ys))"

definition aged_class :: "js_number \<Rightarrow> int \<Rightarrow> int \<Rightarrow> js_number \<Rightarrow> priority_class" where
  "aged_class priority available_at now interval0 =
     (let interval = max 1 (let i = as_int interval0 1 in if i = 0 then 1 else i);
          base = snd (normalize_priority priority);
          base_index = index_of base class_order;
          promotions = nat (max 0 ((now - available_at) div interval))
      in class_order ! min (length class_order - 1) (base_index + promotions))"

datatype capacity_error = CapacityExceeded string int

definition capacity_below :: "int \<Rightarrow> int \<Rightarrow> string \<Rightarrow> capacity_error + unit" where
  "capacity_below n limit reason = (if n \<ge> limit then Inl (CapacityExceeded reason limit) else Inr ())"

definition capacity_at_most :: "int \<Rightarrow> int \<Rightarrow> string \<Rightarrow> capacity_error + unit" where
  "capacity_at_most n limit reason = (if n > limit then Inl (CapacityExceeded reason limit) else Inr ())"

section \<open>Credit limits and backoff\<close>

definition hard_limit :: int where
  "hard_limit = 8192"

record queue_limit =
  requested :: int
  normalized_requested :: int
  limit_of :: int
  clamped :: bool

definition resolve_max_in_flight :: "js_number option \<Rightarrow> js_number \<Rightarrow> queue_limit" where
  "resolve_max_in_flight value fallback =
     (let fallback_limit = max 1 (as_int fallback 1000);
          req = as_int (or_default value (Whole fallback_limit)) fallback_limit;
          norm = max 1 req;
          lim = min norm hard_limit
      in \<lparr>requested = req, normalized_requested = norm, limit_of = lim, clamped = (norm \<noteq> lim)\<rparr>)"

definition safe_attempt :: "int \<Rightarrow> nat" where
  "safe_attempt attempt = nat (max 1 (if attempt = 0 then 1 else attempt))"

definition backoff :: "int \<Rightarrow> int \<Rightarrow> int \<Rightarrow> int \<Rightarrow> int" where
  "backoff attempt initial multiplier max_delay =
     min (initial * multiplier ^ (safe_attempt attempt - 1)) max_delay"

text \<open>\<open>digest\<close> is the first 32-bit word of the SHA-256 of seed, queue, item and attempt.\<close>

definition retry_delay :: "(string \<Rightarrow> string \<Rightarrow> string \<Rightarrow> nat \<Rightarrow> 32 word) \<Rightarrow> string \<Rightarrow> string \<Rightarrow> string \<Rightarrow> js_number
    \<Rightarrow> int \<Rightarrow> int \<Rightarrow> int \<Rightarrow> int \<Rightarrow> int" where
  "retry_delay digest seed queue item jitter_bps attempt initial multiplier max_delay =
     (let base = backoff attempt initial multiplier max_delay;
          bps = max 0 (min 10000 (as_int jitter_bps 0));
          ceiling = (base * bps) div 10000
      in if ceiling \<le> 0 then base
         else base + uint (digest seed queue item (nat (max 1 attempt))) mod (ceiling + 1))"

section \<open>Identities\<close>

definition to_byte :: "nat \<Rightarrow> 8 word" where
  "to_byte n = of_nat n"

definition max_timestamp :: nat where
  "max_timestamp = 2 ^ 48 - 1"

definition uuid_bytes :: "int \<Rightarrow> 8 word list \<Rightarrow> string + 8 word list" where
  "uuid_bytes now entropy =
     (let now_ms = nat (max 0 now);
          t = (if now_ms > max_timestamp then max_timestamp else now_ms)
      in if length entropy < 10 then Inl ''UUIDv7 entropy source returned too few bytes.''
         else
           (let b = [to_byte (t div 2 ^ 40), to_byte (t div 2 ^ 32), to_byte (t div 2 ^ 24),
                     to_byte (t div 2 ^ 16), to_byte (t div 2 ^ 8), to_byte t] @ take 10 entropy;
                b1 = b[6 := ((b ! 6) AND 0x0f) OR 0x70]
            in Inr (b1[8 := ((b1 ! 8) AND 0x3f) OR 0x80])))"

definition hex_digit :: "nat \<Rightarrow> char" where
  "hex_digit n = ''0123456789abcdef'' ! n"

definition hex_byte :: "8 word \<Rightarrow> string" where
  "hex_byte w = [hex_digit (unat w div 16), hex_digit (unat w mod 16)]"

definition format_uuid :: "8 word list \<Rightarrow> string" where
  "format_uuid bytes =
     (let hex = concat (map hex_byte bytes)
      in take 8 hex @ ''-'' @ take 4 (drop 8 hex) @ ''-'' @ take 4 (drop 12 hex) @ ''-'' @
         take 4 (drop 16 hex) @ ''-'' @ drop 20 hex)"

definition create_uuid :: "int \<Rightarrow> 8 word list \<Rightarrow> string + string" where
  "create_uuid now entropy = ebind (uuid_bytes now entropy) (\<lambda>b. Inr (format_uuid b))"

definition id_prefixes :: "(string \<times> string) list" where
  "id_prefixes = [(''workItem'', ''wqwi''), (''lease'', ''wqls''), (''journalEntry'', ''wqje''),
     (''subscription'', ''wqsub''), (''queueDefinition'', ''wqdef''), (''worker'', ''wqwrk''),
     (''fallbackTask'', ''wqfb''), (''snapshot'', ''wqsnap'')]"

definition queue_id :: "(string \<times> string) list \<Rightarrow> string \<Rightarrow> int \<Rightarrow> 8 word list \<Rightarrow> string + string" where
  "queue_id prefixes kind now entropy =
     (case map_of prefixes kind of
        None \<Rightarrow> Inl (''Unknown queue identity kind: '' @ kind)
      | Some p \<Rightarrow> if p = [] then Inl (''Unknown queue identity kind: '' @ kind)
                  else ebind (create_uuid now entropy) (\<lambda>u. Inr (p @ ''_'' @ u)))"

section \<open>The service cycle\<close>

lemma priority_cycle_simp:
  "priority_cycle = [Critical, Critical, Critical, Critical, Critical, Critical, Critical, Critical,
     High, High, High, High, Normal, Normal, Low]"
  by (simp add: priority_cycle_def priority_weights_def numeral_eq_Suc)

lemma length_cycle: "length priority_cycle = 15" by (simp add: priority_cycle_simp)

text \<open>What \<open>n\<close> turns serve, each turn at the cursor the previous one stored.\<close>

fun serve :: "nat \<Rightarrow> nat \<Rightarrow> priority_class list" where
  "serve 0 cursor = []"
| "serve (Suc n) cursor = priority_class_at (Whole (int cursor)) # serve n (next_cursor (Whole (int cursor)))"

lemma serve_rotate: "serve n c = map (\<lambda>i. priority_cycle ! ((c + i) mod 15)) [0..<n]"
proof (induction n arbitrary: c)
  case (Suc n)
  have "map (\<lambda>i. priority_cycle ! ((c + i) mod 15)) [0..<Suc n] =
      priority_cycle ! (c mod 15) # map (\<lambda>i. priority_cycle ! ((c + i) mod 15)) (map Suc [0..<n])"
    by (simp add: upt_conv_Cons map_Suc_upt del: upt_Suc)
  also have "map (\<lambda>i. priority_cycle ! ((c + i) mod 15)) (map Suc [0..<n]) =
      map (\<lambda>i. priority_cycle ! ((Suc c mod 15 + i) mod 15)) [0..<n]"
    by (simp add: mod_simps)
  finally show ?case
    using Suc.IH [of "Suc c mod 15"]
    by (simp add: priority_class_at_def next_cursor_def cursor_value_def as_int_def length_cycle del: upt_Suc)
qed simp

lemma rotate_count:
  "count_list (map (\<lambda>i. priority_cycle ! ((c + i) mod 15)) [0..<15]) x = count_list priority_cycle x"
proof -
  have "map (\<lambda>i. priority_cycle ! ((c + i) mod 15)) [0..<15] = rotate c priority_cycle"
    by (rule nth_equalityI) (simp_all add: length_cycle nth_rotate)
  moreover have "mset (rotate c xs) = mset xs" for xs :: "priority_class list"
    by (metis append_take_drop_id mset_append rotate_drop_take union_commute)
  ultimately show ?thesis by (metis mset_eq_length_filter)
qed

text \<open>
  The service cycle is fair: whatever cursor is stored, fifteen consecutive turns serve
  each priority class exactly as often as its weight says, so no class starves.
\<close>

theorem priority_cycle_fair:
  "(c, w) \<in> set priority_weights \<Longrightarrow> count_list (serve 15 cursor) c = w"
  unfolding serve_rotate rotate_count by (auto simp: priority_weights_def priority_cycle_simp)

theorem priority_cycle_fair_witness: "count_list (serve 15 9) Low = 1"
  by (rule priority_cycle_fair) (simp add: priority_weights_def)

lemma length_class_order: "length class_order = 4"
  by (simp add: class_order_def)

text \<open>
  Ageing only promotes: the aged class is never below the class of the item's priority,
  never drops as time passes, and after three ageing intervals every item is critical.
\<close>

theorem ageing_promotes:
  assumes "1 \<le> interval"
  shows "index_of (snd (normalize_priority p)) class_order \<le> index_of (aged_class p at now (Whole interval)) class_order
    \<and> (now \<le> later \<longrightarrow>
        index_of (aged_class p at now (Whole interval)) class_order \<le> index_of (aged_class p at later (Whole interval)) class_order)
    \<and> (at + 3 * interval \<le> now \<longrightarrow> aged_class p at now (Whole interval) = Critical)"
proof -
  let ?b = "index_of (snd (normalize_priority p)) class_order"
  let ?p = "\<lambda>t. nat (max 0 ((t - at) div interval))"
  have b: "?b \<le> 3" by (cases "snd (normalize_priority p)") (simp_all add: class_order_def)
  have ix: "index_of (class_order ! n) class_order = n" if "n \<le> 3" for n
    using that by (auto simp: class_order_def le_Suc_eq numeral_eq_Suc)
  have a: "aged_class p at t (Whole interval) = class_order ! min 3 (?b + ?p t)" for t
    using assms by (simp add: aged_class_def as_int_def Let_def length_class_order)
  have ia: "index_of (aged_class p at t (Whole interval)) class_order = min 3 (?b + ?p t)" for t
    unfolding a by (rule ix) simp
  have "?p now \<le> ?p later" if "now \<le> later"
    using that assms zdiv_mono1 [of "now - at" "later - at" interval] by (simp add: nat_mono)
  moreover have "3 \<le> ?p now" if "at + 3 * interval \<le> now"
  proof -
    have "3 * interval div interval \<le> (now - at) div interval" using that assms by (intro zdiv_mono1) auto
    then have "3 \<le> (now - at) div interval" using assms by simp
    then show ?thesis by simp
  qed
  moreover have "class_order ! 3 = Critical" by (simp add: class_order_def)
  moreover have "aged_class p at now (Whole interval) = Critical" if "3 \<le> ?p now"
    unfolding a using that \<open>class_order ! 3 = Critical\<close> by (simp add: min_absorb1)
  ultimately show ?thesis unfolding ia using b by auto
qed

theorem ageing_promotes_witness: "aged_class (Whole (-4)) 1000 181000 (Whole 60000) = Critical"
  using ageing_promotes [of 60000 "Whole (-4)" 1000 181000 0] by simp

section \<open>Limits and delays\<close>

text \<open>
  Whatever is requested, the credit limit lies between 1 and the hard limit 8192; it is
  the request itself when that is in range, and \<open>clamped\<close> says exactly when the hard limit cut
  it.
\<close>

theorem max_in_flight_bounds:
  "1 \<le> limit_of (resolve_max_in_flight v d) \<and> limit_of (resolve_max_in_flight v d) \<le> hard_limit
   \<and> (clamped (resolve_max_in_flight v d) \<longleftrightarrow> hard_limit < normalized_requested (resolve_max_in_flight v d))
   \<and> (1 \<le> n \<and> n \<le> hard_limit \<longrightarrow> limit_of (resolve_max_in_flight (Some (Whole n)) d) = n)"
  by (auto simp: resolve_max_in_flight_def Let_def hard_limit_def as_int_def or_default_def)

theorem max_in_flight_bounds_witness:
  "limit_of (resolve_max_in_flight (Some (Whole 64)) NotFinite) = 64"
  using max_in_flight_bounds [where v = None and d = NotFinite and n = 64] by (simp add: hard_limit_def)

lemma backoff_cap: "backoff a i m mx \<le> mx"
  by (simp add: backoff_def)

lemma backoff_nonneg: "0 \<le> i \<Longrightarrow> 0 \<le> m \<Longrightarrow> 0 \<le> mx \<Longrightarrow> 0 \<le> backoff a i m mx"
  by (simp add: backoff_def)

lemma backoff_mono:
  assumes "0 \<le> i" "1 \<le> m" "1 \<le> a" "a \<le> b"
  shows "backoff a i m mx \<le> backoff b i m mx"
proof -
  have "safe_attempt a - 1 \<le> safe_attempt b - 1" using assms by (simp add: safe_attempt_def nat_mono)
  then have "m ^ (safe_attempt a - 1) \<le> m ^ (safe_attempt b - 1)" using assms(2) by (intro power_increasing) auto
  then have "i * m ^ (safe_attempt a - 1) \<le> i * m ^ (safe_attempt b - 1)" using assms(1) by (rule mult_left_mono)
  then show ?thesis unfolding backoff_def by (intro min.mono) auto
qed

text \<open>
  Retry delays are bounded and the backoff grows: with non-negative durations and a
  multiplier of at least one, the backoff never falls from one attempt to the next and never
  exceeds the maximum, and the jitter adds at most the configured share (and at most the
  base again), whatever the digest is.
\<close>

theorem retry_delay_bounds:
  assumes "0 \<le> initial" and "1 \<le> multiplier" and "0 \<le> max_delay" and "1 \<le> a"
  shows "backoff a initial multiplier max_delay \<le> backoff (a + 1) initial multiplier max_delay
    \<and> backoff a initial multiplier max_delay \<le> max_delay
    \<and> backoff a initial multiplier max_delay \<le> retry_delay digest seed queue item (Whole bps) a initial multiplier max_delay
    \<and> retry_delay digest seed queue item (Whole bps) a initial multiplier max_delay
        \<le> backoff a initial multiplier max_delay
          + backoff a initial multiplier max_delay * max 0 (min 10000 bps) div 10000
    \<and> retry_delay digest seed queue item (Whole bps) a initial multiplier max_delay \<le> 2 * max_delay"
proof -
  let ?b = "backoff a initial multiplier max_delay" and ?j = "max 0 (min 10000 bps)"
  have b: "0 \<le> ?b" "?b \<le> max_delay" using assms backoff_nonneg backoff_cap by auto
  have c0: "0 \<le> ?b * ?j div 10000" using b by (simp add: pos_imp_zdiv_nonneg_iff)
  have "?b * ?j \<le> ?b * 10000" by (rule mult_left_mono) (use b in auto)
  then have "?b * ?j div 10000 \<le> ?b * 10000 div 10000" by (rule zdiv_mono1) simp
  then have c: "?b * ?j div 10000 \<le> ?b" by simp
  have m: "0 \<le> u mod (?b * ?j div 10000 + 1) \<and> u mod (?b * ?j div 10000 + 1) \<le> ?b * ?j div 10000" for u
    using c0 pos_mod_bound [of "?b * ?j div 10000 + 1" u] by simp
  have r: "?b \<le> retry_delay digest seed queue item (Whole bps) a initial multiplier max_delay \<and>
      retry_delay digest seed queue item (Whole bps) a initial multiplier max_delay \<le> ?b + ?b * ?j div 10000"
    using m [of "uint (digest seed queue item (nat (max 1 a)))"] c0
    unfolding retry_delay_def Let_def as_int_def js_number.case by (cases "?b * ?j div 10000 \<le> 0") (simp_all only: if_True if_False, linarith+)
  have mono: "?b \<le> backoff (a + 1) initial multiplier max_delay"
    using assms by (intro backoff_mono) auto
  show ?thesis
  proof (intro conjI)
    show "retry_delay digest seed queue item (Whole bps) a initial multiplier max_delay \<le> 2 * max_delay"
      using r c b by linarith
  qed (use r mono b in auto)
qed

theorem retry_delay_bounds_witness:
  "retry_delay (\<lambda>_ _ _ _. 4294967295) ''s'' ''q'' ''i'' (Whole 2000) 40 1000 2 300000 \<le> 600000
   \<and> backoff 3 1000 2 300000 = 4000"
  using retry_delay_bounds [of 1000 2 300000 40 "\<lambda>_ _ _ _. 4294967295" "''s''" "''q''" "''i''" 2000]
  by (simp add: backoff_def safe_attempt_def)

section \<open>UUIDs\<close>

lemma unat_to_byte: "unat (to_byte n) = n mod 256"
  by (simp add: to_byte_def unat_of_nat)

text \<open>Reading the timestamp back: the first six bytes, big endian.\<close>

definition uuid_timestamp :: "8 word list \<Rightarrow> nat" where
  "uuid_timestamp b = foldl (\<lambda>a w. a * 256 + unat w) 0 (take 6 b)"

lemma base256: "t < 2 ^ 48 \<Longrightarrow>
  ((((t div 2 ^ 40 mod 256 * 256 + t div 2 ^ 32 mod 256) * 256 + t div 2 ^ 24 mod 256) * 256
    + t div 2 ^ 16 mod 256) * 256 + t div 2 ^ 8 mod 256) * 256 + t mod 256 = (t :: nat)"
proof -
  assume "t < 2 ^ 48"
  then have "t div 2 ^ 40 < 256" by (simp add: div_less_iff_less_mult)
  then have e40: "t div 2 ^ 40 mod 256 = t div 2 ^ 40" by simp
  have step: "t div (n * 256) * 256 + t div n mod 256 = t div n" for n :: nat
    by (simp add: div_mult2_eq)
  show ?thesis
    using step [of 1] step [of "2 ^ 8"] step [of "2 ^ 16"] step [of "2 ^ 24"] step [of "2 ^ 32"]
    unfolding e40 by simp
qed

lemma version_bits: "unat (((w :: 8 word) AND 0x0f) OR 0x70) div 16 = 7"
proof -
  have "\<forall>n \<in> set [0..<256]. unat ((word_of_nat n :: 8 word) AND 0x0f OR 0x70) div 16 = 7" by code_simp
  moreover have "unat w \<in> set [0..<256]" using unsigned_less [of w] by simp
  ultimately have "unat ((word_of_nat (unat w) :: 8 word) AND 0x0f OR 0x70) div 16 = 7" by blast
  then show ?thesis by simp
qed

lemma variant_bits: "unat (((w :: 8 word) AND 0x3f) OR 0x80) div 64 = 2"
proof -
  have "\<forall>n \<in> set [0..<256]. unat ((word_of_nat n :: 8 word) AND 0x3f OR 0x80) div 64 = 2" by code_simp
  moreover have "unat w \<in> set [0..<256]" using unsigned_less [of w] by simp
  ultimately have "unat ((word_of_nat (unat w) :: 8 word) AND 0x3f OR 0x80) div 64 = 2" by blast
  then show ?thesis by simp
qed

lemma list_of_ten:
  assumes "length xs = 10"
  obtains e0 e1 e2 e3 e4 e5 e6 e7 e8 e9 where "xs = [e0, e1, e2, e3, e4, e5, e6, e7, e8, e9]"
  using assms by (auto simp: length_Suc_conv numeral_eq_Suc)

lemma uuid_bytes_Inr:
  assumes "uuid_bytes now entropy = Inr b"
  defines "t \<equiv> min (nat (max 0 now)) max_timestamp"
  obtains e0 e1 e2 e3 e4 e5 e6 e7 e8 e9 where "take 10 entropy = [e0, e1, e2, e3, e4, e5, e6, e7, e8, e9]"
    "b = [to_byte (t div 2 ^ 40), to_byte (t div 2 ^ 32), to_byte (t div 2 ^ 24), to_byte (t div 2 ^ 16),
          to_byte (t div 2 ^ 8), to_byte t, (e0 AND 0x0f) OR 0x70, e1, (e2 AND 0x3f) OR 0x80, e3, e4, e5, e6, e7, e8, e9]"
proof -
  have len: "10 \<le> length entropy" using assms(1) by (auto simp: uuid_bytes_def Let_def split: if_splits)
  then have "length (take 10 entropy) = 10" by simp
  then obtain e0 e1 e2 e3 e4 e5 e6 e7 e8 e9 where e: "take 10 entropy = [e0, e1, e2, e3, e4, e5, e6, e7, e8, e9]"
    by (rule list_of_ten)
  have t: "(if nat (max 0 now) > max_timestamp then max_timestamp else nat (max 0 now)) = t"
    by (auto simp: t_def)
  show thesis
    by (rule that [OF e]) (use assms(1) len in \<open>simp add: uuid_bytes_def t e Let_def\<close>)
qed

lemma timestamp_lt: "min n max_timestamp < 2 ^ 48"
  by (simp add: max_timestamp_def min_less_iff_disj)

lemma length_hex: "length (concat (map hex_byte b)) = 2 * length b"
  by (induction b) (simp_all add: hex_byte_def)

lemma nth_hex: "i < length b \<Longrightarrow> concat (map hex_byte b) ! (2 * i) = hex_digit (unat (b ! i) div 16)"
proof (induction b arbitrary: i)
  case (Cons w b)
  then show ?case by (cases i) (simp_all add: hex_byte_def)
qed simp

lemma format_uuid_shape:
  assumes "length b = 16"
  shows "length (format_uuid b) = 36 \<and> format_uuid b ! 14 = hex_digit (unat (b ! 6) div 16) \<and>
    (\<forall>i \<in> {8, 13, 18, 23}. format_uuid b ! i = CHR ''-'')"
proof -
  define hex where "hex = concat (map hex_byte b)"
  have l: "length hex = 32" using assms by (simp add: hex_def length_hex)
  have n: "hex ! 12 = hex_digit (unat (b ! 6) div 16)" using nth_hex [of 6 b] assms by (simp add: hex_def)
  have "format_uuid b = take 8 hex @ ''-'' @ take 4 (drop 8 hex) @ ''-'' @ take 4 (drop 12 hex) @ ''-'' @
      take 4 (drop 16 hex) @ ''-'' @ drop 20 hex"
    by (simp add: format_uuid_def hex_def Let_def)
  then show ?thesis using l n by (simp add: nth_append)
qed

lemma uuid_timestamp_list: "uuid_timestamp (a # b # c # d # e # f # rest) =
    ((((unat a * 256 + unat b) * 256 + unat c) * 256 + unat d) * 256 + unat e) * 256 + unat f"
  by (simp add: uuid_timestamp_def)

lemma hex_digit_7: "hex_digit 7 = CHR ''7''"
  by (simp add: hex_digit_def)

text \<open>
  A generated identity is a UUID of version 7: with at least ten bytes of entropy it is
  produced, the timestamp read back from its first 48 bits is the clock clipped to 48 bits,
  the version and variant bits are 7 and 10, the text form has 36 characters with hyphens in
  the four places and 7 as the version digit; with less entropy it is refused.
\<close>

theorem uuid_v7_roundtrip:
  "(length entropy < 10 \<longrightarrow> create_uuid now entropy = Inl ''UUIDv7 entropy source returned too few bytes.'')
   \<and> (10 \<le> length entropy \<longrightarrow> (\<exists>b. uuid_bytes now entropy = Inr b \<and> create_uuid now entropy = Inr (format_uuid b) \<and>
        length b = 16 \<and> uuid_timestamp b = min (nat (max 0 now)) (2 ^ 48 - 1) \<and>
        unat (b ! 6) div 16 = 7 \<and> unat (b ! 8) div 64 = 2 \<and> length (format_uuid b) = 36 \<and>
        format_uuid b ! 14 = CHR ''7'' \<and> (\<forall>i \<in> {8, 13, 18, 23}. format_uuid b ! i = CHR ''-'')))"
proof (intro conjI impI)
  assume "length entropy < 10"
  then show "create_uuid now entropy = Inl ''UUIDv7 entropy source returned too few bytes.''"
    by (simp add: create_uuid_def uuid_bytes_def Let_def)
next
  assume "10 \<le> length entropy"
  then obtain b where b: "uuid_bytes now entropy = Inr b" by (auto simp: uuid_bytes_def Let_def)
  let ?t = "min (nat (max 0 now)) max_timestamp"
  obtain e0 e1 e2 e3 e4 e5 e6 e7 e8 e9 where e: "take 10 entropy = [e0, e1, e2, e3, e4, e5, e6, e7, e8, e9]"
    and bs: "b = [to_byte (?t div 2 ^ 40), to_byte (?t div 2 ^ 32), to_byte (?t div 2 ^ 24), to_byte (?t div 2 ^ 16),
          to_byte (?t div 2 ^ 8), to_byte ?t, (e0 AND 0x0f) OR 0x70, e1, (e2 AND 0x3f) OR 0x80, e3, e4, e5, e6, e7, e8, e9]"
    by (rule uuid_bytes_Inr [OF b])
  have ts: "uuid_timestamp b = ?t"
    unfolding bs uuid_timestamp_list unat_to_byte by (rule base256 [OF timestamp_lt])
  have v: "unat (b ! 6) div 16 = 7" unfolding bs using version_bits [of e0] by simp
  have r: "unat (b ! 8) div 64 = 2" unfolding bs using variant_bits [of e2] by simp
  have l: "length b = 16" by (simp add: bs)
  note f = format_uuid_shape [OF l]
  show "\<exists>b. uuid_bytes now entropy = Inr b \<and> create_uuid now entropy = Inr (format_uuid b) \<and>
        length b = 16 \<and> uuid_timestamp b = min (nat (max 0 now)) (2 ^ 48 - 1) \<and>
        unat (b ! 6) div 16 = 7 \<and> unat (b ! 8) div 64 = 2 \<and> length (format_uuid b) = 36 \<and>
        format_uuid b ! 14 = CHR ''7'' \<and> (\<forall>i \<in> {8, 13, 18, 23}. format_uuid b ! i = CHR ''-'')"
    using b v r l f ts by (intro exI [of _ b]) (simp add: create_uuid_def hex_digit_7 max_timestamp_def)
qed

theorem uuid_v7_roundtrip_witness:
  "\<exists>b. uuid_bytes 1700000000000 (replicate 10 0xff) = Inr b \<and> uuid_timestamp b = 1700000000000"
  using uuid_v7_roundtrip [of "replicate 10 0xff" 1700000000000] by auto

end
