(* ===== verification/PushDispatcher.thy ===== *)
theory PushDispatcher imports WorkQueuePolicy begin

text \<open>
  \<open>createQueuePushDispatcher\<close> of \<open>packages/foundation/src/work-queue/push-dispatcher.ts\<close>. A call
  of \<open>dispatchOnce\<close> runs synchronously between its awaits, so each stretch between two awaits
  is one operation here and a pending call is a value of the state: \<open>Claiming\<close> while the store
  claims, \<open>Notifying\<close> while the terminal notifications of the claim are awaited one by one. The
  store, the worker runtime and the peer selector are the environment: what they answer is the
  argument of the operation that receives it.
\<close>

section \<open>State\<close>

datatype dispatch_call =
    Claiming nat
  | Notifying "string list" "string list"

record dispatcher =
  credit_limit :: nat
  reserved :: nat
  in_flight :: "(string \<times> bool) list"
  calls :: "(nat \<times> dispatch_call) list"
  next_call :: nat

record claim_result =
  claimed :: "string list"
  failed_items :: "string list"
  expired_items :: "string list"

record dispatcher_status =
  st_in_flight :: nat
  st_reserved :: nat
  st_credit_limit :: nat
  st_available :: nat

datatype dispatch_result =
    DispatchCancelled nat nat
  | Backpressure nat nat
  | DispatchPending nat
  | Dispatched "string list" nat nat

definition new_dispatcher :: "js_number option \<Rightarrow> dispatcher" where
  "new_dispatcher max_in_flight =
     \<lparr>credit_limit = nat (limit_of (resolve_max_in_flight max_in_flight (Whole 1000))), reserved = 0,
      in_flight = [], calls = [], next_call = 0\<rparr>"

section \<open>Operations\<close>

definition status :: "dispatcher \<Rightarrow> dispatcher_status" where
  "status d = \<lparr>st_in_flight = length (in_flight d), st_reserved = reserved d, st_credit_limit = credit_limit d,
     st_available = credit_limit d - reserved d - length (in_flight d)\<rparr>"

text \<open>\<open>dispatchOnce\<close> up to its first await. Without credit the input goes to a peer; the local
  state is not touched by that.\<close>

definition dispatch_begin :: "bool \<Rightarrow> js_number option \<Rightarrow> dispatcher \<Rightarrow> dispatch_result \<times> dispatcher" where
  "dispatch_begin aborted batch d =
     (if aborted then (DispatchCancelled (length (in_flight d)) (reserved d), d)
      else
        (let requested_batch = nat (max 1 (as_int (or_default batch (Whole 1)) 1));
             batch_size = min requested_batch (credit_limit d - reserved d - length (in_flight d))
         in if batch_size = 0 then (Backpressure (length (in_flight d)) (reserved d), d)
            else
              (let c = next_call d
               in (DispatchPending c,
                   d\<lparr>reserved := reserved d + batch_size, calls := jmap_set c (Claiming batch_size) (calls d),
                     next_call := Suc c\<rparr>))))"

text \<open>The store's claim throws.\<close>

definition claim_failed :: "nat \<Rightarrow> dispatcher \<Rightarrow> dispatcher" where
  "claim_failed c d =
     (case map_of (calls d) c of
        Some (Claiming n) \<Rightarrow> d\<lparr>reserved := reserved d - n, calls := jmap_del c (calls d)\<rparr>
      | _ \<Rightarrow> d)"

text \<open>The claimed items enter the in-flight map, keyed by work item.\<close>

definition start_items :: "string list \<Rightarrow> dispatcher \<Rightarrow> dispatcher" where
  "start_items ids d = d\<lparr>in_flight := fold (\<lambda>i m. jmap_set i False m) ids (in_flight d)\<rparr>"

definition finish_call :: "nat \<Rightarrow> string list \<Rightarrow> dispatcher \<Rightarrow> dispatch_result \<times> dispatcher" where
  "finish_call c ids d =
     (let d1 = start_items ids (d\<lparr>calls := jmap_del c (calls d)\<rparr>)
      in (Dispatched ids (length (in_flight d1)) (reserved d1), d1))"

text \<open>The claim returns: the reservation is released at once; with terminal items to report
  the call awaits before it starts what it claimed.\<close>

definition claim_returned :: "nat \<Rightarrow> claim_result \<Rightarrow> dispatcher \<Rightarrow> dispatch_result \<times> dispatcher" where
  "claim_returned c r d =
     (case map_of (calls d) c of
        Some (Claiming n) \<Rightarrow>
          (let d1 = d\<lparr>reserved := reserved d - n\<rparr>;
               terminal = failed_items r @ expired_items r
           in if terminal = [] then finish_call c (claimed r) d1
              else (DispatchPending c, d1\<lparr>calls := jmap_set c (Notifying terminal (claimed r)) (calls d1)\<rparr>))
      | _ \<Rightarrow> (DispatchPending c, d))"

text \<open>One awaited notification is over.\<close>

definition notified :: "nat \<Rightarrow> dispatcher \<Rightarrow> dispatch_result \<times> dispatcher" where
  "notified c d =
     (case map_of (calls d) c of
        Some (Notifying left ids) \<Rightarrow>
          (if tl left = [] then finish_call c ids d
           else (DispatchPending c, d\<lparr>calls := jmap_set c (Notifying (tl left) ids) (calls d)\<rparr>))
      | _ \<Rightarrow> (DispatchPending c, d))"

text \<open>A worker's promise settles, whatever its outcome.\<close>

definition worker_settled :: "string \<Rightarrow> dispatcher \<Rightarrow> dispatcher" where
  "worker_settled i d = d\<lparr>in_flight := jmap_del i (in_flight d)\<rparr>"

definition cancel_item :: "string \<Rightarrow> dispatcher \<Rightarrow> (bool \<times> bool) \<times> dispatcher" where
  "cancel_item i0 d =
     (let i = trim i0
      in case map_of (in_flight d) i of
           None \<Rightarrow> ((False, False), d)
         | Some _ \<Rightarrow> ((True, True), d\<lparr>in_flight := jmap_set i True (in_flight d)\<rparr>))"

text \<open>One turn of \<open>drain\<close>'s loop: done, out of time, or wait on.\<close>

definition drain_turn :: "int \<Rightarrow> int \<Rightarrow> bool \<Rightarrow> dispatcher \<Rightarrow> (bool \<times> nat) option" where
  "drain_turn timeout elapsed deadline_hit d =
     (if in_flight d = [] then Some (True, 0)
      else if timeout - elapsed \<le> 0 \<or> deadline_hit then Some (False, length (in_flight d))
      else None)"

section \<open>Runs\<close>

text \<open>The store honours the batch size it is given; \<open>quiet\<close> says that a claim reports no
  failed or expired items.\<close>

definition claim_ok :: "dispatcher \<Rightarrow> nat \<Rightarrow> claim_result \<Rightarrow> bool" where
  "claim_ok d c r \<longleftrightarrow> (case map_of (calls d) c of Some (Claiming n) \<Rightarrow> length (claimed r) \<le> n | _ \<Rightarrow> True)"

definition quiet_claim :: "claim_result \<Rightarrow> bool" where
  "quiet_claim r \<longleftrightarrow> failed_items r = [] \<and> expired_items r = []"

inductive dispatcher_step :: "(claim_result \<Rightarrow> bool) \<Rightarrow> dispatcher \<Rightarrow> dispatcher \<Rightarrow> bool" for P where
  ds_begin: "dispatcher_step P d (snd (dispatch_begin aborted batch d))"
| ds_failed: "dispatcher_step P d (claim_failed c d)"
| ds_claim: "P r \<Longrightarrow> claim_ok d c r \<Longrightarrow> dispatcher_step P d (snd (claim_returned c r d))"
| ds_notified: "dispatcher_step P d (snd (notified c d))"
| ds_settled: "dispatcher_step P d (worker_settled i d)"
| ds_cancel: "dispatcher_step P d (snd (cancel_item i d))"

inductive dispatcher_reachable :: "(claim_result \<Rightarrow> bool) \<Rightarrow> js_number option \<Rightarrow> dispatcher \<Rightarrow> bool" for P v where
  dr_new: "dispatcher_reachable P v (new_dispatcher v)"
| dr_step: "dispatcher_reachable P v d \<Longrightarrow> dispatcher_step P d d' \<Longrightarrow> dispatcher_reachable P v d'"

inductive_cases dispatcher_stepE: "dispatcher_step P d d'"

section \<open>Invariants\<close>

definition call_credit :: "dispatch_call \<Rightarrow> nat" where
  "call_credit c = (case c of Claiming n \<Rightarrow> n | Notifying _ _ \<Rightarrow> 0)"

definition call_claimed :: "dispatch_call \<Rightarrow> nat" where
  "call_claimed c = (case c of Claiming _ \<Rightarrow> 0 | Notifying _ ids \<Rightarrow> length ids)"

text \<open>The reservation is exactly what the claiming calls asked for.\<close>

definition reserve_inv :: "dispatcher \<Rightarrow> bool" where
  "reserve_inv d \<longleftrightarrow> jmap_ok (calls d) \<and> (\<forall>c x. map_of (calls d) c = Some x \<longrightarrow> c < next_call d) \<and>
     reserved d = jmap_sum call_credit (calls d) \<and> jmap_ok (in_flight d)"

lemma length_jmap_set_le: "length (jmap_set k v m) \<le> Suc (length m)"
  by (induction m) auto

lemma length_start: "length (in_flight (start_items ids d)) \<le> length (in_flight d) + length ids"
proof -
  have "length (fold (\<lambda>i m. jmap_set i False m) ids m) \<le> length m + length ids" for m :: "(string \<times> bool) list"
  proof (induction ids arbitrary: m)
    case (Cons i ids)
    show ?case using Cons.IH [of "jmap_set i False m"] length_jmap_set_le [of i False m] by simp
  qed simp
  then show ?thesis by (simp add: start_items_def)
qed

lemma start_fields [simp]:
  "credit_limit (start_items ids d) = credit_limit d" "reserved (start_items ids d) = reserved d"
  "calls (start_items ids d) = calls d" "next_call (start_items ids d) = next_call d"
  by (simp_all add: start_items_def)

lemma start_ok: "jmap_ok (in_flight d) \<Longrightarrow> jmap_ok (in_flight (start_items ids d))"
proof -
  have "jmap_ok m \<Longrightarrow> jmap_ok (fold (\<lambda>i m. jmap_set i False m) ids m)" for m :: "(string \<times> bool) list"
    by (induction ids arbitrary: m) simp_all
  then show "jmap_ok (in_flight d) \<Longrightarrow> jmap_ok (in_flight (start_items ids d))" by (simp add: start_items_def)
qed

lemma call_cases:
  assumes "jmap_ok (calls d)"
  shows "map_of (calls d) c = Some (Claiming n) \<Longrightarrow> n \<le> jmap_sum call_credit (calls d) \<and>
      jmap_sum call_credit (jmap_del c (calls d)) = jmap_sum call_credit (calls d) - n"
    "map_of (calls d) c = Some (Notifying ls ids) \<Longrightarrow>
      jmap_sum call_credit (jmap_del c (calls d)) = jmap_sum call_credit (calls d)"
    "map_of (calls d) c = Some (Claiming n) \<Longrightarrow>
      jmap_sum call_credit (jmap_set c (Notifying ks js) (calls d)) = jmap_sum call_credit (calls d) - n"
    "map_of (calls d) c = Some (Notifying ls ids) \<Longrightarrow>
      jmap_sum call_credit (jmap_set c (Notifying ks js) (calls d)) = jmap_sum call_credit (calls d)"
  using jmap_sum_del [OF assms, of c _ call_credit] jmap_sum_set_old [of "calls d" c _ call_credit "Notifying ks js"]
  by (fastforce simp: call_credit_def)+

lemma calls_bound: "\<forall>c x. map_of m c = Some x \<longrightarrow> c < n \<Longrightarrow> map_of m n = None" for n :: nat
  by (cases "map_of m n") auto

lemma begin_reserve: "reserve_inv d \<Longrightarrow> reserve_inv (snd (dispatch_begin a b d))"
  using jmap_sum_set_new [of "calls d" "next_call d" call_credit] calls_bound [of "calls d" "next_call d"]
  by (auto simp: reserve_inv_def dispatch_begin_def Let_def call_credit_def less_SucI)

lemma finish_reserve:
  assumes "jmap_ok (calls d)" "\<forall>c x. map_of (calls d) c = Some x \<longrightarrow> c < next_call d" "jmap_ok (in_flight d)"
    "reserved d = jmap_sum call_credit (jmap_del c (calls d))"
  shows "reserve_inv (snd (finish_call c ids d))"
  using assms start_ok [of "d\<lparr>calls := jmap_del c (calls d)\<rparr>" ids]
  by (auto simp: reserve_inv_def finish_call_def Let_def)

lemma step_reserve:
  assumes "dispatcher_step P d d'" "reserve_inv d"
  shows "reserve_inv d'"
  using assms
proof (induction rule: dispatcher_step.induct)
  case (ds_failed d c)
  then have ok: "jmap_ok (calls d)" by (simp add: reserve_inv_def)
  show ?case using ds_failed call_cases(1) [OF ok, of c]
    by (auto simp: reserve_inv_def claim_failed_def split: option.splits dispatch_call.splits)
next
  case (ds_claim r d c)
  then have ok: "jmap_ok (calls d)" by (simp add: reserve_inv_def)
  show ?case
  proof (cases "map_of (calls d) c")
    case (Some x)
    show ?thesis
    proof (cases x)
      case (Claiming n)
      note cc = call_cases(1,3) [OF ok, of c n] Some Claiming
      show ?thesis
        using ds_claim cc finish_reserve [of "d\<lparr>reserved := reserved d - n\<rparr>" c "claimed r"]
        by (simp add: reserve_inv_def claim_returned_def Let_def)
    qed (use ds_claim Some in \<open>simp add: claim_returned_def\<close>)
  qed (use ds_claim in \<open>simp add: claim_returned_def\<close>)
next
  case (ds_notified d c)
  then have ok: "jmap_ok (calls d)" by (simp add: reserve_inv_def)
  show ?case
  proof (cases "map_of (calls d) c")
    case (Some x)
    show ?thesis
    proof (cases x)
      case (Notifying ls ids)
      note cc = call_cases(2,4) [OF ok, of c ls ids] Some Notifying
      show ?thesis
        using ds_notified cc finish_reserve [of d c ids]
        by (simp add: reserve_inv_def notified_def)
    qed (use ds_notified Some in \<open>simp add: notified_def\<close>)
  qed (use ds_notified in \<open>simp add: notified_def\<close>)
qed (simp_all add: begin_reserve, simp_all add: reserve_inv_def worker_settled_def cancel_item_def Let_def split: option.split)

lemma new_reserve: "reserve_inv (new_dispatcher v)"
  by (simp add: reserve_inv_def new_dispatcher_def)

lemma reachable_reserve: "dispatcher_reachable P v d \<Longrightarrow> reserve_inv d"
  by (induction rule: dispatcher_reachable.induct) (simp_all add: new_reserve step_reserve)

text \<open>While no claim reports terminal items, every pending call is still claiming.\<close>

definition credit_inv :: "dispatcher \<Rightarrow> bool" where
  "credit_inv d \<longleftrightarrow> (\<forall>c x. map_of (calls d) c = Some x \<longrightarrow> (\<exists>n. x = Claiming n)) \<and>
     reserved d + length (in_flight d) \<le> credit_limit d"

lemma step_limit [simp]: "dispatcher_step P d d' \<Longrightarrow> credit_limit d' = credit_limit d"
  by (induction rule: dispatcher_step.induct)
    (auto simp: dispatch_begin_def claim_failed_def claim_returned_def notified_def worker_settled_def
      cancel_item_def finish_call_def Let_def split: option.splits dispatch_call.splits if_splits)

lemma length_jmap_del_le: "length (jmap_del k m) \<le> length m"
  by (simp add: jmap_del_def)

lemma step_credit:
  assumes "dispatcher_step quiet_claim d d'" "reserve_inv d" "credit_inv d"
  shows "credit_inv d'"
  using assms
proof (induction rule: dispatcher_step.induct)
  case (ds_begin d a b)
  then show ?case by (auto simp: credit_inv_def dispatch_begin_def Let_def)
next
  case (ds_failed d c)
  then show ?case
    by (auto simp: credit_inv_def claim_failed_def split: option.splits dispatch_call.splits)
next
  case (ds_claim r d c)
  show ?case
  proof (cases "map_of (calls d) c")
    case (Some x)
    then obtain n where x: "x = Claiming n" using ds_claim by (auto simp: credit_inv_def)
    have "jmap_ok (calls d)" "reserved d = jmap_sum call_credit (calls d)" using ds_claim by (simp_all add: reserve_inv_def)
    then have n: "n \<le> reserved d" using call_cases(1) Some x by metis
    have "length (claimed r) \<le> n" using ds_claim Some x by (simp add: claim_ok_def)
    then have "length (in_flight (snd (finish_call c (claimed r) (d\<lparr>reserved := reserved d - n\<rparr>)))) \<le> length (in_flight d) + n"
      using length_start [of "claimed r" "d\<lparr>reserved := reserved d - n, calls := jmap_del c (calls d)\<rparr>"]
      by (simp add: finish_call_def Let_def)
    then show ?thesis
      using ds_claim Some x n
      by (auto simp: credit_inv_def claim_returned_def quiet_claim_def finish_call_def Let_def split: if_splits)
  qed (use ds_claim in \<open>simp add: claim_returned_def\<close>)
next
  case (ds_notified d c)
  have "snd (notified c d) = d"
  proof (cases "map_of (calls d) c")
    case (Some x)
    then obtain n where "x = Claiming n" using ds_notified by (auto simp: credit_inv_def)
    then show ?thesis using Some by (simp add: notified_def)
  qed (simp add: notified_def)
  then show ?case using ds_notified by simp
next
  case (ds_settled d i)
  then show ?case using length_jmap_del_le [of i "in_flight d"]
    by (simp add: credit_inv_def worker_settled_def)
next
  case (ds_cancel d i)
  then show ?case
    by (auto simp: credit_inv_def cancel_item_def Let_def length_jmap_set_old split: option.splits)
qed

lemma new_credit: "credit_inv (new_dispatcher v)"
  by (simp add: credit_inv_def new_dispatcher_def)

lemma reachable_credit: "dispatcher_reachable quiet_claim v d \<Longrightarrow> credit_inv d"
  by (induction rule: dispatcher_reachable.induct) (simp_all add: new_credit step_credit reachable_reserve)

lemma reachable_limit: "dispatcher_reachable P v d \<Longrightarrow> credit_limit d = credit_limit (new_dispatcher v)"
  by (induction rule: dispatcher_reachable.induct) simp_all

text \<open>
  C35: credit is never overdrawn as long as claims report no failed or expired items: in every
  interleaving of dispatches, claims, worker completions and cancellations, reserved plus
  in-flight work stays within the credit limit, which itself lies between 1 and 8192.
\<close>

theorem dispatcher_credit_respected:
  assumes "dispatcher_reachable quiet_claim v d"
  shows "reserved d + length (in_flight d) \<le> credit_limit d \<and> 1 \<le> credit_limit d \<and> credit_limit d \<le> 8192
    \<and> st_available (status d) + reserved d + length (in_flight d) = credit_limit d"
proof -
  have "1 \<le> limit_of (resolve_max_in_flight v (Whole 1000)) \<and> limit_of (resolve_max_in_flight v (Whole 1000)) \<le> 8192"
    by (simp add: resolve_max_in_flight_def Let_def hard_limit_def)
  then have "1 \<le> credit_limit (new_dispatcher v) \<and> credit_limit (new_dispatcher v) \<le> 8192"
    by (simp add: new_dispatcher_def nat_le_iff le_nat_iff)
  then show ?thesis
    using reachable_credit [OF assms] reachable_limit [OF assms] by (simp add: credit_inv_def status_def)
qed

definition demo_claimed :: dispatcher where
  "demo_claimed = snd (claim_returned 0 \<lparr>claimed = [''a'', ''b''], failed_items = [], expired_items = []\<rparr>
     (snd (dispatch_begin False (Some (Whole 5)) (new_dispatcher (Some (Whole 2))))))"

theorem dispatcher_credit_respected_witness:
  "length (in_flight demo_claimed) = 2 \<and> reserved demo_claimed + length (in_flight demo_claimed) \<le> credit_limit demo_claimed"
proof -
  have "dispatcher_reachable quiet_claim (Some (Whole 2)) demo_claimed"
    unfolding demo_claimed_def
    by (rule dr_step [OF dr_step [OF dr_new ds_begin] ds_claim])
      (simp_all add: quiet_claim_def claim_ok_def dispatch_begin_def Let_def new_dispatcher_def
        resolve_max_in_flight_def as_int_def or_default_def hard_limit_def)
  moreover have "length (in_flight demo_claimed) = 2"
    by (simp add: demo_claimed_def claim_returned_def finish_call_def start_items_def dispatch_begin_def Let_def
      new_dispatcher_def resolve_max_in_flight_def as_int_def or_default_def hard_limit_def)
  ultimately show ?thesis using dispatcher_credit_respected by blast
qed

text \<open>
  The reservation counter is exact in every run: it always equals what the calls whose
  claim has not returned asked for, so releasing it never clips at zero, and without pending
  claims nothing stays reserved.
\<close>

theorem dispatcher_reservation_exact:
  assumes "dispatcher_reachable P v d"
  shows "reserved d = jmap_sum call_credit (calls d)
    \<and> (\<forall>c n. map_of (calls d) c = Some (Claiming n) \<longrightarrow> n \<le> reserved d)
    \<and> (calls d = [] \<longrightarrow> reserved d = 0)"
  using reachable_reserve [OF assms] call_cases(1) by (auto simp: reserve_inv_def)

theorem dispatcher_reservation_exact_witness:
  "reserved (snd (dispatch_begin False (Some (Whole 5)) (new_dispatcher (Some (Whole 2))))) = 2"
proof -
  let ?d = "snd (dispatch_begin False (Some (Whole 5)) (new_dispatcher (Some (Whole 2))))"
  have "dispatcher_reachable quiet_claim (Some (Whole 2)) ?d" by (rule dr_step [OF dr_new ds_begin])
  from dispatcher_reservation_exact [OF this] show ?thesis
    by (simp add: dispatch_begin_def Let_def new_dispatcher_def resolve_max_in_flight_def as_int_def or_default_def
      hard_limit_def call_credit_def jmap_sum_def)
qed

text \<open>
  A claim that also reports terminal items breaks the limit. The reservation is released
  when the claim returns, but the claimed items enter the in-flight map only after the
  notifications have been awaited; a dispatch that runs in between sees free credit. With a
  limit of one, two work items end up in flight.
\<close>

theorem dispatcher_credit_overrun:
  "\<exists>d. dispatcher_reachable (\<lambda>_. True) (Some (Whole 1)) d \<and> credit_limit d = 1 \<and> length (in_flight d) = 2"
proof -
  let ?d0 = "new_dispatcher (Some (Whole 1))"
  let ?d1 = "snd (dispatch_begin False None ?d0)"
  let ?d2 = "snd (claim_returned 0 \<lparr>claimed = [''a''], failed_items = [''x''], expired_items = []\<rparr> ?d1)"
  let ?d3 = "snd (dispatch_begin False None ?d2)"
  let ?d4 = "snd (claim_returned 1 \<lparr>claimed = [''b''], failed_items = [], expired_items = []\<rparr> ?d3)"
  let ?d5 = "snd (notified 0 ?d4)"
  note defs = claim_ok_def dispatch_begin_def Let_def new_dispatcher_def resolve_max_in_flight_def as_int_def
    or_default_def hard_limit_def claim_returned_def notified_def finish_call_def start_items_def jmap_del_def
  have "dispatcher_reachable (\<lambda>_. True) (Some (Whole 1)) ?d2"
    by (rule dr_step [OF dr_step [OF dr_new ds_begin] ds_claim]) (simp_all add: defs)
  then have "dispatcher_reachable (\<lambda>_. True) (Some (Whole 1)) ?d4"
    by (rule dr_step [OF dr_step [OF _ ds_begin] ds_claim]) (simp_all add: defs)
  then have "dispatcher_reachable (\<lambda>_. True) (Some (Whole 1)) ?d5"
    by (rule dr_step [OF _ ds_notified])
  moreover have "credit_limit ?d5 = 1 \<and> length (in_flight ?d5) = 2" by (simp add: defs)
  ultimately show ?thesis by blast
qed

end
