(* ===== verification/FallbackCoordinator.thy ===== *)
theory FallbackCoordinator imports WorkQueuePolicy begin

text \<open>
  \<open>createQueueFallbackCoordinator\<close> of \<open>packages/foundation/src/work-queue/fallback-coordinator.ts\<close>:
  the per-item lock, the choice of the store operation from a fallback outcome, and the
  attempt loop. The store, the fallback handler and the digest are arguments, indexed by the
  attempt; what the coordinator does to the outside (state records, sleeps, store calls) is
  the trace it returns. The error summary, the actor and the log are not represented.
\<close>

section \<open>Outcomes and store calls\<close>

record fb_outcome =
  o_action :: string
  o_delay :: "int option"
  o_reason :: string
  o_error :: string
  o_extend :: "int option"

record fb_input =
  in_item :: string
  in_lease :: string
  in_queue :: string
  in_attempt :: js_number
  in_delay :: "js_number option"
  in_reason :: string
  in_error :: string
  in_max :: js_number

record fb_policy =
  retry_max :: int
  retry_initial :: int
  retry_multiplier :: int
  retry_cap :: int
  back_seed :: string
  back_jitter :: js_number
  back_initial :: int
  back_multiplier :: int
  back_cap :: int

datatype store_call =
    SRetry "int option" string string
  | SComplete string
  | SCancelRunning string
  | SFail string string
  | SProgress "int option" string

datatype fb_event =
    WriteState string nat string
  | Call store_call
  | Sleep int

record 'r fb_result =
  committed :: bool
  final_attempt :: nat
  outcome_of :: 'r

definition default_policy :: fb_policy where
  "default_policy = \<lparr>retry_max = 3, retry_initial = 250, retry_multiplier = 2, retry_cap = 5000,
     back_seed = ''meshrix-work-queue-retry'', back_jitter = Whole 2000, back_initial = 1000,
     back_multiplier = 2, back_cap = 300000\<rparr>"

type_synonym digest_fn = "string \<Rightarrow> string \<Rightarrow> string \<Rightarrow> nat \<Rightarrow> 32 word"

section \<open>Operations\<close>

text \<open>\<open>lock(workItemId)\<close>; the returned unlock deletes the key.\<close>

definition fb_lock :: "string \<Rightarrow> string set \<Rightarrow> string + string set" where
  "fb_lock item held =
     (let key = trim item
      in if key = [] then Inl ''Fallback workItemId is required.''
         else if key \<in> held then Inl (''Fallback already in progress for work item '' @ key @ ''.'')
         else Inr (insert key held))"

definition fb_unlock :: "string \<Rightarrow> string set \<Rightarrow> string set" where
  "fb_unlock item held = held - {trim item}"

definition default_action :: "digest_fn \<Rightarrow> fb_policy \<Rightarrow> fb_input \<Rightarrow> store_call" where
  "default_action digest p x =
     SRetry (Some (case in_delay x of
         None \<Rightarrow> retry_delay digest (back_seed p) (in_queue x) (in_item x) (back_jitter p)
                   (as_int (in_attempt x) 1) (back_initial p) (back_multiplier p) (back_cap p)
       | Some d \<Rightarrow> max 0 (as_int d 0)))
      (str_or (in_reason x) ''fallback_retry'') (in_error x)"

text \<open>\<open>executeFallbackAction\<close>: which store call an outcome asks for.\<close>

definition fallback_action :: "digest_fn \<Rightarrow> fb_policy \<Rightarrow> fb_input \<Rightarrow> (string + fb_outcome) option \<Rightarrow> string + store_call" where
  "fallback_action digest p x handled =
     (case handled of
        None \<Rightarrow> Inr (default_action digest p x)
      | Some (Inl e) \<Rightarrow> Inl e
      | Some (Inr u) \<Rightarrow>
          if o_action u = ''retry'' then
            Inr (SRetry (case o_delay u of Some d \<Rightarrow> Some d | None \<Rightarrow> map_option (\<lambda>d. as_int d 0) (in_delay x))
              (str_or (o_reason u) (str_or (in_reason x) ''fallback_retry'')) (str_or (o_error u) (in_error x)))
          else if o_action u = ''completed'' then Inr (SComplete (str_or (o_reason u) ''fallback_completed''))
          else if o_action u = ''cancelled'' then Inr (SCancelRunning (str_or (o_reason u) ''fallback_cancelled''))
          else if o_action u = ''failed'' then
            Inr (SFail (str_or (o_reason u) ''fallback_fail'') (str_or (o_error u) (in_error x)))
          else if o_action u = ''progress'' then
            Inr (SProgress (o_extend u) (str_or (o_reason u) ''fallback_progress''))
          else Inl ''Fallback outcome action must be one of: completed, retry, cancelled, failed, progress.'')"

text \<open>One attempt: the action is chosen and awaited; what it throws ends the attempt.\<close>

definition run_attempt :: "digest_fn \<Rightarrow> fb_policy \<Rightarrow> (nat \<Rightarrow> (string + fb_outcome) option) \<Rightarrow> (nat \<Rightarrow> store_call \<Rightarrow> string + 'r)
    \<Rightarrow> fb_input \<Rightarrow> nat \<Rightarrow> fb_event list \<times> (string + 'r)" where
  "run_attempt digest p handler store x n =
     (case fallback_action digest p x (handler n) of
        Inl e \<Rightarrow> ([], Inl e)
      | Inr c \<Rightarrow> ([Call c], store n c))"

definition attempt_sleep :: "digest_fn \<Rightarrow> fb_policy \<Rightarrow> string \<Rightarrow> nat \<Rightarrow> int" where
  "attempt_sleep digest p task n =
     retry_delay digest ''meshrix-work-queue-retry'' ''fallback'' task (Whole 2000) (int n)
       (retry_initial p) (retry_multiplier p) (retry_cap p)"

text \<open>The loop \<open>for attempt = 1 .. maxAttempts\<close>: \<open>left\<close> attempts remain, the next is \<open>n\<close>.\<close>

fun attempt_loop :: "digest_fn \<Rightarrow> fb_policy \<Rightarrow> (nat \<Rightarrow> (string + fb_outcome) option) \<Rightarrow> (nat \<Rightarrow> store_call \<Rightarrow> string + 'r)
    \<Rightarrow> fb_input \<Rightarrow> string \<Rightarrow> nat \<Rightarrow> nat \<Rightarrow> string \<Rightarrow> fb_event list \<times> (string + nat \<times> 'r)" where
  "attempt_loop digest p handler store x task 0 n last_error = ([], Inl last_error)"
| "attempt_loop digest p handler store x task (Suc left) n last_error =
     (case run_attempt digest p handler store x n of
        (evs, Inr r) \<Rightarrow> (evs @ [WriteState ''committed'' n (str_or (in_reason x) ''fallback_committed'')], Inr (n, r))
      | (evs, Inl e) \<Rightarrow>
          (case attempt_loop digest p handler store x task left (Suc n) e of
             (rest, res) \<Rightarrow>
               (evs @ [WriteState (if left = 0 then ''exhausted'' else ''retrying'') n ''fallback_attempt_failed'']
                @ (if left = 0 then [] else [Sleep (attempt_sleep digest p task n)]) @ rest, res)))"

definition max_attempts :: "fb_policy \<Rightarrow> fb_input \<Rightarrow> nat" where
  "max_attempts p x = nat (max 1 (as_int (in_max x) (retry_max p)))"

text \<open>\<open>runFallback\<close> once it holds the lock. \<open>fail_op\<close> is the store's optional fail operation.\<close>

definition run_locked :: "digest_fn \<Rightarrow> fb_policy \<Rightarrow> (nat \<Rightarrow> (string + fb_outcome) option) \<Rightarrow> (nat \<Rightarrow> store_call \<Rightarrow> string + 'r)
    \<Rightarrow> (store_call \<Rightarrow> string + 'r) option \<Rightarrow> fb_input \<Rightarrow> string \<Rightarrow> fb_event list \<times> (string + 'r fb_result)" where
  "run_locked digest p handler store fail_op x task =
     (let start = WriteState ''running'' 0 (str_or (in_reason x) ''fallback_started'')
      in case attempt_loop digest p handler store x task (max_attempts p x) 1 (in_error x) of
           (evs, Inr (n, r)) \<Rightarrow> (start # evs, Inr \<lparr>committed = True, final_attempt = n, outcome_of = r\<rparr>)
         | (evs, Inl e) \<Rightarrow>
             (case fail_op of
                None \<Rightarrow> (start # evs, Inl (str_or e ''Fallback exhausted.''))
              | Some op \<Rightarrow>
                  (let c = SFail ''fallback_exhausted'' e
                   in (start # evs @ [Call c],
                       case op c of Inl e' \<Rightarrow> Inl e'
                       | Inr r \<Rightarrow> Inr \<lparr>committed = False, final_attempt = max_attempts p x, outcome_of = r\<rparr>))))"

definition run_fallback :: "digest_fn \<Rightarrow> fb_policy \<Rightarrow> (nat \<Rightarrow> (string + fb_outcome) option) \<Rightarrow> (nat \<Rightarrow> store_call \<Rightarrow> string + 'r)
    \<Rightarrow> (store_call \<Rightarrow> string + 'r) option \<Rightarrow> fb_input \<Rightarrow> string \<Rightarrow> string set
    \<Rightarrow> fb_event list \<times> (string + 'r fb_result) \<times> string set" where
  "run_fallback digest p handler store fail_op x task held =
     (case fb_lock (in_item x) held of
        Inl e \<Rightarrow> ([], Inl e, held)
      | Inr held1 \<Rightarrow>
          (case run_locked digest p handler store fail_op x task of
             (evs, r) \<Rightarrow> (evs, r, fb_unlock (in_item x) held1)))"

section \<open>The attempt loop\<close>

definition attempt_result :: "digest_fn \<Rightarrow> fb_policy \<Rightarrow> (nat \<Rightarrow> (string + fb_outcome) option) \<Rightarrow> (nat \<Rightarrow> store_call \<Rightarrow> string + 'r)
    \<Rightarrow> fb_input \<Rightarrow> nat \<Rightarrow> string + 'r" where
  "attempt_result digest p handler store x n = snd (run_attempt digest p handler store x n)"

lemma all_from_Suc: "P n \<Longrightarrow> (\<forall>j. Suc n \<le> j \<and> j < m \<longrightarrow> P j) \<longleftrightarrow> (\<forall>j. n \<le> j \<and> j < m \<longrightarrow> P j)"
  by (metis Suc_leD Suc_leI le_neq_implies_less)

lemma attempt_loop_Inr:
  "snd (attempt_loop digest p handler store x task left n e) = Inr (k, r) \<longleftrightarrow>
     n \<le> k \<and> k < n + left \<and> attempt_result digest p handler store x k = Inr r \<and>
     (\<forall>j. n \<le> j \<and> j < k \<longrightarrow> isl (attempt_result digest p handler store x j))"
proof (induction left arbitrary: n e)
  case 0
  then show ?case by auto
next
  case (Suc left)
  obtain evs a where a: "run_attempt digest p handler store x n = (evs, a)" by fastforce
  then have an: "attempt_result digest p handler store x n = a" by (simp add: attempt_result_def)
  show ?case
  proof (cases a)
    case (Inr r')
    have "k = n" if "n \<le> k" "\<forall>j. n \<le> j \<and> j < k \<longrightarrow> isl (attempt_result digest p handler store x j)"
    proof (rule ccontr)
      assume "k \<noteq> n"
      then have "isl (attempt_result digest p handler store x n)" using that by simp
      then show False using an Inr by simp
    qed
    then have "(n \<le> k \<and> k < n + Suc left \<and> attempt_result digest p handler store x k = Inr r \<and>
        (\<forall>j. n \<le> j \<and> j < k \<longrightarrow> isl (attempt_result digest p handler store x j))) \<longleftrightarrow> k = n \<and> r' = r"
      using an Inr by auto
    then show ?thesis using a Inr by (auto split: prod.split)
  next
    case (Inl e')
    have step: "snd (attempt_loop digest p handler store x task (Suc left) n e) =
        snd (attempt_loop digest p handler store x task left (Suc n) e')"
      using a Inl by (simp split: prod.split)
    have "(Suc n \<le> k \<and> k < Suc n + left \<and> attempt_result digest p handler store x k = Inr r \<and>
        (\<forall>j. Suc n \<le> j \<and> j < k \<longrightarrow> isl (attempt_result digest p handler store x j))) \<longleftrightarrow>
      (n \<le> k \<and> k < n + Suc left \<and> attempt_result digest p handler store x k = Inr r \<and>
        (\<forall>j. n \<le> j \<and> j < k \<longrightarrow> isl (attempt_result digest p handler store x j)))"
    proof (cases "k = n")
      case True
      then show ?thesis using an Inl by simp
    next
      case False
      then have "n \<le> k \<longleftrightarrow> Suc n \<le> k" by auto
      then show ?thesis using all_from_Suc [of "\<lambda>j. isl (attempt_result digest p handler store x j)" n k] an Inl by simp
    qed
    then show ?thesis unfolding step Suc.IH .
  qed
qed

lemma attempt_loop_Inl:
  "isl (snd (attempt_loop digest p handler store x task left n e)) \<longleftrightarrow>
     (\<forall>j. n \<le> j \<and> j < n + left \<longrightarrow> isl (attempt_result digest p handler store x j))"
proof (induction left arbitrary: n e)
  case 0
  then show ?case by auto
next
  case (Suc left)
  obtain evs a where a: "run_attempt digest p handler store x n = (evs, a)" by fastforce
  then have an: "attempt_result digest p handler store x n = a" by (simp add: attempt_result_def)
  show ?case
  proof (cases a)
    case (Inr r')
    then show ?thesis using a an by (auto intro!: exI [of _ n])
  next
    case (Inl e')
    have step: "snd (attempt_loop digest p handler store x task (Suc left) n e) =
        snd (attempt_loop digest p handler store x task left (Suc n) e')"
      using a Inl by (simp split: prod.split)
    have "(\<forall>j. Suc n \<le> j \<and> j < Suc n + left \<longrightarrow> isl (attempt_result digest p handler store x j)) \<longleftrightarrow>
      (\<forall>j. n \<le> j \<and> j < n + Suc left \<longrightarrow> isl (attempt_result digest p handler store x j))"
      using all_from_Suc [of "\<lambda>j. isl (attempt_result digest p handler store x j)" n "n + Suc left"] an Inl by simp
    then show ?thesis unfolding step Suc.IH .
  qed
qed

fun calls_of :: "fb_event list \<Rightarrow> store_call list" where
  "calls_of [] = []"
| "calls_of (Call c # es) = c # calls_of es"
| "calls_of (_ # es) = calls_of es"

fun sleeps_of :: "fb_event list \<Rightarrow> int list" where
  "sleeps_of [] = []"
| "sleeps_of (Sleep t # es) = t # sleeps_of es"
| "sleeps_of (_ # es) = sleeps_of es"

lemma calls_append [simp]: "calls_of (xs @ ys) = calls_of xs @ calls_of ys"
  by (induction xs rule: calls_of.induct) simp_all

lemma sleeps_append [simp]: "sleeps_of (xs @ ys) = sleeps_of xs @ sleeps_of ys"
  by (induction xs rule: sleeps_of.induct) simp_all

lemma attempt_loop_counts:
  "length (calls_of (fst (attempt_loop digest p handler store x task left n e))) \<le> left \<and>
   length (sleeps_of (fst (attempt_loop digest p handler store x task left n e))) \<le> left - 1"
proof (induction left arbitrary: n e)
  case (Suc left)
  obtain evs a where a: "run_attempt digest p handler store x n = (evs, a)" by fastforce
  then have "length (calls_of evs) \<le> 1" "sleeps_of evs = []"
    by (auto simp: run_attempt_def split: sum.splits)
  moreover obtain rest res where r: "attempt_loop digest p handler store x task left (Suc n) (projl a) = (rest, res)"
    by fastforce
  moreover have "length (calls_of rest) \<le> left" "length (sleeps_of rest) \<le> left - 1"
    using Suc.IH [of "Suc n" "projl a"] r by simp_all
  ultimately show ?case using a by (cases a; cases left) simp_all
qed simp

text \<open>
  A fallback run commits at the first attempt that succeeds and at no other: it commits
  with attempt \<open>k\<close> and result \<open>r\<close> exactly when attempt \<open>k\<close> is within the limit, returns \<open>r\<close>, and
  every attempt before it failed; when all attempts fail and the store can fail an item, its
  fail operation is called once, last, with the exhaustion reason.
\<close>

theorem fallback_commits_first_success:
  "(\<exists>evs. run_locked digest p handler store fail_op x task = (evs, Inr \<lparr>committed = True, final_attempt = k, outcome_of = r\<rparr>))
     \<longleftrightarrow> 1 \<le> k \<and> k \<le> max_attempts p x \<and> attempt_result digest p handler store x k = Inr r \<and>
        (\<forall>j. 1 \<le> j \<and> j < k \<longrightarrow> isl (attempt_result digest p handler store x j))"
    (is "?A \<longleftrightarrow> ?B")
proof -
  obtain evs res where l: "attempt_loop digest p handler store x task (max_attempts p x) 1 (in_error x) = (evs, res)"
    by fastforce
  have "?B \<longleftrightarrow> res = Inr (k, r)"
    using attempt_loop_Inr [of digest p handler store x task "max_attempts p x" 1 "in_error x" k r] l by auto
  moreover have "?A \<longleftrightarrow> res = Inr (k, r)"
    using l by (auto simp: run_locked_def Let_def split: sum.splits option.splits)
  ultimately show ?thesis by simp
qed

definition demo_input :: fb_input where
  "demo_input = \<lparr>in_item = ''w1'', in_lease = ''l1'', in_queue = ''q'', in_attempt = Whole 1, in_delay = None,
     in_reason = [], in_error = [], in_max = Whole 2\<rparr>"

theorem fallback_commits_first_success_witness:
  "\<exists>evs. run_locked (\<lambda>_ _ _ _. 0) default_policy (\<lambda>_. None) (\<lambda>n _. if n = 1 then Inl ''busy'' else Inr n) None demo_input ''t''
     = (evs, Inr \<lparr>committed = True, final_attempt = 2, outcome_of = 2\<rparr>)"
proof -
  have "j = 1" if "1 \<le> j \<and> j < 2" for j :: nat using that by simp
  then have "\<forall>j. 1 \<le> j \<and> j < 2 \<longrightarrow>
      isl (attempt_result (\<lambda>_ _ _ _. 0) default_policy (\<lambda>_. None) (\<lambda>n _. if n = 1 then Inl ''busy'' else Inr n) demo_input j)"
    by (auto simp: attempt_result_def run_attempt_def fallback_action_def)
  moreover have "attempt_result (\<lambda>_ _ _ _. 0) default_policy (\<lambda>_. None) (\<lambda>n _. if n = 1 then Inl ''busy'' else Inr n) demo_input 2 = Inr 2"
    by (simp add: attempt_result_def run_attempt_def fallback_action_def)
  moreover have "max_attempts default_policy demo_input = 2"
    by (simp add: max_attempts_def demo_input_def as_int_def)
  ultimately show ?thesis by (subst fallback_commits_first_success) simp
qed



end
