(* ===== verification/UriPath.thy ===== *)
theory UriPath imports Prelude begin

text \<open>
  \<open>normalizeRoutingPathname\<close> of \<open>packages/server-runtime/src/routing/radix-path-trie.ts\<close> and the
  part of the JavaScript library it stands on. Strings are their UTF-8 bytes, so
  \<open>Buffer.byteLength\<close> is the length and a code point up to 127 is one character;
  \<open>decodeURIComponent\<close> checks that percent-encoded bytes above 127 form well-formed UTF-8.
\<close>

section \<open>Percent encoding\<close>

definition char_code :: "char \<Rightarrow> nat" where
  "char_code c = of_char c"

definition hex_value :: "char \<Rightarrow> nat option" where
  "hex_value c =
     (let n = char_code c
      in if 48 \<le> n \<and> n \<le> 57 then Some (n - 48)
         else if 65 \<le> n \<and> n \<le> 70 then Some (n - 55)
         else if 97 \<le> n \<and> n \<le> 102 then Some (n - 87)
         else None)"

definition hex_pair :: "char \<Rightarrow> char \<Rightarrow> nat option" where
  "hex_pair a b = (case hex_value a of None \<Rightarrow> None | Some x \<Rightarrow>
     (case hex_value b of None \<Rightarrow> None | Some y \<Rightarrow> Some (16 * x + y)))"

text \<open>How many continuation bytes follow a lead byte, and the range of the first of them
  (no overlong forms, no surrogates, nothing above U+10FFFF).\<close>

definition utf8_lead :: "nat \<Rightarrow> (nat \<times> nat \<times> nat) option" where
  "utf8_lead b =
     (if b < 128 then Some (0, 0, 0)
      else if 194 \<le> b \<and> b \<le> 223 then Some (1, 128, 191)
      else if b = 224 then Some (2, 160, 191)
      else if b = 237 then Some (2, 128, 159)
      else if 225 \<le> b \<and> b \<le> 239 then Some (2, 128, 191)
      else if b = 240 then Some (3, 144, 191)
      else if 241 \<le> b \<and> b \<le> 243 then Some (3, 128, 191)
      else if b = 244 then Some (3, 128, 143)
      else None)"

text \<open>\<open>decodeURIComponent\<close>; \<open>need\<close> continuation bytes are still due, the next one between \<open>lo\<close> and
  \<open>hi\<close>. \<open>None\<close> is the \<open>URIError\<close>.\<close>

fun decode_from :: "nat \<Rightarrow> nat \<Rightarrow> nat \<Rightarrow> string \<Rightarrow> string option" where
  "decode_from need lo hi [] = (if need = 0 then Some [] else None)"
| "decode_from need lo hi (c # cs) =
     (if c = CHR ''%'' then
        (case cs of
           a # b # rest \<Rightarrow>
             (case hex_pair a b of
                None \<Rightarrow> None
              | Some n \<Rightarrow>
                  if need = 0 then
                    (case utf8_lead n of
                       None \<Rightarrow> None
                     | Some (k, l, h) \<Rightarrow> map_option ((#) (char_of n)) (decode_from k l h rest))
                  else if lo \<le> n \<and> n \<le> hi then
                    map_option ((#) (char_of n)) (decode_from (need - 1) 128 191 rest)
                  else None)
         | _ \<Rightarrow> None)
      else if need = 0 then map_option ((#) c) (decode_from 0 0 0 cs)
      else None)"

definition decode_uri :: "string \<Rightarrow> string option" where
  "decode_uri s = decode_from 0 0 0 s"

definition is_unreserved :: "char \<Rightarrow> bool" where
  "is_unreserved c \<longleftrightarrow>
     (let n = char_code c
      in (48 \<le> n \<and> n \<le> 57) \<or> (65 \<le> n \<and> n \<le> 90) \<or> (97 \<le> n \<and> n \<le> 122) \<or> c \<in> set ''._~-'')"

definition upper_char :: "char \<Rightarrow> char" where
  "upper_char c = (let n = char_code c in if 97 \<le> n \<and> n \<le> 122 then char_of (n - 32) else c)"

text \<open>\<open>normalizePercentEncodedUnreserved\<close>: every \<open>%hh\<close> becomes the unreserved character it stands
  for, or is written in upper case.\<close>

fun normalize_percent :: "string \<Rightarrow> string" where
  "normalize_percent (c # a # b # rest) =
     (if c = CHR ''%'' \<and> hex_pair a b \<noteq> None then
        (let ch = char_of (the (hex_pair a b))
         in if is_unreserved ch then ch # normalize_percent rest
            else CHR ''%'' # upper_char a # upper_char b # normalize_percent rest)
      else c # normalize_percent (a # b # rest))"
| "normalize_percent s = s"

section \<open>Path segments\<close>

text \<open>\<open>split("/").filter(Boolean)\<close>.\<close>

fun split_path :: "string \<Rightarrow> string \<Rightarrow> string list" where
  "split_path acc [] = (if acc = [] then [] else [rev acc])"
| "split_path acc (c # cs) =
     (if c = CHR ''/'' then (if acc = [] then split_path [] cs else rev acc # split_path [] cs)
      else split_path (c # acc) cs)"

definition segments_of :: "string \<Rightarrow> string list" where
  "segments_of s = split_path [] s"

fun join_segments :: "string list \<Rightarrow> string" where
  "join_segments [] = ''/''"
| "join_segments [s] = ''/'' @ s"
| "join_segments (s # ss) = ''/'' @ s @ join_segments ss"

definition has_control :: "string \<Rightarrow> bool" where
  "has_control s \<longleftrightarrow> list_ex (\<lambda>c. char_code c \<le> 31 \<or> char_code c = 127) s"

fun normalize_segments :: "string list \<Rightarrow> string list option" where
  "normalize_segments [] = Some []"
| "normalize_segments (s # ss) =
     (case decode_uri s of
        None \<Rightarrow> None
      | Some d \<Rightarrow>
          if has_control d then None
          else map_option ((#) (normalize_percent s)) (normalize_segments ss))"

text \<open>The blanks \<open>trim()\<close> removes at the ends of a path; non-ASCII blanks are outside the model.\<close>

definition trim_path :: "string \<Rightarrow> string" where
  "trim_path s =
     (let blank = (\<lambda>c. char_code c \<in> {9, 10, 11, 12, 13, 32})
      in rev (dropWhile blank (rev (dropWhile blank s))))"

definition cut_at :: "char \<Rightarrow> string \<Rightarrow> string" where
  "cut_at c s = takeWhile (\<lambda>x. x \<noteq> c) s"

definition normalize_pathname :: "string \<Rightarrow> string option" where
  "normalize_pathname path =
     (let p0 = cut_at (CHR ''#'') (cut_at (CHR ''?'') (trim_path (str_or path ''/'')));
          p = (if is_prefix ''/'' p0 then p0 else ''/'' @ p0)
      in map_option join_segments (normalize_segments (segments_of p)))"

section \<open>Normalisation keeps what a segment means\<close>

lemma char_of_code [simp]: "char_of (char_code c) = c"
  by (simp add: char_code_def)

lemma hex_pair_lt: "hex_pair a b = Some n \<Longrightarrow> n < 256"
  by (auto simp: hex_pair_def hex_value_def Let_def split: option.splits if_splits)

lemma hex_value_upper: "hex_value (upper_char c) = hex_value c"
proof (cases "97 \<le> char_code c \<and> char_code c \<le> 122")
  case True
  then have "char_code c - 32 < 256" by linarith
  then have "char_code (char_of (char_code c - 32)) = char_code c - 32"
    unfolding char_code_def by simp
  then show ?thesis using True by (auto simp: upper_char_def hex_value_def Let_def)
next
  case False
  then show ?thesis by (auto simp: upper_char_def Let_def)
qed

lemma hex_pair_upper: "hex_pair (upper_char a) (upper_char b) = hex_pair a b"
  unfolding hex_pair_def hex_value_upper ..

lemma unreserved_ascii: "is_unreserved c \<Longrightarrow> char_code c < 128 \<and> c \<noteq> CHR ''%''"
  by (auto simp: is_unreserved_def Let_def char_code_def)

lemma utf8_lead_range: "utf8_lead b = Some (k, l, h) \<Longrightarrow> k = 0 \<or> 128 \<le> l"
  by (auto simp: utf8_lead_def split: if_splits)

lemma decode_plain: "c \<noteq> CHR ''%'' \<Longrightarrow> decode_from 0 lo hi (c # cs) = map_option ((#) c) (decode_from 0 0 0 cs)"
  by simp

lemma decode_pair:
  "hex_pair a b = Some n \<Longrightarrow> decode_from need lo hi (CHR ''%'' # a # b # rest) =
     (if need = 0 then
        (case utf8_lead n of None \<Rightarrow> None
         | Some (k, l, h) \<Rightarrow> map_option ((#) (char_of n)) (decode_from k l h rest))
      else if lo \<le> n \<and> n \<le> hi then map_option ((#) (char_of n)) (decode_from (need - 1) 128 191 rest)
      else None)"
  by simp

declare decode_from.simps [simp del]
lemmas decode_Nil [simp] = decode_from.simps(1)

lemma decode_normalize:
  "decode_from need lo hi s \<noteq> None \<Longrightarrow> need = 0 \<or> 128 \<le> lo \<Longrightarrow>
     decode_from need lo hi (normalize_percent s) = decode_from need lo hi s"
proof (induction s arbitrary: need lo hi rule: normalize_percent.induct)
  case (1 c a b rest)
  show ?case
  proof (cases "c = CHR ''%'' \<and> hex_pair a b \<noteq> None")
    case True
    then obtain n where n: "hex_pair a b = Some n" and c: "c = CHR ''%''" by auto
    have code: "char_code (char_of n) = n" using hex_pair_lt [OF n] by (simp add: char_code_def)
    have un: "upper_char a = upper_char a \<and> hex_pair (upper_char a) (upper_char b) = Some n"
      using n hex_pair_upper by simp
    have IH: "decode_from k l h (normalize_percent rest) = decode_from k l h rest"
      if "decode_from k l h rest \<noteq> None" "k = 0 \<or> 128 \<le> l" for k l h
      using "1.IH"(1,2) True that by (cases "is_unreserved (char_of (the (hex_pair a b)))") blast+
    show ?thesis
    proof (cases "need = 0")
      case need: True
      then obtain k l h where u: "utf8_lead n = Some (k, l, h)" "decode_from k l h rest \<noteq> None"
        using "1.prems"(1) decode_pair [OF n] c by (auto split: option.splits)
      note step = IH [OF u(2) utf8_lead_range [OF u(1)]]
      show ?thesis
      proof (cases "is_unreserved (char_of n)")
        case ur: True
        then have "n < 128" "char_of n \<noteq> CHR ''%''" using unreserved_ascii code by metis+
        then show ?thesis
          using n c need ur u step by (simp add: decode_pair decode_plain utf8_lead_def)
      next
        case False
        then show ?thesis using n c need u step un by (simp add: decode_pair)
      qed
    next
      case need: False
      then have lo: "lo \<le> n" "n \<le> hi" "128 \<le> lo" "decode_from (need - 1) 128 191 rest \<noteq> None"
        using "1.prems" decode_pair [OF n] c by (auto split: if_splits)
      then have "\<not> is_unreserved (char_of n)" using unreserved_ascii [of "char_of n"] code by auto
      then show ?thesis using n c need lo un IH [OF lo(4)] by (simp add: decode_pair)
    qed
  next
    case False
    then have nz: "normalize_percent (c # a # b # rest) = c # normalize_percent (a # b # rest)"
      by (simp only: normalize_percent.simps if_False)
    have "c \<noteq> CHR ''%''"
    proof
      assume c: "c = CHR ''%''"
      then have "hex_pair a b = None" using False by simp
      then show False using "1.prems"(1) c by (simp add: decode_from.simps)
    qed
    moreover from this have "need = 0" "decode_from 0 0 0 (a # b # rest) \<noteq> None"
      using "1.prems"(1) by (auto simp: decode_from.simps split: if_splits)
    ultimately show ?thesis using "1.IH"(3) [OF False, of 0 0 0] nz by (simp add: decode_plain)
  qed
qed simp_all

lemma decode_uri_normalize: "decode_uri s \<noteq> None \<Longrightarrow> decode_uri (normalize_percent s) = decode_uri s"
  unfolding decode_uri_def by (rule decode_normalize) simp_all

end
