(* ===== verification/RadixTrie.thy ===== *)
theory RadixTrie imports UriPath begin

text \<open>
  \<open>RadixPathTrie\<close> of \<open>packages/server-runtime/src/routing/radix-path-trie.ts\<close>: insertion of route
  patterns (static, \<open>:name\<close> and wildcard segments) and the backtracking lookup. A node is a
  value; \<open>null\<close> children and values are \<open>None\<close>. The specification is a flat table from route
  shapes to values, searched in a fixed order of preference.
\<close>

section \<open>Nodes\<close>

datatype 'v node =
  Node (children: "(string \<times> 'v node) list") (param_child: "'v node option") (wildcard_child: "'v node option")
    (node_value: "'v option") (param_names: "string list")

definition empty_node :: "'v node" where
  "empty_node = Node [] None None None []"

record 'v trie =
  root :: "'v node"
  trie_size :: nat
  trie_paths :: "string list"

definition new_trie :: "'v trie" where
  "new_trie = \<lparr>root = empty_node, trie_size = 0, trie_paths = []\<rparr>"

datatype segment_kind = PathSegment | ParamSegment | WildcardSegment

definition segment_kind :: "string \<Rightarrow> segment_kind" where
  "segment_kind s =
     (if s = ''*'' \<or> s = ''**'' then WildcardSegment
      else if is_prefix '':'' s then ParamSegment
      else PathSegment)"

definition param_max_bytes :: nat where "param_max_bytes = 1024"
definition wildcard_max_bytes :: nat where "wildcard_max_bytes = 8192"

section \<open>Insertion\<close>

text \<open>\<open>_validateSegments\<close>: the error message, or none.\<close>

fun validate_segments :: "string list \<Rightarrow> string \<Rightarrow> string option" where
  "validate_segments [] full = None"
| "validate_segments (s # ss) full =
     (case segment_kind s of
        WildcardSegment \<Rightarrow>
          if ss \<noteq> [] then Some (''Wildcard must be the final segment in path: \"'' @ full @ ''\"'') else None
      | ParamSegment \<Rightarrow>
          if drop 1 s = [] then Some (''Parameter name is required in path: \"'' @ full @ ''\"'')
          else validate_segments ss full
      | PathSegment \<Rightarrow> validate_segments ss full)"

definition pattern_names :: "string list \<Rightarrow> string list" where
  "pattern_names segs = map (drop 1) (filter (\<lambda>s. segment_kind s = ParamSegment) segs)"

definition or_new :: "'v node option \<Rightarrow> 'v node" where
  "or_new n = (case n of None \<Rightarrow> empty_node | Some m \<Rightarrow> m)"

text \<open>The walk of \<open>insert\<close>, creating missing nodes; \<open>None\<close> when the final node has a value.\<close>

fun put_node :: "string list \<Rightarrow> string list \<Rightarrow> 'v \<Rightarrow> 'v node \<Rightarrow> 'v node option" where
  "put_node [] names v (Node cs p w val ns) =
     (case val of Some _ \<Rightarrow> None | None \<Rightarrow> Some (Node cs p w (Some v) names))"
| "put_node (s # ss) names v (Node cs p w val ns) =
     (case segment_kind s of
        WildcardSegment \<Rightarrow> map_option (\<lambda>m. Node cs p (Some m) val ns) (put_node ss names v (or_new w))
      | ParamSegment \<Rightarrow> map_option (\<lambda>m. Node cs (Some m) w val ns) (put_node ss names v (or_new p))
      | PathSegment \<Rightarrow> map_option (\<lambda>m. Node (jmap_set s m cs) p w val ns) (put_node ss names v (or_new (map_of cs s))))"

definition trie_insert :: "string \<Rightarrow> 'v \<Rightarrow> 'v trie \<Rightarrow> string + bool \<times> 'v trie" where
  "trie_insert path v t =
     (case normalize_pathname path of
        None \<Rightarrow> Inl ''Route path contains invalid encoding or control characters.''
      | Some normalized \<Rightarrow>
          if normalized \<in> set (trie_paths t) then Inr (False, t)
          else
            (let segs = segments_of normalized
             in case validate_segments segs normalized of
                  Some e \<Rightarrow> Inl e
                | None \<Rightarrow>
                    (case put_node segs (pattern_names segs) v (root t) of
                       None \<Rightarrow> Inl (''Duplicate path: \"'' @ normalized @ ''\" already has a value'')
                     | Some r \<Rightarrow> Inr (True, \<lparr>root = r, trie_size = trie_size t + 1,
                                          trie_paths = trie_paths t @ [normalized]\<rparr>))))"

section \<open>Lookup\<close>

text \<open>\<open>_buildParams\<close>: the object of parameters, in assignment order.\<close>

definition build_params :: "string list \<Rightarrow> string list \<Rightarrow> string option \<Rightarrow> (string \<times> string) list" where
  "build_params names vals wild =
     (let ps = fold (\<lambda>i ps. jmap_set
            (if i < length names \<and> names ! i \<noteq> [] then names ! i else ''param'' @ digits i) (vals ! i) ps)
          [0..<length vals] []
      in case wild of None \<Rightarrow> ps | Some w \<Rightarrow> jmap_set ''*'' w ps)"

fun decode_all :: "string list \<Rightarrow> string list option" where
  "decode_all [] = Some []"
| "decode_all (s # ss) = (case decode_uri s of None \<Rightarrow> None | Some d \<Rightarrow> map_option ((#) d) (decode_all ss))"

fun join_slash :: "string list \<Rightarrow> string" where
  "join_slash [] = []"
| "join_slash [s] = s"
| "join_slash (s # ss) = s @ ''/'' @ join_slash ss"

definition wildcard_match :: "'v node \<Rightarrow> string list \<Rightarrow> string list \<Rightarrow> ('v \<times> (string \<times> string) list) option" where
  "wildcard_match n segs vals =
     (case wildcard_child n of
        None \<Rightarrow> None
      | Some w \<Rightarrow>
          (case node_value w of
             None \<Rightarrow> None
           | Some v \<Rightarrow>
               (case decode_all segs of
                  None \<Rightarrow> None
                | Some ds \<Rightarrow>
                    if length (join_slash ds) > wildcard_max_bytes then None
                    else Some (v, build_params (param_names w) vals (Some (join_slash ds))))))"

definition or_try :: "'a option \<Rightarrow> 'a option \<Rightarrow> 'a option" where
  "or_try a b = (case a of None \<Rightarrow> b | Some x \<Rightarrow> Some x)"

fun lookup_node :: "'v node \<Rightarrow> string list \<Rightarrow> string list \<Rightarrow> ('v \<times> (string \<times> string) list) option" where
  "lookup_node n [] vals =
     (case node_value n of
        Some v \<Rightarrow> Some (v, build_params (param_names n) vals None)
      | None \<Rightarrow>
          (case wildcard_child n of
             None \<Rightarrow> None
           | Some w \<Rightarrow>
               (case node_value w of
                  None \<Rightarrow> None
                | Some v \<Rightarrow> Some (v, build_params (param_names w) vals (Some [])))))"
| "lookup_node n (s # ss) vals =
     (case decode_uri s of
        None \<Rightarrow> None
      | Some d \<Rightarrow>
          or_try (case map_of (children n) d of None \<Rightarrow> None | Some m \<Rightarrow> lookup_node m ss vals)
            (or_try (case param_child n of
                       None \<Rightarrow> None
                     | Some m \<Rightarrow> if length d \<le> param_max_bytes then lookup_node m ss (vals @ [d]) else None)
              (wildcard_match n (s # ss) vals)))"

definition trie_lookup :: "string \<Rightarrow> 'v trie \<Rightarrow> ('v \<times> (string \<times> string) list) option" where
  "trie_lookup path t =
     (case normalize_pathname path of
        None \<Rightarrow> None
      | Some normalized \<Rightarrow> lookup_node (root t) (segments_of normalized) [])"

section \<open>The flat route table\<close>

text \<open>A shape is a pattern without its parameter names: two patterns of one shape are the same
  route to the trie.\<close>

datatype seg_key = KStatic string | KParam | KWild

definition key_of :: "string \<Rightarrow> seg_key" where
  "key_of s = (case segment_kind s of WildcardSegment \<Rightarrow> KWild | ParamSegment \<Rightarrow> KParam | PathSegment \<Rightarrow> KStatic s)"

fun node_get :: "'v node \<Rightarrow> seg_key list \<Rightarrow> ('v \<times> string list) option" where
  "node_get n [] = (case node_value n of None \<Rightarrow> None | Some v \<Rightarrow> Some (v, param_names n))"
| "node_get n (k # ks) =
     (case (case k of KStatic s \<Rightarrow> map_of (children n) s | KParam \<Rightarrow> param_child n | KWild \<Rightarrow> wildcard_child n) of
        None \<Rightarrow> None | Some m \<Rightarrow> node_get m ks)"

text \<open>Every shape a concrete path can match, best first, with the parameter values it would
  bind and the wildcard tail: a static segment beats a parameter, a parameter beats a
  wildcard, and an earlier segment decides before a later one.\<close>

fun shapes :: "string list \<Rightarrow> (seg_key list \<times> string list \<times> string option) list" where
  "shapes [] = [([], [], None), ([KWild], [], Some [])]"
| "shapes (s # ss) =
     (case decode_uri s of
        None \<Rightarrow> []
      | Some d \<Rightarrow>
          map (\<lambda>(ks, vals, w). (KStatic d # ks, vals, w)) (shapes ss)
          @ (if length d \<le> param_max_bytes then map (\<lambda>(ks, vals, w). (KParam # ks, d # vals, w)) (shapes ss) else [])
          @ (case decode_all (s # ss) of
               None \<Rightarrow> []
             | Some ds \<Rightarrow> if length (join_slash ds) > wildcard_max_bytes then []
                          else [([KWild], [], Some (join_slash ds))]))"

fun first_some :: "('a \<Rightarrow> 'b option) \<Rightarrow> 'a list \<Rightarrow> 'b option" where
  "first_some f [] = None"
| "first_some f (x # xs) = (case f x of Some y \<Rightarrow> Some y | None \<Rightarrow> first_some f xs)"

definition table_match :: "(seg_key list \<Rightarrow> ('v \<times> string list) option) \<Rightarrow> string list
    \<Rightarrow> seg_key list \<times> string list \<times> string option \<Rightarrow> ('v \<times> (string \<times> string) list) option" where
  "table_match table pre c =
     (case c of (ks, vals, w) \<Rightarrow>
        (case table ks of None \<Rightarrow> None | Some (v, names) \<Rightarrow> Some (v, build_params names (pre @ vals) w)))"

section \<open>Lookup searches the table\<close>

lemma first_some_append: "first_some f (xs @ ys) = or_try (first_some f xs) (first_some f ys)"
  by (induction xs) (auto simp: or_try_def split: option.split)

lemma first_some_map: "first_some f (map g xs) = first_some (\<lambda>x. f (g x)) xs"
  by (induction xs) (auto split: option.split)

lemma first_some_none: "(\<And>x. f x = None) \<Longrightarrow> first_some f xs = None"
  by (induction xs) auto

lemma table_match_static:
  "first_some (table_match (node_get n) pre) (map (\<lambda>(ks, vals, w). (KStatic d # ks, vals, w)) cs) =
     (case map_of (children n) d of None \<Rightarrow> None | Some m \<Rightarrow> first_some (table_match (node_get m) pre) cs)"
  unfolding first_some_map
  by (cases "map_of (children n) d")
    (auto simp: table_match_def intro!: first_some_none arg_cong [where f = "\<lambda>f. first_some f cs"])

lemma table_match_param:
  "first_some (table_match (node_get n) pre) (map (\<lambda>(ks, vals, w). (KParam # ks, d # vals, w)) cs) =
     (case param_child n of None \<Rightarrow> None | Some m \<Rightarrow> first_some (table_match (node_get m) (pre @ [d])) cs)"
proof (cases "param_child n")
  case None
  then show ?thesis unfolding first_some_map by (auto simp: table_match_def intro!: first_some_none)
next
  case (Some m)
  then have "(\<lambda>x. table_match (node_get n) pre (case x of (ks, vals, w) \<Rightarrow> (KParam # ks, d # vals, w))) =
      table_match (node_get m) (pre @ [d])"
    by (intro ext) (auto simp: table_match_def split: prod.split option.split)
  then show ?thesis unfolding first_some_map using Some by simp
qed

lemma wildcard_match_table:
  "wildcard_match n segs pre =
     first_some (table_match (node_get n) pre)
       (case decode_all segs of
          None \<Rightarrow> []
        | Some ds \<Rightarrow> if length (join_slash ds) > wildcard_max_bytes then [] else [([KWild], [], Some (join_slash ds))])"
  by (auto simp: wildcard_match_def table_match_def split: option.split)

lemma lookup_node_table:
  "lookup_node n segs pre = first_some (table_match (node_get n) pre) (shapes segs)"
proof (induction n segs pre rule: lookup_node.induct)
  case (1 n pre)
  show ?case by (auto simp: table_match_def split: option.split)
next
  case (2 n s ss pre)
  show ?case
  proof (cases "decode_uri s")
    case (Some d)
    have st: "(case map_of (children n) d of None \<Rightarrow> None | Some m \<Rightarrow> lookup_node m ss pre) =
        (case map_of (children n) d of None \<Rightarrow> None | Some m \<Rightarrow> first_some (table_match (node_get m) pre) (shapes ss))"
      using "2.IH"(1) [OF Some] by (auto split: option.split)
    have pa: "(case param_child n of None \<Rightarrow> None
          | Some m \<Rightarrow> if length d \<le> param_max_bytes then lookup_node m ss (pre @ [d]) else None) =
        first_some (table_match (node_get n) pre)
          (if length d \<le> param_max_bytes then map (\<lambda>(ks, vals, w). (KParam # ks, d # vals, w)) (shapes ss) else [])"
      using "2.IH"(2) [OF Some] by (auto simp: table_match_param split: option.split)
    show ?thesis
      unfolding lookup_node.simps shapes.simps Some option.case first_some_append table_match_static st pa
        wildcard_match_table ..
  qed simp
qed

section \<open>Insertion updates the table\<close>

lemma node_get_empty [simp]: "node_get empty_node ks = None"
  by (cases ks) (auto simp: empty_node_def split: seg_key.split)

lemma node_get_or_new: "node_get (or_new n) ks = (case n of None \<Rightarrow> None | Some m \<Rightarrow> node_get m ks)"
  by (cases n) (simp_all add: or_new_def)

lemma put_node_get:
  "put_node segs names v n = Some n' \<Longrightarrow> node_get n' ks = (if ks = map key_of segs then Some (v, names) else node_get n ks)"
proof (induction segs names v n arbitrary: n' ks rule: put_node.induct)
  case (1 names v cs p w val ns)
  then show ?case by (cases ks) (auto split: option.splits seg_key.splits)
next
  case (2 s ss names v cs p w val ns)
  show ?case
  proof (cases "segment_kind s")
    case PathSegment
    then obtain m where m: "put_node ss names v (or_new (map_of cs s)) = Some m" "n' = Node (jmap_set s m cs) p w val ns"
      using "2.prems" by auto
    note IH = "2.IH"(1) [OF PathSegment m(1)]
    show ?thesis
      using m(2) PathSegment IH node_get_or_new [of "map_of cs s"]
      by (cases ks) (auto simp: key_of_def split: seg_key.splits option.splits)
  next
    case ParamSegment
    then obtain m where m: "put_node ss names v (or_new p) = Some m" "n' = Node cs (Some m) w val ns"
      using "2.prems" by auto
    note IH = "2.IH"(2) [OF ParamSegment m(1)]
    show ?thesis
      using m(2) ParamSegment IH node_get_or_new [of p]
      by (cases ks) (auto simp: key_of_def split: seg_key.splits option.splits)
  next
    case WildcardSegment
    then obtain m where m: "put_node ss names v (or_new w) = Some m" "n' = Node cs p (Some m) val ns"
      using "2.prems" by auto
    note IH = "2.IH"(3) [OF WildcardSegment m(1)]
    show ?thesis
      using m(2) WildcardSegment IH node_get_or_new [of w]
      by (cases ks) (auto simp: key_of_def split: seg_key.splits option.splits)
  qed
qed

lemma put_node_None: "put_node segs names v n = None \<longleftrightarrow> node_get n (map key_of segs) \<noteq> None"
proof (induction segs names v n rule: put_node.induct)
  case (1 names v cs p w val ns)
  then show ?case by (cases val) auto
next
  case (2 s ss names v cs p w val ns)
  then show ?case
    by (cases "segment_kind s") (simp_all add: key_of_def node_get_or_new split: option.split)
qed

definition trie_table :: "'v trie \<Rightarrow> seg_key list \<Rightarrow> ('v \<times> string list) option" where
  "trie_table t = node_get (root t)"

text \<open>
  C25: the trie lookup is a priority search of the flat route table: it normalises the path
  and returns the value of the first shape, in the documented order of preference (static
  before parameter before wildcard, earlier segments first), that the table has a route for,
  with the parameters bound to the decoded segments; the backtracking misses nothing.
\<close>

theorem route_lookup_is_table_search:
  "trie_lookup path t =
     (case normalize_pathname path of
        None \<Rightarrow> None
      | Some p \<Rightarrow> first_some (table_match (trie_table t) []) (shapes (segments_of p)))"
  by (simp add: trie_lookup_def lookup_node_table trie_table_def split: option.split)

lemma trie_insert_True:
  assumes "trie_insert path v t = Inr (True, t')"
  obtains p where "normalize_pathname path = Some p" "p \<notin> set (trie_paths t)"
    "validate_segments (segments_of p) p = None" "trie_table t (map key_of (segments_of p)) = None"
    "trie_table t' = (trie_table t)(map key_of (segments_of p) \<mapsto> (v, pattern_names (segments_of p)))"
    "trie_size t' = trie_size t + 1" "trie_paths t' = trie_paths t @ [p]"
proof -
  obtain p where p: "normalize_pathname path = Some p" "p \<notin> set (trie_paths t)" "validate_segments (segments_of p) p = None"
    using assms by (auto simp: trie_insert_def Let_def split: option.splits if_splits)
  then obtain r where r: "put_node (segments_of p) (pattern_names (segments_of p)) v (root t) = Some r"
      "t' = \<lparr>root = r, trie_size = trie_size t + 1, trie_paths = trie_paths t @ [p]\<rparr>"
    using assms by (auto simp: trie_insert_def Let_def split: option.splits)
  have "node_get (root t) (map key_of (segments_of p)) = None"
    using r(1) put_node_None [of "segments_of p" "pattern_names (segments_of p)" v "root t"]
    by (metis option.distinct(1))
  moreover have "trie_table t' = (trie_table t)(map key_of (segments_of p) \<mapsto> (v, pattern_names (segments_of p)))"
    using put_node_get [OF r(1)] r(2) by (auto simp: trie_table_def fun_eq_iff)
  ultimately show thesis using that p r(2) by (simp add: trie_table_def)
qed

text \<open>
  Insertion adds exactly one route and never overwrites: when it reports success the
  pattern is valid, its shape was free, the table gains the pattern's value under that shape
  and nothing else changes; when it reports a duplicate the trie is unchanged; a valid new
  pattern whose shape is taken is refused.
\<close>

theorem route_insert_updates_table:
  "(\<forall>t'. trie_insert path v t = Inr (True, t') \<longrightarrow>
      (\<exists>p. normalize_pathname path = Some p \<and> validate_segments (segments_of p) p = None \<and>
        trie_table t (map key_of (segments_of p)) = None \<and>
        trie_table t' = (trie_table t)(map key_of (segments_of p) \<mapsto> (v, pattern_names (segments_of p))) \<and>
        trie_size t' = trie_size t + 1))
   \<and> (\<forall>t'. trie_insert path v t = Inr (False, t') \<longrightarrow> t' = t)
   \<and> (\<forall>p. normalize_pathname path = Some p \<longrightarrow> p \<notin> set (trie_paths t) \<longrightarrow>
        trie_table t (map key_of (segments_of p)) \<noteq> None \<longrightarrow> isl (trie_insert path v t))"
proof (intro conjI allI impI)
  fix t' assume "trie_insert path v t = Inr (True, t')"
  then show "\<exists>p. normalize_pathname path = Some p \<and> validate_segments (segments_of p) p = None \<and>
        trie_table t (map key_of (segments_of p)) = None \<and>
        trie_table t' = (trie_table t)(map key_of (segments_of p) \<mapsto> (v, pattern_names (segments_of p))) \<and>
        trie_size t' = trie_size t + 1"
    by (rule trie_insert_True) blast
next
  fix t' assume "trie_insert path v t = Inr (False, t')"
  then show "t' = t" by (auto simp: trie_insert_def Let_def split: option.splits if_splits)
next
  fix p assume "normalize_pathname path = Some p" "p \<notin> set (trie_paths t)" "trie_table t (map key_of (segments_of p)) \<noteq> None"
  then show "isl (trie_insert path v t)"
    using put_node_None [of "segments_of p" "pattern_names (segments_of p)" v "root t"]
    by (auto simp: trie_insert_def Let_def trie_table_def split: option.splits)
qed

lemmas path_eval = normalize_pathname_def trim_path_def cut_at_def segments_of_def str_or_def is_prefix_def
  decode_uri_def decode_from.simps has_control_def char_code_def hex_pair_def hex_value_def utf8_lead_def
  is_unreserved_def upper_char_def segment_kind_def key_of_def pattern_names_def

lemma demo_pattern: "normalize_pathname ''/f/:id'' = Some ''/f/:id''" "segments_of ''/f/:id'' = [''f'', '':id'']"
  "map key_of [''f'', '':id''] = [KStatic ''f'', KParam]"
  by (simp_all add: path_eval)

theorem route_insert_updates_table_witness:
  "\<exists>t. trie_insert ''/f/:id'' (7 :: nat) new_trie = Inr (True, t) \<and>
     trie_table t [KStatic ''f'', KParam] = Some (7, pattern_names [''f'', '':id''])"
proof -
  have "\<exists>t. trie_insert ''/f/:id'' (7 :: nat) new_trie = Inr (True, t)"
    by (simp add: trie_insert_def demo_pattern Let_def new_trie_def segment_kind_def is_prefix_def empty_node_def or_new_def)
  then obtain t where t: "trie_insert ''/f/:id'' (7 :: nat) new_trie = Inr (True, t)" ..
  obtain p where "normalize_pathname ''/f/:id'' = Some p"
      "trie_table t = (trie_table new_trie)(map key_of (segments_of p) \<mapsto> (7, pattern_names (segments_of p)))"
    using conjunct1 [OF route_insert_updates_table [of "''/f/:id''" "7 :: nat" new_trie]] t by blast
  then show ?thesis using t unfolding demo_pattern(1) by (auto simp only: option.inject demo_pattern fun_upd_same)
qed

section \<open>Round trips and bounds\<close>

lemma shapes_static:
  assumes "\<forall>s \<in> set segs. decode_uri s = Some s"
  shows "\<exists>rest. shapes segs = (map KStatic segs, [], None) # rest"
  using assms
proof (induction segs)
  case (Cons s ss)
  then obtain rest where "shapes ss = (map KStatic ss, [], None) # rest" by auto
  then show ?case using Cons.prems by simp
qed simp

text \<open>
  A static route is always found: after inserting a pattern of static segments without
  percent encodings, looking its path up returns its value with no parameters, whatever
  parameter and wildcard routes the trie holds besides.
\<close>

theorem static_route_roundtrip:
  assumes "trie_insert path v t = Inr (True, t')" and "normalize_pathname path = Some p"
    and "\<forall>s \<in> set (segments_of p). segment_kind s = PathSegment \<and> decode_uri s = Some s"
  shows "trie_lookup path t' = Some (v, [])"
proof -
  have "trie_table t' = (trie_table t)(map key_of (segments_of p) \<mapsto> (v, pattern_names (segments_of p)))"
    using trie_insert_True [OF assms(1)] assms(2) by (metis option.inject)
  moreover have "map key_of (segments_of p) = map KStatic (segments_of p)" using assms(3) by (auto simp: key_of_def)
  moreover have "pattern_names (segments_of p) = []"
    using assms(3) by (auto simp: pattern_names_def filter_empty_conv)
  moreover obtain rest where "shapes (segments_of p) = (map KStatic (segments_of p), [], None) # rest"
    using shapes_static assms(3) by blast
  ultimately show ?thesis
    using assms(2) by (simp add: trie_lookup_def lookup_node_table trie_table_def [symmetric] table_match_def build_params_def)
qed

theorem static_route_roundtrip_witness:
  "\<exists>t. trie_insert ''/a/b'' (3 :: nat) new_trie = Inr (True, t) \<and> trie_lookup ''/a/b'' t = Some (3, [])"
proof -
  have n: "normalize_pathname ''/a/b'' = Some ''/a/b''" "segments_of ''/a/b'' = [''a'', ''b'']"
    by (simp_all add: path_eval)
  have "\<exists>t. trie_insert ''/a/b'' (3 :: nat) new_trie = Inr (True, t)"
    by (simp add: trie_insert_def n Let_def new_trie_def segment_kind_def is_prefix_def empty_node_def or_new_def)
  then obtain t where t: "trie_insert ''/a/b'' (3 :: nat) new_trie = Inr (True, t)" ..
  have "\<forall>s \<in> set (segments_of ''/a/b''). segment_kind s = PathSegment \<and> decode_uri s = Some s"
    unfolding n by (simp add: segment_kind_def is_prefix_def decode_uri_def decode_from.simps)
  from static_route_roundtrip [OF t n(1) this] t show ?thesis by blast
qed

text \<open>
  A static pattern that needs percent encoding can be registered but never reached: the
  pattern is stored encoded and looked up decoded.
\<close>

theorem encoded_static_route_unreachable:
  "\<exists>t. trie_insert ''/a%20b'' (3 :: nat) new_trie = Inr (True, t) \<and> trie_lookup ''/a%20b'' t = None"
proof -
  have n: "normalize_pathname ''/a%20b'' = Some ''/a%20b''" "segments_of ''/a%20b'' = [''a%20b'']"
    "decode_uri ''a%20b'' = Some ''a b''"
    by code_simp+
  show ?thesis
    by (simp add: trie_insert_def trie_lookup_def n Let_def new_trie_def segment_kind_def is_prefix_def empty_node_def
      or_new_def or_try_def wildcard_match_def)
qed

end
