(* ===== verification/RouteIndex.thy ===== *)
theory RouteIndex imports RadixTrie begin

text \<open>
  \<open>OperationRouteIndex\<close> of \<open>packages/server-runtime/src/routing/operation-route-index.ts\<close>: one
  route trie per HTTP method, the RPC table, the operations and capabilities by id, and the
  conflicts found while indexing. An operation's \<open>http.method\<close> is the list it is turned into;
  a field that is not a string counts as the empty string, as the code treats it. The
  revision digest and the freezing of snapshots are not represented.
\<close>

section \<open>State\<close>

record capability =
  cap_id :: string
  cap_operation :: string
  cap_risk :: string
  cap_scopes :: "string list"

record http_config =
  http_methods :: "string list"
  http_path :: string

record operation =
  op_id :: string
  op_http :: "http_config option"
  op_rpc :: "string option"
  op_capability :: "capability option"
  op_risk :: string
  op_safety_risk :: string
  op_scopes :: "string list"

record route_node =
  route_operation :: operation
  route_path :: string
  route_method :: string

record conflict =
  c_method :: string
  c_path :: string
  c_conflict_path :: string
  c_reason :: string

record route_summary =
  s_method :: string
  s_path :: string
  s_operation :: string

record route_index =
  http_index :: "(string \<times> route_node trie) list"
  http_routes :: "route_summary list"
  rpc_index :: "(string \<times> operation) list"
  operation_by_id :: "(string \<times> operation) list"
  capability_by_id :: "(string \<times> capability) list"
  conflicts :: "conflict list"

definition empty_index :: route_index where
  "empty_index = \<lparr>http_index = [], http_routes = [], rpc_index = [], operation_by_id = [],
     capability_by_id = [], conflicts = []\<rparr>"

definition valid_http_methods :: "string list" where
  "valid_http_methods = [''GET'', ''POST'', ''PUT'', ''PATCH'', ''DELETE'', ''HEAD'', ''OPTIONS'']"

definition upper :: "string \<Rightarrow> string" where
  "upper s = map upper_char s"

definition add_conflict :: "string \<Rightarrow> string \<Rightarrow> string \<Rightarrow> string \<Rightarrow> route_index \<Rightarrow> route_index" where
  "add_conflict m p q r ix =
     ix\<lparr>conflicts := conflicts ix @ [\<lparr>c_method = m, c_path = p, c_conflict_path = q, c_reason = r\<rparr>]\<rparr>"

section \<open>Building the index\<close>

text \<open>One turn of the method loop of \<open>_indexHttpOperation\<close>.\<close>

definition index_method :: "operation \<Rightarrow> string \<Rightarrow> string \<Rightarrow> route_index \<Rightarrow> route_index" where
  "index_method op path raw ix =
     (let method = upper raw
      in if method \<notin> set valid_http_methods then
           add_conflict method path [] (''Invalid HTTP method for operation '' @ op_id op) ix
         else
           (let t = (case map_of (http_index ix) method of None \<Rightarrow> new_trie | Some t \<Rightarrow> t);
                ix1 = ix\<lparr>http_index := jmap_set method t (http_index ix)\<rparr>;
                node = \<lparr>route_operation = op, route_path = path, route_method = method\<rparr>
            in case trie_insert path node t of
                 Inl e \<Rightarrow> add_conflict method path [] e ix1
               | Inr (inserted, t') \<Rightarrow>
                   if \<not> inserted then add_conflict method path path ''duplicate_path'' ix1
                   else ix1\<lparr>http_index := jmap_set method t' (http_index ix1),
                            http_routes := http_routes ix1 @
                              [\<lparr>s_method = method, s_path = path, s_operation = op_id op\<rparr>]\<rparr>))"

definition index_http :: "operation \<Rightarrow> route_index \<Rightarrow> route_index" where
  "index_http op ix =
     (case op_http op of
        None \<Rightarrow> ix
      | Some http \<Rightarrow>
          if http_methods http = [] \<or> http_path http = [] \<or> http_path http \<noteq> trim_path (http_path http)
          then add_conflict ''HTTP'' (http_path http) [] ''HTTP method and path are required'' ix
          else fold (index_method op (http_path http)) (http_methods http) ix)"

definition index_rpc :: "operation \<Rightarrow> route_index \<Rightarrow> route_index" where
  "index_rpc op ix =
     (case op_rpc op of
        None \<Rightarrow> ix
      | Some m \<Rightarrow>
          if m = [] \<or> m \<noteq> trim_path m then
            add_conflict ''RPC'' m [] (''RPC method is required for operation '' @ op_id op) ix
          else if map_of (rpc_index ix) m \<noteq> None then add_conflict ''RPC'' m m ''Duplicate RPC method'' ix
          else ix\<lparr>rpc_index := jmap_set m op (rpc_index ix)\<rparr>)"

definition default_capability :: "operation \<Rightarrow> capability" where
  "default_capability op =
     \<lparr>cap_id = ''cap:api:'' @ op_id op, cap_operation = op_id op,
      cap_risk = str_or (op_risk op) (str_or (op_safety_risk op) ''read_only''), cap_scopes = op_scopes op\<rparr>"

definition index_operation :: "operation \<Rightarrow> route_index \<Rightarrow> route_index" where
  "index_operation op ix =
     (if op_id op = [] \<or> op_id op \<noteq> trim_path (op_id op) then
        add_conflict ''OPERATION'' (op_id op) []
          ''Operation ID is required and cannot contain surrounding whitespace'' ix
      else if map_of (operation_by_id ix) (op_id op) \<noteq> None then
        add_conflict ''OPERATION'' (op_id op) (op_id op) ''Duplicate operation ID'' ix
      else
        index_rpc op (index_http op
          (ix\<lparr>operation_by_id := jmap_set (op_id op) op (operation_by_id ix),
              capability_by_id := jmap_set (op_id op)
                (case op_capability op of None \<Rightarrow> default_capability op | Some c \<Rightarrow> c) (capability_by_id ix)\<rparr>)))"

text \<open>The constructor: in strict mode conflicts are an error. The tries report no conflicts of
  their own.\<close>

definition build_index :: "bool \<Rightarrow> operation list \<Rightarrow> conflict list + route_index" where
  "build_index strict ops =
     (let ix = fold index_operation ops empty_index
      in if strict \<and> conflicts ix \<noteq> [] then Inl (conflicts ix) else Inr ix)"

section \<open>Queries\<close>

definition pathname_from :: "string \<Rightarrow> string" where
  "pathname_from path = str_or (cut_at (CHR ''?'') (str_or path ''/'')) ''/''"

definition find_http :: "string \<Rightarrow> string \<Rightarrow> route_index \<Rightarrow> (operation \<times> (string \<times> string) list) option" where
  "find_http method path ix =
     (if method = [] then None
      else
        (case map_of (http_index ix) (upper method) of
           None \<Rightarrow> None
         | Some t \<Rightarrow> map_option (\<lambda>(n, ps). (route_operation n, ps)) (trie_lookup (pathname_from path) t)))"

definition find_rpc :: "string \<Rightarrow> route_index \<Rightarrow> operation option" where
  "find_rpc m ix = map_of (rpc_index ix) m"

definition get_operation :: "string \<Rightarrow> route_index \<Rightarrow> operation option" where
  "get_operation i ix = map_of (operation_by_id ix) i"

definition get_capability :: "string \<Rightarrow> route_index \<Rightarrow> capability option" where
  "get_capability i ix = map_of (capability_by_id ix) i"

definition list_rpc :: "route_index \<Rightarrow> (string \<times> string) list" where
  "list_rpc ix = map (\<lambda>(m, op). (m, op_id op)) (rpc_index ix)"

definition snapshot_counts :: "route_index \<Rightarrow> nat \<times> nat \<times> nat" where
  "snapshot_counts ix = (length (operation_by_id ix), length (http_routes ix), length (rpc_index ix))"

section \<open>What is found was registered\<close>

definition node_ok :: "operation set \<Rightarrow> string \<Rightarrow> route_node \<Rightarrow> bool" where
  "node_ok A m n \<longleftrightarrow> route_operation n \<in> A \<and> route_method n = m \<and>
     (\<exists>h. op_http (route_operation n) = Some h \<and> route_path n = http_path h \<and> m \<in> upper ` set (http_methods h))"

definition index_sound :: "operation set \<Rightarrow> route_index \<Rightarrow> bool" where
  "index_sound A ix \<longleftrightarrow>
     (\<forall>m t ks n names. map_of (http_index ix) m = Some t \<longrightarrow> trie_table t ks = Some (n, names) \<longrightarrow> node_ok A m n) \<and>
     (\<forall>m op. map_of (rpc_index ix) m = Some op \<longrightarrow> op \<in> A \<and> op_rpc op = Some m) \<and>
     (\<forall>i op. map_of (operation_by_id ix) i = Some op \<longrightarrow> op \<in> A \<and> op_id op = i)"

lemma new_trie_table [simp]: "trie_table new_trie ks = None"
  by (simp add: trie_table_def new_trie_def)

lemma add_conflict_fields [simp]:
  "http_index (add_conflict m p q r ix) = http_index ix" "http_routes (add_conflict m p q r ix) = http_routes ix"
  "rpc_index (add_conflict m p q r ix) = rpc_index ix"
  "operation_by_id (add_conflict m p q r ix) = operation_by_id ix"
  "capability_by_id (add_conflict m p q r ix) = capability_by_id ix"
  "conflicts (add_conflict m p q r ix) \<noteq> []"
  by (simp_all add: add_conflict_def)

lemma trie_insert_Inr:
  assumes "trie_insert path v t = Inr (b, t')"
  shows "\<exists>k names. trie_table t' = (if b then (trie_table t)(k \<mapsto> (v, names)) else trie_table t)"
proof (cases b)
  case True
  then show ?thesis using trie_insert_True [of path v t t'] assms by (metis (full_types))
next
  case False
  then have "t' = t" using assms by (auto simp: trie_insert_def Let_def split: option.splits if_splits)
  then show ?thesis using False by simp
qed

lemma index_method_tables:
  "rpc_index (index_method op path raw ix) = rpc_index ix"
  "operation_by_id (index_method op path raw ix) = operation_by_id ix"
  "capability_by_id (index_method op path raw ix) = capability_by_id ix"
  by (auto simp: index_method_def Let_def split: sum.splits prod.splits)

lemma index_method_http:
  "\<exists>t'. (\<forall>m. map_of (http_index (index_method op path raw ix)) m =
       (if m = upper raw \<and> m \<in> set valid_http_methods then Some t' else map_of (http_index ix) m)) \<and>
     (upper raw \<in> set valid_http_methods \<longrightarrow>
       (\<exists>k names b. trie_table t' = (if b
          then (trie_table (case map_of (http_index ix) (upper raw) of None \<Rightarrow> new_trie | Some t \<Rightarrow> t))
            (k \<mapsto> (\<lparr>route_operation = op, route_path = path, route_method = upper raw\<rparr>, names))
          else trie_table (case map_of (http_index ix) (upper raw) of None \<Rightarrow> new_trie | Some t \<Rightarrow> t)) \<and>
        (conflicts (index_method op path raw ix) = [] \<longrightarrow> b)))"
proof (cases "upper raw \<in> set valid_http_methods")
  case False
  then show ?thesis by (auto simp: index_method_def Let_def)
next
  case True
  let ?t = "case map_of (http_index ix) (upper raw) of None \<Rightarrow> new_trie | Some t \<Rightarrow> t"
  let ?n = "\<lparr>route_operation = op, route_path = path, route_method = upper raw\<rparr>"
  show ?thesis
  proof (cases "trie_insert path ?n ?t")
    case (Inl e)
    then show ?thesis using True by (intro exI [of _ ?t]) (auto simp: index_method_def Let_def intro!: exI [of _ False])
  next
    case (Inr r)
    obtain b t' where r: "r = (b, t')" by (cases r)
    obtain k names where k: "trie_table t' = (if b then (trie_table ?t)(k \<mapsto> (?n, names)) else trie_table ?t)"
      using trie_insert_Inr [of path ?n ?t b t'] Inr r by blast
    show ?thesis
    proof (cases b)
      case b: True
      show ?thesis
        using True Inr r b k
        by (intro exI [of _ t'] conjI impI) (auto simp: index_method_def Let_def intro!: exI [of _ k] exI [of _ names] exI [of _ True])
    next
      case b: False
      then show ?thesis using True Inr r by (intro exI [of _ ?t]) (auto simp: index_method_def Let_def intro!: exI [of _ False])
    qed
  qed
qed

lemma index_method_sound:
  assumes "index_sound A ix" "op \<in> A" "op_http op = Some h" "path = http_path h" "raw \<in> set (http_methods h)"
  shows "index_sound A (index_method op path raw ix)"
proof -
  obtain t' where t': "\<forall>m. map_of (http_index (index_method op path raw ix)) m =
       (if m = upper raw \<and> m \<in> set valid_http_methods then Some t' else map_of (http_index ix) m)"
    and tab: "upper raw \<in> set valid_http_methods \<longrightarrow>
       (\<exists>k names b. trie_table t' = (if b
          then (trie_table (case map_of (http_index ix) (upper raw) of None \<Rightarrow> new_trie | Some t \<Rightarrow> t))
            (k \<mapsto> (\<lparr>route_operation = op, route_path = path, route_method = upper raw\<rparr>, names))
          else trie_table (case map_of (http_index ix) (upper raw) of None \<Rightarrow> new_trie | Some t \<Rightarrow> t)) \<and>
        (conflicts (index_method op path raw ix) = [] \<longrightarrow> b))"
    using index_method_http [of op path raw ix] by blast
  have new: "node_ok A (upper raw) \<lparr>route_operation = op, route_path = path, route_method = upper raw\<rparr>"
    using assms by (auto simp: node_ok_def)
  have old: "node_ok A (upper raw) n"
    if "trie_table (case map_of (http_index ix) (upper raw) of None \<Rightarrow> new_trie | Some t \<Rightarrow> t) ks = Some (n, names)" for ks n names
  proof (cases "map_of (http_index ix) (upper raw)")
    case (Some t)
    then show ?thesis using that assms(1) unfolding index_sound_def by simp blast
  qed (use that in simp)
  have "node_ok A m n" if "map_of (http_index (index_method op path raw ix)) m = Some t" "trie_table t ks = Some (n, names)" for m t ks n names
  proof (cases "m = upper raw \<and> m \<in> set valid_http_methods")
    case True
    then have "t = t'" using t' that(1) True by auto
    moreover obtain k ns b where kk: "trie_table t' = (if b
          then (trie_table (case map_of (http_index ix) (upper raw) of None \<Rightarrow> new_trie | Some t \<Rightarrow> t))
            (k \<mapsto> (\<lparr>route_operation = op, route_path = path, route_method = upper raw\<rparr>, ns))
          else trie_table (case map_of (http_index ix) (upper raw) of None \<Rightarrow> new_trie | Some t \<Rightarrow> t))"
      using tab True by blast
    ultimately show ?thesis using that(2) new old True by (cases b; cases "ks = k") auto
  next
    case False
    then have "map_of (http_index ix) m = Some t" using t' that(1) by (metis (full_types))
    then show ?thesis using assms(1) that(2) unfolding index_sound_def by blast
  qed
  then show ?thesis using assms(1) by (simp add: index_sound_def index_method_tables)
qed

lemma index_http_sound: "index_sound A ix \<Longrightarrow> op \<in> A \<Longrightarrow> index_sound A (index_http op ix)"
proof (cases "op_http op")
  case (Some h)
  assume a: "index_sound A ix" "op \<in> A"
  have "index_sound A (fold (index_method op (http_path h)) ms ix)" if "set ms \<subseteq> set (http_methods h)" for ms
    using that a(1)
  proof (induction ms arbitrary: ix)
    case (Cons m ms)
    then show ?case using index_method_sound [OF Cons.prems(2) a(2) Some refl] by simp
  qed simp
  moreover have "index_sound A (add_conflict m p q r ix)" for m p q r using a(1) by (simp add: index_sound_def)
  ultimately show ?thesis by (simp add: index_http_def Some)
qed (simp add: index_http_def)

lemma conflict_sound: "index_sound A ix \<Longrightarrow> index_sound A (add_conflict m p q r ix)"
  by (simp add: index_sound_def)

lemma index_rpc_sound:
  assumes "index_sound A ix" "op \<in> A"
  shows "index_sound A (index_rpc op ix)"
proof (cases "op_rpc op")
  case (Some m)
  have "index_sound A (ix\<lparr>rpc_index := jmap_set m op (rpc_index ix)\<rparr>)"
    using assms Some unfolding index_sound_def by simp
  then show ?thesis using assms(1) Some by (simp add: index_rpc_def conflict_sound)
qed (use assms in \<open>simp add: index_rpc_def\<close>)

lemma index_operation_sound: "index_sound A ix \<Longrightarrow> op \<in> A \<Longrightarrow> index_sound A (index_operation op ix)"
proof -
  assume a: "index_sound A ix" "op \<in> A"
  let ?ix = "ix\<lparr>operation_by_id := jmap_set (op_id op) op (operation_by_id ix),
              capability_by_id := jmap_set (op_id op)
                (case op_capability op of None \<Rightarrow> default_capability op | Some c \<Rightarrow> c) (capability_by_id ix)\<rparr>"
  have "index_sound A ?ix" using a unfolding index_sound_def by simp
  then have h: "index_sound A (index_http op ?ix)" using a(2) by (rule index_http_sound)
  then have "index_sound A (index_rpc op (index_http op ?ix))" using a(2) by (rule index_rpc_sound)
  moreover have "index_sound A (add_conflict m p q r ix)" for m p q r using a(1) by (simp add: index_sound_def)
  ultimately show ?thesis by (simp add: index_operation_def)
qed

lemma build_sound: "index_sound (set ops) (fold index_operation ops empty_index)"
proof -
  have "index_sound A (fold index_operation xs ix)" if "index_sound A ix" "set xs \<subseteq> A" for A xs ix
    using that by (induction xs arbitrary: ix) (simp_all add: index_operation_sound)
  moreover have "index_sound (set ops) empty_index" by (simp add: index_sound_def empty_index_def)
  ultimately show ?thesis by blast
qed

lemma lookup_in_table: "trie_lookup path t = Some (v, ps) \<Longrightarrow> \<exists>ks names. trie_table t ks = Some (v, names)"
proof -
  assume a: "trie_lookup path t = Some (v, ps)"
  have "first_some (table_match tb pre) cs = Some (v, ps) \<Longrightarrow> \<exists>ks names. tb ks = Some (v, names)" for tb pre cs
    by (induction cs) (auto simp: table_match_def split: option.splits prod.splits)
  then show ?thesis using a by (auto simp: trie_lookup_def lookup_node_table trie_table_def split: option.splits)
qed

text \<open>
  Routing never invents an operation: whatever \<open>findHttpOperation\<close> returns is one of the
  indexed operations, declares that HTTP method, and whatever \<open>findRpcOperation\<close> or
  \<open>getOperationById\<close> return declares exactly that RPC method or id.
\<close>

theorem found_operations_registered:
  assumes "build_index strict ops = Inr ix"
  shows "(\<forall>op ps. find_http m path ix = Some (op, ps) \<longrightarrow>
      op \<in> set ops \<and> (\<exists>h. op_http op = Some h \<and> upper m \<in> upper ` set (http_methods h)))
    \<and> (\<forall>op. find_rpc r ix = Some op \<longrightarrow> op \<in> set ops \<and> op_rpc op = Some r)
    \<and> (\<forall>op. get_operation i ix = Some op \<longrightarrow> op \<in> set ops \<and> op_id op = i)"
proof -
  have "ix = fold index_operation ops empty_index"
    using assms by (auto simp: build_index_def Let_def split: if_splits)
  then have s: "index_sound (set ops) ix" using build_sound by simp
  show ?thesis
  proof (intro conjI allI impI)
    fix op ps assume "find_http m path ix = Some (op, ps)"
    then obtain t n where t: "map_of (http_index ix) (upper m) = Some t" "trie_lookup (pathname_from path) t = Some (n, ps)"
        "op = route_operation n"
      by (auto simp: find_http_def split: if_splits option.splits)
    then have "node_ok (set ops) (upper m) n" using lookup_in_table s unfolding index_sound_def by metis
    then show "op \<in> set ops" "\<exists>h. op_http op = Some h \<and> upper m \<in> upper ` set (http_methods h)"
      using t(3) by (auto simp: node_ok_def)
  qed (use s in \<open>auto simp: index_sound_def find_rpc_def get_operation_def\<close>)
qed

section \<open>Without conflicts nothing is lost\<close>

text \<open>The operations the tries hold, by method.\<close>

definition http_entries :: "route_index \<Rightarrow> (string \<times> operation) set" where
  "http_entries ix = {(m, op). \<exists>t ks n names. map_of (http_index ix) m = Some t \<and>
     trie_table t ks = Some (n, names) \<and> route_operation n = op}"

definition grows :: "route_index \<Rightarrow> route_index \<Rightarrow> bool" where
  "grows ix ix' \<longleftrightarrow> map_of (operation_by_id ix) \<subseteq>\<^sub>m map_of (operation_by_id ix') \<and>
     map_of (rpc_index ix) \<subseteq>\<^sub>m map_of (rpc_index ix') \<and> set (http_routes ix) \<subseteq> set (http_routes ix') \<and>
     http_entries ix \<subseteq> http_entries ix' \<and> (conflicts ix' = [] \<longrightarrow> conflicts ix = [])"

lemma grows_refl [simp]: "grows ix ix"
  by (simp add: grows_def)

lemma grows_trans: "grows a b \<Longrightarrow> grows b c \<Longrightarrow> grows a c"
  unfolding grows_def by (meson map_le_trans subset_trans)

lemma grows_conflict [simp]: "grows ix (add_conflict m p q r ix)"
  by (simp add: grows_def http_entries_def)

lemma http_entriesI:
  "map_of (http_index ix) m = Some t \<Longrightarrow> trie_table t ks = Some (n, names) \<Longrightarrow> (m, route_operation n) \<in> http_entries ix"
  unfolding http_entries_def by blast

lemma index_method_grows:
  "grows ix (index_method op path raw ix) \<and>
   (conflicts (index_method op path raw ix) = [] \<longrightarrow>
      (upper raw, op) \<in> http_entries (index_method op path raw ix) \<and>
      \<lparr>s_method = upper raw, s_path = path, s_operation = op_id op\<rparr> \<in> set (http_routes (index_method op path raw ix)))"
proof (cases "upper raw \<in> set valid_http_methods")
  case False
  then show ?thesis by (simp add: index_method_def Let_def)
next
  case True
  let ?t = "case map_of (http_index ix) (upper raw) of None \<Rightarrow> new_trie | Some t \<Rightarrow> t"
  let ?n = "\<lparr>route_operation = op, route_path = path, route_method = upper raw\<rparr>"
  let ?ix1 = "ix\<lparr>http_index := jmap_set (upper raw) ?t (http_index ix)\<rparr>"
  have e1: "http_entries ix \<subseteq> http_entries ?ix1"
  proof
    fix x assume "x \<in> http_entries ix"
    then obtain m t ks n names where "x = (m, route_operation n)" "map_of (http_index ix) m = Some t" "trie_table t ks = Some (n, names)"
      unfolding http_entries_def by blast
    moreover from this have "map_of (http_index ?ix1) m = Some t" by (cases "m = upper raw") simp_all
    ultimately show "x \<in> http_entries ?ix1" using http_entriesI by blast
  qed
  have g1: "grows ix ?ix1" using e1 by (simp add: grows_def)
  show ?thesis
  proof (cases "trie_insert path ?n ?t")
    case (Inl e)
    then show ?thesis using True g1 grows_trans [OF g1 grows_conflict] by (simp add: index_method_def Let_def)
  next
    case (Inr r)
    obtain b t' where r: "r = (b, t')" by (cases r)
    show ?thesis
    proof (cases b)
      case False
      then show ?thesis using True Inr r g1 grows_trans [OF g1 grows_conflict] by (simp add: index_method_def Let_def)
    next
      case b: True
      obtain k names where k: "trie_table ?t k = None" "trie_table t' = (trie_table ?t)(k \<mapsto> (?n, names))"
        using trie_insert_True [of path ?n ?t t'] Inr r b by metis
      let ?ix2 = "?ix1\<lparr>http_index := jmap_set (upper raw) t' (http_index ?ix1), http_routes := http_routes ?ix1 @
          [\<lparr>s_method = upper raw, s_path = path, s_operation = op_id op\<rparr>]\<rparr>"
      have ix2: "index_method op path raw ix = ?ix2"
        using True Inr r b by (simp add: index_method_def Let_def)
      have "http_entries ?ix1 \<subseteq> http_entries ?ix2"
      proof
        fix x assume "x \<in> http_entries ?ix1"
        then obtain m t ks n ns where x: "x = (m, route_operation n)" "map_of (http_index ?ix1) m = Some t" "trie_table t ks = Some (n, ns)"
          unfolding http_entries_def by blast
        show "x \<in> http_entries ?ix2"
        proof (cases "m = upper raw")
          case True
          then have "t = ?t" using x(2) by simp
          then have "trie_table t' ks = Some (n, ns)" using k x(3) by (cases "ks = k") simp_all
          moreover have "map_of (http_index ?ix2) m = Some t'" using True by simp
          ultimately show ?thesis using x(1) http_entriesI by blast
        next
          case False
          then have "map_of (http_index ?ix2) m = Some t" using x(2) by simp
          then show ?thesis using x(1,3) http_entriesI by blast
        qed
      qed
      then have "grows ?ix1 ?ix2" by (auto simp: grows_def)
      moreover have "(upper raw, op) \<in> http_entries ?ix2"
        using http_entriesI [of ?ix2 "upper raw" t' k ?n names] k(2) by simp
      moreover have "\<lparr>s_method = upper raw, s_path = path, s_operation = op_id op\<rparr> \<in> set (http_routes ?ix2)" by simp
      ultimately show ?thesis unfolding ix2 using grows_trans [OF g1] by blast
    qed
  qed
qed

definition http_done :: "operation \<Rightarrow> route_index \<Rightarrow> bool" where
  "http_done op ix \<longleftrightarrow> (\<forall>h. op_http op = Some h \<longrightarrow> (\<forall>raw \<in> set (http_methods h).
     (upper raw, op) \<in> http_entries ix \<and>
     \<lparr>s_method = upper raw, s_path = http_path h, s_operation = op_id op\<rparr> \<in> set (http_routes ix)))"

definition op_done :: "operation \<Rightarrow> route_index \<Rightarrow> bool" where
  "op_done op ix \<longleftrightarrow> map_of (operation_by_id ix) (op_id op) = Some op \<and> http_done op ix \<and>
     (\<forall>m. op_rpc op = Some m \<longrightarrow> map_of (rpc_index ix) m = Some op)"

lemma http_done_grows: "http_done op ix \<Longrightarrow> grows ix ix' \<Longrightarrow> http_done op ix'"
  unfolding http_done_def grows_def by blast

lemma op_done_grows: "op_done op ix \<Longrightarrow> grows ix ix' \<Longrightarrow> op_done op ix'"
  using http_done_grows unfolding op_done_def grows_def map_le_def by (metis domI)

lemma index_http_grows: "grows ix (index_http op ix) \<and> (conflicts (index_http op ix) = [] \<longrightarrow> http_done op (index_http op ix))"
proof (cases "op_http op")
  case None
  then show ?thesis by (simp add: index_http_def http_done_def)
next
  case (Some h)
  let ?f = "fold (index_method op (http_path h))"
  have fold: "grows ix (?f ms ix) \<and> (conflicts (?f ms ix) = [] \<longrightarrow> (\<forall>raw \<in> set ms. (upper raw, op) \<in> http_entries (?f ms ix) \<and>
      \<lparr>s_method = upper raw, s_path = http_path h, s_operation = op_id op\<rparr> \<in> set (http_routes (?f ms ix))))" for ms ix
  proof (induction ms arbitrary: ix)
    case (Cons m ms)
    let ?ix1 = "index_method op (http_path h) m ix"
    have a: "grows ix ?ix1" and b: "grows ?ix1 (?f ms ?ix1)" using index_method_grows Cons.IH by blast+
    have "conflicts (?f ms ?ix1) = [] \<longrightarrow> conflicts ?ix1 = []" using b by (simp add: grows_def)
    then show ?case using grows_trans [OF a b] Cons.IH [of ?ix1] index_method_grows [of ix op "http_path h" m] b
      unfolding grows_def by auto
  qed simp
  then show ?thesis using Some by (auto simp: index_http_def http_done_def)
qed

lemma index_rpc_grows:
  "grows ix (index_rpc op ix) \<and> (conflicts (index_rpc op ix) = [] \<longrightarrow>
     (\<forall>m. op_rpc op = Some m \<longrightarrow> map_of (rpc_index (index_rpc op ix)) m = Some op))"
  by (auto simp: index_rpc_def grows_def http_entries_def map_le_def split: option.split)

lemma index_operation_grows:
  "grows ix (index_operation op ix) \<and> (conflicts (index_operation op ix) = [] \<longrightarrow> op_done op (index_operation op ix))"
proof (cases "op_id op = [] \<or> op_id op \<noteq> trim_path (op_id op) \<or> map_of (operation_by_id ix) (op_id op) \<noteq> None")
  case True
  then show ?thesis by (auto simp: index_operation_def)
next
  case False
  let ?ix0 = "ix\<lparr>operation_by_id := jmap_set (op_id op) op (operation_by_id ix),
              capability_by_id := jmap_set (op_id op)
                (case op_capability op of None \<Rightarrow> default_capability op | Some c \<Rightarrow> c) (capability_by_id ix)\<rparr>"
  let ?ix1 = "index_http op ?ix0" and ?ix2 = "index_rpc op (index_http op ?ix0)"
  have r: "index_operation op ix = ?ix2" using False by (simp add: index_operation_def)
  have g0: "grows ix ?ix0" using False by (auto simp: grows_def http_entries_def map_le_def)
  have g1: "grows ?ix0 ?ix1" "conflicts ?ix1 = [] \<longrightarrow> http_done op ?ix1" using index_http_grows by blast+
  have g2: "grows ?ix1 ?ix2" "conflicts ?ix2 = [] \<longrightarrow> (\<forall>m. op_rpc op = Some m \<longrightarrow> map_of (rpc_index ?ix2) m = Some op)"
    using index_rpc_grows by blast+
  have "map_of (operation_by_id ?ix2) (op_id op) = Some op"
  proof -
    have "map_of (operation_by_id ?ix0) \<subseteq>\<^sub>m map_of (operation_by_id ?ix2)"
      using grows_trans [OF g1(1) g2(1)] unfolding grows_def by blast
    moreover have "map_of (operation_by_id ?ix0) (op_id op) = Some op" by simp
    ultimately show ?thesis unfolding map_le_def by (metis domI)
  qed
  moreover have "conflicts ?ix2 = [] \<longrightarrow> http_done op ?ix2"
    using g1(2) g2(1) http_done_grows unfolding grows_def by blast
  ultimately show ?thesis
    unfolding r op_done_def using g2(2) grows_trans [OF g0 grows_trans [OF g1(1) g2(1)]] by blast
qed

lemma build_grows:
  "grows ix (fold index_operation ops ix) \<and>
   (conflicts (fold index_operation ops ix) = [] \<longrightarrow> (\<forall>op \<in> set ops. op_done op (fold index_operation ops ix)))"
proof (induction ops arbitrary: ix)
  case (Cons op ops)
  let ?ix1 = "index_operation op ix"
  have a: "grows ix ?ix1" and b: "grows ?ix1 (fold index_operation ops ?ix1)"
    using index_operation_grows Cons.IH by blast+
  have c: "conflicts (fold index_operation ops ?ix1) = [] \<longrightarrow> conflicts ?ix1 = []" using b by (simp add: grows_def)
  have "conflicts (fold index_operation ops ?ix1) = [] \<longrightarrow> op_done op (fold index_operation ops ?ix1)"
    using c b index_operation_grows op_done_grows by blast
  then show ?case using grows_trans [OF a b] Cons.IH [of ?ix1] by simp
qed simp

text \<open>
  An index without conflicts has lost nothing: in strict mode the index is built exactly
  when there is no conflict, and then every operation is found by its id, every declared RPC
  method leads to its operation, and every declared HTTP method has a route for it in that
  method's trie and in the route list.
\<close>

theorem conflict_free_index_complete:
  assumes "build_index True ops = Inr ix" and "op \<in> set ops"
  shows "get_operation (op_id op) ix = Some op
    \<and> (\<forall>r. op_rpc op = Some r \<longrightarrow> find_rpc r ix = Some op)
    \<and> (\<forall>h. op_http op = Some h \<longrightarrow> (\<forall>raw \<in> set (http_methods h).
        (upper raw, op) \<in> http_entries ix \<and>
        \<lparr>s_method = upper raw, s_path = http_path h, s_operation = op_id op\<rparr> \<in> set (http_routes ix)))"
proof -
  have "ix = fold index_operation ops empty_index" "conflicts ix = []"
    using assms(1) by (auto simp: build_index_def Let_def split: if_splits)
  then have "op_done op ix" using build_grows [of empty_index ops] assms(2) by blast
  then show ?thesis unfolding op_done_def http_done_def get_operation_def find_rpc_def by blast
qed

definition demo_operation :: operation where
  "demo_operation = \<lparr>op_id = ''ping'', op_http = None, op_rpc = Some ''ping.now'', op_capability = None,
     op_risk = [], op_safety_risk = [], op_scopes = []\<rparr>"

lemma demo_index: "\<exists>ix. build_index True [demo_operation] = Inr ix"
  by (simp add: build_index_def index_operation_def index_http_def index_rpc_def demo_operation_def empty_index_def
    trim_path_def char_code_def)

theorem found_operations_registered_witness:
  "\<exists>ix. build_index True [demo_operation] = Inr ix \<and> find_rpc ''ping'' ix = None"
proof -
  obtain ix where ix: "build_index True [demo_operation] = Inr ix" using demo_index ..
  have "find_rpc ''ping'' ix = None"
  proof (rule ccontr)
    assume "find_rpc ''ping'' ix \<noteq> None"
    then obtain op where op: "find_rpc ''ping'' ix = Some op" by auto
    then have "op \<in> set [demo_operation] \<and> op_rpc op = Some ''ping''"
      using found_operations_registered [OF ix] by blast
    then have "op_rpc demo_operation = Some ''ping''" by auto
    then show False by (simp add: demo_operation_def)
  qed
  then show ?thesis using ix by blast
qed

theorem conflict_free_index_complete_witness:
  "\<exists>ix. build_index True [demo_operation] = Inr ix \<and> find_rpc ''ping.now'' ix = Some demo_operation"
proof -
  obtain ix where ix: "build_index True [demo_operation] = Inr ix" using demo_index ..
  have "find_rpc ''ping.now'' ix = Some demo_operation"
    using conflict_free_index_complete [OF ix, of demo_operation] by (simp add: demo_operation_def)
  then show ?thesis using ix by blast
qed

end
