(* ===== verification/EventPage.thy ===== *)
theory EventPage imports LockContract "HOL-Library.Char_ord" "HOL-Library.List_Lexorder" begin

text \<open>
  The stateless half of \<open>packages/protocols/pubsub/event-bus.ts\<close>: argument normalisation, the
  bounding of a published event, and the bounding of a page of events to the response budget.
  JSON serialisation enters only through the byte length of an event, so that length is the
  argument \<open>size_of\<close>; SHA-256 is the argument \<open>digest\<close>.
\<close>

section \<open>Events\<close>

datatype payload =
    Payload jv
  | OmittedForStore nat string
  | OmittedForResponse nat

record event =
  ev_schema :: string
  ev_offset :: int
  ev_id :: string
  ev_trace :: "string option"
  ev_request :: "string option"
  ev_span :: "string option"
  ev_topic :: string
  ev_type :: string
  ev_publisher :: string
  ev_published :: string
  ev_payload :: payload

record event_page =
  page_cursor :: int
  page_next :: int
  page_events :: "event list"
  page_revision :: int

record bounded_page =
  bp_cursor :: int
  bp_events :: "event list"
  bp_bytes :: nat
  bp_next :: int
  bp_revision :: int

datatype bus_error = TopicsExceeded | BusClosed | TopicRequired | StoreFailed string

section \<open>Arguments\<close>

definition bus_positive :: "js_number \<Rightarrow> int \<Rightarrow> int \<Rightarrow> int" where
  "bus_positive v fallback maximum =
     (case v of NotFinite \<Rightarrow> fallback
      | Whole n \<Rightarrow> if \<bar>n\<bar> > max_safe_integer \<or> n \<le> 0 then fallback else min n maximum)"

definition normalize_topic :: "string \<Rightarrow> string" where
  "normalize_topic s = take 256 (trim s)"

definition normalize_topics :: "string list \<Rightarrow> nat \<Rightarrow> bus_error + string list" where
  "normalize_topics topics max_topics =
     (let normalized = sort (dedup (filter (\<lambda>t. t \<noteq> []) (map normalize_topic topics)))
      in if length normalized > max_topics then Inl TopicsExceeded else Inr normalized)"

text \<open>A numeric argument as the caller passes it; \<open>None\<close> is an absent one.\<close>

datatype num_arg = ArgNaN | ArgInf | ArgNegInf | ArgInt int

definition limit_value :: "num_arg option \<Rightarrow> int" where
  "limit_value v =
     (case v of None \<Rightarrow> 100 | Some ArgNaN \<Rightarrow> 100 | Some ArgInf \<Rightarrow> 500 | Some ArgNegInf \<Rightarrow> 1
      | Some (ArgInt n) \<Rightarrow> max 1 (min 500 (if n = 0 then 100 else n)))"

definition timeout_value :: "num_arg option \<Rightarrow> int" where
  "timeout_value v =
     (case v of None \<Rightarrow> 0 | Some ArgNaN \<Rightarrow> 0 | Some ArgInf \<Rightarrow> 30000 | Some ArgNegInf \<Rightarrow> 0
      | Some (ArgInt n) \<Rightarrow> max 0 (min 30000 n))"

section \<open>Bounding\<close>

definition bound_event_record :: "(event \<Rightarrow> nat) \<Rightarrow> (event \<Rightarrow> string) \<Rightarrow> nat \<Rightarrow> event \<Rightarrow> event \<times> nat" where
  "bound_event_record size_of digest max_bytes e =
     (let n = size_of e
      in if n \<le> max_bytes then (e, n)
         else (let b = e\<lparr>ev_payload := OmittedForStore n (digest e)\<rparr> in (b, size_of b)))"

definition metadata_only :: "nat \<Rightarrow> event \<Rightarrow> event" where
  "metadata_only original e =
     \<lparr>ev_schema = ev_schema e, ev_offset = ev_offset e, ev_id = ev_id e, ev_trace = None, ev_request = None,
      ev_span = None, ev_topic = ev_topic e, ev_type = ev_type e, ev_publisher = ev_publisher e,
      ev_published = ev_published e, ev_payload = OmittedForResponse original\<rparr>"

definition num_or :: "int \<Rightarrow> int \<Rightarrow> int" where
  "num_or a b = (if a = 0 then b else a)"

text \<open>The loop of \<open>boundEventPage\<close>: events taken, bytes used, whether it was cut, the cursor.\<close>

fun bound_loop :: "(event \<Rightarrow> nat) \<Rightarrow> nat \<Rightarrow> event list \<Rightarrow> event list \<Rightarrow> nat \<Rightarrow> int \<Rightarrow> event list \<times> nat \<times> bool \<times> int" where
  "bound_loop size_of max_bytes [] taken used cursor = (taken, used, False, cursor)"
| "bound_loop size_of max_bytes (e # es) taken used cursor =
     (let n = size_of e + 1
      in if used + n \<le> max_bytes then bound_loop size_of max_bytes es (taken @ [e]) (used + n) cursor
         else if taken = [] then
           (let b = metadata_only n e; bn = size_of b + 1; c = num_or (ev_offset e) cursor
            in if used + bn \<le> max_bytes then ([b], used + bn, True, c) else ([], used, True, c))
         else (taken, used, True, cursor))"

definition last_offset :: "event list \<Rightarrow> int" where
  "last_offset es = (if es = [] then 0 else ev_offset (last es))"

definition bound_event_page :: "(event \<Rightarrow> nat) \<Rightarrow> event_page \<Rightarrow> nat \<Rightarrow> bounded_page" where
  "bound_event_page size_of page max_bytes =
     (case bound_loop size_of max_bytes (page_events page) [] 2 (page_cursor page) of
        (events, used, truncated, cursor) \<Rightarrow>
          \<lparr>bp_cursor = cursor, bp_events = events, bp_bytes = used,
           bp_next = (if truncated then num_or (last_offset events) cursor else num_or (page_next page) cursor),
           bp_revision = page_revision page\<rparr>)"

section \<open>Facts\<close>

definition ascending :: "int \<Rightarrow> event list \<Rightarrow> bool" where
  "ascending cursor es \<longleftrightarrow> sorted_wrt (\<lambda>a b. ev_offset a < ev_offset b) es \<and> (\<forall>e \<in> set es. cursor < ev_offset e)"

lemma bound_loop_prefix:
  "bound_loop size_of max_bytes es taken used cursor = (out, u, trunc, c) \<Longrightarrow> used \<le> max_bytes \<Longrightarrow>
     u \<le> max_bytes \<and>
     ((\<exists>k. out = taken @ take k es \<and> (trunc \<longrightarrow> k < length es \<and> out \<noteq> []) \<and> (\<not> trunc \<longrightarrow> k = length es) \<and> c = cursor) \<or>
      (taken = [] \<and> trunc \<and> es \<noteq> [] \<and> c = num_or (ev_offset (hd es)) cursor \<and> max_bytes < used + size_of (hd es) + 1 \<and>
        (out = [] \<or> (\<exists>n. out = [metadata_only n (hd es)]))))"
proof (induction es arbitrary: taken used)
  case Nil
  then show ?case by auto
next
  case (Cons e es)
  let ?n = "size_of e + 1"
  show ?case
  proof (cases "used + ?n \<le> max_bytes")
    case True
    then have "bound_loop size_of max_bytes es (taken @ [e]) (used + ?n) cursor = (out, u, trunc, c)"
      using Cons.prems(1) by simp
    from Cons.IH [OF this True] obtain k where k: "u \<le> max_bytes" "out = (taken @ [e]) @ take k es"
        "trunc \<longrightarrow> k < length es" "\<not> trunc \<longrightarrow> k = length es" "c = cursor" by auto
    then show ?thesis by (intro conjI disjI1 exI [of _ "Suc k"]) auto
  next
    case False
    show ?thesis
    proof (cases "taken = []")
      case True
      then show ?thesis using False Cons.prems by (auto simp: Let_def split: if_splits)
    next
      case taken: False
      then have "out = taken \<and> u = used \<and> trunc \<and> c = cursor" using False Cons.prems(1) by (simp add: Let_def)
      then show ?thesis using taken Cons.prems(2) by (intro conjI disjI1 exI [of _ 0]) auto
    qed
  qed
qed

lemma bound_event_page_spec:
  fixes p :: event_page and size_of :: "event \<Rightarrow> nat" and max_bytes :: nat
  assumes "ascending (page_cursor p) (page_events p)" and "0 \<le> page_cursor p" and "2 \<le> max_bytes"
    and "\<forall>e \<in> set (page_events p). ev_offset e \<le> page_next p"
  defines "r \<equiv> bound_event_page size_of p max_bytes"
  shows "bp_bytes r \<le> max_bytes
    \<and> (\<forall>e \<in> set (page_events p). ev_offset e \<le> bp_next r \<longrightarrow>
        e \<in> set (bp_events r) \<or>
        (e = hd (page_events p) \<and> max_bytes < size_of e + 3 \<and> (bp_events r = [] \<or> (\<exists>n. bp_events r = [metadata_only n e]))))
    \<and> (page_events p \<noteq> [] \<longrightarrow> page_cursor p < bp_next r)"
proof -
  let ?es = "page_events p"
  obtain out u trunc c where l: "bound_loop size_of max_bytes ?es [] 2 (page_cursor p) = (out, u, trunc, c)"
    by (metis prod_cases4)
  have r: "bp_bytes r = u" "bp_events r = out" "bp_next r = (if trunc then num_or (last_offset out) c else num_or (page_next p) c)"
    using l by (simp_all add: r_def bound_event_page_def)
  have sw: "sorted_wrt (\<lambda>a b. ev_offset a < ev_offset b) ?es" and pos: "\<forall>e \<in> set ?es. page_cursor p < ev_offset e"
    using assms(1) by (simp_all add: ascending_def)
  have hd_le: "ev_offset (hd ?es) \<le> ev_offset e" if "e \<in> set ?es" for e
    using that sw by (cases ?es) auto
  note P = bound_loop_prefix [OF l assms(3)]
  have u: "u \<le> max_bytes" using P by blast
  have "(\<exists>k. out = take k ?es \<and> (trunc \<longrightarrow> k < length ?es \<and> out \<noteq> []) \<and> (\<not> trunc \<longrightarrow> k = length ?es) \<and> c = page_cursor p) \<or>
      (trunc \<and> ?es \<noteq> [] \<and> c = num_or (ev_offset (hd ?es)) (page_cursor p) \<and> max_bytes < 2 + size_of (hd ?es) + 1 \<and> (out = [] \<or> (\<exists>n. out = [metadata_only n (hd ?es)])))"
    using P by (simp only: append_Nil) blast
  then consider
      (prefix) k where "out = take k ?es" "trunc \<longrightarrow> k < length ?es \<and> out \<noteq> []" "\<not> trunc \<longrightarrow> k = length ?es" "c = page_cursor p"
    | (first) "trunc" "?es \<noteq> []" "c = num_or (ev_offset (hd ?es)) (page_cursor p)"
        "max_bytes < 2 + size_of (hd ?es) + 1" "out = [] \<or> (\<exists>n. out = [metadata_only n (hd ?es)])"
    by blast
  then show ?thesis
  proof cases
    case prefix
    show ?thesis
    proof (cases trunc)
      case True
      then have k: "k < length ?es" "out \<noteq> []" "0 < k" using prefix by (auto intro: gr0I)
      have lo: "last_offset out = ev_offset (?es ! (k - 1))"
        using prefix(1) k by (simp add: last_offset_def last_conv_nth min_absorb2)
      have inpos: "page_cursor p < ev_offset (?es ! (k - 1))" using pos k by simp
      then have nx: "bp_next r = ev_offset (?es ! (k - 1))"
        using True assms(2) by (simp add: r(3) lo num_or_def)
      have "e \<in> set out" if e: "e \<in> set ?es" "ev_offset e \<le> bp_next r" for e
      proof -
        obtain i where i: "i < length ?es" "e = ?es ! i" using e(1) by (metis in_set_conv_nth)
        have "i \<le> k - 1"
        proof (rule ccontr)
          assume "\<not> i \<le> k - 1"
          then have "ev_offset (?es ! (k - 1)) < ev_offset (?es ! i)" using sw i(1) by (simp add: sorted_wrt_iff_nth_less)
          then show False using e(2) i(2) nx by simp
        qed
        then have "i < k" using k(3) by simp
        then show ?thesis using prefix(1) i k(1) by (auto simp: in_set_conv_nth)
      qed
      then show ?thesis using u r nx inpos by auto
    next
      case False
      then have out: "out = ?es" using prefix by simp
      have "page_cursor p < bp_next r" if "?es \<noteq> []"
      proof -
        have "hd ?es \<in> set ?es" using that by simp
        then have "page_cursor p < ev_offset (hd ?es) \<and> ev_offset (hd ?es) \<le> page_next p" using pos assms(4) by blast
        then show ?thesis using False assms(2) by (simp add: r(3) num_or_def)
      qed
      then show ?thesis using u r out by auto
    qed
  next
    case first
    have h: "hd ?es \<in> set ?es" using first(2) by simp
    then have hp: "page_cursor p < ev_offset (hd ?es)" using pos by blast
    have nx: "bp_next r = ev_offset (hd ?es)"
      using first hp assms(2) by (auto simp: r(3) last_offset_def num_or_def metadata_only_def)
    have only: "e = hd ?es" if "e \<in> set ?es" "ev_offset e \<le> bp_next r" for e
    proof -
      have "ev_offset e = ev_offset (hd ?es)" using hd_le [OF that(1)] that(2) nx by simp
      then show ?thesis using sw that(1) by (cases ?es) auto
    qed
    have "e = hd ?es \<and> max_bytes < size_of e + 3 \<and> (bp_events r = [] \<or> (\<exists>n. bp_events r = [metadata_only n e]))"
      if "e \<in> set ?es" "ev_offset e \<le> bp_next r" for e
      using only [OF that] first(4,5) r(2) by simp
    then show ?thesis using u r(1) nx hp by auto
  qed
qed

lemma bound_event_page_next:
  fixes p :: event_page and size_of :: "event \<Rightarrow> nat" and max_bytes :: nat
  assumes "0 \<le> page_cursor p" and "2 \<le> max_bytes" and "page_cursor p \<le> page_next p"
    and "\<forall>e \<in> set (page_events p). page_cursor p < ev_offset e \<and> ev_offset e \<le> page_next p"
  shows "page_cursor p \<le> bp_next (bound_event_page size_of p max_bytes) \<and>
    bp_next (bound_event_page size_of p max_bytes) \<le> page_next p"
proof -
  let ?es = "page_events p"
  obtain out u trunc c where l: "bound_loop size_of max_bytes ?es [] 2 (page_cursor p) = (out, u, trunc, c)"
    by (metis prod_cases4)
  have nx: "bp_next (bound_event_page size_of p max_bytes) = (if trunc then num_or (last_offset out) c else num_or (page_next p) c)"
    using l by (simp add: bound_event_page_def)
  have hd_in: "page_cursor p < ev_offset (hd ?es) \<and> ev_offset (hd ?es) \<le> page_next p" if "?es \<noteq> []"
    using assms(4) that by simp
  from bound_loop_prefix [OF l assms(2)] consider
      (prefix) k where "out = take k ?es" "trunc \<longrightarrow> out \<noteq> []" "c = page_cursor p"
    | (first) "trunc" "?es \<noteq> []" "c = num_or (ev_offset (hd ?es)) (page_cursor p)" "out = [] \<or> (\<exists>n. out = [metadata_only n (hd ?es)])"
    by (simp only: append_Nil) blast
  then show ?thesis
  proof cases
    case prefix
    have "page_cursor p < last_offset out \<and> last_offset out \<le> page_next p" if "out \<noteq> []"
    proof -
      have "last out \<in> set ?es" using last_in_set [OF that] prefix(1) set_take_subset [of k ?es] by blast
      then show ?thesis using that assms(4) by (simp add: last_offset_def)
    qed
    then show ?thesis using prefix assms(1,3) by (auto simp: nx num_or_def)
  next
    case first
    then show ?thesis using hd_in assms(1) by (auto simp: nx num_or_def last_offset_def metadata_only_def)
  qed
qed

text \<open>
  Bounding a page never loses an event silently and always makes progress. For a page of
  events with ascending offsets after its cursor, and a budget of at least two bytes, the
  response fits the budget; every event at or before the returned cursor is in the response,
  except that a first event which alone exceeds the budget may be replaced by its metadata or,
  when not even that fits, be passed over; and if the page has events the cursor moves forward.
\<close>

theorem bounded_page_loses_nothing:
  fixes p :: event_page and size_of :: "event \<Rightarrow> nat" and max_bytes :: nat
  assumes "ascending (page_cursor p) (page_events p)" and "0 \<le> page_cursor p" and "2 \<le> max_bytes"
    and "\<forall>e \<in> set (page_events p). ev_offset e \<le> page_next p"
  defines "r \<equiv> bound_event_page size_of p max_bytes"
  shows "bp_bytes r \<le> max_bytes
    \<and> (\<forall>e \<in> set (page_events p). ev_offset e \<le> bp_next r \<longrightarrow>
        e \<in> set (bp_events r) \<or>
        (e = hd (page_events p) \<and> max_bytes < size_of e + 3 \<and> (bp_events r = [] \<or> (\<exists>n. bp_events r = [metadata_only n e]))))
    \<and> (page_events p \<noteq> [] \<longrightarrow> page_cursor p < bp_next r)"
  unfolding r_def using bound_event_page_spec [OF assms(1-4)] .

definition demo_event :: "int \<Rightarrow> event" where
  "demo_event n = \<lparr>ev_schema = ''s'', ev_offset = n, ev_id = ''i'', ev_trace = None, ev_request = None, ev_span = None,
     ev_topic = ''t'', ev_type = ''snapshot'', ev_publisher = ''p'', ev_published = ''d'', ev_payload = Payload JNull\<rparr>"

theorem bounded_page_loses_nothing_witness:
  "bp_bytes (bound_event_page (\<lambda>_. 40) \<lparr>page_cursor = 3, page_next = 5, page_events = [demo_event 4, demo_event 5],
     page_revision = 0\<rparr> 60) \<le> 60 \<and>
   3 < bp_next (bound_event_page (\<lambda>_. 40) \<lparr>page_cursor = 3, page_next = 5, page_events = [demo_event 4, demo_event 5],
     page_revision = 0\<rparr> 60)"
  using bounded_page_loses_nothing [of "\<lparr>page_cursor = 3, page_next = 5, page_events = [demo_event 4, demo_event 5],
     page_revision = 0\<rparr>" 60 "\<lambda>_. 40"]
  by (simp add: ascending_def demo_event_def)

end
