(* ===== verification/EventBus.thy ===== *)
theory EventBus imports EventPage MinHeap begin

text \<open>
  The stateful half of \<open>packages/protocols/pubsub/event-bus.ts\<close>: the waiter registry and its
  topic index, the deadline heap and its one timer, the ring of recent events, publishing, and
  the loop of a subscription. Everything between two \<open>await\<close>s is one operation; the results of
  the store's calls, the clock and the abort signal's state are arguments. A waiter is a shared
  mutable object, so waiters live in a table and the registry, the index and the heap hold
  identities. A \<open>Set\<close> is a list in insertion order.
\<close>

section \<open>Configuration and state\<close>

record bus_options =
  o_topics :: js_number
  o_waiters :: js_number
  o_event_bytes :: js_number
  o_response_bytes :: js_number
  o_records :: js_number
  o_recent_bytes :: js_number
  o_poll_min :: js_number
  o_poll_max :: js_number

record bus_config =
  topic_limit :: nat
  waiter_limit :: nat
  event_byte_limit :: nat
  response_byte_limit :: nat
  min_poll :: int
  max_poll :: int
  record_limit :: nat
  byte_limit :: nat

definition make_bus_config :: "bus_options \<Rightarrow> bus_config" where
  "make_bus_config opts =
     (let lo = bus_positive (o_poll_min opts) 25 1000
      in \<lparr>topic_limit = nat (bus_positive (o_topics opts) 64 512),
          waiter_limit = nat (bus_positive (o_waiters opts) 1000 1000),
          event_byte_limit = nat (bus_positive (o_event_bytes opts) (2 * 1024 * 1024) (16 * 1024 * 1024)),
          response_byte_limit = nat (bus_positive (o_response_bytes opts) (8 * 1024 * 1024) (64 * 1024 * 1024)),
          min_poll = lo,
          max_poll = max lo (bus_positive (o_poll_max opts) 250 5000),
          record_limit = nat (bus_positive (o_records opts) 2048 65536),
          byte_limit = nat (bus_positive (o_recent_bytes opts) (8 * 1024 * 1024) (256 * 1024 * 1024))\<rparr>)"

datatype wake_reason = NoReason | ByEvent | ByPoll | ByDeadline | ByAbort | ByRing | ByRevision | ByClose

record waiter =
  w_topics :: "string list"
  w_deadline :: int
  w_generation :: nat
  w_scheduled :: bool
  w_settled :: bool
  w_reason :: wake_reason

record schedule_entry =
  se_at :: int
  se_id :: nat
  se_generation :: nat
  se_kind :: wake_reason

record bus =
  waiter_tab :: "nat \<Rightarrow> waiter"
  waiters :: "nat list"
  by_topic :: "(string \<times> nat list) list"
  all_topic :: "nat list"
  schedule_heap :: "schedule_entry list"
  recent :: "(event \<times> nat) list"
  recent_bytes :: nat
  recent_last :: int
  bus_timer :: bool
  bus_timer_at :: int
  waiter_seq :: nat
  wakeups :: nat
  bus_closed :: bool
  rejected :: nat

definition no_waiter :: waiter where
  "no_waiter = \<lparr>w_topics = [], w_deadline = 0, w_generation = 0, w_scheduled = False, w_settled = True, w_reason = NoReason\<rparr>"

definition new_bus :: bus where
  "new_bus = \<lparr>waiter_tab = (\<lambda>_. no_waiter), waiters = [], by_topic = [], all_topic = [], schedule_heap = [],
     recent = [], recent_bytes = 0, recent_last = 0, bus_timer = False, bus_timer_at = 0, waiter_seq = 0,
     wakeups = 0, bus_closed = False, rejected = 0\<rparr>"

section \<open>The scheduler\<close>

definition arm_scheduler :: "bus \<Rightarrow> bus" where
  "arm_scheduler b =
     (if schedule_heap b = [] \<or> bus_closed b then b
      else
        (let next_at = se_at (hd (schedule_heap b))
         in if bus_timer b \<and> bus_timer_at b \<le> next_at then b
            else b\<lparr>bus_timer := True, bus_timer_at := next_at\<rparr>))"

definition schedule_waiter :: "wake_reason \<Rightarrow> nat \<Rightarrow> bus \<Rightarrow> bus" where
  "schedule_waiter reason i b =
     (let w = waiter_tab b i
      in if w_settled w \<or> w_scheduled w then b
         else b\<lparr>waiter_tab := (waiter_tab b)(i := w\<lparr>w_scheduled := True, w_reason := reason\<rparr>), wakeups := Suc (wakeups b)\<rparr>)"

text \<open>One due entry: its waiter is woken if it is registered and the entry is not stale.\<close>

definition run_entry :: "schedule_entry \<Rightarrow> bus \<Rightarrow> bus" where
  "run_entry e b =
     (if se_id e \<notin> set (waiters b) \<or> w_generation (waiter_tab b (se_id e)) \<noteq> se_generation e
         \<or> w_settled (waiter_tab b (se_id e)) then b
      else schedule_waiter (se_kind e) (se_id e) b)"

lemma run_entry_heap [simp]: "schedule_heap (run_entry e b) = schedule_heap b"
  by (simp add: run_entry_def schedule_waiter_def Let_def)

function run_due :: "int \<Rightarrow> bus \<Rightarrow> bus" where
  "run_due now b =
     (if schedule_heap b \<noteq> [] \<and> se_at (hd (schedule_heap b)) \<le> now
      then run_due now (run_entry (hd (schedule_heap b)) (b\<lparr>schedule_heap := snd (heap_pop se_at (schedule_heap b))\<rparr>))
      else b)"
  by pat_completeness auto
termination
  by (relation "measure (\<lambda>(now, b). length (schedule_heap b))") auto

declare run_due.simps [simp del]

definition run_scheduler :: "int \<Rightarrow> bus \<Rightarrow> bus" where
  "run_scheduler now b = arm_scheduler (run_due now (b\<lparr>bus_timer := False, bus_timer_at := 0\<rparr>))"

section \<open>The waiter index\<close>

definition set_add :: "'a \<Rightarrow> 'a list \<Rightarrow> 'a list" where
  "set_add x xs = (if x \<in> set xs then xs else xs @ [x])"

definition add_topic :: "nat \<Rightarrow> string \<Rightarrow> (string \<times> nat list) list \<Rightarrow> (string \<times> nat list) list" where
  "add_topic i t m = jmap_set t (set_add i (case map_of m t of None \<Rightarrow> [] | Some s \<Rightarrow> s)) m"

definition del_topic :: "nat \<Rightarrow> string \<Rightarrow> (string \<times> nat list) list \<Rightarrow> (string \<times> nat list) list" where
  "del_topic i t m =
     (case map_of m t of None \<Rightarrow> m
      | Some s \<Rightarrow> (let s' = filter (\<lambda>j. j \<noteq> i) s in if s' = [] then jmap_del t m else jmap_set t s' m))"

definition add_waiter_index :: "nat \<Rightarrow> bus \<Rightarrow> bus" where
  "add_waiter_index i b =
     (let w = waiter_tab b i; b1 = b\<lparr>waiters := set_add i (waiters b)\<rparr>
      in if w_topics w = [] then b1\<lparr>all_topic := set_add i (all_topic b)\<rparr>
         else b1\<lparr>by_topic := fold (add_topic i) (w_topics w) (by_topic b)\<rparr>)"

definition remove_waiter_index :: "nat \<Rightarrow> bus \<Rightarrow> bus" where
  "remove_waiter_index i b =
     (let w = waiter_tab b i
      in if w_settled w then b
         else b\<lparr>waiter_tab := (waiter_tab b)(i := w\<lparr>w_settled := True\<rparr>),
                waiters := filter (\<lambda>j. j \<noteq> i) (waiters b),
                all_topic := filter (\<lambda>j. j \<noteq> i) (all_topic b),
                by_topic := fold (del_topic i) (w_topics w) (by_topic b)\<rparr>)"

definition push_entry :: "int \<Rightarrow> nat \<Rightarrow> wake_reason \<Rightarrow> bus \<Rightarrow> bus" where
  "push_entry t i kind b =
     b\<lparr>schedule_heap := heap_push se_at \<lparr>se_at = t, se_id = i, se_generation = w_generation (waiter_tab b i), se_kind = kind\<rparr>
        (schedule_heap b)\<rparr>"

definition register_waiter :: "string list \<Rightarrow> int \<Rightarrow> int \<Rightarrow> bus \<Rightarrow> nat \<times> bus" where
  "register_waiter topics deadline poll_at b =
     (let i = Suc (waiter_seq b);
          w = \<lparr>w_topics = topics, w_deadline = deadline, w_generation = 1, w_scheduled = False, w_settled = False, w_reason = NoReason\<rparr>;
          b1 = add_waiter_index i (b\<lparr>waiter_seq := i, waiter_tab := (waiter_tab b)(i := w)\<rparr>);
          b2 = push_entry (min deadline poll_at) i (if poll_at \<le> deadline then ByPoll else ByDeadline) b1;
          b3 = (if poll_at < deadline then push_entry deadline i ByDeadline b2 else b2)
      in (i, arm_scheduler b3))"

definition topic_waiters :: "string \<Rightarrow> bus \<Rightarrow> nat list" where
  "topic_waiters t b = (case map_of (by_topic b) t of None \<Rightarrow> [] | Some s \<Rightarrow> s)"

definition wake_subscribers :: "string \<Rightarrow> bus \<Rightarrow> bus" where
  "wake_subscribers t b =
     (let b1 = fold (schedule_waiter ByEvent) (all_topic b) b
      in fold (schedule_waiter ByEvent) (topic_waiters t b1) b1)"

section \<open>The ring of recent events\<close>

text \<open>The eviction loop. Its bytes are the sum over the ring, so they are 0 when the ring is empty.\<close>

fun evict :: "nat \<Rightarrow> nat \<Rightarrow> (event \<times> nat) list \<Rightarrow> nat \<Rightarrow> (event \<times> nat) list \<times> nat" where
  "evict rl bl [] n = ([], n)"
| "evict rl bl (x # xs) n = (if length (x # xs) > rl \<or> n > bl then evict rl bl xs (n - snd x) else (x # xs, n))"

definition append_recent :: "bus_config \<Rightarrow> (event \<Rightarrow> nat) \<Rightarrow> event \<Rightarrow> bus \<Rightarrow> bus" where
  "append_recent cfg size_of e b =
     (if ev_offset e \<le> 0 then b
      else
        (let b1 = (if recent_last b > 0 \<and> ev_offset e \<noteq> recent_last b + 1 then b\<lparr>recent := [], recent_bytes := 0\<rparr> else b);
             n = size_of e
         in case evict (record_limit cfg) (byte_limit cfg) (recent b1 @ [(e, n)]) (recent_bytes b1 + n) of
              (ring, bytes) \<Rightarrow> b1\<lparr>recent := ring, recent_bytes := bytes, recent_last := ev_offset e\<rparr>))"

fun recent_scan :: "int \<Rightarrow> string list \<Rightarrow> int \<Rightarrow> (event \<times> nat) list \<Rightarrow> event list \<Rightarrow> event list" where
  "recent_scan cursor topics lim [] acc = acc"
| "recent_scan cursor topics lim (x # xs) acc =
     (if ev_offset (fst x) \<le> cursor then recent_scan cursor topics lim xs acc
      else if topics \<noteq> [] \<and> ev_topic (fst x) \<notin> set topics then recent_scan cursor topics lim xs acc
      else
        (let acc' = acc @ [fst x]
         in if int (length acc') \<ge> lim then acc' else recent_scan cursor topics lim xs acc'))"

definition read_recent :: "bus_config \<Rightarrow> (event \<Rightarrow> nat) \<Rightarrow> int \<Rightarrow> string list \<Rightarrow> num_arg option \<Rightarrow> int \<Rightarrow> bus \<Rightarrow> bounded_page option" where
  "read_recent cfg size_of cursor topics limit revision b =
     (if recent b = [] then None
      else if cursor < ev_offset (fst (hd (recent b))) - 1 then None
      else
        (let lim = limit_value limit; es = recent_scan cursor topics lim (recent b) []
         in Some (bound_event_page size_of
              \<lparr>page_cursor = cursor,
               page_next = (if int (length es) \<ge> lim then num_or (last_offset es) cursor else max cursor (recent_last b)),
               page_events = es, page_revision = revision\<rparr>
              (response_byte_limit cfg))))"

section \<open>Publishing and reading\<close>

record publish_options =
  po_trace :: string
  po_request :: string
  po_span :: string
  po_type :: string
  po_publisher :: string

text \<open>The part of \<open>publish\<close> before the store is called. A candidate has no offset yet; 0 stands
  for the absent property.\<close>

definition publish_candidate :: "bus_config \<Rightarrow> (event \<Rightarrow> nat) \<Rightarrow> (event \<Rightarrow> string) \<Rightarrow> string \<Rightarrow> string \<Rightarrow> string \<Rightarrow> jv
    \<Rightarrow> publish_options \<Rightarrow> bus \<Rightarrow> bus_error + (event \<times> nat)" where
  "publish_candidate cfg size_of digest uuid now_iso topic body opts b =
     (if bus_closed b then Inl BusClosed
      else
        (let t = normalize_topic topic
         in if t = [] then Inl TopicRequired
            else Inr (bound_event_record size_of digest (event_byte_limit cfg)
              \<lparr>ev_schema = ''v0.0.1:pubsub:event-schema-1'', ev_offset = 0, ev_id = uuid,
               ev_trace = Some (take 256 (po_trace opts)), ev_request = Some (take 256 (po_request opts)),
               ev_span = Some (take 256 (po_span opts)), ev_topic = t,
               ev_type = take 128 (str_or (po_type opts) ''snapshot''),
               ev_publisher = take 128 (str_or (po_publisher opts) ''server''),
               ev_published = now_iso, ev_payload = Payload body\<rparr>)))"

text \<open>The part after the store's answer.\<close>

definition publish_commit :: "bus_config \<Rightarrow> (event \<Rightarrow> nat) \<Rightarrow> string \<Rightarrow> bus_error + event \<Rightarrow> bus \<Rightarrow> (bus_error + event) \<times> bus" where
  "publish_commit cfg size_of t answer b =
     (case answer of
        Inr e \<Rightarrow> (Inr e, wake_subscribers t (append_recent cfg size_of e b))
      | Inl err \<Rightarrow> (Inl err, b\<lparr>rejected := Suc (rejected b)\<rparr>))"

definition read_with_revision :: "bus_config \<Rightarrow> (event \<Rightarrow> nat) \<Rightarrow> (int \<Rightarrow> string list \<Rightarrow> int \<Rightarrow> bus_error + event_page)
    \<Rightarrow> int \<Rightarrow> string list \<Rightarrow> num_arg option \<Rightarrow> bus_error + (string list \<times> bounded_page)" where
  "read_with_revision cfg size_of store_read cursor topics limit =
     ebind (normalize_topics topics (topic_limit cfg)) (\<lambda>ts.
       let after = max 0 cursor
       in ebind (store_read after ts (limit_value limit)) (\<lambda>page.
            let bounded = bound_event_page size_of (page\<lparr>page_cursor := after\<rparr>) (response_byte_limit cfg)
            in Inr (ts, bounded\<lparr>bp_cursor := after\<rparr>)))"

definition snapshot_page :: "bus_config \<Rightarrow> (event \<Rightarrow> nat) \<Rightarrow> (string list \<Rightarrow> bus_error + event list)
    \<Rightarrow> string list \<Rightarrow> nat \<Rightarrow> bus_error + bounded_page" where
  "snapshot_page cfg size_of get_latest topics budget =
     ebind (normalize_topics topics (topic_limit cfg)) (\<lambda>ts.
       ebind (get_latest ts) (\<lambda>es.
         Inr (bound_event_page size_of \<lparr>page_cursor = 0, page_next = last_offset es, page_events = es, page_revision = 0\<rparr> budget)))"

definition get_snapshots :: "bus_config \<Rightarrow> (event \<Rightarrow> nat) \<Rightarrow> (string list \<Rightarrow> bus_error + event list)
    \<Rightarrow> string list \<Rightarrow> bus_error + event list" where
  "get_snapshots cfg size_of get_latest topics =
     ebind (snapshot_page cfg size_of get_latest topics (response_byte_limit cfg)) (\<lambda>p. Inr (bp_events p))"

definition snapshot_budget :: "bus_config \<Rightarrow> nat \<Rightarrow> nat" where
  "snapshot_budget cfg used =
     nat (max 2 (int (response_byte_limit cfg) - int (if used = 0 then 2 else used) + 2))"

definition add_snapshots :: "bus_config \<Rightarrow> (event \<Rightarrow> nat) \<Rightarrow> (string list \<Rightarrow> bus_error + event list)
    \<Rightarrow> bounded_page \<Rightarrow> string list \<Rightarrow> bus_error + event list" where
  "add_snapshots cfg size_of get_latest result topics =
     ebind (snapshot_page cfg size_of get_latest topics (snapshot_budget cfg (bp_bytes result))) (\<lambda>p. Inr (bp_events p))"

section \<open>A subscription\<close>

record subscription =
  sub_cursor :: int
  sub_topics :: "string list"
  sub_limit :: "num_arg option"
  sub_deadline :: int
  sub_poll :: int
  sub_revision :: int
  sub_result :: bounded_page

datatype sub_state = Returned bounded_page | Waiting subscription | ReadStore subscription

text \<open>From the first read to the head of the loop.\<close>

definition sub_open :: "bus_config \<Rightarrow> int \<Rightarrow> bool \<Rightarrow> int \<Rightarrow> string list \<Rightarrow> num_arg option \<Rightarrow> num_arg option
    \<Rightarrow> bounded_page \<Rightarrow> bus \<Rightarrow> sub_state" where
  "sub_open cfg now aborted cursor topics limit timeout result b =
     (let safe_timeout = timeout_value timeout
      in if bus_closed b \<or> bp_events result \<noteq> [] \<or> safe_timeout \<le> 0 \<or> aborted then Returned result
         else if length (waiters b) \<ge> waiter_limit cfg then Returned result
         else Waiting \<lparr>sub_cursor = cursor, sub_topics = topics, sub_limit = limit, sub_deadline = now + safe_timeout,
                sub_poll = min_poll cfg, sub_revision = bp_revision result, sub_result = result\<rparr>)"

text \<open>The head of the loop: \<open>None\<close> when its condition fails; otherwise a waiter is registered, and
  woken at once if the ring already has something for it.\<close>

definition sub_register :: "bus_config \<Rightarrow> (event \<Rightarrow> nat) \<Rightarrow> int \<Rightarrow> bool \<Rightarrow> subscription \<Rightarrow> bus \<Rightarrow> (nat \<times> bus) option" where
  "sub_register cfg size_of now aborted s b =
     (if bus_closed b \<or> aborted \<or> now \<ge> sub_deadline s then None
      else
        (case register_waiter (sub_topics s) (sub_deadline s) (min (sub_deadline s) (now + sub_poll s)) b of
           (i, b1) \<Rightarrow>
             (case read_recent cfg size_of (sub_cursor s) (sub_topics s) (sub_limit s) (sub_revision s) b1 of
                Some p \<Rightarrow> if bp_events p \<noteq> [] then Some (i, schedule_waiter ByRing i b1) else Some (i, b1)
              | None \<Rightarrow> Some (i, b1))))"

text \<open>\<open>store.getRevision()\<close> is asked when the waiter is not woken yet; a rejection leaves \<open>subscribe\<close>.\<close>

definition sub_revision_answer :: "nat \<Rightarrow> bus_error + int \<Rightarrow> subscription \<Rightarrow> bus \<Rightarrow> (bus_error + unit) \<times> bus" where
  "sub_revision_answer i answer s b =
     (case answer of
        Inl err \<Rightarrow> (Inl err, b)
      | Inr revision \<Rightarrow> (Inr (), if revision \<noteq> sub_revision s then schedule_waiter ByRevision i b else b))"

definition sub_page :: "bus_config \<Rightarrow> bounded_page \<Rightarrow> subscription \<Rightarrow> sub_state" where
  "sub_page cfg page s =
     (if bp_events page \<noteq> [] then Returned page
      else Waiting (s\<lparr>sub_result := page, sub_revision := bp_revision page, sub_poll := min (max_poll cfg) (sub_poll s * 2)\<rparr>))"

text \<open>After \<open>await waiter.promise\<close>.\<close>

definition sub_resume :: "bus_config \<Rightarrow> (event \<Rightarrow> nat) \<Rightarrow> int \<Rightarrow> bool \<Rightarrow> nat \<Rightarrow> subscription \<Rightarrow> bus \<Rightarrow> sub_state \<times> bus" where
  "sub_resume cfg size_of now aborted i s b0 =
     (let b = remove_waiter_index i b0; reason = w_reason (waiter_tab b i)
      in if bus_closed b \<or> aborted \<or> now \<ge> sub_deadline s \<or> reason = ByDeadline then (Returned (sub_result s), b)
         else
           (let ring = (if reason = ByPoll \<or> reason = ByRevision then None
                        else read_recent cfg size_of (sub_cursor s) (sub_topics s) (sub_limit s) (sub_revision s) b)
            in case ring of
                 None \<Rightarrow> (ReadStore s, b)
               | Some p \<Rightarrow> (sub_page cfg (p\<lparr>bp_cursor := sub_cursor s\<rparr>) s, b)))"

section \<open>Statistics and shutdown\<close>

record bus_stats =
  st_waiters :: nat
  st_topics :: nat
  st_timers :: nat
  st_records :: nat
  st_bytes :: nat
  st_wakeups :: nat
  st_rejected :: nat

definition bus_stats_of :: "bus \<Rightarrow> bus_stats" where
  "bus_stats_of b =
     \<lparr>st_waiters = length (waiters b), st_topics = length (by_topic b), st_timers = (if bus_timer b then 1 else 0),
      st_records = length (recent b), st_bytes = recent_bytes b, st_wakeups = wakeups b, st_rejected = rejected b\<rparr>"

text \<open>\<open>close()\<close>; a second call returns the same promise and changes nothing.\<close>

definition bus_close :: "bus \<Rightarrow> bus" where
  "bus_close b =
     (if bus_closed b then b
      else fold (schedule_waiter ByClose) (waiters b) (b\<lparr>bus_closed := True, bus_timer := False, bus_timer_at := 0\<rparr>))"

end
