(* ===== verification/EventBusInv.thy ===== *)
theory EventBusInv imports EventBus begin

text \<open>
  Invariants of the event bus: the index and the registry agree, no registered waiter loses its
  deadline, and the ring is a contiguous run of offsets within its limits. Every step of the bus
  preserves them, so they hold in every reachable state.
\<close>

section \<open>Steps\<close>

inductive bus_step :: "bus_config \<Rightarrow> (event \<Rightarrow> nat) \<Rightarrow> bus \<Rightarrow> bus \<Rightarrow> bool" for cfg size_of where
  commit: "bus_step cfg size_of b (snd (publish_commit cfg size_of t answer b))"
| register: "\<not> bus_closed b \<Longrightarrow> poll_at \<le> deadline \<Longrightarrow> bus_step cfg size_of b (snd (register_waiter topics deadline poll_at b))"
| wake: "i \<in> set (waiters b) \<Longrightarrow> bus_step cfg size_of b (schedule_waiter reason i b)"
| timer: "bus_timer b \<Longrightarrow> bus_step cfg size_of b (run_scheduler now b)"
| settle: "w_scheduled (waiter_tab b i) \<Longrightarrow> bus_step cfg size_of b (remove_waiter_index i b)"
| close: "bus_step cfg size_of b (bus_close b)"

inductive bus_reach :: "bus_config \<Rightarrow> (event \<Rightarrow> nat) \<Rightarrow> bus \<Rightarrow> bool" for cfg size_of where
  start: "bus_reach cfg size_of new_bus"
| step: "bus_reach cfg size_of b \<Longrightarrow> bus_step cfg size_of b b' \<Longrightarrow> bus_reach cfg size_of b'"

section \<open>Invariants\<close>

definition topic_set :: "(string \<times> nat list) list \<Rightarrow> string \<Rightarrow> nat set" where
  "topic_set m t = (case map_of m t of None \<Rightarrow> {} | Some s \<Rightarrow> set s)"

definition registry_ok :: "bus \<Rightarrow> bool" where
  "registry_ok b \<longleftrightarrow> distinct (waiters b) \<and> (\<forall>i \<in> set (waiters b). i \<le> waiter_seq b) \<and>
     (\<forall>i. i \<in> set (waiters b) \<longleftrightarrow> \<not> w_settled (waiter_tab b i))"

definition index_ok :: "bus \<Rightarrow> bool" where
  "index_ok b \<longleftrightarrow>
     set (all_topic b) = {i \<in> set (waiters b). w_topics (waiter_tab b i) = []} \<and>
     (\<forall>t. topic_set (by_topic b) t = {i \<in> set (waiters b). t \<in> set (w_topics (waiter_tab b i))}) \<and>
     (\<forall>t. map_of (by_topic b) t \<noteq> Some []) \<and> jmap_ok (by_topic b)"

definition deadline_entry_for :: "bus \<Rightarrow> nat \<Rightarrow> schedule_entry \<Rightarrow> bool" where
  "deadline_entry_for b i e \<longleftrightarrow>
     se_id e = i \<and> se_generation e = w_generation (waiter_tab b i) \<and> se_at e \<le> w_deadline (waiter_tab b i)"

definition sleeping :: "bus \<Rightarrow> nat set" where
  "sleeping b = {i \<in> set (waiters b). \<not> w_scheduled (waiter_tab b i)}"

definition timed_ok :: "bus \<Rightarrow> bool" where
  "timed_ok b \<longleftrightarrow> is_heap se_at (schedule_heap b) \<and>
     (\<forall>i \<in> sleeping b. \<not> bus_closed b \<and> (\<exists>e \<in> set (schedule_heap b). deadline_entry_for b i e)) \<and>
     (bus_closed b \<longrightarrow> \<not> bus_timer b)"

definition armed_ok :: "bus \<Rightarrow> bool" where
  "armed_ok b \<longleftrightarrow> (\<not> bus_closed b \<longrightarrow> schedule_heap b \<noteq> [] \<longrightarrow> bus_timer b \<and> bus_timer_at b \<le> se_at (hd (schedule_heap b)))"

definition ring_ok :: "bus_config \<Rightarrow> (event \<Rightarrow> nat) \<Rightarrow> bus \<Rightarrow> bool" where
  "ring_ok cfg size_of b \<longleftrightarrow>
     map (ev_offset \<circ> fst) (recent b) = [recent_last b - int (length (recent b)) + 1 .. recent_last b] \<and>
     (\<forall>x \<in> set (recent b). snd x = size_of (fst x) \<and> 0 < ev_offset (fst x)) \<and> 0 \<le> recent_last b \<and>
     recent_bytes b = sum_list (map snd (recent b)) \<and>
     length (recent b) \<le> record_limit cfg \<and> recent_bytes b \<le> byte_limit cfg"

lemmas bus_defs = registry_ok_def index_ok_def timed_ok_def armed_ok_def ring_ok_def sleeping_def deadline_entry_for_def

section \<open>Waking a waiter\<close>

lemma schedule_waiter_fields [simp]:
  "waiters (schedule_waiter r i b) = waiters b"
  "by_topic (schedule_waiter r i b) = by_topic b"
  "all_topic (schedule_waiter r i b) = all_topic b"
  "schedule_heap (schedule_waiter r i b) = schedule_heap b"
  "recent (schedule_waiter r i b) = recent b"
  "recent_bytes (schedule_waiter r i b) = recent_bytes b"
  "recent_last (schedule_waiter r i b) = recent_last b"
  "bus_timer (schedule_waiter r i b) = bus_timer b"
  "bus_timer_at (schedule_waiter r i b) = bus_timer_at b"
  "waiter_seq (schedule_waiter r i b) = waiter_seq b"
  "bus_closed (schedule_waiter r i b) = bus_closed b"
  "rejected (schedule_waiter r i b) = rejected b"
  by (simp_all add: schedule_waiter_def Let_def)

lemma schedule_waiter_tab [simp]:
  "w_topics (waiter_tab (schedule_waiter r i b) j) = w_topics (waiter_tab b j)"
  "w_deadline (waiter_tab (schedule_waiter r i b) j) = w_deadline (waiter_tab b j)"
  "w_generation (waiter_tab (schedule_waiter r i b) j) = w_generation (waiter_tab b j)"
  "w_settled (waiter_tab (schedule_waiter r i b) j) = w_settled (waiter_tab b j)"
  by (simp_all add: schedule_waiter_def Let_def)

lemma schedule_waiter_scheduled:
  "w_scheduled (waiter_tab (schedule_waiter r i b) j) \<longleftrightarrow>
     w_scheduled (waiter_tab b j) \<or> j = i \<and> \<not> w_settled (waiter_tab b i)"
  by (auto simp: schedule_waiter_def Let_def)

lemma registry_schedule [simp]: "registry_ok (schedule_waiter r i b) = registry_ok b"
  by (simp add: registry_ok_def)

lemma index_schedule [simp]: "index_ok (schedule_waiter r i b) = index_ok b"
  by (simp add: index_ok_def)

lemma ring_schedule [simp]: "ring_ok cfg size_of (schedule_waiter r i b) = ring_ok cfg size_of b"
  by (simp add: ring_ok_def)

lemma armed_schedule [simp]: "armed_ok (schedule_waiter r i b) = armed_ok b"
  by (simp add: armed_ok_def)

lemma sleeping_schedule: "sleeping (schedule_waiter r i b) \<subseteq> sleeping b"
  by (auto simp: sleeping_def schedule_waiter_scheduled)

lemma timed_schedule: "timed_ok b \<Longrightarrow> timed_ok (schedule_waiter r i b)"
  using sleeping_schedule [of r i b] by (auto simp: timed_ok_def deadline_entry_for_def)

text \<open>Waking a list of waiters.\<close>

lemma fold_schedule_fields [simp]:
  "waiters (fold (schedule_waiter r) is b) = waiters b"
  "by_topic (fold (schedule_waiter r) is b) = by_topic b"
  "all_topic (fold (schedule_waiter r) is b) = all_topic b"
  "waiter_seq (fold (schedule_waiter r) is b) = waiter_seq b"
  "recent (fold (schedule_waiter r) is b) = recent b"
  "recent_bytes (fold (schedule_waiter r) is b) = recent_bytes b"
  "recent_last (fold (schedule_waiter r) is b) = recent_last b"
  "schedule_heap (fold (schedule_waiter r) is b) = schedule_heap b"
  "bus_timer (fold (schedule_waiter r) is b) = bus_timer b"
  "bus_closed (fold (schedule_waiter r) is b) = bus_closed b"
  "registry_ok (fold (schedule_waiter r) is b) = registry_ok b"
  "index_ok (fold (schedule_waiter r) is b) = index_ok b"
  "armed_ok (fold (schedule_waiter r) is b) = armed_ok b"
  "ring_ok cfg size_of (fold (schedule_waiter r) is b) = ring_ok cfg size_of b"
  "w_settled (waiter_tab (fold (schedule_waiter r) is b) j) = w_settled (waiter_tab b j)"
  "w_topics (waiter_tab (fold (schedule_waiter r) is b) j) = w_topics (waiter_tab b j)"
  by (induction "is" arbitrary: b) simp_all

lemma timed_fold_schedule: "timed_ok b \<Longrightarrow> timed_ok (fold (schedule_waiter r) is b)"
  by (induction "is" arbitrary: b) (simp_all add: timed_schedule)

lemma fold_schedule_scheduled:
  "w_scheduled (waiter_tab (fold (schedule_waiter r) is b) j) \<longleftrightarrow>
     w_scheduled (waiter_tab b j) \<or> j \<in> set is \<and> \<not> w_settled (waiter_tab b j)"
  by (induction "is" arbitrary: b) (auto simp: schedule_waiter_scheduled)

section \<open>The scheduler\<close>

lemma arm_fields [simp]:
  "waiters (arm_scheduler b) = waiters b" "by_topic (arm_scheduler b) = by_topic b"
  "all_topic (arm_scheduler b) = all_topic b" "waiter_tab (arm_scheduler b) = waiter_tab b"
  "schedule_heap (arm_scheduler b) = schedule_heap b" "recent (arm_scheduler b) = recent b"
  "recent_bytes (arm_scheduler b) = recent_bytes b" "recent_last (arm_scheduler b) = recent_last b"
  "waiter_seq (arm_scheduler b) = waiter_seq b" "bus_closed (arm_scheduler b) = bus_closed b"
  by (simp_all add: arm_scheduler_def Let_def)

lemma registry_arm [simp]: "registry_ok (arm_scheduler b) = registry_ok b" by (simp add: registry_ok_def)
lemma index_arm [simp]: "index_ok (arm_scheduler b) = index_ok b" by (simp add: index_ok_def)
lemma ring_arm [simp]: "ring_ok cfg size_of (arm_scheduler b) = ring_ok cfg size_of b" by (simp add: ring_ok_def)

lemma timed_arm: "timed_ok b \<Longrightarrow> timed_ok (arm_scheduler b)"
  by (auto simp: timed_ok_def sleeping_def deadline_entry_for_def) (auto simp: arm_scheduler_def)

lemma armed_arm [simp]: "armed_ok (arm_scheduler b)"
  by (auto simp: armed_ok_def arm_scheduler_def Let_def)

text \<open>What \<open>runScheduler\<close>'s loop keeps while the timer is off.\<close>

lemma run_entry_ok:
  assumes "timed_ok b" and "registry_ok b" and ne: "schedule_heap b \<noteq> []"
  defines "e \<equiv> hd (schedule_heap b)"
  defines "b1 \<equiv> b\<lparr>schedule_heap := snd (heap_pop se_at (schedule_heap b))\<rparr>"
  shows "timed_ok (run_entry e b1)"
proof -
  obtain es where h: "schedule_heap b = e # es" using ne by (cases "schedule_heap b") (auto simp: e_def)
  have hp: "is_heap se_at (e # es)" using assms(1) h by (simp add: timed_ok_def)
  have tab: "waiter_tab b1 = waiter_tab b" "waiters b1 = waiters b" "bus_closed b1 = bus_closed b" "bus_timer b1 = bus_timer b"
    by (simp_all add: b1_def)
  have hs: "set (schedule_heap b1) = set es" "is_heap se_at (schedule_heap b1)"
    using set_heap_pop [OF hp] heap_pop_Cons(3) [OF hp] by (simp_all add: b1_def h)
  have keep: "\<exists>x \<in> set (schedule_heap b1). deadline_entry_for b i x"
    if i: "i \<in> sleeping b" and nd: "\<not> deadline_entry_for b i e" for i
  proof -
    obtain x where "x \<in> set (e # es)" "deadline_entry_for b i x" using assms(1) i h by (auto simp: timed_ok_def)
    then show ?thesis using nd hs(1) by auto
  qed
  have sl: "i \<in> sleeping b \<and> \<not> deadline_entry_for b i e" if i: "i \<in> sleeping (run_entry e b1)" for i
  proof -
    have s: "i \<in> sleeping b"
      using i tab sleeping_schedule [of "se_kind e" "se_id e" b1] by (auto simp: run_entry_def sleeping_def split: if_splits)
    moreover have "\<not> deadline_entry_for b i e"
    proof
      assume d: "deadline_entry_for b i e"
      then have "se_id e = i" "w_generation (waiter_tab b i) = se_generation e" by (simp_all add: deadline_entry_for_def)
      moreover have "i \<in> set (waiters b)" "\<not> w_settled (waiter_tab b i)"
        using s assms(2) by (auto simp: sleeping_def registry_ok_def)
      ultimately have "run_entry e b1 = schedule_waiter (se_kind e) i b1" by (simp add: run_entry_def tab)
      then show False using i \<open>\<not> w_settled (waiter_tab b i)\<close> tab by (simp add: sleeping_def schedule_waiter_scheduled)
    qed
    ultimately show ?thesis by blast
  qed
  have eq: "deadline_entry_for (run_entry e b1) i x = deadline_entry_for b i x"
    "bus_closed (run_entry e b1) = bus_closed b" "bus_timer (run_entry e b1) = bus_timer b" for i x
    by (auto simp: run_entry_def deadline_entry_for_def tab)
  show ?thesis
    unfolding timed_ok_def
  proof (intro conjI ballI)
    show "is_heap se_at (schedule_heap (run_entry e b1))" using hs(2) by simp
    show "bus_closed (run_entry e b1) \<longrightarrow> \<not> bus_timer (run_entry e b1)" using assms(1) by (simp add: eq timed_ok_def)
    fix i assume "i \<in> sleeping (run_entry e b1)"
    note s = sl [OF this]
    show "\<not> bus_closed (run_entry e b1)" using s assms(1) by (auto simp: eq timed_ok_def)
    show "\<exists>x \<in> set (schedule_heap (run_entry e b1)). deadline_entry_for (run_entry e b1) i x"
      using keep s by (simp add: eq)
  qed
qed

lemma run_entry_fields [simp]:
  "waiters (run_entry e b) = waiters b" "by_topic (run_entry e b) = by_topic b"
  "all_topic (run_entry e b) = all_topic b" "recent (run_entry e b) = recent b"
  "bus_closed (run_entry e b) = bus_closed b" "bus_timer (run_entry e b) = bus_timer b"
  "registry_ok (run_entry e b) = registry_ok b" "index_ok (run_entry e b) = index_ok b"
  "ring_ok cfg size_of (run_entry e b) = ring_ok cfg size_of b"
  by (simp_all add: run_entry_def)

lemma heap_update_ok [simp]:
  "registry_ok (b\<lparr>schedule_heap := h\<rparr>) = registry_ok b" "index_ok (b\<lparr>schedule_heap := h\<rparr>) = index_ok b"
  "ring_ok cfg size_of (b\<lparr>schedule_heap := h\<rparr>) = ring_ok cfg size_of b"
  by (simp_all add: registry_ok_def index_ok_def ring_ok_def)

lemma run_due_fields [simp]:
  "waiters (run_due now b) = waiters b" "registry_ok (run_due now b) = registry_ok b"
  "index_ok (run_due now b) = index_ok b" "ring_ok cfg size_of (run_due now b) = ring_ok cfg size_of b"
  by (induction now b rule: run_due.induct; simp add: run_due.simps)+

lemma run_due_timed: "timed_ok b \<Longrightarrow> registry_ok b \<Longrightarrow> timed_ok (run_due now b)"
proof (induction now b rule: run_due.induct)
  case (1 now b)
  show ?case
  proof (cases "schedule_heap b \<noteq> [] \<and> se_at (hd (schedule_heap b)) \<le> now")
    case True
    then show ?thesis using "1.IH" [OF True] run_entry_ok [OF "1.prems"] "1.prems"(2)
      by (simp add: run_due.simps [of now b])
  next
    case False
    have "run_due now b = b" unfolding run_due.simps [of now b] using False by (rule if_not_P)
    then show ?thesis using "1.prems" by simp
  qed
qed

lemma timer_off_ok [simp]:
  "registry_ok (b\<lparr>bus_timer := False, bus_timer_at := 0\<rparr>) = registry_ok b"
  "index_ok (b\<lparr>bus_timer := False, bus_timer_at := 0\<rparr>) = index_ok b"
  "ring_ok cfg size_of (b\<lparr>bus_timer := False, bus_timer_at := 0\<rparr>) = ring_ok cfg size_of b"
  "timed_ok b \<Longrightarrow> timed_ok (b\<lparr>bus_timer := False, bus_timer_at := 0\<rparr>)"
  by (simp_all add: registry_ok_def index_ok_def ring_ok_def timed_ok_def sleeping_def deadline_entry_for_def)

lemma run_scheduler_ok:
  "registry_ok (run_scheduler now b) = registry_ok b" "index_ok (run_scheduler now b) = index_ok b"
  "ring_ok cfg size_of (run_scheduler now b) = ring_ok cfg size_of b" "waiters (run_scheduler now b) = waiters b"
  "armed_ok (run_scheduler now b)"
  by (simp_all add: run_scheduler_def)

lemma run_scheduler_timed: "timed_ok b \<Longrightarrow> registry_ok b \<Longrightarrow> timed_ok (run_scheduler now b)"
  by (simp add: run_scheduler_def timed_arm run_due_timed)

section \<open>Registering and settling\<close>

lemma set_set_add [simp]: "set (set_add x xs) = insert x (set xs)"
  by (auto simp: set_add_def)

lemma set_add_not_Nil [simp]: "set_add x xs \<noteq> []"
  by (auto simp: set_add_def)

lemma distinct_set_add [simp]: "distinct (set_add x xs) = distinct xs"
  by (simp add: set_add_def)

lemma topic_set_add: "topic_set (add_topic i t m) u = (if u = t then insert i (topic_set m t) else topic_set m u)"
  by (auto simp: topic_set_def add_topic_def split: option.splits)

lemma add_topics:
  "topic_set (fold (add_topic i) ts m) u = (if u \<in> set ts then insert i (topic_set m u) else topic_set m u)"
  by (induction ts arbitrary: m) (auto simp: topic_set_add)

lemma add_topics_ok:
  "\<forall>t. map_of m t \<noteq> Some [] \<Longrightarrow> jmap_ok m \<Longrightarrow>
     (\<forall>t. map_of (fold (add_topic i) ts m) t \<noteq> Some []) \<and> jmap_ok (fold (add_topic i) ts m)"
  by (induction ts arbitrary: m) (simp_all add: add_topic_def)

lemma topic_set_del: "topic_set (del_topic i t m) u = (if u = t then topic_set m t - {i} else topic_set m u)"
  by (auto simp: topic_set_def del_topic_def Let_def filter_empty_conv split: option.splits)

lemma del_topics:
  "topic_set (fold (del_topic i) ts m) u = (if u \<in> set ts then topic_set m u - {i} else topic_set m u)"
  by (induction ts arbitrary: m) (auto simp: topic_set_del)

lemma del_topics_ok:
  "\<forall>t. map_of m t \<noteq> Some [] \<Longrightarrow> jmap_ok m \<Longrightarrow>
     (\<forall>t. map_of (fold (del_topic i) ts m) t \<noteq> Some []) \<and> jmap_ok (fold (del_topic i) ts m)"
proof (induction ts arbitrary: m)
  case (Cons t ts)
  have "(\<forall>u. map_of (del_topic i t m) u \<noteq> Some []) \<and> jmap_ok (del_topic i t m)"
    using Cons.prems by (auto simp: del_topic_def Let_def split: option.splits)
  then show ?case using Cons.IH by simp
qed simp

text \<open>The bus after \<open>addWaiterIndex\<close> of a fresh waiter.\<close>

definition with_waiter :: "string list \<Rightarrow> int \<Rightarrow> bus \<Rightarrow> bus" where
  "with_waiter topics deadline b =
     add_waiter_index (Suc (waiter_seq b)) (b\<lparr>waiter_seq := Suc (waiter_seq b), waiter_tab := (waiter_tab b)(Suc (waiter_seq b) :=
       \<lparr>w_topics = topics, w_deadline = deadline, w_generation = 1, w_scheduled = False, w_settled = False, w_reason = NoReason\<rparr>)\<rparr>)"

lemma with_waiter_fields [simp]:
  "schedule_heap (with_waiter ts d b) = schedule_heap b" "bus_closed (with_waiter ts d b) = bus_closed b"
  "bus_timer (with_waiter ts d b) = bus_timer b" "bus_timer_at (with_waiter ts d b) = bus_timer_at b"
  "waiters (with_waiter ts d b) = set_add (Suc (waiter_seq b)) (waiters b)"
  "waiter_seq (with_waiter ts d b) = Suc (waiter_seq b)"
  "waiter_tab (with_waiter ts d b) = (waiter_tab b)(Suc (waiter_seq b) :=
       \<lparr>w_topics = ts, w_deadline = d, w_generation = 1, w_scheduled = False, w_settled = False, w_reason = NoReason\<rparr>)"
  "all_topic (with_waiter ts d b) = (if ts = [] then set_add (Suc (waiter_seq b)) (all_topic b) else all_topic b)"
  "by_topic (with_waiter ts d b) = fold (add_topic (Suc (waiter_seq b))) ts (by_topic b)"
  "ring_ok cfg size_of (with_waiter ts d b) = ring_ok cfg size_of b"
  by (simp_all add: with_waiter_def add_waiter_index_def Let_def ring_ok_def)

lemma registry_fresh: "registry_ok b \<Longrightarrow> Suc (waiter_seq b) \<notin> set (waiters b)"
  unfolding registry_ok_def using Suc_n_not_le_n by blast

lemma registry_with_waiter: "registry_ok b \<Longrightarrow> registry_ok (with_waiter ts d b)"
  by (auto simp: registry_ok_def)

lemma index_with_waiter: "registry_ok b \<Longrightarrow> index_ok b \<Longrightarrow> index_ok (with_waiter ts d b)"
  using registry_fresh [of b] add_topics_ok [of "by_topic b" "Suc (waiter_seq b)" ts]
  by (auto simp: index_ok_def add_topics)

lemma register_waiter_eq:
  "register_waiter ts d p b =
     (let i = Suc (waiter_seq b); b2 = push_entry (min d p) i (if p \<le> d then ByPoll else ByDeadline) (with_waiter ts d b)
      in (i, arm_scheduler (if p < d then push_entry d i ByDeadline b2 else b2)))"
  by (simp add: register_waiter_def with_waiter_def Let_def)

lemma push_entry_fields [simp]:
  "waiters (push_entry t i k b) = waiters b" "by_topic (push_entry t i k b) = by_topic b"
  "all_topic (push_entry t i k b) = all_topic b" "waiter_tab (push_entry t i k b) = waiter_tab b"
  "waiter_seq (push_entry t i k b) = waiter_seq b" "bus_closed (push_entry t i k b) = bus_closed b"
  "recent (push_entry t i k b) = recent b" "recent_last (push_entry t i k b) = recent_last b"
  "bus_timer (push_entry t i k b) = bus_timer b"
  "registry_ok (push_entry t i k b) = registry_ok b" "index_ok (push_entry t i k b) = index_ok b"
  "ring_ok cfg size_of (push_entry t i k b) = ring_ok cfg size_of b"
  by (simp_all add: push_entry_def)

lemma timed_push: "timed_ok b \<Longrightarrow> timed_ok (push_entry t i k b)"
  by (auto simp: timed_ok_def push_entry_def sleeping_def deadline_entry_for_def heap_push_heap)

text \<open>The deadline entry of the fresh waiter makes up for the waiter.\<close>

lemma timed_push_fresh:
  assumes "timed_ok b" "registry_ok b" "\<not> bus_closed b" "t \<le> d"
  shows "timed_ok (push_entry t (Suc (waiter_seq b)) k (with_waiter ts d b))" (is "timed_ok ?b")
  unfolding timed_ok_def
proof (intro conjI ballI)
  show "is_heap se_at (schedule_heap ?b)" using assms(1) by (simp add: push_entry_def timed_ok_def heap_push_heap)
  show "bus_closed ?b \<longrightarrow> \<not> bus_timer ?b" using assms(3) by simp
  fix i assume i: "i \<in> sleeping ?b"
  show "\<not> bus_closed ?b" using assms(3) by simp
  show "\<exists>e \<in> set (schedule_heap ?b). deadline_entry_for ?b i e"
  proof (cases "i = Suc (waiter_seq b)")
    case True
    then show ?thesis using assms(4) by (auto simp: push_entry_def deadline_entry_for_def)
  next
    case False
    then have "i \<in> sleeping b" using i by (auto simp: sleeping_def)
    then obtain e where "e \<in> set (schedule_heap b)" "deadline_entry_for b i e" using assms(1) by (auto simp: timed_ok_def)
    then show ?thesis using False by (intro bexI [of _ e]) (auto simp: push_entry_def deadline_entry_for_def)
  qed
qed

lemma register_ok:
  fixes b :: bus and p d :: int and ts :: "string list"
  assumes "timed_ok b" "registry_ok b" "index_ok b" "\<not> bus_closed b" "p \<le> d"
  defines "b' \<equiv> snd (register_waiter ts d p b)"
  shows "timed_ok b'" "registry_ok b'" "index_ok b'" "armed_ok b'" "ring_ok cfg size_of b' = ring_ok cfg size_of b"
    "waiters b' = set_add (Suc (waiter_seq b)) (waiters b)"
  using timed_push_fresh [OF assms(1,2,4), of "min d p" d "if p \<le> d then ByPoll else ByDeadline" ts] assms(1-5)
    registry_with_waiter [OF assms(2), of ts d] index_with_waiter [OF assms(2,3), of ts d]
  by (auto simp: b'_def register_waiter_eq Let_def timed_arm timed_push)

lemma remove_ok:
  assumes "timed_ok b" "registry_ok b" "index_ok b"
  shows "timed_ok (remove_waiter_index i b)" "registry_ok (remove_waiter_index i b)" "index_ok (remove_waiter_index i b)"
    "ring_ok cfg size_of (remove_waiter_index i b) = ring_ok cfg size_of b"
    "armed_ok (remove_waiter_index i b) = armed_ok b"
proof -
  show "timed_ok (remove_waiter_index i b)"
    using assms(1) by (auto simp: timed_ok_def remove_waiter_index_def Let_def sleeping_def deadline_entry_for_def)
  show "registry_ok (remove_waiter_index i b)"
    using assms(2) by (auto simp: registry_ok_def remove_waiter_index_def Let_def)
  show "index_ok (remove_waiter_index i b)"
    using assms(2,3) del_topics_ok [of "by_topic b" i "w_topics (waiter_tab b i)"]
    by (auto simp: index_ok_def registry_ok_def remove_waiter_index_def Let_def del_topics)
qed (simp_all add: remove_waiter_index_def Let_def ring_ok_def armed_ok_def)

section \<open>The ring\<close>

lemma evict_ring:
  assumes "map (ev_offset \<circ> fst) xs = [l - int (length xs) + 1 .. l]" and "n = sum_list (map snd xs)"
    and "evict rl bl xs n = (ys, m)"
  shows "map (ev_offset \<circ> fst) ys = [l - int (length ys) + 1 .. l] \<and> m = sum_list (map snd ys) \<and>
     length ys \<le> rl \<and> m \<le> bl \<and> set ys \<subseteq> set xs"
  using assms
proof (induction rl bl xs n rule: evict.induct)
  case (1 rl bl n)
  then show ?case by auto
next
  case (2 rl bl x xs n)
  show ?case
  proof (cases "length (x # xs) > rl \<or> n > bl")
    case True
    have "[l - int (length (x # xs)) + 1 .. l] = (l - int (length xs)) # [l - int (length xs) + 1 .. l]"
      using upto_rec1 [of "l - int (length xs)" l] by simp
    then have a: "map (ev_offset \<circ> fst) xs = [l - int (length xs) + 1 .. l]" using "2.prems"(1) by (simp add: comp_def)
    have c: "n - snd x = sum_list (map snd xs)" using "2.prems"(2) by simp
    have "evict rl bl xs (n - snd x) = (ys, m)" using "2.prems"(3) True by simp
    from "2.IH" [OF True a c this] show ?thesis by auto
  next
    case False
    then show ?thesis using "2.prems" by auto
  qed
qed

lemma append_recent_other [simp]:
  "waiters (append_recent cfg size_of e b) = waiters b" "by_topic (append_recent cfg size_of e b) = by_topic b"
  "all_topic (append_recent cfg size_of e b) = all_topic b" "waiter_tab (append_recent cfg size_of e b) = waiter_tab b"
  "schedule_heap (append_recent cfg size_of e b) = schedule_heap b" "bus_closed (append_recent cfg size_of e b) = bus_closed b"
  "bus_timer (append_recent cfg size_of e b) = bus_timer b" "bus_timer_at (append_recent cfg size_of e b) = bus_timer_at b"
  "waiter_seq (append_recent cfg size_of e b) = waiter_seq b"
  by (simp_all add: append_recent_def Let_def split: prod.splits)

lemma registry_append [simp]: "registry_ok (append_recent cfg size_of e b) = registry_ok b" by (simp add: registry_ok_def)
lemma index_append [simp]: "index_ok (append_recent cfg size_of e b) = index_ok b" by (simp add: index_ok_def)
lemma armed_append [simp]: "armed_ok (append_recent cfg size_of e b) = armed_ok b" by (simp add: armed_ok_def)
lemma timed_append [simp]: "timed_ok (append_recent cfg size_of e b) = timed_ok b"
  by (simp add: timed_ok_def sleeping_def deadline_entry_for_def)

lemma append_recent_ring:
  assumes ok: "ring_ok cfg size_of b"
  shows "ring_ok cfg size_of (append_recent cfg size_of e b)"
proof (cases "ev_offset e \<le> 0")
  case True
  then show ?thesis using ok by (simp add: append_recent_def)
next
  case pos: False
  define gap where "gap \<longleftrightarrow> recent_last b > 0 \<and> ev_offset e \<noteq> recent_last b + 1"
  define ring where "ring = (if gap then [] else recent b)"
  obtain ys m where ev: "evict (record_limit cfg) (byte_limit cfg) (ring @ [(e, size_of e)]) (sum_list (map snd ring) + size_of e) = (ys, m)"
    by fastforce
  have r: "recent_last (append_recent cfg size_of e b) = ev_offset e" "recent (append_recent cfg size_of e b) = ys"
    "recent_bytes (append_recent cfg size_of e b) = m"
    using ev ok pos by (auto simp: append_recent_def Let_def gap_def ring_def ring_ok_def)
  have empty: "recent b = []" if "recent_last b = 0"
  proof (rule ccontr)
    assume ne: "recent b \<noteq> []"
    have "last (map (ev_offset \<circ> fst) (recent b)) = recent_last b"
      using ok ne upto_rec2 [of "recent_last b - int (length (recent b)) + 1" "recent_last b"]
      unfolding ring_ok_def by (cases "recent b") auto
    then have "ev_offset (fst (last (recent b))) = 0" using ne that by (simp add: last_map)
    moreover have "last (recent b) \<in> set (recent b)" using ne by simp
    ultimately show False using ok unfolding ring_ok_def by force
  qed
  have "map (ev_offset \<circ> fst) ring = [ev_offset e - int (length ring) .. ev_offset e - 1]"
  proof (cases "gap \<or> recent_last b = 0")
    case True
    then have "ring = []" using empty by (auto simp: ring_def)
    then show ?thesis by simp
  next
    case False
    then have "ring = recent b" "recent_last b = ev_offset e - 1" using ok by (auto simp: ring_def gap_def ring_ok_def)
    then show ?thesis using ok by (simp add: ring_ok_def)
  qed
  then have "map (ev_offset \<circ> fst) (ring @ [(e, size_of e)]) = [ev_offset e - int (length (ring @ [(e, size_of e)])) + 1 .. ev_offset e]"
    using upto_rec2 [of "ev_offset e - int (length ring)" "ev_offset e"] by simp
  from evict_ring [OF this _ ev]
  have E: "map (ev_offset \<circ> fst) ys = [ev_offset e - int (length ys) + 1 .. ev_offset e]" "m = sum_list (map snd ys)"
    "length ys \<le> record_limit cfg" "m \<le> byte_limit cfg" "set ys \<subseteq> set (ring @ [(e, size_of e)])" by auto
  have "set ring \<subseteq> set (recent b)" by (simp add: ring_def)
  then have "\<forall>x \<in> set ys. snd x = size_of (fst x) \<and> 0 < ev_offset (fst x)" using E(5) ok pos by (fastforce simp: ring_ok_def)
  then show ?thesis using E pos by (simp add: ring_ok_def r)
qed

section \<open>Publishing, closing, reachability\<close>

lemma wake_subscribers_fields [simp]:
  "waiters (wake_subscribers t b) = waiters b" "registry_ok (wake_subscribers t b) = registry_ok b"
  "index_ok (wake_subscribers t b) = index_ok b" "armed_ok (wake_subscribers t b) = armed_ok b"
  "ring_ok cfg size_of (wake_subscribers t b) = ring_ok cfg size_of b" "recent (wake_subscribers t b) = recent b"
  by (simp_all add: wake_subscribers_def Let_def)

lemma wake_subscribers_timed: "timed_ok b \<Longrightarrow> timed_ok (wake_subscribers t b)"
  by (simp add: wake_subscribers_def Let_def timed_fold_schedule)

lemma wake_subscribers_scheduled:
  assumes "registry_ok b" "index_ok b"
  shows "w_scheduled (waiter_tab (wake_subscribers t b) i) \<longleftrightarrow>
     w_scheduled (waiter_tab b i) \<or>
     i \<in> set (waiters b) \<and> (w_topics (waiter_tab b i) = [] \<or> t \<in> set (w_topics (waiter_tab b i)))"
proof -
  have "set (topic_waiters t b') = topic_set (by_topic b') t" for b'
    by (simp add: topic_waiters_def topic_set_def split: option.splits)
  then show ?thesis
    using assms by (auto simp: wake_subscribers_def Let_def fold_schedule_scheduled index_ok_def registry_ok_def)
qed

lemma closing_ok:
  assumes "timed_ok b" "registry_ok b" "index_ok b" "armed_ok b"
  shows "timed_ok (bus_close b)" "registry_ok (bus_close b)" "index_ok (bus_close b)" "armed_ok (bus_close b)"
    "ring_ok cfg size_of (bus_close b) = ring_ok cfg size_of b"
proof -
  let ?b = "b\<lparr>bus_closed := True, bus_timer := False, bus_timer_at := 0\<rparr>"
  let ?c = "fold (schedule_waiter ByClose) (waiters b) ?b"
  have h: "schedule_heap ?c = schedule_heap b" by simp
  have s: "sleeping ?c = {}"
    using assms(2) by (auto simp: sleeping_def fold_schedule_scheduled registry_ok_def)
  show "timed_ok (bus_close b)"
    using assms(1) s h by (auto simp: bus_close_def timed_ok_def)
  show "registry_ok (bus_close b)" using assms(2) by (simp add: bus_close_def registry_ok_def)
  show "index_ok (bus_close b)" using assms(3) by (simp add: bus_close_def index_ok_def)
  show "armed_ok (bus_close b)" using assms(4) by (simp add: bus_close_def armed_ok_def)
  show "ring_ok cfg size_of (bus_close b) = ring_ok cfg size_of b" by (simp add: bus_close_def ring_ok_def)
qed

definition bus_ok :: "bus_config \<Rightarrow> (event \<Rightarrow> nat) \<Rightarrow> bus \<Rightarrow> bool" where
  "bus_ok cfg size_of b \<longleftrightarrow> registry_ok b \<and> index_ok b \<and> timed_ok b \<and> armed_ok b \<and> ring_ok cfg size_of b"

lemma rejected_ok [simp]:
  "registry_ok (b\<lparr>rejected := n\<rparr>) = registry_ok b" "index_ok (b\<lparr>rejected := n\<rparr>) = index_ok b"
  "timed_ok (b\<lparr>rejected := n\<rparr>) = timed_ok b" "armed_ok (b\<lparr>rejected := n\<rparr>) = armed_ok b"
  "ring_ok cfg size_of (b\<lparr>rejected := n\<rparr>) = ring_ok cfg size_of b"
  by (simp_all add: bus_defs)

lemma bus_step_ok:
  assumes "bus_step cfg size_of b b'" and "bus_ok cfg size_of b"
  shows "bus_ok cfg size_of b'"
proof -
  have ok: "registry_ok b" "index_ok b" "timed_ok b" "armed_ok b" "ring_ok cfg size_of b" using assms(2) by (simp_all add: bus_ok_def)
  show ?thesis
    using assms(1)
  proof cases
    case (commit t answer)
    then show ?thesis using ok
      by (cases answer) (simp_all add: publish_commit_def bus_ok_def wake_subscribers_timed append_recent_ring)
  next
    case (register poll_at deadline topics)
    then show ?thesis using ok register_ok [where b = b and p = poll_at and d = deadline and ts = topics] by (simp add: bus_ok_def)
  next
    case (wake i reason)
    then show ?thesis using ok by (simp add: bus_ok_def timed_schedule)
  next
    case (timer now)
    then show ?thesis using ok by (simp add: bus_ok_def run_scheduler_ok run_scheduler_timed)
  next
    case (settle i)
    then show ?thesis using ok by (simp add: bus_ok_def remove_ok)
  next
    case close
    then show ?thesis using ok by (simp add: bus_ok_def closing_ok)
  qed
qed

lemma new_bus_ok: "bus_ok cfg size_of new_bus"
  by (auto simp: bus_ok_def new_bus_def bus_defs no_waiter_def topic_set_def)

lemma bus_reach_ok: "bus_reach cfg size_of b \<Longrightarrow> bus_ok cfg size_of b"
  by (induction rule: bus_reach.induct) (auto intro: new_bus_ok bus_step_ok)

end
