(* ===== verification/EventBusSafety.thy ===== *)
theory EventBusSafety imports EventBusInv begin

text \<open>
  What the event bus promises in every reachable state: a sleeping waiter is never forgotten, a
  published event wakes the waiters it concerns, a page read from the ring misses nothing the
  store would have returned; and what it does not keep: a waiter whose subscription fails while
  asking for the revision stays registered.
\<close>

section \<open>Deadlines\<close>

lemma run_due_heap: "is_heap se_at (schedule_heap b) \<Longrightarrow>
    is_heap se_at (schedule_heap (run_due now b)) \<and>
    (schedule_heap (run_due now b) \<noteq> [] \<longrightarrow> now < se_at (hd (schedule_heap (run_due now b))))"
proof (induction now b rule: run_due.induct)
  case (1 now b)
  show ?case
  proof (cases "schedule_heap b \<noteq> [] \<and> se_at (hd (schedule_heap b)) \<le> now")
    case True
    then have "is_heap se_at (snd (heap_pop se_at (schedule_heap b)))"
      using "1.prems" heap_pop_Cons(3) [of se_at] by (cases "schedule_heap b") auto
    then show ?thesis using "1.IH" [OF True] True by (simp add: run_due.simps [of now b])
  next
    case False
    have "run_due now b = b" unfolding run_due.simps [of now b] using False by (rule if_not_P)
    then show ?thesis using False "1.prems" by auto
  qed
qed

lemma run_entry_deadline [simp]: "w_deadline (waiter_tab (run_entry e b) i) = w_deadline (waiter_tab b i)"
  by (simp add: run_entry_def)

lemma run_due_deadline [simp]: "w_deadline (waiter_tab (run_due now b) i) = w_deadline (waiter_tab b i)"
  by (induction now b rule: run_due.induct) (simp add: run_due.simps)

lemma run_due_wakes:
  assumes "timed_ok b" "registry_ok b" "i \<in> set (waiters b)" "w_deadline (waiter_tab b i) \<le> now"
  shows "w_scheduled (waiter_tab (run_due now b) i)"
proof (rule ccontr)
  assume n: "\<not> w_scheduled (waiter_tab (run_due now b) i)"
  let ?b = "run_due now b"
  have "i \<in> sleeping ?b" using n assms(3) by (simp add: sleeping_def)
  then obtain e where e: "e \<in> set (schedule_heap ?b)" "se_at e \<le> w_deadline (waiter_tab b i)"
    using run_due_timed [OF assms(1,2), of now] by (auto simp: timed_ok_def deadline_entry_for_def)
  obtain x xs where h: "schedule_heap ?b = x # xs" using e(1) by (cases "schedule_heap ?b") auto
  have "is_heap se_at (x # xs)" "now < se_at x"
    using run_due_heap [of b now] assms(1) h by (auto simp: timed_ok_def)
  then have "now < se_at e" using heap_hd_min [of se_at x xs e] e(1) h by simp
  then show False using e(2) assms(4) by simp
qed

text \<open>
  C34: no subscriber oversleeps. In every reachable state, while a registered waiter has not been
  woken the bus is open, its timer is armed no later than the waiter's deadline, and a run of
  the scheduler at or after the deadline wakes it.
\<close>

theorem no_waiter_oversleeps:
  assumes "bus_reach cfg size_of b" and "i \<in> set (waiters b)" and "\<not> w_scheduled (waiter_tab b i)"
    and "w_deadline (waiter_tab b i) \<le> now"
  shows "\<not> bus_closed b \<and> bus_timer b \<and> bus_timer_at b \<le> w_deadline (waiter_tab b i) \<and>
    w_scheduled (waiter_tab (run_scheduler now b) i)"
proof -
  have ok: "registry_ok b" "timed_ok b" "armed_ok b" using bus_reach_ok [OF assms(1)] by (simp_all add: bus_ok_def)
  have s: "i \<in> sleeping b" using assms(2,3) by (simp add: sleeping_def)
  obtain e where e: "e \<in> set (schedule_heap b)" "se_at e \<le> w_deadline (waiter_tab b i)" and c: "\<not> bus_closed b"
    using ok(2) s by (auto simp: timed_ok_def deadline_entry_for_def)
  obtain x xs where h: "schedule_heap b = x # xs" using e(1) by (cases "schedule_heap b") auto
  have "se_at x \<le> se_at e" using heap_hd_min [of se_at x xs e] e(1) h ok(2) by (simp add: timed_ok_def)
  then have t: "bus_timer b" "bus_timer_at b \<le> w_deadline (waiter_tab b i)"
    using ok(3) c h e(2) by (auto simp: armed_ok_def)
  have "w_scheduled (waiter_tab (run_due now (b\<lparr>bus_timer := False, bus_timer_at := 0\<rparr>)) i)"
    using run_due_wakes [of "b\<lparr>bus_timer := False, bus_timer_at := 0\<rparr>" i now] ok assms(2,4) by simp
  then show ?thesis using c t by (simp add: run_scheduler_def)
qed

definition demo_bus_config :: bus_config where
  "demo_bus_config = \<lparr>topic_limit = 64, waiter_limit = 2, event_byte_limit = 100, response_byte_limit = 100,
     min_poll = 25, max_poll = 250, record_limit = 4, byte_limit = 100\<rparr>"

definition demo_waiting :: bus where
  "demo_waiting = snd (register_waiter [''a''] 500 125 new_bus)"

lemma demo_waiting_reach: "bus_reach demo_bus_config (\<lambda>_. 10) demo_waiting"
  unfolding demo_waiting_def
  by (rule bus_reach.step [OF bus_reach.start], rule bus_step.register) (simp_all add: new_bus_def)

lemma demo_waiting_waiter: "waiters demo_waiting = [1]" "\<not> w_scheduled (waiter_tab demo_waiting 1)"
    "w_deadline (waiter_tab demo_waiting 1) = 500"
  by (simp_all add: demo_waiting_def register_waiter_eq Let_def set_add_def new_bus_def)

theorem no_waiter_oversleeps_witness:
  "bus_timer demo_waiting \<and> bus_timer_at demo_waiting \<le> 500 \<and> w_scheduled (waiter_tab (run_scheduler 500 demo_waiting) 1)"
  using no_waiter_oversleeps [OF demo_waiting_reach, of 1 500] demo_waiting_waiter by simp

section \<open>Publishing\<close>

text \<open>
  A published event wakes exactly the waiters it concerns. In every reachable state, when the
  store accepts an event for topic \<open>t\<close>, afterwards a waiter is awake iff it was awake before or
  is registered for \<open>t\<close> or for all topics; the event is returned and the registry is unchanged.
  When the store fails, no waiter is woken, the ring is unchanged and the failure is counted and
  passed on.
\<close>

theorem publish_wakes_interested:
  assumes "bus_reach cfg size_of b"
  shows "fst (publish_commit cfg size_of t (Inr e) b) = Inr e
    \<and> waiters (snd (publish_commit cfg size_of t (Inr e) b)) = waiters b
    \<and> w_scheduled (waiter_tab (snd (publish_commit cfg size_of t (Inr e) b)) i)
        = (w_scheduled (waiter_tab b i) \<or>
           i \<in> set (waiters b) \<and> (w_topics (waiter_tab b i) = [] \<or> t \<in> set (w_topics (waiter_tab b i))))
    \<and> publish_commit cfg size_of t (Inl err) b = (Inl err, b\<lparr>rejected := rejected b + 1\<rparr>)"
proof -
  have "registry_ok b" "index_ok b" using bus_reach_ok [OF assms] by (simp_all add: bus_ok_def)
  then show ?thesis
    using wake_subscribers_scheduled [of "append_recent cfg size_of e b" t i] by (simp add: publish_commit_def)
qed

theorem publish_wakes_interested_witness:
  "w_scheduled (waiter_tab (snd (publish_commit demo_bus_config (\<lambda>_. 10) ''a'' (Inr (demo_event 1)) demo_waiting)) 1)
   \<and> \<not> w_scheduled (waiter_tab (snd (publish_commit demo_bus_config (\<lambda>_. 10) ''b'' (Inr (demo_event 1)) demo_waiting)) 1)"
proof -
  have t: "w_topics (waiter_tab demo_waiting 1) = [''a'']"
    by (simp add: demo_waiting_def register_waiter_eq Let_def new_bus_def)
  show ?thesis
    using publish_wakes_interested [OF demo_waiting_reach, of "''a''" "demo_event 1" 1]
      publish_wakes_interested [OF demo_waiting_reach, of "''b''" "demo_event 1" 1] demo_waiting_waiter t
    by simp
qed

section \<open>Reading from the ring\<close>

definition wanted :: "int \<Rightarrow> string list \<Rightarrow> event \<Rightarrow> bool" where
  "wanted cursor topics e \<longleftrightarrow> cursor < ev_offset e \<and> (topics = [] \<or> ev_topic e \<in> set topics)"

lemma recent_scan_spec:
  "int (length acc) < lim \<Longrightarrow>
     recent_scan cursor topics lim xs acc = acc @ take (nat lim - length acc) (filter (wanted cursor topics) (map fst xs))"
proof (induction xs arbitrary: acc)
  case (Cons x xs)
  show ?case
  proof (cases "wanted cursor topics (fst x)")
    case False
    then show ?thesis using Cons by (auto simp: wanted_def)
  next
    case True
    then have nb: "\<not> ev_offset (fst x) \<le> cursor" "\<not> (topics \<noteq> [] \<and> ev_topic (fst x) \<notin> set topics)" by (auto simp: wanted_def)
    have sp: "nat lim - length acc = Suc (nat lim - length (acc @ [fst x]))" using Cons.prems by simp
    show ?thesis
    proof (cases "int (length (acc @ [fst x])) \<ge> lim")
      case full: True
      then have "nat lim - length (acc @ [fst x]) = 0" by simp
      then show ?thesis using full nb True sp by (auto simp: Let_def)
    next
      case False
      then show ?thesis using Cons.IH [of "acc @ [fst x]"] nb True sp by (auto simp: Let_def)
    qed
  qed
qed simp

lemma limit_value_pos: "0 < limit_value v"
  by (auto simp: limit_value_def split: option.splits num_arg.splits)

lemma sorted_upto_map: "map f xs = [i .. j] \<Longrightarrow> sorted_wrt (\<lambda>a b. f a < (f b :: int)) xs"
  by (metis sorted_wrt_map sorted_wrt_upto)

lemma ring_ascending:
  "ring_ok cfg size_of b \<Longrightarrow> sorted_wrt (\<lambda>a b. ev_offset a < ev_offset b) (map fst (recent b))"
  using sorted_upto_map [of "ev_offset \<circ> fst" "recent b"] by (auto simp: ring_ok_def sorted_wrt_map)

lemma take_filter_below:
  assumes "sorted_wrt (\<lambda>a b. f a < (f b :: int)) xs" and "x \<in> set xs" and "take n xs \<noteq> []" and "f x \<le> f (last (take n xs))"
  shows "x \<in> set (take n xs)"
proof (rule ccontr)
  assume "x \<notin> set (take n xs)"
  then have "x \<in> set (drop n xs)" using assms(2) by (metis append_take_drop_id Un_iff set_append)
  then have "f (last (take n xs)) < f x"
    using assms(1,3) sorted_wrt_append [of _ "take n xs" "drop n xs"] by (metis append_take_drop_id last_in_set)
  then show False using assms(4) by simp
qed

text \<open>The ring holds every event of a log between its first offset and the last one.\<close>

lemma ring_covers:
  assumes "ring_ok cfg size_of b" and "\<And>x. x \<in> set (recent b) \<Longrightarrow> fst x \<in> log"
    and "\<And>x y. x \<in> log \<Longrightarrow> y \<in> log \<Longrightarrow> ev_offset x = ev_offset y \<Longrightarrow> x = y"
    and "e \<in> log" "recent b \<noteq> []" "ev_offset (fst (hd (recent b))) \<le> ev_offset e" "ev_offset e \<le> recent_last b"
  shows "e \<in> set (map fst (recent b))"
proof -
  have m: "map (ev_offset \<circ> fst) (recent b) = [recent_last b - int (length (recent b)) + 1 .. recent_last b]"
    using assms(1) by (simp add: ring_ok_def)
  then have "ev_offset (fst (hd (recent b))) = recent_last b - int (length (recent b)) + 1"
    using assms(5) upto_rec1 [of "recent_last b - int (length (recent b)) + 1" "recent_last b"]
    by (cases "recent b") auto
  then have "ev_offset e \<in> set [recent_last b - int (length (recent b)) + 1 .. recent_last b]" using assms(6,7) by simp
  then have "ev_offset e \<in> set (map (ev_offset \<circ> fst) (recent b))" by (simp only: m)
  then obtain x where x: "x \<in> set (recent b)" "ev_offset (fst x) = ev_offset e" by auto
  then have "fst x = e" using assms(2) [OF x(1)] assms(3,4) by blast
  then show ?thesis using x(1) by force
qed

text \<open>
  C33: a page read from the ring misses nothing. In every reachable state whose ring events come
  from the store's log (offsets unique), a page that \<open>readRecent\<close> returns for a cursor fits the
  response budget, does not move the cursor back, and contains every event of the log, also one
  published by another process, that lies after the cursor and at or before the next cursor and
  has a wanted topic; only an event that alone exceeds the budget may be cut to its metadata or
  passed over.
\<close>

theorem ring_read_complete:
  assumes "bus_reach cfg size_of b" and "read_recent cfg size_of cursor topics limit revision b = Some r"
    and "0 \<le> cursor" and "2 \<le> response_byte_limit cfg"
    and "\<And>x. x \<in> set (recent b) \<Longrightarrow> fst x \<in> log"
    and "\<And>x y. x \<in> log \<Longrightarrow> y \<in> log \<Longrightarrow> ev_offset x = ev_offset y \<Longrightarrow> x = y"
    and "e \<in> log" and "cursor < ev_offset e" and "ev_offset e \<le> bp_next r" and "topics = [] \<or> ev_topic e \<in> set topics"
  shows "bp_bytes r \<le> response_byte_limit cfg \<and> cursor \<le> bp_next r \<and>
    (e \<in> set (bp_events r) \<or>
     (response_byte_limit cfg < size_of e + 3 \<and> (bp_events r = [] \<or> (\<exists>n. bp_events r = [metadata_only n e]))))"
proof -
  have ring: "ring_ok cfg size_of b" using bus_reach_ok [OF assms(1)] by (simp add: bus_ok_def)
  define lim where "lim = limit_value limit"
  define want where "want = filter (wanted cursor topics) (map fst (recent b))"
  define es where "es = take (nat lim) want"
  define nxt where "nxt = (if int (length es) \<ge> lim then num_or (last_offset es) cursor else max cursor (recent_last b))"
  define p where "p = \<lparr>page_cursor = cursor, page_next = nxt, page_events = es, page_revision = revision\<rparr>"
  have lim: "0 < lim" by (simp add: lim_def limit_value_pos)
  have ne: "recent b \<noteq> []" "ev_offset (fst (hd (recent b))) \<le> cursor + 1"
    using assms(2) by (auto simp: read_recent_def split: if_splits)
  have scan: "recent_scan cursor topics lim (recent b) [] = es"
    using recent_scan_spec [of "[]" lim cursor topics "recent b"] lim by (simp add: es_def want_def)
  have r: "r = bound_event_page size_of p (response_byte_limit cfg)"
    using assms(2) ne by (auto simp: read_recent_def scan lim_def [symmetric] Let_def p_def nxt_def split: if_splits)
  have sw: "sorted_wrt (\<lambda>a b. ev_offset a < ev_offset b) want"
    using ring_ascending [OF ring] by (simp add: want_def sorted_wrt_filter)
  have swe: "sorted_wrt (\<lambda>a b. ev_offset a < ev_offset b) es" using sw by (simp add: es_def sorted_wrt_take)
  have sub: "set es \<subseteq> set want" by (simp add: es_def set_take_subset)
  have upper: "ev_offset x \<le> recent_last b" if "x \<in> set want" for x
  proof -
    obtain y where "y \<in> set (recent b)" "x = fst y" using \<open>x \<in> set want\<close> by (auto simp: want_def)
    then have "ev_offset x \<in> set (map (ev_offset \<circ> fst) (recent b))" by force
    also have "\<dots> = {recent_last b - int (length (recent b)) + 1 .. recent_last b}"
      using ring by (simp only: ring_ok_def set_upto)
    finally show ?thesis by simp
  qed
  have gt: "cursor < ev_offset x" if "x \<in> set want" for x using \<open>x \<in> set want\<close> by (simp add: want_def wanted_def)
  have le_last: "ev_offset x \<le> last_offset es" if "x \<in> set es" for x
    using \<open>x \<in> set es\<close> swe by (cases es rule: rev_cases) (auto simp: last_offset_def sorted_wrt_append intro: less_imp_le)
  have full: "es \<noteq> [] \<and> nxt = last_offset es" if "int (length es) \<ge> lim"
  proof -
    have n: "es \<noteq> []" using that lim by auto
    then have "last es \<in> set want" using sub last_in_set [OF n] by blast
    then have "cursor < last_offset es" using n gt by (simp add: last_offset_def)
    then show ?thesis using n that assms(3) by (simp add: nxt_def num_or_def)
  qed
  have nxt: "cursor \<le> nxt" "\<forall>x \<in> set es. cursor < ev_offset x \<and> ev_offset x \<le> nxt" "nxt \<le> max cursor (recent_last b)"
  proof -
    show a: "\<forall>x \<in> set es. cursor < ev_offset x \<and> ev_offset x \<le> nxt"
      using gt sub le_last full upper by (cases "int (length es) \<ge> lim") (auto simp: nxt_def subset_iff intro: max.coboundedI2)
    show "cursor \<le> nxt"
    proof (cases "int (length es) \<ge> lim")
      case True
      then have "last es \<in> set es" "nxt = ev_offset (last es)" using full by (simp_all add: last_offset_def)
      then show ?thesis using a by fastforce
    qed (simp add: nxt_def)
    show "nxt \<le> max cursor (recent_last b)"
    proof (cases "int (length es) \<ge> lim")
      case True
      then have "last es \<in> set want" "nxt = ev_offset (last es)" using full sub by (auto simp: last_offset_def)
      then show ?thesis using upper [of "last es"] by simp
    qed (simp add: nxt_def)
  qed
  have np: "cursor \<le> bp_next r" "bp_next r \<le> nxt"
    using bound_event_page_next [of p "response_byte_limit cfg" size_of] assms(3,4) nxt by (simp_all add: p_def r)
  have asc: "ascending (page_cursor p) (page_events p)" using swe nxt(2) by (simp add: ascending_def p_def)
  have el: "ev_offset e \<le> recent_last b" using assms(8,9) np(2) nxt(3) by simp
  have low: "ev_offset (fst (hd (recent b))) \<le> ev_offset e" using ne(2) assms(8) by linarith
  have "e \<in> set (map fst (recent b))"
    by (rule ring_covers [OF ring assms(5) assms(6) assms(7) ne(1) low el])
  then have ew: "e \<in> set want" using assms(8,10) by (auto simp: want_def wanted_def)
  have "e \<in> set es"
  proof (cases "int (length es) \<ge> lim")
    case True
    from full [OF True] have "es \<noteq> []" "ev_offset e \<le> ev_offset (last es)"
      using assms(9) np(2) by (simp_all add: last_offset_def)
    then show ?thesis using take_filter_below [OF sw ew] unfolding es_def by blast
  next
    case False
    then have "es = want" by (simp add: es_def)
    then show ?thesis using ew by simp
  qed
  moreover have "\<forall>x \<in> set (page_events p). ev_offset x \<le> page_next p" using nxt(2) by (simp add: p_def)
  moreover have "0 \<le> page_cursor p" using assms(3) by (simp add: p_def)
  ultimately have "bp_bytes r \<le> response_byte_limit cfg"
    "e \<in> set (bp_events r) \<or> (response_byte_limit cfg < size_of e + 3 \<and> (bp_events r = [] \<or> (\<exists>n. bp_events r = [metadata_only n e])))"
    using bound_event_page_spec [OF asc _ assms(4), of size_of] assms(9) by (auto simp: r p_def)
  then show ?thesis using np(1) by blast
qed

definition demo_ring :: bus where
  "demo_ring = snd (publish_commit demo_bus_config (\<lambda>_. 10) ''t'' (Inr (demo_event 4)) new_bus)"

lemma demo_ring_reach: "bus_reach demo_bus_config (\<lambda>_. 10) demo_ring"
  unfolding demo_ring_def by (rule bus_reach.step [OF bus_reach.start bus_step.commit])

lemma demo_ring_recent: "recent demo_ring = [(demo_event 4, 10)]" "recent_last demo_ring = 4"
  by (simp_all add: demo_ring_def publish_commit_def append_recent_def demo_event_def new_bus_def demo_bus_config_def
      wake_subscribers_def Let_def)

theorem ring_read_complete_witness:
  "\<exists>r. read_recent demo_bus_config (\<lambda>_. 10) 3 [] None 0 demo_ring = Some r \<and> demo_event 4 \<in> set (bp_events r)"
proof -
  have o4: "ev_offset (demo_event 4) = 4" by (simp add: demo_event_def)
  obtain r where r: "read_recent demo_bus_config (\<lambda>_. 10) 3 [] None 0 demo_ring = Some r" "bp_next r = 4"
    by (auto simp: read_recent_def demo_ring_recent o4 limit_value_def bound_event_page_def demo_bus_config_def num_or_def)
  show ?thesis
    using ring_read_complete [OF demo_ring_reach r(1), of "{demo_event 4}" "demo_event 4"] r(1,2) o4
    by (simp add: demo_ring_recent) (simp add: demo_bus_config_def)
qed

section \<open>A failing revision check\<close>

text \<open>One pass of a subscription whose waiter is not woken by the ring and whose revision check fails.\<close>

definition failed_pass :: "bus_config \<Rightarrow> (event \<Rightarrow> nat) \<Rightarrow> int \<Rightarrow> subscription \<Rightarrow> bus_error \<Rightarrow> bus \<Rightarrow> bus" where
  "failed_pass cfg size_of now s err b =
     (case sub_register cfg size_of now False s b of
        None \<Rightarrow> b
      | Some (i, b1) \<Rightarrow> if w_scheduled (waiter_tab b1 i) then remove_waiter_index i b1 else snd (sub_revision_answer i (Inl err) s b1))"

lemma failed_pass_waiters:
  assumes "registry_ok b" "index_ok b" "timed_ok b" "\<not> bus_closed b" "now < sub_deadline s" "recent b = []"
  shows "registry_ok (failed_pass cfg size_of now s err b)" "index_ok (failed_pass cfg size_of now s err b)"
    "timed_ok (failed_pass cfg size_of now s err b)" "\<not> bus_closed (failed_pass cfg size_of now s err b)"
    "length (waiters (failed_pass cfg size_of now s err b)) = Suc (length (waiters b))"
    "recent (failed_pass cfg size_of now s err b) = []"
proof -
  define p where "p = min (sub_deadline s) (now + sub_poll s)"
  define r where "r = register_waiter (sub_topics s) (sub_deadline s) p b"
  have ok: "timed_ok (snd r)" "registry_ok (snd r)" "index_ok (snd r)"
      "waiters (snd r) = set_add (Suc (waiter_seq b)) (waiters b)"
    using register_ok [OF assms(3,1,2,4), where p = p and d = "sub_deadline s" and ts = "sub_topics s"] by (simp_all add: r_def p_def)
  have c: "\<not> bus_closed (snd r)" using assms(4) by (auto simp: r_def register_waiter_eq Let_def)
  have l: "length (waiters (snd r)) = Suc (length (waiters b))"
    using registry_fresh [OF assms(1)] by (simp add: ok(4) set_add_def)
  have rc: "recent (snd r) = []"
    using assms(6) by (simp add: r_def register_waiter_eq Let_def with_waiter_def add_waiter_index_def)
  have sch: "\<not> w_scheduled (waiter_tab (snd r) (fst r))"
    by (simp add: r_def register_waiter_eq Let_def)
  have f: "failed_pass cfg size_of now s err b = snd r"
    using assms(4,5) rc sch
    by (auto simp: failed_pass_def sub_register_def sub_revision_answer_def read_recent_def r_def p_def split: prod.splits)
  show "registry_ok (failed_pass cfg size_of now s err b)" "index_ok (failed_pass cfg size_of now s err b)"
    "timed_ok (failed_pass cfg size_of now s err b)" "\<not> bus_closed (failed_pass cfg size_of now s err b)"
    "length (waiters (failed_pass cfg size_of now s err b)) = Suc (length (waiters b))"
    "recent (failed_pass cfg size_of now s err b) = []"
    unfolding f using ok c l rc by auto
qed

text \<open>
  C38: a failing revision check leaks the waiter. When \<open>store.getRevision()\<close> rejects, \<open>subscribe\<close>
  throws without removing the waiter it registered: after \<open>n\<close> such subscriptions on a new bus
  \<open>n\<close> waiters are registered, the scheduler's runs do not remove them, and once \<open>n\<close> reaches the
  waiter limit every later subscription without an event returns at once instead of waiting.
\<close>

theorem revision_failure_leaks_waiters:
  fixes s :: subscription and cfg :: bus_config and size_of :: "event \<Rightarrow> nat" and err :: bus_error and n :: nat
  assumes "now < sub_deadline s"
  defines "b \<equiv> ((failed_pass cfg size_of now s err) ^^ n) new_bus"
  shows "length (waiters (run_scheduler later b)) = n
    \<and> (waiter_limit cfg \<le> n \<longrightarrow> sub_open cfg later aborted cursor topics limit timeout page (run_scheduler later b) = Returned page)"
proof -
  have "registry_ok (((failed_pass cfg size_of now s err) ^^ n) new_bus) \<and> index_ok (((failed_pass cfg size_of now s err) ^^ n) new_bus) \<and>
      timed_ok (((failed_pass cfg size_of now s err) ^^ n) new_bus) \<and> \<not> bus_closed (((failed_pass cfg size_of now s err) ^^ n) new_bus) \<and>
      recent (((failed_pass cfg size_of now s err) ^^ n) new_bus) = [] \<and>
      length (waiters (((failed_pass cfg size_of now s err) ^^ n) new_bus)) = n"
  proof (induction n)
    case 0
    then show ?case using new_bus_ok by (auto simp: bus_ok_def) (simp_all add: new_bus_def)
  next
    case (Suc n)
    then show ?case using failed_pass_waiters [OF _ _ _ _ assms(1)] by simp
  qed
  then have "length (waiters (run_scheduler later b)) = n" by (simp add: b_def run_scheduler_ok)
  then show ?thesis by (auto simp: sub_open_def Let_def)
qed

definition demo_sub :: subscription where
  "demo_sub = \<lparr>sub_cursor = 0, sub_topics = [''a''], sub_limit = None, sub_deadline = 100, sub_poll = 25, sub_revision = 0,
     sub_result = \<lparr>bp_cursor = 0, bp_events = [], bp_bytes = 2, bp_next = 0, bp_revision = 0\<rparr>\<rparr>"

theorem revision_failure_leaks_waiters_witness:
  "sub_open demo_bus_config 9000 False 0 [''a''] None (Some (ArgInt 30000)) (sub_result demo_sub)
     (run_scheduler 9000 (((failed_pass demo_bus_config (\<lambda>_. 10) 0 demo_sub (StoreFailed ''down'')) ^^ 2) new_bus))
   = Returned (sub_result demo_sub)"
  using revision_failure_leaks_waiters [where now = 0 and s = demo_sub and later = 9000 and cfg = demo_bus_config
      and size_of = "\<lambda>_. 10" and err = "StoreFailed ''down''" and n = 2]
  by (simp add: demo_sub_def demo_bus_config_def)

end
