(* ===== verification/StateMachineGuards.thy ===== *)
theory StateMachineGuards imports Prelude begin

text \<open>
  The guards of the workflow state machines: the registry of
  \<open>packages/foundation/src/workflow/state-machine/guards/guard-registry.ts\<close> and the evaluator of
  \<open>guard-evaluator.ts\<close>. A context is the properties of a plain object. Descriptions and message
  texts are left out; the further fields of a result are kept as its details. The registry is an
  ordinary object, so a lookup also reaches the names it inherits from \<open>Object.prototype\<close>; these
  carry no \<open>contextRequired\<close>, and iterating over it throws.
\<close>

section \<open>The registry\<close>

datatype risk = Low | Medium | High

datatype runtime_mode = StaticOnly | DeclaredOnly

record guard_def =
  gd_risk :: risk
  gd_required :: "string list"
  gd_mode :: "runtime_mode option"

definition guard_def_of :: "risk \<Rightarrow> string list \<Rightarrow> guard_def" where
  "guard_def_of r fs = \<lparr>gd_risk = r, gd_required = fs, gd_mode = None\<rparr>"

definition guard_registry :: "(string \<times> guard_def) list" where
  "guard_registry =
    [(''require_p0_passed_or_waived'', guard_def_of High [''readinessReport'']),
     (''require_baseline_v0_1_scopes_resolved'', guard_def_of Medium [''readinessReport'', ''scopeRegistry'']),
     (''require_architect_approval'', guard_def_of High [''approvalRecord'']),
     (''require_approval'', guard_def_of Medium [''approvalRecord'']),
     (''require_adoption_policy'', guard_def_of Medium [''adoptionPolicy'']),
     (''require_admin'', guard_def_of High [''subjectPermissions'']),
     (''policyAllowed'', guard_def_of High [''policyDecision'']),
     (''appendOnly'', guard_def_of High [''existingState'']),
     (''treeExists'', guard_def_of Low [''treeState'']),
     (''nodeExists'', guard_def_of Low [''nodeState'']),
     (''previewGenerated'', guard_def_of Low [''previewState'']),
     (''noApprovalRequired'', (guard_def_of Low [])\<lparr>gd_mode := Some StaticOnly\<rparr>),
     (''approvalApproved'', guard_def_of Medium [''approvalRecord'']),
     (''require_policy'', guard_def_of High [''policyDecision'']),
     (''require_ledger'', guard_def_of High [''operationRecord'']),
     (''require_audit'', guard_def_of Medium [''auditRecord''])]"

datatype guard_entry = OwnGuard guard_def | InheritedName | NoGuard

text \<open>\<open>STATE_MACHINE_GUARDS[guardId]\<close>.\<close>

definition registry_get :: "string \<Rightarrow> guard_entry" where
  "registry_get g =
     (case map_of guard_registry g of
        Some d \<Rightarrow> OwnGuard d
      | None \<Rightarrow> if g \<in> set prototype_names then InheritedName else NoGuard)"

definition guard_exists :: "string \<Rightarrow> bool" where
  "guard_exists g \<longleftrightarrow> registry_get g \<noteq> NoGuard"

definition list_all_guard_ids :: "string list" where
  "list_all_guard_ids = map fst guard_registry"

text \<open>An inherited name has no runtime mode, so it counts as runtime safe.\<close>

definition is_guard_runtime_safe :: "string \<Rightarrow> bool" where
  "is_guard_runtime_safe g \<longleftrightarrow>
     (case registry_get g of
        NoGuard \<Rightarrow> False
      | InheritedName \<Rightarrow> True
      | OwnGuard d \<Rightarrow> gd_mode d \<noteq> Some StaticOnly \<and> gd_mode d \<noteq> Some DeclaredOnly)"

definition list_all_runtime_guard_ids :: "string list" where
  "list_all_runtime_guard_ids =
     map fst (filter (\<lambda>(_, d). gd_mode d \<noteq> Some StaticOnly \<and> gd_mode d \<noteq> Some DeclaredOnly) guard_registry)"

definition is_static_only_guard :: "string \<Rightarrow> bool" where
  "is_static_only_guard g \<longleftrightarrow> (case registry_get g of OwnGuard d \<Rightarrow> gd_mode d = Some StaticOnly | _ \<Rightarrow> False)"

section \<open>Results and context access\<close>

type_synonym context_of = "(string \<times> jv) list"

record guard_result =
  gr_guard :: string
  gr_ok :: bool
  gr_reason :: "string option"
  gr_details :: "(string \<times> jv) list"

datatype guard_error = NotIterable

definition pass :: "string \<Rightarrow> string \<Rightarrow> guard_result" where
  "pass g reason = \<lparr>gr_guard = g, gr_ok = True, gr_reason = Some reason, gr_details = []\<rparr>"

definition fail :: "string \<Rightarrow> string \<Rightarrow> (string \<times> jv) list \<Rightarrow> guard_result" where
  "fail g reason details = \<lparr>gr_guard = g, gr_ok = False, gr_reason = Some reason, gr_details = details\<rparr>"

text \<open>\<open>asRecord(context[field])\<close> and \<open>asRecords(value)\<close>.\<close>

definition ctx_record :: "context_of \<Rightarrow> string \<Rightarrow> context_of" where
  "ctx_record ctx f = as_record (jget ctx f)"

definition as_records :: "jv \<Rightarrow> context_of list" where
  "as_records v = (case v of JArr xs \<Rightarrow> map as_record xs | _ \<Rightarrow> [])"

definition status_detail :: "string \<Rightarrow> context_of \<Rightarrow> (string \<times> jv) list" where
  "status_detail name r = [(name, JObj [(''status'', jget r ''status'')])]"

section \<open>The predicates\<close>

definition guard_policy :: "string \<Rightarrow> context_of \<Rightarrow> guard_result" where
  "guard_policy g ctx =
     (let p = ctx_record ctx ''policyDecision'';
          decision = js_or (jget p ''decision'') (jget p ''status'')
      in if jget p ''allowed'' = JBool True \<or> decision = JStr ''allow'' then pass g ''policy_allow''
         else fail g ''policy_not_allowed''
           [(''policyDecision'', JObj [(''allowed'', jget p ''allowed''), (''decision'', decision), (''status'', jget p ''status'')])])"

definition guard_approval :: "string \<Rightarrow> context_of \<Rightarrow> guard_result" where
  "guard_approval g ctx =
     (let a = ctx_record ctx ''approvalRecord''
      in if jget a ''status'' = JStr ''approved'' then pass g ''approval_approved''
         else fail g ''approval_not_approved'' (status_detail ''approvalRecord'' a))"

definition has_architect_role :: "context_of \<Rightarrow> bool" where
  "has_architect_role a \<longleftrightarrow>
     jget a ''role'' = JStr ''architect'' \<or> jget a ''approverRole'' = JStr ''architect'' \<or>
     jget a ''scope'' = JStr ''architect'' \<or> jget a ''type'' = JStr ''architect_approval'' \<or>
     jget a ''architectApproved'' = JBool True"

definition guard_architect :: "string \<Rightarrow> context_of \<Rightarrow> guard_result" where
  "guard_architect g ctx =
     (let a = ctx_record ctx ''approvalRecord''
      in if a = [] then fail g ''approval_missing'' []
         else if jget a ''status'' \<noteq> JStr ''approved'' then fail g ''architect_approval_not_approved'' (status_detail ''approvalRecord'' a)
         else if \<not> has_architect_role a then fail g ''not_architect_approval'' []
         else pass g ''architect_approved'')"

definition guard_admin :: "string \<Rightarrow> context_of \<Rightarrow> guard_result" where
  "guard_admin g ctx =
     (let s = ctx_record ctx ''subjectPermissions'';
          roles = (case jget s ''roles'' of JArr xs \<Rightarrow> xs | _ \<Rightarrow> [])
      in if jget s ''admin'' = JBool True \<or> JStr ''owner'' \<in> set roles then pass g ''admin_authorized''
         else fail g ''not_admin'' [])"

definition guard_append_only :: "string \<Rightarrow> context_of \<Rightarrow> guard_result" where
  "guard_append_only g ctx =
     (let e = ctx_record ctx ''existingState''
      in if jget ctx ''existingState'' = JUndef then fail g ''missing_context'' []
         else if jget e ''_deleted'' = JBool True \<or> jget e ''_overwritten'' = JBool True \<or>
           jget ctx ''operationType'' = JStr ''delete'' \<or> jget ctx ''operationType'' = JStr ''overwrite''
         then fail g ''not_append_only'' []
         else pass g ''append_only_allowed'')"

definition guard_entity_exists :: "string \<Rightarrow> string \<Rightarrow> string \<Rightarrow> string \<Rightarrow> context_of \<Rightarrow> guard_result" where
  "guard_entity_exists field missing found g ctx =
     (let t = ctx_record ctx field
      in if t = [] \<or> jget t ''status'' = JStr ''non-existent'' \<or> jget t ''deleted'' = JBool True then fail g missing []
         else pass g found)"

definition guard_tree_exists :: "string \<Rightarrow> context_of \<Rightarrow> guard_result" where
  "guard_tree_exists = guard_entity_exists ''treeState'' ''tree_not_found'' ''tree_exists''"

definition guard_node_exists :: "string \<Rightarrow> context_of \<Rightarrow> guard_result" where
  "guard_node_exists = guard_entity_exists ''nodeState'' ''node_not_found'' ''node_exists''"

definition guard_preview :: "string \<Rightarrow> context_of \<Rightarrow> guard_result" where
  "guard_preview g ctx =
     (if jget (ctx_record ctx ''previewState'') ''generated'' \<noteq> JBool True then fail g ''preview_not_generated'' []
      else pass g ''preview_generated'')"

definition guard_ledger :: "string \<Rightarrow> context_of \<Rightarrow> guard_result" where
  "guard_ledger g ctx =
     (let r = ctx_record ctx ''operationRecord'';
          status = jget r ''status''
      in if r = [] then fail g ''ledger_missing'' []
         else if status \<noteq> JStr ''started'' \<and> status \<noteq> JStr ''completed'' \<and> status \<noteq> JStr ''active''
         then fail g ''ledger_not_acceptable'' (status_detail ''operationRecord'' r)
         else pass g ''ledger_acceptable'')"

definition guard_audit :: "string \<Rightarrow> context_of \<Rightarrow> guard_result" where
  "guard_audit g ctx =
     (let r = ctx_record ctx ''auditRecord'';
          status = jget r ''status''
      in if r = [] then fail g ''audit_missing'' []
         else if status = JStr ''rejected'' \<or> status = JStr ''deleted'' \<or> status = JStr ''corrupted''
         then fail g ''audit_not_acceptable'' (status_detail ''auditRecord'' r)
         else pass g ''audit_acceptable'')"

definition guard_adoption :: "string \<Rightarrow> context_of \<Rightarrow> guard_result" where
  "guard_adoption g ctx =
     (let a = ctx_record ctx ''adoptionPolicy''
      in if a = [] then fail g ''adoption_policy_missing'' []
         else if jget a ''compliant'' \<noteq> JBool True then fail g ''adoption_not_compliant'' []
         else pass g ''adoption_compliant'')"

definition scope_failed :: "string \<Rightarrow> context_of \<Rightarrow> bool" where
  "scope_failed flag scope \<longleftrightarrow>
     jget scope flag = JBool True \<and>
     js_string (js_or (jget scope ''status'') (JStr [])) \<notin> {''passed'', ''waived''}"

definition scope_ids :: "string \<Rightarrow> context_of list \<Rightarrow> (string \<times> jv) list" where
  "scope_ids name scopes = [(name, JArr (map (\<lambda>s. jget s ''scopeId'') scopes))]"

definition guard_p0 :: "string \<Rightarrow> context_of \<Rightarrow> guard_result" where
  "guard_p0 g ctx =
     (let failed = filter (scope_failed ''productionRequired'') (as_records (jget (ctx_record ctx ''readinessReport'') ''scopes''))
      in if failed \<noteq> [] then fail g ''p0_scope_not_passed_or_waived'' (scope_ids ''failedScopes'' failed)
         else pass g ''p0_passed_or_waived'')"

definition guard_baseline :: "string \<Rightarrow> context_of \<Rightarrow> guard_result" where
  "guard_baseline g ctx =
     (let scopes = as_records (jget (ctx_record ctx ''readinessReport'') ''scopes'');
          failed = filter (scope_failed ''baselineV0_1Required'') scopes;
          unclassified = filter (\<lambda>s. \<not> truthy (jget s ''status'')) scopes
      in if failed \<noteq> [] then fail g ''baseline_scope_not_passed'' (scope_ids ''failedScopes'' failed)
         else if unclassified \<noteq> [] then fail g ''scope_unclassified'' (scope_ids ''unclassifiedScopes'' unclassified)
         else pass g ''baseline_resolved'')"

definition guard_predicates :: "(string \<times> (string \<Rightarrow> context_of \<Rightarrow> guard_result)) list" where
  "guard_predicates =
    [(''policyAllowed'', guard_policy), (''require_policy'', guard_policy),
     (''approvalApproved'', guard_approval), (''require_approval'', guard_approval),
     (''require_architect_approval'', guard_architect), (''require_admin'', guard_admin),
     (''appendOnly'', guard_append_only), (''treeExists'', guard_tree_exists), (''nodeExists'', guard_node_exists),
     (''previewGenerated'', guard_preview), (''require_ledger'', guard_ledger), (''require_audit'', guard_audit),
     (''require_adoption_policy'', guard_adoption), (''noApprovalRequired'', \<lambda>g _. pass g ''no_approval_required''),
     (''require_p0_passed_or_waived'', guard_p0), (''require_baseline_v0_1_scopes_resolved'', guard_baseline)]"

text \<open>\<open>evaluateGuardPredicate\<close>: the switch over the guard ids.\<close>

definition evaluate_predicate :: "string \<Rightarrow> context_of \<Rightarrow> guard_result" where
  "evaluate_predicate g ctx =
     (case map_of guard_predicates g of Some f \<Rightarrow> f g ctx | None \<Rightarrow> fail g ''no_runtime_predicate'' [])"

section \<open>Evaluation\<close>

definition evaluate_guard :: "jv \<Rightarrow> context_of \<Rightarrow> guard_error + guard_result" where
  "evaluate_guard guard_id ctx =
     (let g = js_string (js_or guard_id (JStr []))
      in case registry_get g of
           NoGuard \<Rightarrow> Inr (fail g ''unknown_guard'' [])
         | InheritedName \<Rightarrow> Inl NotIterable
         | OwnGuard d \<Rightarrow>
             if list_ex (\<lambda>f. jget ctx f = JUndef) (gd_required d) then Inr (fail g ''missing_context'' [])
             else if \<not> is_guard_runtime_safe g
             then Inr (fail g (if gd_mode d = Some StaticOnly then ''static_only_guard'' else ''no_runtime_predicate'') [])
             else Inr (evaluate_predicate g ctx))"

fun evaluate_guard_set :: "jv list \<Rightarrow> context_of \<Rightarrow> guard_error + guard_result list" where
  "evaluate_guard_set [] ctx = Inr []"
| "evaluate_guard_set (g # gs) ctx =
     ebind (evaluate_guard g ctx) (\<lambda>r. ebind (evaluate_guard_set gs ctx) (\<lambda>rs. Inr (r # rs)))"

section \<open>Facts\<close>

lemmas guard_predicate_defs = guard_approval_def guard_architect_def guard_append_only_def
  guard_tree_exists_def guard_node_exists_def guard_entity_exists_def guard_preview_def guard_ledger_def guard_audit_def
  guard_adoption_def guard_p0_def guard_baseline_def

lemma pass_fail [simp]:
  "gr_ok (pass g r)" "\<not> gr_ok (fail g r d)" "gr_guard (pass g r) = g" "gr_guard (fail g r d) = g"
  by (simp_all add: pass_def fail_def)

lemma evaluate_guard_set_spec:
  "evaluate_guard_set gs ctx = Inr rs \<Longrightarrow>
     length rs = length gs \<and> (\<forall>i < length gs. evaluate_guard (gs ! i) ctx = Inr (rs ! i))"
proof (induction gs arbitrary: rs)
  case (Cons g gs)
  then obtain r rs' where r: "evaluate_guard g ctx = Inr r" "evaluate_guard_set gs ctx = Inr rs'" "rs = r # rs'"
    by (auto simp: ebind_Inr_iff)
  show ?case using Cons.IH [OF r(2)] r by (auto simp: nth_Cons split: nat.splits)
qed simp

text \<open>The registry and the switch agree: every registered guard has a predicate.\<close>

lemma registry_predicates: "\<forall>g \<in> set list_all_guard_ids. map_of guard_predicates g \<noteq> None"
  by (simp add: list_all_guard_ids_def guard_registry_def guard_predicates_def)

text \<open>The evidence a passing guard rests on.\<close>

definition evidence :: "string \<Rightarrow> context_of \<Rightarrow> bool" where
  "evidence g ctx \<longleftrightarrow>
     (g \<in> {''policyAllowed'', ''require_policy''} \<longrightarrow>
        (\<exists>k \<in> {''allowed'', ''decision'', ''status''}.
           jget (ctx_record ctx ''policyDecision'') k \<in> {JBool True, JStr ''allow''})) \<and>
     (g \<in> {''approvalApproved'', ''require_approval'', ''require_architect_approval''} \<longrightarrow>
        jget (ctx_record ctx ''approvalRecord'') ''status'' = JStr ''approved'') \<and>
     (g = ''require_architect_approval'' \<longrightarrow> has_architect_role (ctx_record ctx ''approvalRecord'')) \<and>
     (g = ''require_admin'' \<longrightarrow>
        jget (ctx_record ctx ''subjectPermissions'') ''admin'' = JBool True \<or>
        (\<exists>xs. jget (ctx_record ctx ''subjectPermissions'') ''roles'' = JArr xs \<and> JStr ''owner'' \<in> set xs)) \<and>
     (g = ''appendOnly'' \<longrightarrow> jget ctx ''operationType'' \<notin> {JStr ''delete'', JStr ''overwrite''}) \<and>
     (g = ''require_audit'' \<longrightarrow> ctx_record ctx ''auditRecord'' \<noteq> []) \<and>
     (g = ''require_ledger'' \<longrightarrow>
        jget (ctx_record ctx ''operationRecord'') ''status'' \<in> {JStr ''started'', JStr ''completed'', JStr ''active''}) \<and>
     (g = ''require_p0_passed_or_waived'' \<longrightarrow>
        (\<forall>s \<in> set (as_records (jget (ctx_record ctx ''readinessReport'') ''scopes'')). \<not> scope_failed ''productionRequired'' s))"

lemma js_or_allow: "js_or a b = JStr ''allow'' \<Longrightarrow> a = JStr ''allow'' \<or> b = JStr ''allow''"
  by (auto simp: js_or_def split: if_splits)

lemma policy_evidence:
  "gr_ok (guard_policy g ctx) \<Longrightarrow>
     \<exists>k \<in> {''allowed'', ''decision'', ''status''}. jget (ctx_record ctx ''policyDecision'') k \<in> {JBool True, JStr ''allow''}"
  by (auto simp: guard_policy_def Let_def split: if_splits dest: js_or_allow)

lemma admin_evidence:
  "gr_ok (guard_admin g ctx) \<Longrightarrow>
     jget (ctx_record ctx ''subjectPermissions'') ''admin'' = JBool True \<or>
     (\<exists>xs. jget (ctx_record ctx ''subjectPermissions'') ''roles'' = JArr xs \<and> JStr ''owner'' \<in> set xs)"
  by (auto simp: guard_admin_def Let_def split: if_splits jv.splits)

lemma registered_cases:
  "map_of guard_registry g = Some d \<Longrightarrow> (g, d) \<in> set guard_registry"
  by (rule map_of_SomeD)

lemma predicate_evidence:
  assumes "(g, d) \<in> set guard_registry" and "gr_ok (evaluate_predicate g ctx)"
  shows "evidence g ctx"
proof -
  have "g \<in> set list_all_guard_ids" using assms(1) by (force simp: list_all_guard_ids_def)
  then show ?thesis
    unfolding list_all_guard_ids_def guard_registry_def list.map fst_conv set_simps insert_iff empty_iff
    using assms(2) policy_evidence [of g ctx] admin_evidence [of g ctx]
    by (elim disjE) (simp_all add: evaluate_predicate_def guard_predicates_def evidence_def guard_predicate_defs Let_def
        filter_empty_conv split: if_splits jv.splits)
qed

text \<open>
  Guards fail closed. When a guard passes, its id names a registered guard that may gate a
  running transition, every context field it declares is present (so an empty context passes
  nothing), and the evidence it is named for is there: an allow for a policy guard, an approved
  record for an approval guard, an architect's for the architect guard, an admin flag or owner
  role for the admin guard, a started, completed or active entry for the ledger guard, no failed
  production scope for the P0 guard.
\<close>

theorem guards_fail_closed:
  assumes "evaluate_guard guard_id ctx = Inr r" and "gr_ok r"
  defines "g \<equiv> js_string (js_or guard_id (JStr []))"
  shows "g \<in> set list_all_runtime_guard_ids \<and> ctx \<noteq> [] \<and> evidence g ctx
    \<and> (\<exists>d. map_of guard_registry g = Some d \<and> list_all (\<lambda>f. jget ctx f \<noteq> JUndef) (gd_required d))"
proof -
  obtain d where d: "map_of guard_registry g = Some d" "\<not> list_ex (\<lambda>f. jget ctx f = JUndef) (gd_required d)"
      "is_guard_runtime_safe g" "r = evaluate_predicate g ctx"
    using assms(1,2) by (auto simp: evaluate_guard_def Let_def g_def registry_get_def split: option.splits guard_entry.splits if_splits)
  note mem = registered_cases [OF d(1)]
  have safe: "gd_mode d = None"
    using d(1,3) by (cases "gd_mode d") (auto simp: is_guard_runtime_safe_def registry_get_def intro: runtime_mode.exhaust)
  then have run: "g \<in> set list_all_runtime_guard_ids" using mem by (force simp: list_all_runtime_guard_ids_def)
  have "gd_required d \<noteq> []" using mem safe by (auto simp: guard_registry_def guard_def_of_def)
  then have "ctx \<noteq> []" using d(2) by (cases "gd_required d") (auto simp: jget_def)
  moreover have "list_all (\<lambda>f. jget ctx f \<noteq> JUndef) (gd_required d)" using d(2) by (simp add: list_ex_iff list_all_iff)
  ultimately show ?thesis using run d(1,4) assms(2) predicate_evidence [OF mem] by blast
qed

theorem guards_fail_closed_witness:
  "evidence ''require_approval'' [(''approvalRecord'', JObj [(''status'', JStr ''approved'')])]"
proof -
  have e: "evaluate_guard (JStr ''require_approval'') [(''approvalRecord'', JObj [(''status'', JStr ''approved'')])]
      = Inr (pass ''require_approval'' ''approval_approved'')"
    by code_simp
  show ?thesis using guards_fail_closed [OF e] by (simp add: js_or_def)
qed

text \<open>An id that \<open>Object.prototype\<close> defines is neither refused nor evaluated: evaluation throws.\<close>

lemma inherited_guard_throws:
  "js_string (js_or guard_id (JStr [])) \<in> set prototype_names \<Longrightarrow> evaluate_guard guard_id ctx = Inl NotIterable"
  by (auto simp: evaluate_guard_def registry_get_def prototype_names_def guard_registry_def)

text \<open>A readiness report that is null, or holds no list of scopes, passes the P0 guard.\<close>

lemma empty_report_passes_p0:
  assumes "jget ctx ''readinessReport'' \<noteq> JUndef" and "as_records (jget (ctx_record ctx ''readinessReport'') ''scopes'') = []"
  shows "evaluate_guard (JStr ''require_p0_passed_or_waived'') ctx = Inr (pass ''require_p0_passed_or_waived'' ''p0_passed_or_waived'')"
  using assms
  by (simp add: evaluate_guard_def js_or_def registry_get_def guard_registry_def guard_def_of_def is_guard_runtime_safe_def
      evaluate_predicate_def guard_predicates_def guard_p0_def)

end
