(* ===== verification/Machine.thy ===== *)
theory Machine imports StateMachineGuards begin

text \<open>
  The data of a workflow state machine, as
  \<open>packages/foundation/src/workflow/state-machine/verification/state-machine-definition-schema.ts\<close>
  and \<open>engine/state-machine-result-types.ts\<close> declare it: states, events, and the transition
  matrix whose cells name a result, optional target and guards. An absent list of strings and an
  empty one are the same here, since every reader writes \<open>cell.guards || []\<close>.
\<close>

datatype transition_result =
    LegalTransition | IllegalTransition | IgnoredIdempotent | RequiresPolicy | RequiresApproval | RequiresReceipt | DeferredAsync

fun result_value :: "transition_result \<Rightarrow> string" where
  "result_value LegalTransition = ''legal_transition''"
| "result_value IllegalTransition = ''illegal_transition''"
| "result_value IgnoredIdempotent = ''ignored_idempotent_event''"
| "result_value RequiresPolicy = ''requires_policy''"
| "result_value RequiresApproval = ''requires_approval''"
| "result_value RequiresReceipt = ''requires_external_receipt''"
| "result_value DeferredAsync = ''deferred_async_transition''"

definition valid_results :: "transition_result list" where
  "valid_results = [LegalTransition, IllegalTransition, IgnoredIdempotent, RequiresPolicy, RequiresApproval, RequiresReceipt, DeferredAsync]"

definition reachable_results :: "transition_result list" where
  "reachable_results = [LegalTransition, RequiresPolicy, RequiresApproval, RequiresReceipt, DeferredAsync]"

definition protection_results :: "transition_result list" where
  "protection_results = [RequiresPolicy, RequiresApproval, RequiresReceipt, DeferredAsync]"

record sm_state =
  ss_id :: string
  ss_terminal :: bool
  ss_external :: bool
  ss_waiting :: bool
  ss_passive :: bool

record sm_event =
  sv_id :: string
  sv_idempotent :: bool
  sv_risk :: "string option"

record cell =
  c_from :: string
  c_event :: string
  c_result :: transition_result
  c_to :: "string option"
  c_error :: "string option"
  c_reopen :: bool
  c_guards :: "string list"
  c_required :: "string list"
  c_effects :: "string list"
  c_obligations :: "string list"

record proof_mapping =
  pm_obligation :: string
  pm_method :: string
  pm_params :: "(string \<times> jv) list"

record machine =
  m_id :: string
  m_entity :: string
  m_version :: string
  m_description :: string
  m_initial :: string
  m_states :: "sm_state list"
  m_events :: "sm_event list"
  m_matrix :: "cell list"
  m_invariants :: "string list"
  m_obligations :: "string list"
  m_mappings :: "proof_mapping list"
  m_registry_refs :: "string list"
  m_terminal_events :: "string list"

text \<open>\<open>cell.to || fallback\<close>: an empty target counts as none.\<close>

definition to_or :: "string \<Rightarrow> string option \<Rightarrow> string" where
  "to_or fallback t = (case t of None \<Rightarrow> fallback | Some s \<Rightarrow> if s = [] then fallback else s)"

definition all_guards :: "cell \<Rightarrow> string list" where
  "all_guards c = c_guards c @ c_required c"

text \<open>\<open>listAllowedEvents\<close>, which the engine, the selector and the facade each repeat.\<close>

definition list_allowed_events :: "machine \<Rightarrow> string \<Rightarrow> string list" where
  "list_allowed_events m status =
     map c_event (filter (\<lambda>c. c_from c = status \<and> c_result c \<noteq> IllegalTransition) (m_matrix m))"

definition state_ids :: "machine \<Rightarrow> string set" where
  "state_ids m = ss_id ` set (m_states m)"

definition event_ids :: "machine \<Rightarrow> string set" where
  "event_ids m = sv_id ` set (m_events m)"

lemma valid_results_all: "r \<in> set valid_results"
  by (cases r) (simp_all add: valid_results_def)

lemma result_value_inj: "result_value a = result_value b \<longleftrightarrow> a = b"
  by (cases a; cases b) simp_all

end
