(* ===== verification/TransitionSelector.thy ===== *)
theory TransitionSelector imports Machine begin

text \<open>
  The choice of a transition, \<open>engine/transition-selector.ts\<close>: of the matrix cells for a status
  and an event, the one whose guards pass. The shape checks of \<open>definitionFrom\<close> and \<open>inputFrom\<close>
  hold by typing; message texts are left out. A custom guard evaluator is a parameter that may
  return any value.
\<close>

section \<open>Evaluating the guards of a cell\<close>

type_synonym guard_evaluator = "string list \<Rightarrow> context_of \<Rightarrow> jv"

text \<open>\<open>guardResultsFrom\<close>: items without a string id and a boolean outcome are dropped.\<close>

definition guard_results_from :: "jv \<Rightarrow> guard_result list" where
  "guard_results_from v =
     (case v of
        JArr xs \<Rightarrow>
          concat (map (\<lambda>x. case x of
              JObj ps \<Rightarrow>
                (case (jget ps ''guardId'', jget ps ''ok'') of
                   (JStr g, JBool b) \<Rightarrow>
                     [\<lparr>gr_guard = g, gr_ok = b,
                       gr_reason = (case jget ps ''reason'' of JStr r \<Rightarrow> Some r | _ \<Rightarrow> None), gr_details = ps\<rparr>]
                 | _ \<Rightarrow> [])
            | _ \<Rightarrow> []) xs)
      | _ \<Rightarrow> [])"

record cell_guard_result =
  cg_ok :: bool
  cg_results :: "guard_result list"
  cg_failed :: "string list"
  cg_blocked :: "string option"

definition cell_results_of :: "guard_result list \<Rightarrow> cell_guard_result" where
  "cell_results_of rs =
     (let failed = filter (\<lambda>r. \<not> gr_ok r) rs
      in \<lparr>cg_ok = (failed = []), cg_results = rs, cg_failed = map gr_guard failed,
          cg_blocked = (if failed = [] then None else Some ''guard'')\<rparr>)"

definition evaluate_cell_guards :: "guard_evaluator option \<Rightarrow> cell \<Rightarrow> context_of \<Rightarrow> guard_error + cell_guard_result" where
  "evaluate_cell_guards evaluator c ctx =
     (if all_guards c = [] then Inr \<lparr>cg_ok = True, cg_results = [], cg_failed = [], cg_blocked = None\<rparr>
      else
        (case evaluator of
           Some f \<Rightarrow> Inr (cell_results_of (guard_results_from (f (all_guards c) ctx)))
         | None \<Rightarrow> ebind (evaluate_guard_set (map JStr (all_guards c)) ctx) (\<lambda>rs. Inr (cell_results_of rs))))"

section \<open>Classifying failures\<close>

record classification =
  cl_unknown :: "string list"
  cl_missing :: "string list"
  cl_blocked :: "string list"

definition classify_failed :: "guard_result list \<Rightarrow> classification" where
  "classify_failed rs =
     (let failed = filter (\<lambda>r. \<not> gr_ok r) rs
      in \<lparr>cl_unknown = map gr_guard (filter (\<lambda>r. gr_reason r = Some ''unknown_guard'') failed),
          cl_missing = map gr_guard (filter (\<lambda>r. gr_reason r = Some ''missing_context'') failed),
          cl_blocked = map gr_guard (filter (\<lambda>r. gr_reason r \<noteq> Some ''unknown_guard'' \<and> gr_reason r \<noteq> Some ''missing_context'') failed)\<rparr>)"

fun classify_code :: "guard_result list \<Rightarrow> string" where
  "classify_code [] = ''STATE_MACHINE_GUARD_BLOCKED''"
| "classify_code (g # gs) =
     (if gr_ok g then classify_code gs
      else if gr_reason g = Some ''unknown_guard'' \<or> gr_reason g = Some ''no_runtime_predicate'' then ''STATE_MACHINE_GUARD_UNKNOWN''
      else if gr_reason g = Some ''missing_context'' then ''STATE_MACHINE_GUARD_CONTEXT_MISSING''
      else classify_code gs)"

definition guard_summary :: "guard_result list \<Rightarrow> guard_result list option" where
  "guard_summary rs = (if rs = [] then None else Some (map (\<lambda>r. r\<lparr>gr_details := []\<rparr>) rs))"

section \<open>Selection\<close>

record selection =
  sel_ok :: bool
  sel_cell :: "cell option"
  sel_results :: "guard_result list option"
  sel_failed :: "string list option"
  sel_blocked :: "string option"
  sel_code :: "string option"
  sel_allowed :: "string list option"
  sel_ambiguous :: "string list option"

definition selected :: "cell \<Rightarrow> guard_result list \<Rightarrow> selection" where
  "selected c rs = \<lparr>sel_ok = True, sel_cell = Some c, sel_results = Some rs, sel_failed = None, sel_blocked = None,
     sel_code = None, sel_allowed = None, sel_ambiguous = None\<rparr>"

definition refused :: "string \<Rightarrow> selection" where
  "refused code = \<lparr>sel_ok = False, sel_cell = None, sel_results = None, sel_failed = None, sel_blocked = None,
     sel_code = Some code, sel_allowed = None, sel_ambiguous = None\<rparr>"

definition cell_id :: "cell \<Rightarrow> string" where
  "cell_id c = c_from c @ ''-'' @ c_event c @ ''-'' @ to_or ''self'' (c_to c)"

fun evaluate_cells :: "guard_evaluator option \<Rightarrow> context_of \<Rightarrow> cell list \<Rightarrow> guard_error + (cell \<times> cell_guard_result) list" where
  "evaluate_cells evaluator ctx [] = Inr []"
| "evaluate_cells evaluator ctx (c # cs) =
     ebind (evaluate_cell_guards evaluator c ctx) (\<lambda>r.
       ebind (evaluate_cells evaluator ctx cs) (\<lambda>rs. Inr ((c, r) # rs)))"

text \<open>The single matching cell.\<close>

definition select_single :: "guard_evaluator option \<Rightarrow> machine \<Rightarrow> string \<Rightarrow> context_of \<Rightarrow> cell \<Rightarrow> guard_error + selection" where
  "select_single evaluator m status ctx c =
     (if c_result c = IllegalTransition
      then Inr ((refused (str_or (or_else [] (c_error c)) ''STATE_MACHINE_TRANSITION_NOT_ALLOWED''))
        \<lparr>sel_cell := Some c, sel_allowed := Some (list_allowed_events m status)\<rparr>)
      else if all_guards c \<noteq> [] then
        ebind (evaluate_cell_guards evaluator c ctx) (\<lambda>g.
          if \<not> cg_ok g
          then Inr ((refused (classify_code (cg_results g)))
            \<lparr>sel_results := Some (cg_results g), sel_failed := Some (cg_failed g), sel_blocked := cg_blocked g,
             sel_allowed := Some (list_allowed_events m status)\<rparr>)
          else Inr (selected c (cg_results g)))
      else Inr (selected c []))"

text \<open>No cell passed: the failures of all of them decide the code.\<close>

definition all_blocked :: "machine \<Rightarrow> string \<Rightarrow> (cell \<times> cell_guard_result) list \<Rightarrow> selection" where
  "all_blocked m status evaluated =
     (let failed = concat (map (cg_failed \<circ> snd) evaluated);
          flat = concat (map (cg_results \<circ> snd) evaluated);
          cl = classify_failed flat;
          blocked = (\<lambda>code gs. (refused code)\<lparr>sel_blocked := Some ''guard'', sel_failed := Some gs,
             sel_allowed := Some (list_allowed_events m status), sel_results := guard_summary flat\<rparr>)
      in if cl_unknown cl \<noteq> [] then blocked ''STATE_MACHINE_GUARD_UNKNOWN'' (cl_unknown cl)
         else if cl_missing cl \<noteq> [] then blocked ''STATE_MACHINE_GUARD_CONTEXT_MISSING'' (cl_missing cl)
         else blocked ''STATE_MACHINE_GUARD_BLOCKED'' failed)"

definition select_multiple :: "guard_evaluator option \<Rightarrow> machine \<Rightarrow> string \<Rightarrow> context_of \<Rightarrow> cell list \<Rightarrow> guard_error + selection" where
  "select_multiple evaluator m status ctx matching =
     (let eligible = filter (\<lambda>c. c_result c \<noteq> IllegalTransition) matching;
          guarded = filter (\<lambda>c. c_guards c \<noteq> [] \<or> c_required c \<noteq> []) eligible;
          unguarded = filter (\<lambda>c. c_guards c = [] \<and> c_required c = []) eligible
      in if eligible = []
         then Inr ((refused ''STATE_MACHINE_TRANSITION_NOT_ALLOWED'')\<lparr>sel_allowed := Some (list_allowed_events m status)\<rparr>)
         else if length unguarded > 1 then Inr (refused ''STATE_MACHINE_AMBIGUOUS_TRANSITION'')
         else if length unguarded = 1 \<and> guarded = [] then Inr (selected (hd unguarded) [])
         else
           ebind (evaluate_cells evaluator ctx eligible) (\<lambda>evaluated.
             let passed = filter (cg_ok \<circ> snd) evaluated
             in if passed = [] then Inr (all_blocked m status evaluated)
                else if length passed > 1
                then Inr ((refused ''STATE_MACHINE_AMBIGUOUS_TRANSITION'')\<lparr>sel_ambiguous := Some (map (cell_id \<circ> fst) passed)\<rparr>)
                else Inr (selected (fst (hd passed)) (concat (map (cg_results \<circ> snd) passed)))))"

definition matching_cells :: "machine \<Rightarrow> string \<Rightarrow> string \<Rightarrow> cell list" where
  "matching_cells m status event = filter (\<lambda>c. c_from c = status \<and> c_event c = event) (m_matrix m)"

definition select_transition_cell :: "guard_evaluator option \<Rightarrow> machine \<Rightarrow> string \<Rightarrow> string \<Rightarrow> context_of \<Rightarrow> guard_error + selection" where
  "select_transition_cell evaluator m status event ctx =
     (case matching_cells m status event of
        [] \<Rightarrow> Inr ((refused ''STATE_MACHINE_TRANSITION_NOT_ALLOWED'')\<lparr>sel_allowed := Some (list_allowed_events m status)\<rparr>)
      | [c] \<Rightarrow> select_single evaluator m status ctx c
      | cs \<Rightarrow> select_multiple evaluator m status ctx cs)"

record guard_evaluation =
  ge_ok :: bool
  ge_results :: "guard_result list option"
  ge_failed :: "string list option"
  ge_blocked :: "string option"
  ge_code :: "string option"

text \<open>\<open>evaluateTransitionGuardsForValidatedDefinition\<close>; its reason is the code in lower case
  without the prefix, kept as the code here.\<close>

definition evaluate_transition_guards :: "machine \<Rightarrow> string \<Rightarrow> string \<Rightarrow> context_of \<Rightarrow> guard_error + guard_evaluation" where
  "evaluate_transition_guards m status event ctx =
     ebind (select_transition_cell None m status event ctx) (\<lambda>r.
       if \<not> sel_ok r
       then Inr \<lparr>ge_ok = False, ge_results = sel_results r, ge_failed = sel_failed r, ge_blocked = sel_blocked r, ge_code = sel_code r\<rparr>
       else Inr \<lparr>ge_ok = True, ge_results = Some (or_else [] (sel_results r)), ge_failed = None, ge_blocked = None, ge_code = None\<rparr>)"

section \<open>What selection decides\<close>

text \<open>A cell is enabled when it is not illegal and its guards pass.\<close>

definition enabled :: "guard_evaluator option \<Rightarrow> context_of \<Rightarrow> cell \<Rightarrow> bool" where
  "enabled evaluator ctx c \<longleftrightarrow>
     c_result c \<noteq> IllegalTransition \<and>
     (case evaluate_cell_guards evaluator c ctx of Inr g \<Rightarrow> cg_ok g | Inl _ \<Rightarrow> False)"

definition enabled_cells :: "guard_evaluator option \<Rightarrow> machine \<Rightarrow> string \<Rightarrow> string \<Rightarrow> context_of \<Rightarrow> cell list" where
  "enabled_cells evaluator m status event ctx = filter (enabled evaluator ctx) (matching_cells m status event)"

lemma refused_simps [simp]:
  "\<not> sel_ok (refused code)" "sel_cell (refused code) = None" "sel_code (refused code) = Some code"
  by (simp_all add: refused_def)

lemma selected_simps [simp]: "sel_ok (selected c rs)" "sel_cell (selected c rs) = Some c"
  by (simp_all add: selected_def)

lemma evaluate_cells_spec:
  "evaluate_cells evaluator ctx cs = Inr evaluated \<Longrightarrow>
     map fst evaluated = cs \<and> (\<forall>(c, g) \<in> set evaluated. evaluate_cell_guards evaluator c ctx = Inr g)"
proof (induction cs arbitrary: evaluated)
  case (Cons c cs)
  then obtain g rs where "evaluate_cell_guards evaluator c ctx = Inr g" "evaluate_cells evaluator ctx cs = Inr rs"
    "evaluated = (c, g) # rs" by (auto simp: ebind_Inr_iff)
  then show ?case using Cons.IH [of rs] by auto
qed simp

lemma evaluate_cells_passed:
  assumes "evaluate_cells evaluator ctx cs = Inr evaluated" and "\<forall>c \<in> set cs. c_result c \<noteq> IllegalTransition"
  shows "map fst (filter (cg_ok \<circ> snd) evaluated) = filter (enabled evaluator ctx) cs"
  using assms
proof (induction cs arbitrary: evaluated)
  case (Cons c cs)
  then obtain g rs where "evaluate_cell_guards evaluator c ctx = Inr g" "evaluate_cells evaluator ctx cs = Inr rs"
    "evaluated = (c, g) # rs" by (auto simp: ebind_Inr_iff)
  then show ?case using Cons.IH [of rs] Cons.prems(2) by (simp add: enabled_def)
qed simp

lemma enabled_unguarded: "all_guards c = [] \<Longrightarrow> enabled evaluator ctx c \<longleftrightarrow> c_result c \<noteq> IllegalTransition"
  by (simp add: enabled_def evaluate_cell_guards_def)

lemma select_single_enabled:
  assumes "select_single evaluator m status ctx c = Inr r"
  shows "(sel_ok r \<longleftrightarrow> enabled evaluator ctx c) \<and> (sel_ok r \<longrightarrow> sel_cell r = Some c)"
  using assms
  by (cases "all_guards c = []")
    (auto simp: select_single_def enabled_unguarded ebind_Inr_iff enabled_def evaluate_cell_guards_def
      selected_def refused_def split: if_splits)

lemma length_filter_mono: "(\<And>x. x \<in> set xs \<Longrightarrow> P x \<Longrightarrow> Q x) \<Longrightarrow> length (filter P xs) \<le> length (filter Q xs)"
  by (induction xs) auto

lemma select_multiple_enabled:
  assumes "select_multiple evaluator m status ctx cs = Inr r"
  defines "es \<equiv> filter (enabled evaluator ctx) cs"
  shows "(sel_ok r \<longleftrightarrow> length es = 1) \<and> (sel_ok r \<longrightarrow> sel_cell r = Some (hd es)) \<and>
     (1 < length es \<longrightarrow> sel_code r = Some ''STATE_MACHINE_AMBIGUOUS_TRANSITION'')"
proof -
  define eligible where "eligible = filter (\<lambda>c. c_result c \<noteq> IllegalTransition) cs"
  define unguarded where "unguarded = filter (\<lambda>c. c_guards c = [] \<and> c_required c = []) eligible"
  define guarded where "guarded = filter (\<lambda>c. c_guards c \<noteq> [] \<or> c_required c \<noteq> []) eligible"
  have es: "es = filter (enabled evaluator ctx) eligible"
    by (simp add: es_def eligible_def) (rule filter_cong, auto simp: enabled_def)
  have un: "length unguarded \<le> length es"
    unfolding unguarded_def es by (rule length_filter_mono) (auto simp: enabled_unguarded all_guards_def eligible_def)
  have none: "unguarded = eligible" if "guarded = []"
    using that by (simp add: guarded_def unguarded_def filter_empty_conv)
  note r = assms(1) [unfolded select_multiple_def Let_def, folded eligible_def, folded unguarded_def guarded_def]
  consider (empty) "eligible = []" | (many) "eligible \<noteq> []" "1 < length unguarded"
    | (only) "eligible \<noteq> []" "length unguarded = 1" "guarded = []"
    | (rest) "eligible \<noteq> []" "\<not> 1 < length unguarded" "\<not> (length unguarded = 1 \<and> guarded = [])"
    by blast
  then show ?thesis
  proof cases
    case empty
    then show ?thesis using r by (auto simp: es)
  next
    case many
    then show ?thesis using r un by auto
  next
    case only
    have "\<forall>c \<in> set unguarded. enabled evaluator ctx c"
      by (auto simp: unguarded_def eligible_def enabled_unguarded all_guards_def)
    then have "es = unguarded" using none [OF only(3)] by (simp add: es)
    moreover have "r = selected (hd unguarded) []" using r only by simp
    ultimately show ?thesis using only by simp
  next
    case rest
    then obtain evaluated where ev: "evaluate_cells evaluator ctx eligible = Inr evaluated"
      using r by (auto simp: ebind_Inr_iff)
    let ?passed = "filter (cg_ok \<circ> snd) evaluated"
    have p: "map fst ?passed = es"
      using evaluate_cells_passed [OF ev] by (simp add: es eligible_def)
    then have l: "length ?passed = length es" by (metis length_map)
    have hd: "fst (hd ?passed) = hd es" if "?passed \<noteq> []" using p that by (metis hd_map)
    have ne: "?passed = [] \<longleftrightarrow> es = []" using l by (metis length_0_conv)
    have one: "length es = 1 \<longleftrightarrow> es \<noteq> [] \<and> \<not> 1 < length es" by (cases es) auto
    show ?thesis
      unfolding one using r rest ev l hd ne by (auto simp: all_blocked_def Let_def split: if_splits)
  qed
qed

lemma selection_enabled:
  assumes "select_transition_cell evaluator m status event ctx = Inr r"
  shows "(sel_ok r \<longleftrightarrow> length (enabled_cells evaluator m status event ctx) = 1)
    \<and> (sel_ok r \<longrightarrow> sel_cell r = Some (hd (enabled_cells evaluator m status event ctx)))
    \<and> (1 < length (enabled_cells evaluator m status event ctx) \<longrightarrow> sel_code r = Some ''STATE_MACHINE_AMBIGUOUS_TRANSITION'')"
proof (cases "matching_cells m status event")
  case Nil
  then show ?thesis using assms by (auto simp: select_transition_cell_def enabled_cells_def)
next
  case (Cons c cs)
  show ?thesis
  proof (cases cs)
    case Nil
    then have "select_single evaluator m status ctx c = Inr r" using assms Cons by (simp add: select_transition_cell_def)
    then show ?thesis using select_single_enabled Cons Nil by (auto simp: enabled_cells_def)
  next
    case (Cons d ds)
    then have "select_multiple evaluator m status ctx (c # cs) = Inr r"
      using assms \<open>matching_cells m status event = c # cs\<close> by (simp add: select_transition_cell_def)
    then show ?thesis
      using select_multiple_enabled \<open>matching_cells m status event = c # cs\<close> by (simp add: enabled_cells_def)
  qed
qed


definition demo_cell :: "string list \<Rightarrow> string \<Rightarrow> cell" where
  "demo_cell gs t = \<lparr>c_from = ''a'', c_event = ''e'', c_result = LegalTransition, c_to = Some t, c_error = None,
     c_reopen = False, c_guards = gs, c_required = [], c_effects = [], c_obligations = []\<rparr>"

definition demo_machine :: machine where
  "demo_machine = \<lparr>m_id = ''m'', m_entity = ''t'', m_version = ''1'', m_description = ''d'', m_initial = ''a'',
     m_states = [\<lparr>ss_id = ''a'', ss_terminal = False, ss_external = False, ss_waiting = False, ss_passive = False\<rparr>,
       \<lparr>ss_id = ''b'', ss_terminal = True, ss_external = False, ss_waiting = False, ss_passive = False\<rparr>],
     m_events = [\<lparr>sv_id = ''e'', sv_idempotent = False, sv_risk = None\<rparr>],
     m_matrix = [demo_cell [''require_approval''] ''b'', demo_cell [''require_admin''] ''a''],
     m_invariants = [], m_obligations = [], m_mappings = [], m_registry_refs = [], m_terminal_events = []\<rparr>"

definition demo_context :: context_of where
  "demo_context = [(''approvalRecord'', JObj [(''status'', JStr ''approved'')]), (''subjectPermissions'', JObj [])]"


text \<open>
  With the built-in evaluator a guarded cell is enabled only when every one of its guards passes;
  a custom evaluator that returns no well-formed result lets every guarded cell pass.
\<close>

lemma builtin_enabled_all_guards:
  assumes "enabled None ctx c" and "g \<in> set (all_guards c)"
  shows "\<exists>r. evaluate_guard (JStr g) ctx = Inr r \<and> gr_ok r"
proof -
  obtain rs where rs: "evaluate_guard_set (map JStr (all_guards c)) ctx = Inr rs" "\<forall>r \<in> set rs. gr_ok r"
    using assms by (auto simp: enabled_def evaluate_cell_guards_def cell_results_of_def Let_def filter_empty_conv ebind_def
        split: sum.splits if_splits)
  obtain i where i: "i < length (all_guards c)" "g = all_guards c ! i" using assms(2) by (metis in_set_conv_nth)
  then show ?thesis using evaluate_guard_set_spec [OF rs(1)] rs(2) by (metis length_map nth_map nth_mem)
qed

lemma malformed_evaluator_fails_open:
  assumes "guard_results_from (f (all_guards c) ctx) = []" and "c_result c \<noteq> IllegalTransition"
  shows "enabled (Some f) ctx c"
  using assms by (simp add: enabled_def evaluate_cell_guards_def cell_results_of_def)

end
