(* ===== verification/MachineTopology.thy ===== *)
theory MachineTopology imports TransitionSelector begin

text \<open>
  The topology checks of a state machine definition,
  \<open>verification/state-machine-topology.ts\<close>: totality of the matrix, reachability by breadth-first
  search, outgoing transitions, terminal states, error codes, references. Each check throws its
  first error, which is the left side of a sum here.
\<close>

datatype topology_error =
    MissingCells "string list"
  | DuplicateIllegal string
  | DuplicateUnguarded string
  | UnreachableStates "string list"
  | NoOutgoing string
  | TerminalOutgoing string string
  | MissingErrorCode string string
  | UnknownFrom string
  | UnknownEvent string
  | UnknownTo string

text \<open>A loop that throws at the first item with an error.\<close>

fun first_error :: "('a \<Rightarrow> 'e option) \<Rightarrow> 'a list \<Rightarrow> 'e + unit" where
  "first_error f [] = Inr ()"
| "first_error f (x # xs) = (case f x of Some e \<Rightarrow> Inl e | None \<Rightarrow> first_error f xs)"

lemma first_error_ok [simp]: "first_error f xs = Inr () \<longleftrightarrow> (\<forall>x \<in> set xs. f x = None)"
  by (induction xs) (auto split: option.splits)

section \<open>Totality\<close>

definition matrix_key :: "string \<Rightarrow> string \<Rightarrow> string" where
  "matrix_key s e = s @ ''::'' @ e"

definition group_matrix_cells :: "cell list \<Rightarrow> (string \<times> cell list) list" where
  "group_matrix_cells cs =
     fold (\<lambda>c g. let k = matrix_key (c_from c) (c_event c)
       in jmap_set k ((case map_of g k of None \<Rightarrow> [] | Some xs \<Rightarrow> xs) @ [c]) g) cs []"

definition group_error :: "string \<times> cell list \<Rightarrow> topology_error option" where
  "group_error g =
     (case g of (key, cells) \<Rightarrow>
        if length cells = 1 then None
        else
          (let illegal = filter (\<lambda>c. c_result c = IllegalTransition) cells;
               executable = filter (\<lambda>c. c_result c \<noteq> IllegalTransition) cells;
               unguarded = filter (\<lambda>c. c_guards c = [] \<and> c_required c = []) executable
           in if length illegal > 1 then Some (DuplicateIllegal key)
              else if unguarded \<noteq> [] then Some (DuplicateUnguarded key)
              else None))"

definition assert_matrix_totality :: "machine \<Rightarrow> topology_error + unit" where
  "assert_matrix_totality m =
     (let groups = group_matrix_cells (m_matrix m);
          missing = filter (\<lambda>k. map_of groups k = None)
            (concat (map (\<lambda>s. map (\<lambda>e. matrix_key (ss_id s) (sv_id e)) (m_events m)) (m_states m)))
      in if missing \<noteq> [] then Inl (MissingCells missing) else first_error group_error groups)"

section \<open>Reachability\<close>

text \<open>One round of the search: the set \<open>reachable\<close> and the queue hold the same states, so the queue
  stands for both.\<close>

definition bfs_round :: "machine \<Rightarrow> string \<Rightarrow> string list \<Rightarrow> string list" where
  "bfs_round m current queue =
     fold (\<lambda>c q. if c_from c \<noteq> current \<or> c_result c \<notin> set reachable_results then q
        else (let target = to_or current (c_to c) in if target \<in> set q then q else q @ [target])) (m_matrix m) queue"

definition target_set :: "machine \<Rightarrow> string set" where
  "target_set m = {t. \<exists>c \<in> set (m_matrix m). c_to c = Some t}"

lemma finite_target_set [simp]: "finite (target_set m)"
proof -
  have "target_set m \<subseteq> the ` c_to ` set (m_matrix m)" by (force simp: target_set_def)
  then show ?thesis by (rule finite_subset) simp
qed

lemma bfs_fold:
  assumes "set cs \<subseteq> set (m_matrix m)" and "current \<in> set queue"
  shows "\<exists>new. fold (\<lambda>c q. if c_from c \<noteq> current \<or> c_result c \<notin> set reachable_results then q
        else (let target = to_or current (c_to c) in if target \<in> set q then q else q @ [target])) cs queue = queue @ new
      \<and> set new \<subseteq> target_set m - set queue"
  using assms
proof (induction cs arbitrary: queue)
  case (Cons c cs)
  let ?t = "to_or current (c_to c)"
  show ?case
  proof (cases "c_from c \<noteq> current \<or> c_result c \<notin> set reachable_results \<or> ?t \<in> set queue")
    case True
    then show ?thesis using Cons by (auto simp: Let_def)
  next
    case False
    then have "?t \<in> target_set m"
      using Cons.prems by (auto simp: to_or_def target_set_def split: option.splits if_splits)
    moreover obtain new where "fold (\<lambda>c q. if c_from c \<noteq> current \<or> c_result c \<notin> set reachable_results then q
        else (let target = to_or current (c_to c) in if target \<in> set q then q else q @ [target])) cs (queue @ [?t])
        = (queue @ [?t]) @ new" "set new \<subseteq> target_set m - set (queue @ [?t])"
      using Cons.IH [of "queue @ [?t]"] Cons.prems by auto
    ultimately show ?thesis using False by (intro exI [of _ "?t # new"]) (auto simp: Let_def)
  qed
qed simp

lemma bfs_round_extends:
  "current \<in> set queue \<Longrightarrow> \<exists>new. bfs_round m current queue = queue @ new \<and> set new \<subseteq> target_set m - set queue"
  unfolding bfs_round_def by (rule bfs_fold) auto

function bfs :: "machine \<Rightarrow> string list \<Rightarrow> nat \<Rightarrow> string list" where
  "bfs m queue cursor =
     (if cursor < length queue then bfs m (bfs_round m (queue ! cursor) queue) (Suc cursor) else queue)"
  by pat_completeness auto
termination
proof (relation "measures [\<lambda>(m, queue, cursor). card (target_set m - set queue), \<lambda>(m, queue, cursor). length queue - cursor]")
  fix m :: machine and queue :: "string list" and cursor :: nat
  assume c: "cursor < length queue"
  obtain new where n: "bfs_round m (queue ! cursor) queue = queue @ new" "set new \<subseteq> target_set m - set queue"
    using bfs_round_extends [of "queue ! cursor" queue m] c by auto
  show "((m, bfs_round m (queue ! cursor) queue, Suc cursor), m, queue, cursor)
      \<in> measures [\<lambda>(m, queue, cursor). card (target_set m - set queue), \<lambda>(m, queue, cursor). length queue - cursor]"
  proof (cases "new = []")
    case True
    then show ?thesis using c n by simp
  next
    case False
    then have "target_set m - (set queue \<union> set new) \<subset> target_set m - set queue" using n(2) by (cases new) auto
    then have "card (target_set m - (set queue \<union> set new)) < card (target_set m - set queue)" by (intro psubset_card_mono) auto
    then show ?thesis by (simp add: n(1))
  qed
qed simp

declare bfs.simps [simp del]

definition reachable_states :: "machine \<Rightarrow> string list" where
  "reachable_states m = bfs m [m_initial m] 0"

definition assert_reachability :: "machine \<Rightarrow> topology_error + unit" where
  "assert_reachability m =
     (let unreachable = map ss_id (filter (\<lambda>s. \<not> ss_external s \<and> ss_id s \<notin> set (reachable_states m)) (m_states m))
      in if unreachable \<noteq> [] then Inl (UnreachableStates unreachable) else Inr ())"

section \<open>The remaining checks\<close>

definition assert_non_terminal_transitions :: "machine \<Rightarrow> topology_error + unit" where
  "assert_non_terminal_transitions m =
     first_error (\<lambda>s.
       if ss_terminal s \<or> ss_passive s \<or> ss_waiting s then None
       else if list_ex (\<lambda>c. c_from c = ss_id s \<and> to_or [] (c_to c) \<noteq> [] \<and> c_to c \<noteq> Some (ss_id s) \<and>
           c_result c \<noteq> IllegalTransition \<and> c_result c \<noteq> IgnoredIdempotent) (m_matrix m) then None
       else Some (NoOutgoing (ss_id s))) (m_states m)"

text \<open>\<open>new Map(events.map(...))\<close>: the last event of an id wins.\<close>

definition event_by_id :: "machine \<Rightarrow> string \<Rightarrow> sm_event option" where
  "event_by_id m e = map_of (rev (map (\<lambda>v. (sv_id v, v)) (m_events m))) e"

definition terminal_allowed :: "machine \<Rightarrow> cell \<Rightarrow> bool" where
  "terminal_allowed m c \<longleftrightarrow>
     c_result c = IllegalTransition \<or> c_result c = IgnoredIdempotent \<or>
     (case event_by_id m (c_event c) of Some v \<Rightarrow> sv_idempotent v | None \<Rightarrow> False) \<or>
     c_event c \<in> set (m_terminal_events m) \<or> c_reopen c"

definition assert_terminal_semantics :: "machine \<Rightarrow> topology_error + unit" where
  "assert_terminal_semantics m =
     first_error (\<lambda>(s, c). if terminal_allowed m c then None else Some (TerminalOutgoing (ss_id s) (c_event c)))
       (concat (map (\<lambda>s. map (\<lambda>c. (s, c)) (filter (\<lambda>c. c_from c = ss_id s) (m_matrix m)))
         (filter ss_terminal (m_states m))))"

definition assert_illegal_error_codes :: "machine \<Rightarrow> topology_error + unit" where
  "assert_illegal_error_codes m =
     first_error (\<lambda>c. if c_result c = IllegalTransition \<and> or_else [] (c_error c) = []
        then Some (MissingErrorCode (c_from c) (c_event c)) else None) (m_matrix m)"

definition has_state :: "machine \<Rightarrow> string \<Rightarrow> bool" where
  "has_state m x \<longleftrightarrow> list_ex (\<lambda>s. ss_id s = x) (m_states m)"

definition has_event :: "machine \<Rightarrow> string \<Rightarrow> bool" where
  "has_event m x \<longleftrightarrow> list_ex (\<lambda>v. sv_id v = x) (m_events m)"

definition reference_error :: "machine \<Rightarrow> cell \<Rightarrow> topology_error option" where
  "reference_error m c =
     (if \<not> has_state m (c_from c) then Some (UnknownFrom (c_from c))
      else if \<not> has_event m (c_event c) then Some (UnknownEvent (c_event c))
      else
        (case c_to c of
           None \<Rightarrow> None
         | Some t \<Rightarrow> if t \<noteq> [] \<and> \<not> has_state m t then Some (UnknownTo t) else None))"

definition assert_cell_references :: "machine \<Rightarrow> topology_error + unit" where
  "assert_cell_references m = first_error (reference_error m) (m_matrix m)"

definition topology_checks :: "(machine \<Rightarrow> topology_error + unit) list" where
  "topology_checks = [assert_matrix_totality, assert_reachability, assert_non_terminal_transitions,
     assert_terminal_semantics, assert_illegal_error_codes, assert_cell_references]"

definition validate_topology :: "machine \<Rightarrow> topology_error list" where
  "validate_topology m = concat (map (\<lambda>check. case check m of Inl e \<Rightarrow> [e] | Inr _ \<Rightarrow> []) topology_checks)"

section \<open>What the checks establish\<close>

lemma validate_topology_ok:
  "validate_topology m = [] \<longleftrightarrow>
     assert_matrix_totality m = Inr () \<and> assert_reachability m = Inr () \<and> assert_non_terminal_transitions m = Inr () \<and>
     assert_terminal_semantics m = Inr () \<and> assert_illegal_error_codes m = Inr () \<and> assert_cell_references m = Inr ()"
  by (auto simp: validate_topology_def topology_checks_def split: sum.splits)

lemma group_fold:
  "map_of (fold (\<lambda>c g. let k = matrix_key (c_from c) (c_event c)
       in jmap_set k ((case map_of g k of None \<Rightarrow> [] | Some xs \<Rightarrow> xs) @ [c]) g) cs g0) k =
     (let mine = filter (\<lambda>c. matrix_key (c_from c) (c_event c) = k) cs
      in case map_of g0 k of None \<Rightarrow> if mine = [] then None else Some mine | Some xs \<Rightarrow> Some (xs @ mine))"
proof (induction cs arbitrary: g0)
  case (Cons c cs)
  show ?case
    by (simp only: fold_simps comp_apply Cons.IH) (auto simp: Let_def split: option.splits)
qed (auto split: option.splits)

lemma group_matrix_cells_spec:
  "map_of (group_matrix_cells cs) k =
     (let mine = filter (\<lambda>c. matrix_key (c_from c) (c_event c) = k) cs in if mine = [] then None else Some mine)"
  by (simp add: group_matrix_cells_def group_fold)

lemma group_matrix_ok: "jmap_ok (group_matrix_cells cs)"
proof -
  have "jmap_ok g \<Longrightarrow> jmap_ok (fold (\<lambda>c g. let k = matrix_key (c_from c) (c_event c)
       in jmap_set k ((case map_of g k of None \<Rightarrow> [] | Some xs \<Rightarrow> xs) @ [c]) g) cs g)" for g
    by (induction cs arbitrary: g) (simp_all add: Let_def)
  then show ?thesis by (simp add: group_matrix_cells_def)
qed

text \<open>Ids without a colon: then a key names its state and event.\<close>

definition colon_free :: "string \<Rightarrow> bool" where
  "colon_free s \<longleftrightarrow> CHR '':'' \<notin> set s"

lemma append_colon_inj:
  "CHR '':'' \<notin> set a \<Longrightarrow> CHR '':'' \<notin> set b \<Longrightarrow> a @ CHR '':'' # xs = b @ CHR '':'' # ys \<longleftrightarrow> a = b \<and> xs = ys"
proof (induction a arbitrary: b)
  case Nil
  then show ?case by (cases b) auto
next
  case (Cons x a)
  then show ?case by (cases b) auto
qed

lemma matrix_key_inj: "colon_free s \<Longrightarrow> colon_free t \<Longrightarrow> matrix_key s e = matrix_key t f \<longleftrightarrow> s = t \<and> e = f"
  using append_colon_inj [of s t "CHR '':'' # e" "CHR '':'' # f"] by (simp add: matrix_key_def colon_free_def)

lemma has_state_iff [simp]: "has_state m x \<longleftrightarrow> x \<in> state_ids m"
  by (auto simp: has_state_def list_ex_iff state_ids_def)

lemma has_event_iff [simp]: "has_event m x \<longleftrightarrow> x \<in> event_ids m"
  by (auto simp: has_event_def list_ex_iff event_ids_def)

lemma reference_error_None:
  "reference_error m c = None \<longleftrightarrow>
     c_from c \<in> state_ids m \<and> c_event c \<in> event_ids m \<and> (\<forall>t. c_to c = Some t \<longrightarrow> t = [] \<or> t \<in> state_ids m)"
  by (simp add: reference_error_def split: option.splits)

lemma cell_references:
  "assert_cell_references m = Inr () \<Longrightarrow> c \<in> set (m_matrix m) \<Longrightarrow>
     c_from c \<in> state_ids m \<and> c_event c \<in> event_ids m \<and> (\<forall>t. c_to c = Some t \<longrightarrow> t = [] \<or> t \<in> state_ids m)"
  by (simp add: assert_cell_references_def reference_error_None)

lemma matching_by_key:
  assumes "assert_cell_references m = Inr ()" and "\<forall>s \<in> state_ids m. colon_free s" and "s \<in> state_ids m"
  shows "matching_cells m s e = filter (\<lambda>c. matrix_key (c_from c) (c_event c) = matrix_key s e) (m_matrix m)"
  unfolding matching_cells_def
proof (rule filter_cong [OF refl])
  fix c assume "c \<in> set (m_matrix m)"
  then have "colon_free (c_from c)" using cell_references [OF assms(1)] assms(2) by blast
  then show "(c_from c = s \<and> c_event c = e) = (matrix_key (c_from c) (c_event c) = matrix_key s e)"
    using matrix_key_inj assms(2,3) by blast
qed

lemma totality_groups:
  assumes "assert_matrix_totality m = Inr ()"
  shows "s \<in> state_ids m \<Longrightarrow> e \<in> event_ids m \<Longrightarrow> map_of (group_matrix_cells (m_matrix m)) (matrix_key s e) \<noteq> None"
    and "map_of (group_matrix_cells (m_matrix m)) k = Some cs \<Longrightarrow> group_error (k, cs) = None"
  using assms
  by (auto simp: assert_matrix_totality_def Let_def filter_empty_conv state_ids_def event_ids_def jmap_mem [OF group_matrix_ok, symmetric]
      split: if_splits)

lemma totality_matching:
  assumes "validate_topology m = []" and "\<forall>s \<in> state_ids m. colon_free s" and "s \<in> state_ids m" and "e \<in> event_ids m"
  shows "matching_cells m s e \<noteq> []"
    and "group_error (matrix_key s e, matching_cells m s e) = None"
proof -
  have ok: "assert_matrix_totality m = Inr ()" "assert_cell_references m = Inr ()"
    using assms(1) by (simp_all add: validate_topology_ok)
  have g: "map_of (group_matrix_cells (m_matrix m)) (matrix_key s e) =
      (if matching_cells m s e = [] then None else Some (matching_cells m s e))"
    by (simp add: group_matrix_cells_spec Let_def matching_by_key [OF ok(2) assms(2,3)])
  then show ne: "matching_cells m s e \<noteq> []" using totality_groups(1) [OF ok(1) assms(3,4)] by auto
  then show "group_error (matrix_key s e, matching_cells m s e) = None"
    using g totality_groups(2) [OF ok(1)] by simp
qed

section \<open>The search finds exactly the reachable states\<close>

inductive machine_reach :: "machine \<Rightarrow> string \<Rightarrow> bool" for m where
  init: "machine_reach m (m_initial m)"
| move: "machine_reach m s \<Longrightarrow> c \<in> set (m_matrix m) \<Longrightarrow> c_from c = s \<Longrightarrow> c_result c \<in> set reachable_results \<Longrightarrow>
     machine_reach m (to_or s (c_to c))"

definition successors :: "machine \<Rightarrow> string \<Rightarrow> string set" where
  "successors m s = {to_or s (c_to c) | c. c \<in> set (m_matrix m) \<and> c_from c = s \<and> c_result c \<in> set reachable_results}"

lemma bfs_round_set: "set (bfs_round m current queue) = set queue \<union> successors m current"
proof -
  have "set (fold (\<lambda>c q. if c_from c \<noteq> current \<or> c_result c \<notin> set reachable_results then q
        else (let target = to_or current (c_to c) in if target \<in> set q then q else q @ [target])) cs queue)
      = set queue \<union> {to_or current (c_to c) | c. c \<in> set cs \<and> c_from c = current \<and> c_result c \<in> set reachable_results}" for cs
  proof (induction cs arbitrary: queue)
    case (Cons c cs)
    show ?case
      by (simp only: fold_simps comp_apply Cons.IH) (auto simp: Let_def)
  qed simp
  then show ?thesis by (simp add: bfs_round_def successors_def)
qed

lemma bfs_spec:
  assumes "cursor \<le> length queue" and "m_initial m \<in> set queue" and "\<forall>s \<in> set queue. machine_reach m s"
    and "\<forall>i < cursor. successors m (queue ! i) \<subseteq> set queue"
  shows "set (bfs m queue cursor) = {s. machine_reach m s}"
  using assms
proof (induction m queue cursor rule: bfs.induct)
  case (1 m queue cursor)
  show ?case
  proof (cases "cursor < length queue")
    case True
    let ?q = "bfs_round m (queue ! cursor) queue"
    obtain new where n: "?q = queue @ new" using bfs_round_extends [of "queue ! cursor" queue m] True by auto
    have s: "set ?q = set queue \<union> successors m (queue ! cursor)" by (rule bfs_round_set)
    have r: "machine_reach m (queue ! cursor)" using "1.prems"(3) True by simp
    have "set (bfs m ?q (Suc cursor)) = {s. machine_reach m s}"
    proof (rule "1.IH" [OF True])
      show "Suc cursor \<le> length ?q" using True by (simp add: n)
      show "m_initial m \<in> set ?q" using "1.prems"(2) s by simp
      show "\<forall>s \<in> set ?q. machine_reach m s"
        using "1.prems"(3) r by (auto simp: s successors_def intro: machine_reach.move)
      show "\<forall>i < Suc cursor. successors m (?q ! i) \<subseteq> set ?q"
      proof (intro allI impI)
        fix i assume "i < Suc cursor"
        then have "?q ! i = queue ! i" using True by (simp add: n nth_append)
        moreover have "successors m (queue ! i) \<subseteq> set ?q"
        proof (cases "i = cursor")
          case False
          then have "successors m (queue ! i) \<subseteq> set queue" using "1.prems"(4) \<open>i < Suc cursor\<close> by simp
          then show ?thesis using s by blast
        qed (simp add: s)
        ultimately show "successors m (?q ! i) \<subseteq> set ?q" by simp
      qed
    qed
    then show ?thesis using True by (simp add: bfs.simps [of m queue])
  next
    case False
    then have b: "bfs m queue cursor = queue" "cursor = length queue" using "1.prems"(1) by (simp_all add: bfs.simps [of m queue])
    have closed: "successors m s \<subseteq> set queue" if "s \<in> set queue" for s
      using "1.prems"(4) that b(2) by (metis in_set_conv_nth)
    have "s \<in> set queue" if "machine_reach m s" for s
      using that
    proof (induction rule: machine_reach.induct)
      case init
      then show ?case using "1.prems"(2) .
    next
      case (move s c)
      then have "to_or s (c_to c) \<in> successors m s" by (auto simp: successors_def)
      then show ?case using closed move.IH by blast
    qed
    then show ?thesis using "1.prems"(3) b(1) by auto
  qed
qed

lemma reachable_states_spec: "set (reachable_states m) = {s. machine_reach m s}"
  unfolding reachable_states_def by (rule bfs_spec) (auto intro: machine_reach.init)

text \<open>
  C29: the reachability check decides reachability. It accepts a definition exactly when every
  state that is not an external entry is reached from the initial state by some path of cells
  whose results advance the machine, and otherwise it names exactly the states that are not.
\<close>

theorem reachability_check_exact:
  "assert_reachability m =
     (if \<forall>s \<in> set (m_states m). ss_external s \<or> machine_reach m (ss_id s) then Inr ()
      else Inl (UnreachableStates (map ss_id (filter (\<lambda>s. \<not> ss_external s \<and> \<not> machine_reach m (ss_id s)) (m_states m)))))"
  by (auto simp: assert_reachability_def Let_def reachable_states_spec filter_empty_conv)

theorem reachability_check_exact_witness: "assert_reachability demo_machine = Inr () \<and> machine_reach demo_machine ''b''"
proof -
  have r: "assert_reachability demo_machine = Inr ()" by code_simp
  then show ?thesis using reachability_check_exact [of demo_machine] by (auto simp: demo_machine_def split: if_splits)
qed

text \<open>
  A definition that passes the topology checks answers every event. When its state ids hold
  no colon, every state and event have a matching cell, at most one of them is illegal, and with
  more than one every executable one is guarded.
\<close>

theorem valid_topology_total:
  assumes "validate_topology m = []" and "\<forall>s \<in> state_ids m. colon_free s" and "s \<in> state_ids m" and "e \<in> event_ids m"
  shows "matching_cells m s e \<noteq> []
    \<and> length (filter (\<lambda>c. c_result c = IllegalTransition) (matching_cells m s e)) \<le> 1
    \<and> (length (matching_cells m s e) = 1 \<or>
       (\<forall>c \<in> set (matching_cells m s e). c_result c = IllegalTransition \<or> all_guards c \<noteq> []))"
proof -
  have ne: "matching_cells m s e \<noteq> []" and g: "group_error (matrix_key s e, matching_cells m s e) = None"
    using totality_matching [OF assms] by simp_all
  show ?thesis
  proof (cases "length (matching_cells m s e) = 1")
    case True
    then have "length (filter (\<lambda>c. c_result c = IllegalTransition) (matching_cells m s e)) \<le> 1"
      using length_filter_le [of _ "matching_cells m s e"] by metis
    then show ?thesis using ne True by blast
  next
    case False
    then show ?thesis using ne g by (auto simp: group_error_def Let_def all_guards_def filter_empty_conv split: if_splits)
  qed
qed

definition demo_total :: machine where
  "demo_total = demo_machine\<lparr>m_matrix := m_matrix demo_machine @
     [(demo_cell [] ''b'')\<lparr>c_from := ''b'', c_result := IllegalTransition, c_error := Some ''E''\<rparr>]\<rparr>"

theorem valid_topology_total_witness:
  "validate_topology demo_total = [] \<and> matching_cells demo_total ''b'' ''e'' \<noteq> []"
proof -
  have v: "validate_topology demo_total = []" by code_simp
  have i: "state_ids demo_total = {''a'', ''b''}" "event_ids demo_total = {''e''}"
    by (auto simp: demo_total_def demo_machine_def state_ids_def event_ids_def)
  show ?thesis using valid_topology_total [OF v, of "''b''" "''e''"] v by (simp add: i colon_free_def)
qed

text \<open>The key of a cell does not name it: with colons in ids a cell that is missing can hide.\<close>

lemma matrix_key_collision: "matrix_key ''a:'' ''b'' = matrix_key ''a'' '':b''"
  by (simp add: matrix_key_def)

definition colon_machine :: machine where
  "colon_machine = demo_machine\<lparr>
     m_states := [(hd (m_states demo_machine))\<lparr>ss_id := ''a'', ss_terminal := True\<rparr>,
       (hd (m_states demo_machine))\<lparr>ss_id := ''a:'', ss_terminal := True\<rparr>],
     m_events := [\<lparr>sv_id = ''b'', sv_idempotent = False, sv_risk = None\<rparr>, \<lparr>sv_id = '':b'', sv_idempotent = False, sv_risk = None\<rparr>],
     m_terminal_events := [''b''],
     m_matrix := [(demo_cell [] ''a:'')\<lparr>c_event := ''b''\<rparr>, (demo_cell [] ''a'')\<lparr>c_from := ''a:'', c_event := ''b''\<rparr>,
       (demo_cell [] ''a'')\<lparr>c_from := ''a:'', c_event := '':b'', c_result := IllegalTransition, c_error := Some ''E''\<rparr>]\<rparr>"

lemma totality_check_fooled:
  "validate_topology colon_machine = [] \<and> matching_cells colon_machine ''a'' '':b'' = []"
  by code_simp

end
