(* ===== verification/MachineSchema.thy ===== *)
theory MachineSchema imports MachineTopology "HOL-Library.Char_ord" "HOL-Library.List_Lexorder" begin

text \<open>
  The schema check of a state machine definition,
  \<open>verification/state-machine-definition-schema.ts\<close>, over the JSON value a definition is given as,
  and the typed definition such a value stands for. The check throws its first error; the left side
  of the sum is its message. Comparing \<open>JSON.stringify\<close> of two objects of strings is equality of
  their property lists.
\<close>

section \<open>Typed reading\<close>

fun str_of :: "jv \<Rightarrow> string" where
  "str_of (JStr s) = s"
| "str_of _ = []"

fun opt_str :: "jv \<Rightarrow> string option" where
  "opt_str (JStr s) = Some s"
| "opt_str _ = None"

fun items_of :: "jv \<Rightarrow> jv list" where
  "items_of (JArr xs) = xs"
| "items_of _ = []"

definition strings_of :: "jv \<Rightarrow> string list" where
  "strings_of v = map str_of (items_of v)"

definition bool_of :: "jv \<Rightarrow> bool" where
  "bool_of v \<longleftrightarrow> v = JBool True"

definition result_of :: "jv \<Rightarrow> transition_result option" where
  "result_of v = find (\<lambda>r. v = JStr (result_value r)) valid_results"

definition state_of :: "jv \<Rightarrow> sm_state" where
  "state_of v =
     (let ps = as_record v
      in \<lparr>ss_id = str_of (jget ps ''id''), ss_terminal = bool_of (jget ps ''terminal''),
          ss_external = bool_of (jget ps ''externalEntryState''), ss_waiting = bool_of (jget ps ''waitingStateWithTimeout''),
          ss_passive = bool_of (jget ps ''passiveState'')\<rparr>)"

definition event_of :: "jv \<Rightarrow> sm_event" where
  "event_of v =
     (let ps = as_record v
      in \<lparr>sv_id = str_of (jget ps ''id''), sv_idempotent = bool_of (jget ps ''idempotent''), sv_risk = opt_str (jget ps ''riskLevel'')\<rparr>)"

definition cell_of :: "jv \<Rightarrow> cell" where
  "cell_of v =
     (let ps = as_record v
      in \<lparr>c_from = str_of (jget ps ''from''), c_event = str_of (jget ps ''event''),
          c_result = or_else IllegalTransition (result_of (jget ps ''result'')),
          c_to = opt_str (jget ps ''to''), c_error = opt_str (jget ps ''errorCode''),
          c_reopen = bool_of (jget ps ''allowedReopenTransition''), c_guards = strings_of (jget ps ''guards''),
          c_required = strings_of (jget ps ''requiredGuards''), c_effects = strings_of (jget ps ''sideEffects''),
          c_obligations = strings_of (jget ps ''proofObligations'')\<rparr>)"

definition mapping_of :: "jv \<Rightarrow> proof_mapping" where
  "mapping_of v =
     (let ps = as_record v
      in \<lparr>pm_obligation = str_of (jget ps ''obligationId''), pm_method = str_of (jget ps ''method''),
          pm_params = as_record (jget ps ''params'')\<rparr>)"

definition machine_of :: "(string \<times> jv) list \<Rightarrow> machine" where
  "machine_of ps =
     \<lparr>m_id = str_of (jget ps ''machineId''), m_entity = str_of (jget ps ''entityType''), m_version = str_of (jget ps ''version''),
      m_description = str_of (jget ps ''description''), m_initial = str_of (jget ps ''initialState''),
      m_states = map state_of (items_of (jget ps ''states'')), m_events = map event_of (items_of (jget ps ''events'')),
      m_matrix = map cell_of (items_of (jget ps ''totalMatrix'')), m_invariants = strings_of (jget ps ''invariants''),
      m_obligations = strings_of (jget ps ''proofObligations''), m_mappings = map mapping_of (items_of (jget ps ''proofMappings'')),
      m_registry_refs = strings_of (jget ps ''guardRegistryRefs''), m_terminal_events = strings_of (jget ps ''allowedTerminalEvents'')\<rparr>"

section \<open>Field checks\<close>

text \<open>\<open>typeof v === "string" && v.trim()\<close>.\<close>

definition nonblank :: "jv \<Rightarrow> bool" where
  "nonblank v \<longleftrightarrow> (case v of JStr s \<Rightarrow> trim s \<noteq> [] | _ \<Rightarrow> False)"

definition opt_bool :: "jv \<Rightarrow> bool" where
  "opt_bool v \<longleftrightarrow> (case v of JUndef \<Rightarrow> True | JBool _ \<Rightarrow> True | _ \<Rightarrow> False)"

definition opt_string :: "jv \<Rightarrow> bool" where
  "opt_string v \<longleftrightarrow> (case v of JUndef \<Rightarrow> True | JStr _ \<Rightarrow> True | _ \<Rightarrow> False)"

text \<open>An optional list of non-blank strings.\<close>

definition string_array :: "jv \<Rightarrow> bool" where
  "string_array v \<longleftrightarrow> (case v of JArr xs \<Rightarrow> list_all nonblank xs | _ \<Rightarrow> False)"

text \<open>The conditions of a checker, in order, each with the message it throws.\<close>

fun first_failure :: "(bool \<times> string) list \<Rightarrow> string option" where
  "first_failure [] = None"
| "first_failure ((ok, message) # cs) = (if ok then first_failure cs else Some message)"

lemma first_failure_None [simp]: "first_failure cs = None \<longleftrightarrow> list_all fst cs"
  by (induction cs) (auto split: if_splits)

definition quoted :: "string \<Rightarrow> string" where
  "quoted s = CHR 0x27 # s @ [CHR 0x27]"

definition is_record :: "jv \<Rightarrow> bool" where
  "is_record v \<longleftrightarrow> (case v of JObj _ \<Rightarrow> True | _ \<Rightarrow> False)"

definition is_array :: "jv \<Rightarrow> bool" where
  "is_array v \<longleftrightarrow> (case v of JArr _ \<Rightarrow> True | _ \<Rightarrow> False)"

definition state_failure :: "jv \<Rightarrow> string option" where
  "state_failure v =
     (let ps = as_record v; label = ''state '' @ quoted (str_of (jget ps ''id''))
      in first_failure
        [(is_record v, ''state item must be a JSON object''),
         (nonblank (jget ps ''id''), ''state item '' @ quoted ''id'' @ '' must be a non-empty string''),
         (opt_bool (jget ps ''terminal''), label @ '' field '' @ quoted ''terminal'' @ '' must be a boolean''),
         (opt_bool (jget ps ''externalEntryState''), label @ '' field '' @ quoted ''externalEntryState'' @ '' must be a boolean''),
         (opt_bool (jget ps ''waitingStateWithTimeout''), label @ '' field '' @ quoted ''waitingStateWithTimeout'' @ '' must be a boolean''),
         (opt_bool (jget ps ''passiveState''), label @ '' field '' @ quoted ''passiveState'' @ '' must be a boolean'')])"

definition event_failure :: "jv \<Rightarrow> string option" where
  "event_failure v =
     (let ps = as_record v; label = ''event '' @ quoted (str_of (jget ps ''id''))
      in first_failure
        [(is_record v, ''event item must be a JSON object''),
         (nonblank (jget ps ''id''), ''event item '' @ quoted ''id'' @ '' must be a non-empty string''),
         (opt_bool (jget ps ''idempotent''), label @ '' field '' @ quoted ''idempotent'' @ '' must be a boolean''),
         (jget ps ''riskLevel'' \<in> {JUndef, JStr ''low'', JStr ''medium'', JStr ''high''},
          label @ '' field '' @ quoted ''riskLevel'' @ '' must be '' @ quoted ''low'' @ '', '' @ quoted ''medium'' @ '', or '' @ quoted ''high'')])"

definition opt_guard_list :: "string \<Rightarrow> jv \<Rightarrow> (bool \<times> string) list" where
  "opt_guard_list name v =
     [(v = JUndef \<or> is_array v, ''matrix cell '' @ quoted name @ '' must be an array of strings''),
      (list_all nonblank (items_of v), name @ '' list items must be non-empty strings'')]"

definition cell_failure :: "jv \<Rightarrow> string option" where
  "cell_failure v =
     (let ps = as_record v
      in first_failure
        ([(is_record v, ''matrix cell must be a JSON object''),
          (nonblank (jget ps ''from''), ''matrix cell '' @ quoted ''from'' @ '' must be a non-empty string''),
          (nonblank (jget ps ''event''), ''matrix cell '' @ quoted ''event'' @ '' must be a non-empty string''),
          (result_of (jget ps ''result'') \<noteq> None,
           ''matrix cell from '' @ quoted (str_of (jget ps ''from'')) @ '' on '' @ quoted (str_of (jget ps ''event'')) @
           '' has invalid result: '' @ quoted (js_string (jget ps ''result''))),
          (opt_string (jget ps ''to''), ''matrix cell '' @ quoted ''to'' @ '' must be a string''),
          (opt_string (jget ps ''errorCode''), ''matrix cell '' @ quoted ''errorCode'' @ '' must be a string''),
          (opt_bool (jget ps ''allowedReopenTransition''), ''matrix cell '' @ quoted ''allowedReopenTransition'' @ '' must be a boolean'')] @
         opt_guard_list ''guards'' (jget ps ''guards'') @
         opt_guard_list ''requiredGuards'' (jget ps ''requiredGuards'') @
         [(jget ps ''sideEffects'' = JUndef \<or> string_array (jget ps ''sideEffects''),
           ''matrix cell '' @ quoted ''sideEffects'' @ '' must be an array of non-empty strings''),
          (jget ps ''proofObligations'' = JUndef \<or> string_array (jget ps ''proofObligations''),
           ''matrix cell '' @ quoted ''proofObligations'' @ '' must be an array of non-empty strings'')]))"

definition mapping_failure :: "jv \<Rightarrow> string option" where
  "mapping_failure v =
     (let ps = as_record v
      in first_failure
        [(is_record v, ''proofMapping item must be a JSON object''),
         (nonblank (jget ps ''obligationId''), ''proofMapping '' @ quoted ''obligationId'' @ '' must be a non-empty string''),
         (nonblank (jget ps ''method''), ''proofMapping '' @ quoted ''method'' @ '' must be a non-empty string''),
         (jget ps ''params'' = JUndef \<or> is_record (jget ps ''params''), ''proofMapping '' @ quoted ''params'' @ '' must be an object'')])"

text \<open>An array field whose items are checked one by one.\<close>

definition check_array :: "string \<Rightarrow> (jv \<Rightarrow> string option) \<Rightarrow> jv \<Rightarrow> string + unit" where
  "check_array name f v =
     (if \<not> is_array v then Inl (''definition field '' @ quoted name @ '' must be an array'') else first_error f (items_of v))"

definition text_failure :: "string \<Rightarrow> jv \<Rightarrow> string option" where
  "text_failure message v = (if nonblank v then None else Some message)"

section \<open>Acceptance definitions\<close>

record acceptance_contract =
  ac_method :: string
  ac_params :: "string list"
  ac_role :: "string option"

definition acceptance_contracts :: "(string \<times> acceptance_contract) list" where
  "acceptance_contracts =
    [(''PO-ACCEPTANCE-REGISTRY-LINK'',
      \<lparr>ac_method = ''registry_entry_matches_machine'', ac_params = [''registryPath'', ''capabilityId'', ''machineId''], ac_role = None\<rparr>),
     (''PO-ACCEPTANCE-CHECKPOINT-IMPLEMENTATION'',
      \<lparr>ac_method = ''checkpoint_role_exists'', ac_params = [''checkpointPath'', ''role''], ac_role = Some ''implementation''\<rparr>),
     (''PO-ACCEPTANCE-FINAL-VALIDATION'',
      \<lparr>ac_method = ''checkpoint_role_exists'', ac_params = [''checkpointPath'', ''role''], ac_role = Some ''final_validation''\<rparr>),
     (''PO-ACCEPTANCE-PLATFORM-REDUCER-BOUNDARY'',
      \<lparr>ac_method = ''external_platform_reducer_reference'', ac_params = [''platformReducerCommand'', ''capabilityReportPath''], ac_role = None\<rparr>),
     (''PO-ACCEPTANCE-PRIVACY-SAFE-EVIDENCE'',
      \<lparr>ac_method = ''report_leak_scan'', ac_params = [''reportPath''], ac_role = None\<rparr>)]"

definition require_exact_string :: "(string \<times> jv) list \<Rightarrow> string \<Rightarrow> string option \<Rightarrow> string option" where
  "require_exact_string r key expected =
     (if \<not> nonblank (jget r key) then Some (''capability acceptance field '' @ quoted key @ '' must be a non-empty string'')
      else
        (case expected of
           None \<Rightarrow> None
         | Some e \<Rightarrow> if jget r key \<noteq> JStr e
             then Some (''capability acceptance field '' @ quoted key @ '' must equal '' @ quoted e) else None))"

definition acceptance_fields :: "(string \<times> jv) list \<Rightarrow> (string \<times> string option) list" where
  "acceptance_fields acc =
    [(''capabilityId'', None),
     (''registryPath'', Some ''tools/registry/capability-acceptance.registry.json''),
     (''checkpointPath'', Some (''tools/registry/capability-acceptance-checkpoints/'' @ js_string (jget acc ''capabilityId'') @ ''.json'')),
     (''platformReducerCommand'', Some ''npm run verify:acceptance''),
     (''verifier'', Some ''tools/server-scripts/verify-capability-acceptance-machines.ts''),
     (''reportPath'', Some ''build/reports/capability-acceptance-machines.json'')]"

fun duplicate_mapping :: "proof_mapping list \<Rightarrow> string list \<Rightarrow> string option" where
  "duplicate_mapping [] seen = None"
| "duplicate_mapping (p # ps) seen =
     (if pm_obligation p \<in> set seen then Some (''duplicate proof mapping for '' @ quoted (pm_obligation p))
      else duplicate_mapping ps (pm_obligation p # seen))"

definition find_mapping :: "machine \<Rightarrow> string \<Rightarrow> proof_mapping option" where
  "find_mapping m obligation = find (\<lambda>p. pm_obligation p = obligation) (m_mappings m)"

definition contract_failure :: "machine \<Rightarrow> string \<times> acceptance_contract \<Rightarrow> string option" where
  "contract_failure m oc =
     (case oc of (obligation, contract) \<Rightarrow>
        if obligation \<notin> set (m_obligations m)
        then Some (''capability acceptance proof obligation '' @ quoted obligation @ '' is required'')
        else
          (case find_mapping m obligation of
             None \<Rightarrow> Some (''proof obligation '' @ quoted obligation @ '' must use method '' @ quoted (ac_method contract))
           | Some p \<Rightarrow>
               if pm_method p \<noteq> ac_method contract
               then Some (''proof obligation '' @ quoted obligation @ '' must use method '' @ quoted (ac_method contract))
               else if sort (map fst (pm_params p)) \<noteq> sort (ac_params contract)
               then Some (''proof method '' @ quoted (ac_method contract) @ '' must declare exactly: '' @ join_with '', '' (sort (ac_params contract)))
               else
                 (case first_error (\<lambda>k. require_exact_string (pm_params p) k None) (sort (ac_params contract)) of
                    Inl e \<Rightarrow> Some e
                  | Inr _ \<Rightarrow>
                      (case ac_role contract of
                         None \<Rightarrow> None
                       | Some role \<Rightarrow> if jget (pm_params p) ''role'' \<noteq> JStr role
                           then Some (''proof obligation '' @ quoted obligation @ '' must bind role '' @ quoted role) else None))))"

definition expected_params :: "machine \<Rightarrow> (string \<times> jv) list \<Rightarrow> (string \<times> (string \<times> jv) list) list" where
  "expected_params m acc =
    [(''PO-ACCEPTANCE-REGISTRY-LINK'',
      [(''registryPath'', jget acc ''registryPath''), (''capabilityId'', jget acc ''capabilityId''), (''machineId'', JStr (m_id m))]),
     (''PO-ACCEPTANCE-CHECKPOINT-IMPLEMENTATION'',
      [(''checkpointPath'', jget acc ''checkpointPath''), (''role'', JStr ''implementation'')]),
     (''PO-ACCEPTANCE-FINAL-VALIDATION'',
      [(''checkpointPath'', jget acc ''checkpointPath''), (''role'', JStr ''final_validation'')]),
     (''PO-ACCEPTANCE-PLATFORM-REDUCER-BOUNDARY'',
      [(''platformReducerCommand'', jget acc ''platformReducerCommand''), (''capabilityReportPath'', jget acc ''reportPath'')]),
     (''PO-ACCEPTANCE-PRIVACY-SAFE-EVIDENCE'', [(''reportPath'', jget acc ''reportPath'')])]"

definition params_failure :: "machine \<Rightarrow> string \<times> (string \<times> jv) list \<Rightarrow> string option" where
  "params_failure m op =
     (case op of (obligation, params) \<Rightarrow>
        if map_option pm_params (find_mapping m obligation) \<noteq> Some params
        then Some (''proof obligation '' @ quoted obligation @ '' parameters do not match acceptance metadata'') else None)"

definition receipt_cell_ok :: "machine \<Rightarrow> bool" where
  "receipt_cell_ok m \<longleftrightarrow>
     (case find (\<lambda>c. c_from c = ''implemented'' \<and> c_event c = ''capability_verifiers_pass'') (m_matrix m) of
        None \<Rightarrow> False
      | Some c \<Rightarrow> c_result c = RequiresReceipt \<and> list_ex (contains ''receipt'') (c_effects c))"

definition event_high_risk :: "machine \<Rightarrow> bool" where
  "event_high_risk m \<longleftrightarrow>
     (case find (\<lambda>v. sv_id v = ''capability_verifiers_pass'') (m_events m) of
        None \<Rightarrow> False | Some v \<Rightarrow> sv_risk v = Some ''high'')"

definition check_acceptance :: "(string \<times> jv) list \<Rightarrow> string + unit" where
  "check_acceptance ps =
     (let m = machine_of ps; acc = as_record (jget ps ''acceptance'')
      in if \<not> is_record (jget ps ''acceptance'') then Inl ''capability acceptance definition requires acceptance metadata''
         else ebind (first_error (\<lambda>(k, e). require_exact_string acc k e) (acceptance_fields acc)) (\<lambda>_.
           if m_id m \<noteq> ''acceptance.'' @ js_string (jget acc ''capabilityId'')
           then Inl ''capability acceptance machineId must match acceptance.capabilityId''
           else ebind (case duplicate_mapping (m_mappings m) [] of Some e \<Rightarrow> Inl e | None \<Rightarrow> Inr ()) (\<lambda>_.
             ebind (first_error (contract_failure m) acceptance_contracts) (\<lambda>_.
               if length (m_mappings m) \<noteq> card (set (m_obligations m)) \<or> length (m_mappings m) \<noteq> length acceptance_contracts
               then Inl ''capability acceptance proof obligations and mappings must match the canonical contract exactly''
               else ebind (first_error (params_failure m) (expected_params m acc)) (\<lambda>_.
                 if \<not> event_high_risk m then Inl ''capability_verifiers_pass must be classified as high risk''
                 else if \<not> receipt_cell_ok m then Inl ''implemented capability verification must require a verification receipt''
                 else Inr ())))))"

section \<open>The schema check\<close>

definition required_fields :: "string list" where
  "required_fields = [''machineId'', ''entityType'', ''version'', ''description'', ''initialState'']"

definition optional_array :: "string \<Rightarrow> jv \<Rightarrow> string + unit" where
  "optional_array name v =
     (if v = JUndef \<or> string_array v then Inr ()
      else Inl (''definition field '' @ quoted name @ '' must be an array of non-empty strings''))"

definition check_schema :: "jv \<Rightarrow> string + unit" where
  "check_schema v =
     (case v of
        JObj ps \<Rightarrow>
          ebind (first_error (\<lambda>f. text_failure (''definition field '' @ quoted f @ '' must be a non-empty string'') (jget ps f)) required_fields) (\<lambda>_.
          ebind (check_array ''states'' state_failure (jget ps ''states'')) (\<lambda>_.
          ebind (check_array ''events'' event_failure (jget ps ''events'')) (\<lambda>_.
          ebind (check_array ''totalMatrix'' cell_failure (jget ps ''totalMatrix'')) (\<lambda>_.
          ebind (check_array ''invariants'' (text_failure ''invariant list items must be non-empty strings'') (jget ps ''invariants'')) (\<lambda>_.
          ebind (check_array ''proofObligations'' (text_failure ''proofObligations list items must be non-empty strings'') (jget ps ''proofObligations'')) (\<lambda>_.
          ebind (if jget ps ''proofMappings'' = JUndef then Inr () else check_array ''proofMappings'' mapping_failure (jget ps ''proofMappings'')) (\<lambda>_.
          ebind (optional_array ''guardRegistryRefs'' (jget ps ''guardRegistryRefs'')) (\<lambda>_.
          ebind (optional_array ''allowedTerminalEvents'' (jget ps ''allowedTerminalEvents'')) (\<lambda>_.
            if jget ps ''entityType'' = JStr ''capability_acceptance'' then check_acceptance ps else Inr ())))))))))
      | _ \<Rightarrow> Inl ''definition must be a JSON object'')"

section \<open>Accepted definitions are well typed\<close>

declare first_failure.simps [simp del]

lemma nonblank_str: "nonblank v \<Longrightarrow> trim (str_of v) \<noteq> [] \<and> v = JStr (str_of v)"
  by (cases v) (simp_all add: nonblank_def)

lemma strings_nonblank: "list_all nonblank (items_of v) \<Longrightarrow> g \<in> set (strings_of v) \<Longrightarrow> trim g \<noteq> []"
  using nonblank_str by (fastforce simp: strings_of_def list_all_iff)

lemma check_array_ok: "check_array name f v = Inr () \<longleftrightarrow> is_array v \<and> (\<forall>x \<in> set (items_of v). f x = None)"
  by (simp add: check_array_def)

lemma text_failure_None [simp]: "text_failure msg v = None \<longleftrightarrow> nonblank v"
  by (simp add: text_failure_def)

lemma ebind_unit: "ebind r f = Inr () \<longleftrightarrow> r = Inr () \<and> f () = Inr ()" for r :: "'e + unit"
  by (cases r) auto

lemma find_result: "find (\<lambda>r. v = JStr (result_value r)) rs = Some x \<Longrightarrow> v = JStr (result_value x)"
  by (induction rs) (auto split: if_splits)

lemma result_of_Some: "result_of v = Some r \<Longrightarrow> v = JStr (result_value r)"
  unfolding result_of_def by (rule find_result)

definition well_typed_cell :: "cell \<Rightarrow> bool" where
  "well_typed_cell c \<longleftrightarrow> trim (c_from c) \<noteq> [] \<and> trim (c_event c) \<noteq> [] \<and> (\<forall>g \<in> set (all_guards c). trim g \<noteq> [])"

definition well_typed :: "machine \<Rightarrow> bool" where
  "well_typed m \<longleftrightarrow> trim (m_id m) \<noteq> [] \<and> trim (m_entity m) \<noteq> [] \<and> trim (m_version m) \<noteq> [] \<and> trim (m_initial m) \<noteq> [] \<and>
     (\<forall>s \<in> set (m_states m). trim (ss_id s) \<noteq> []) \<and>
     (\<forall>v \<in> set (m_events m). trim (sv_id v) \<noteq> [] \<and> sv_risk v \<in> {None, Some ''low'', Some ''medium'', Some ''high''}) \<and>
     (\<forall>c \<in> set (m_matrix m). well_typed_cell c)"

lemma state_failure_typed: "state_failure v = None \<Longrightarrow> trim (ss_id (state_of v)) \<noteq> []"
  using nonblank_str by (auto simp: state_failure_def state_of_def Let_def)

lemma event_failure_typed:
  "event_failure v = None \<Longrightarrow>
     trim (sv_id (event_of v)) \<noteq> [] \<and> sv_risk (event_of v) \<in> {None, Some ''low'', Some ''medium'', Some ''high''}"
  using nonblank_str by (auto simp: event_failure_def event_of_def Let_def)

lemma cell_failure_typed:
  assumes "cell_failure v = None"
  shows "well_typed_cell (cell_of v) \<and> jget (as_record v) ''result'' = JStr (result_value (c_result (cell_of v)))"
proof -
  let ?ps = "as_record v"
  have f: "nonblank (jget ?ps ''from'')" "nonblank (jget ?ps ''event'')" "result_of (jget ?ps ''result'') \<noteq> None"
      "list_all nonblank (items_of (jget ?ps ''guards''))" "list_all nonblank (items_of (jget ?ps ''requiredGuards''))"
    using assms by (simp_all add: cell_failure_def Let_def opt_guard_list_def)
  obtain r where r: "result_of (jget ?ps ''result'') = Some r" using f(3) by auto
  have "well_typed_cell (cell_of v)"
    using nonblank_str [OF f(1)] nonblank_str [OF f(2)] strings_nonblank [OF f(4)] strings_nonblank [OF f(5)]
    by (auto simp: well_typed_cell_def cell_of_def Let_def all_guards_def)
  then show ?thesis using r result_of_Some [OF r] by (simp add: cell_of_def Let_def or_else_def)
qed

lemma check_schema_parts:
  assumes "check_schema (JObj ps) = Inr ()"
  shows "list_all (\<lambda>f. nonblank (jget ps f)) required_fields"
    and "\<forall>x \<in> set (items_of (jget ps ''states'')). state_failure x = None"
    and "\<forall>x \<in> set (items_of (jget ps ''events'')). event_failure x = None"
    and "\<forall>x \<in> set (items_of (jget ps ''totalMatrix'')). cell_failure x = None"
    and "jget ps ''entityType'' = JStr ''capability_acceptance'' \<Longrightarrow> check_acceptance ps = Inr ()"
  using assms by (simp_all add: check_schema_def ebind_unit check_array_ok list_all_iff)

lemma acceptance_contract_met:
  assumes "check_acceptance ps = Inr ()" and "(obligation, contract) \<in> set acceptance_contracts"
  shows "obligation \<in> set (m_obligations (machine_of ps)) \<and>
     map_option pm_method (find_mapping (machine_of ps) obligation) = Some (ac_method contract)"
proof -
  have "contract_failure (machine_of ps) (obligation, contract) = None"
    using assms by (auto simp: check_acceptance_def Let_def ebind_unit split: if_splits)
  then show ?thesis by (auto simp: contract_failure_def split: if_splits option.splits)
qed

text \<open>
  An accepted definition is well typed. When the schema check accepts a JSON value, the typed
  definition it stands for has non-blank ids, statuses, events and guards, risks from the fixed
  list, and every cell's result is the one written in the value; a capability acceptance
  definition moreover meets all five acceptance contracts with the contract's proof method, and
  its verification step requires a receipt.
\<close>

theorem schema_well_typed:
  assumes "check_schema (JObj ps) = Inr ()"
  shows "well_typed (machine_of ps)
    \<and> list_all (\<lambda>v. jget (as_record v) ''result'' = JStr (result_value (c_result (cell_of v)))) (items_of (jget ps ''totalMatrix''))
    \<and> (m_entity (machine_of ps) = ''capability_acceptance'' \<longrightarrow>
        receipt_cell_ok (machine_of ps) \<and>
        list_all (\<lambda>(obligation, contract). obligation \<in> set (m_obligations (machine_of ps)) \<and>
          map_option pm_method (find_mapping (machine_of ps) obligation) = Some (ac_method contract)) acceptance_contracts)"
proof (intro conjI impI)
  note P = check_schema_parts [OF assms]
  have nb: "nonblank (jget ps f)" if "f \<in> set required_fields" for f using P(1) that by (simp add: list_all_iff)
  note str = nonblank_str [OF nb]
  show "well_typed (machine_of ps)"
    using str P(2-4) state_failure_typed event_failure_typed cell_failure_typed
    by (auto simp: well_typed_def machine_of_def required_fields_def)
  show "list_all (\<lambda>v. jget (as_record v) ''result'' = JStr (result_value (c_result (cell_of v)))) (items_of (jget ps ''totalMatrix''))"
    using P(4) cell_failure_typed by (simp add: list_all_iff)
  assume "m_entity (machine_of ps) = ''capability_acceptance''"
  then have "jget ps ''entityType'' = JStr ''capability_acceptance''"
    using str [of "''entityType''"] by (simp add: machine_of_def required_fields_def)
  then have a: "check_acceptance ps = Inr ()" by (rule P(5))
  then show "receipt_cell_ok (machine_of ps)"
    by (auto simp: check_acceptance_def Let_def ebind_unit split: if_splits)
  show "list_all (\<lambda>(obligation, contract). obligation \<in> set (m_obligations (machine_of ps)) \<and>
      map_option pm_method (find_mapping (machine_of ps) obligation) = Some (ac_method contract)) acceptance_contracts"
    using acceptance_contract_met [OF a] by (auto simp: list_all_iff)
qed

definition demo_definition :: "(string \<times> jv) list" where
  "demo_definition =
    [(''machineId'', JStr ''m''), (''entityType'', JStr ''t''), (''version'', JStr ''1''), (''description'', JStr ''d''),
     (''initialState'', JStr ''a''),
     (''states'', JArr [JObj [(''id'', JStr ''a'')], JObj [(''id'', JStr ''b''), (''terminal'', JBool True)]]),
     (''events'', JArr [JObj [(''id'', JStr ''e''), (''riskLevel'', JStr ''high'')]]),
     (''totalMatrix'', JArr
       [JObj [(''from'', JStr ''a''), (''event'', JStr ''e''), (''result'', JStr ''legal_transition''), (''to'', JStr ''b''),
          (''guards'', JArr [JStr ''require_approval''])],
        JObj [(''from'', JStr ''b''), (''event'', JStr ''e''), (''result'', JStr ''illegal_transition''), (''errorCode'', JStr ''E'')]]),
     (''invariants'', JArr []), (''proofObligations'', JArr [])]"

theorem schema_well_typed_witness:
  "check_schema (JObj demo_definition) = Inr () \<and> well_typed (machine_of demo_definition)"
proof -
  have c: "check_schema (JObj demo_definition) = Inr ()" by code_simp
  show ?thesis using schema_well_typed [OF c] c by blast
qed

end
