(* ===== verification/StateMachineCore.thy ===== *)
theory StateMachineCore imports MachineSchema begin

text \<open>
  The engine, \<open>engine/state-machine-core.ts\<close>: structural and executable validation, terminal
  states, redaction of metadata, and the execution of a transition with its evidence checks. The
  hash of a definition is a parameter. A transition of a definition that skipped validation is
  read by the typed reading of the schema theory; message texts of results are left out.
\<close>

section \<open>Validation\<close>

datatype sm_issue =
    NullDefinition
  | FieldRequired string
  | DuplicateStates
  | InitialUnknown string
  | TerminalUnknown string
  | SchemaIssue string
  | StructureInvalid
  | DuplicateEvents
  | BlankGuard string
  | UnregisteredGuard string
  | TopologyIssue topology_error
  | StaticGuard string string
  | UnsafeGuard string string

definition record_id :: "jv \<Rightarrow> string" where
  "record_id v = js_string (js_or (jget (as_record v) ''id'') (JStr []))"

text \<open>\<open>validateStateMachineDefinition\<close>: the structural check over any value.\<close>

definition validate_definition :: "jv \<Rightarrow> sm_issue list" where
  "validate_definition v =
     (case v of
        JObj ps \<Rightarrow>
          (let missing =
             (if truthy (jget ps ''machineId'') then [] else [FieldRequired ''machineId'']) @
             (if truthy (jget ps ''initialState'') then [] else [FieldRequired ''initialState'']) @
             (if is_array (jget ps ''states'') then [] else [FieldRequired ''states'']) @
             (if is_array (jget ps ''events'') then [] else [FieldRequired ''events'']) @
             (if is_array (jget ps ''totalMatrix'') then [] else [FieldRequired ''totalMatrix''])
           in if missing \<noteq> [] then missing
              else
                (let states = items_of (jget ps ''states''); ids = map record_id states;
                     initial = js_string (js_or (jget ps ''initialState'') (JStr []))
                 in (if distinct ids then [] else [DuplicateStates]) @
                    (if initial \<in> set ids then [] else [InitialUnknown initial]) @
                    concat (map (\<lambda>s. if truthy (jget (as_record s) ''terminal'') \<and> record_id s \<notin> set ids
                       then [TerminalUnknown (record_id s)] else []) states)))
      | _ \<Rightarrow> [NullDefinition])"

definition guard_list_issues :: "string list \<Rightarrow> sm_issue list" where
  "guard_list_issues gs =
     concat (map (\<lambda>g. if trim g = [] then [BlankGuard g]
        else if g \<notin> set list_all_guard_ids then [UnregisteredGuard g] else []) gs)"

definition static_issues :: "cell \<Rightarrow> string list \<Rightarrow> sm_issue list" where
  "static_issues c gs =
     concat (map (\<lambda>g. if is_static_only_guard g then [StaticGuard g (c_from c)]
        else if \<not> is_guard_runtime_safe g \<and> guard_exists g then [UnsafeGuard g (c_from c)] else []) gs)"

definition machine_issues :: "machine \<Rightarrow> sm_issue list" where
  "machine_issues m =
     (if distinct (map sv_id (m_events m)) then [] else [DuplicateEvents]) @
     concat (map (\<lambda>c. guard_list_issues (c_guards c) @ guard_list_issues (c_required c)) (m_matrix m)) @
     map TopologyIssue (validate_topology m) @
     concat (map (\<lambda>c. static_issues c (c_guards c) @ static_issues c (c_required c)) (m_matrix m))"

definition executable_definition :: "jv \<Rightarrow> machine option" where
  "executable_definition v =
     (case v of
        JObj ps \<Rightarrow>
          if opt_str (jget ps ''machineId'') \<noteq> None \<and> opt_str (jget ps ''initialState'') \<noteq> None \<and>
             is_array (jget ps ''states'') \<and> is_array (jget ps ''events'') \<and> is_array (jget ps ''totalMatrix'')
          then Some (machine_of ps) else None
      | _ \<Rightarrow> None)"

text \<open>\<open>validateExecutableStateMachineDefinition\<close>.\<close>

definition validate_executable :: "jv \<Rightarrow> sm_issue list" where
  "validate_executable v =
     (let early = (case check_schema v of Inl e \<Rightarrow> [SchemaIssue e] | Inr _ \<Rightarrow> []) @ validate_definition v
      in if early \<noteq> [] then early
         else (case executable_definition v of None \<Rightarrow> [StructureInvalid] | Some m \<Rightarrow> machine_issues m))"

definition assert_definition :: "jv \<Rightarrow> sm_issue list + unit" where
  "assert_definition v = (let issues = validate_executable v in if issues = [] then Inr () else Inl issues)"

definition is_terminal_status :: "jv \<Rightarrow> string \<Rightarrow> bool" where
  "is_terminal_status v status =
     (case executable_definition v of
        None \<Rightarrow> False
      | Some m \<Rightarrow> (case find (\<lambda>s. ss_id s = status) (m_states m) of None \<Rightarrow> False | Some s \<Rightarrow> ss_terminal s))"

section \<open>Redaction of metadata\<close>

definition lower_char :: "char \<Rightarrow> char" where
  "lower_char c = (let n = (of_char c :: nat) in if 65 \<le> n \<and> n \<le> 90 then char_of (n + 32) else c)"

definition to_lower :: "string \<Rightarrow> string" where
  "to_lower = map lower_char"

definition is_alnum_lower :: "char \<Rightarrow> bool" where
  "is_alnum_lower c \<longleftrightarrow> (let n = (of_char c :: nat) in (97 \<le> n \<and> n \<le> 122) \<or> (48 \<le> n \<and> n \<le> 57))"

definition normalize_key :: "string \<Rightarrow> string" where
  "normalize_key k = filter is_alnum_lower (to_lower k)"

definition safe_keys :: "string list" where
  "safe_keys = [''reasoncode'', ''operationid'', ''traceid'', ''scopeid'', ''status'', ''machineid'', ''entityid'', ''eventtype'',
     ''fromstatus'', ''tostatus'', ''guardid'', ''ok'', ''reason'', ''branch'', ''commit'', ''runid'', ''verificationmode'', ''mode'',
     ''labels'', ''type'', ''id'', ''name'', ''count'', ''total'', ''version'', ''schemaversion'']"

definition redact_patterns :: "string list" where
  "redact_patterns = [''token'', ''secret'', ''password'', ''cookie'', ''authorization'', ''apikey'', ''accesskey'', ''refreshtoken'',
     ''accesstoken'', ''privatepath'', ''absolutepath'', ''opaque'', ''capability'', ''keyhash'', ''lookupkey'', ''credential'',
     ''signature'', ''signingkey'', ''clientsecret'', ''credentialbundle'']"

definition sensitive_key :: "string \<Rightarrow> bool" where
  "sensitive_key k \<longleftrightarrow> k \<notin> set safe_keys \<and> list_ex (\<lambda>p. contains p k) redact_patterns"

definition posix_roots :: "string list" where
  "posix_roots = [''Users'', ''home'', ''root'', ''tmp'', ''var'', ''etc'', ''opt'', ''usr'']"

definition is_letter :: "char \<Rightarrow> bool" where
  "is_letter c \<longleftrightarrow> (let n = (of_char c :: nat) in (65 \<le> n \<and> n \<le> 90) \<or> (97 \<le> n \<and> n \<le> 122))"

definition is_abs_path :: "string \<Rightarrow> bool" where
  "is_abs_path s \<longleftrightarrow>
     (case s of a # b # c # _ \<Rightarrow> is_letter a \<and> b = CHR '':'' \<and> (c = CHR 0x5C \<or> c = CHR ''/'') | _ \<Rightarrow> False) \<or>
     list_ex (\<lambda>r. is_prefix (''/'' @ r @ ''/'') s) posix_roots"

definition contains_token :: "string \<Rightarrow> bool" where
  "contains_token s \<longleftrightarrow>
     (let l = to_lower s
      in is_prefix ''bearer '' l \<or> is_prefix ''basic '' l \<or>
         list_ex (\<lambda>p. contains p l)
           [''?token='', ''&token='', ''&access_token='', ''?access_token='', ''&refresh_token='', ''?refresh_token='', ''?api_key='',
            ''&api_key='', ''authorization:'', ''x-api-key:'', ''client_secret='', ''&client_secret='', ''authorization = bearer'',
            ''authorization=bearer''])"

definition sensitive_string :: "string \<Rightarrow> bool" where
  "sensitive_string s \<longleftrightarrow>
     (let l = trim (to_lower s)
      in is_prefix ''bearer '' l \<or> is_prefix ''basic '' l \<or> is_prefix ''sk-'' l \<or> is_prefix ''ock_'' l)"

definition redacted_for :: "string \<Rightarrow> jv" where
  "redacted_for reason = JObj [(''redacted'', JBool True), (''reason'', JStr reason)]"

definition redact_string :: "string \<Rightarrow> jv" where
  "redact_string s =
     (if is_abs_path s then redacted_for ''absolute_path''
      else if contains_token s then redacted_for ''sensitive_key''
      else if sensitive_string s then redacted_for ''sensitive_key''
      else JStr s)"

text \<open>A string directly under a harmless key: text that itself reads like a sensitive key goes too.\<close>

definition redact_entry_string :: "string \<Rightarrow> jv" where
  "redact_entry_string s =
     (case redact_string s of
        JStr t \<Rightarrow> if sensitive_key (normalize_key t) then redacted_for ''sensitive_key'' else JStr t
      | r \<Rightarrow> r)"

fun redact_metadata :: "jv \<Rightarrow> nat \<Rightarrow> jv" where
  "redact_metadata v depth =
     (if depth > 10 then redacted_for ''max_depth_exceeded''
      else
        (case v of
           JStr s \<Rightarrow> redact_string s
         | JArr xs \<Rightarrow> JArr (map (\<lambda>x. redact_metadata x (Suc depth)) xs)
         | JObj ps \<Rightarrow>
             JObj (map (\<lambda>(k, x).
               (k, if sensitive_key (normalize_key k) then
                     (case x of
                        JArr _ \<Rightarrow> redact_metadata x (Suc depth)
                      | JObj _ \<Rightarrow> redact_metadata x (Suc depth)
                      | _ \<Rightarrow> redacted_for ''sensitive_key'')
                   else
                     (case x of
                        JStr s \<Rightarrow> redact_entry_string s
                      | JArr _ \<Rightarrow> redact_metadata x (Suc depth)
                      | JObj _ \<Rightarrow> redact_metadata x (Suc depth)
                      | JNull \<Rightarrow> redact_metadata x (Suc depth)
                      | _ \<Rightarrow> x))) ps)
         | _ \<Rightarrow> v))"

declare redact_metadata.simps [simp del]

section \<open>Transitions\<close>

record transition_input =
  ti_entity :: jv
  ti_status :: string
  ti_event :: string
  ti_actor :: jv
  ti_reason :: jv
  ti_metadata :: jv
  ti_operation :: jv
  ti_trace :: jv
  ti_audit :: jv
  ti_checkpoint :: jv
  ti_policy :: jv
  ti_approval :: jv
  ti_now :: jv
  ti_context :: context_of
  ti_resume :: jv
  ti_injected :: bool

record required_effects =
  re_policy :: bool
  re_approval :: bool
  re_receipt :: bool
  re_async :: bool
  re_ledger :: bool
  re_checkpoint :: bool
  re_audit :: bool

record transition_record =
  tr_entity :: jv
  tr_type :: string
  tr_from :: string
  tr_to :: string
  tr_event :: string
  tr_metadata :: jv
  tr_evidence :: "jv list"
  tr_results :: "guard_result list option"

record moved =
  mv_machine :: string
  mv_from :: string
  mv_to :: string
  mv_event :: string
  mv_idempotent :: bool
  mv_record :: transition_record
  mv_effects :: required_effects
  mv_async :: "(jv \<times> jv \<times> jv) option"

datatype outcome =
    Refused string "string option" "string list option"
  | InvalidDefinition "sm_issue list"
  | NotSelected selection
  | Moved moved

definition policy_allows :: "context_of \<Rightarrow> bool" where
  "policy_allows ctx \<longleftrightarrow>
     (let p = ctx_record ctx ''policyDecision''
      in jget p ''allowed'' = JBool True \<or> js_or (jget p ''decision'') (jget p ''status'') = JStr ''allow'')"

definition approval_given :: "context_of \<Rightarrow> bool" where
  "approval_given ctx \<longleftrightarrow> jget (ctx_record ctx ''approvalRecord'') ''status'' = JStr ''approved''"

definition receipt_recorded :: "context_of \<Rightarrow> bool" where
  "receipt_recorded ctx \<longleftrightarrow> jget (ctx_record ctx ''externalReceipt'') ''status'' = JStr ''recorded''"

definition can_resume :: "transition_input \<Rightarrow> bool" where
  "can_resume i \<longleftrightarrow> truthy (js_or (ti_resume i) (ti_operation i))"

text \<open>The evidence checks after selection: what blocks, if anything.\<close>

definition missing_evidence :: "transition_result \<Rightarrow> transition_input \<Rightarrow> string option" where
  "missing_evidence r i =
     (if r = RequiresPolicy \<and> \<not> policy_allows (ti_context i) then Some ''policy''
      else if r = RequiresApproval \<and> \<not> approval_given (ti_context i) then Some ''approval''
      else if r = RequiresReceipt \<and> \<not> receipt_recorded (ti_context i) then Some ''externalReceipt''
      else if r = DeferredAsync \<and> \<not> can_resume i then Some ''async''
      else None)"

definition or_null :: "jv \<Rightarrow> jv" where
  "or_null v = js_or v JNull"

definition record_of :: "machine \<Rightarrow> transition_input \<Rightarrow> string \<Rightarrow> jv list \<Rightarrow> guard_result list \<Rightarrow> transition_record" where
  "record_of m i to_status facts results =
     \<lparr>tr_entity = ti_entity i, tr_type = m_entity m, tr_from = ti_status i, tr_to = to_status, tr_event = ti_event i,
      tr_metadata = redact_metadata (ti_metadata i) 0, tr_evidence = facts, tr_results = guard_summary results\<rparr>"

definition idempotent_move :: "machine \<Rightarrow> transition_input \<Rightarrow> guard_result list \<Rightarrow> moved" where
  "idempotent_move m i results =
     \<lparr>mv_machine = m_id m, mv_from = ti_status i, mv_to = ti_status i, mv_event = ti_event i, mv_idempotent = True,
      mv_record = record_of m i (ti_status i) [ti_operation i, ti_now i, ti_actor i, ti_reason i] results,
      mv_effects = \<lparr>re_policy = False, re_approval = False, re_receipt = False, re_async = False, re_ledger = False,
        re_checkpoint = False, re_audit = False\<rparr>,
      mv_async = None\<rparr>"

definition full_move :: "machine \<Rightarrow> transition_input \<Rightarrow> cell \<Rightarrow> guard_result list \<Rightarrow> moved" where
  "full_move m i c results =
     (let to_status = to_or (ti_status i) (c_to c); r = c_result c
      in \<lparr>mv_machine = m_id m, mv_from = ti_status i, mv_to = to_status, mv_event = ti_event i, mv_idempotent = False,
          mv_record = record_of m i to_status
            [ti_operation i, ti_now i, ti_actor i, ti_reason i, ti_trace i, ti_audit i, ti_checkpoint i, ti_policy i, ti_approval i] results,
          mv_effects = \<lparr>re_policy = (r = RequiresPolicy), re_approval = (r = RequiresApproval), re_receipt = (r = RequiresReceipt),
            re_async = (r = DeferredAsync), re_ledger = True, re_checkpoint = (''checkpoint'' \<in> set (c_effects c)),
            re_audit = (''audit'' \<in> set (c_effects c))\<rparr>,
          mv_async = (if r = DeferredAsync then Some (or_null (ti_resume i), or_null (ti_operation i), or_null (ti_trace i)) else None)\<rparr>)"

definition apply_cell :: "machine \<Rightarrow> transition_input \<Rightarrow> cell \<Rightarrow> guard_result list \<Rightarrow> outcome" where
  "apply_cell m i c results =
     (if c_result c = IllegalTransition
      then Refused (str_or (or_else [] (c_error c)) ''STATE_MACHINE_TRANSITION_NOT_ALLOWED'') None (Some (list_allowed_events m (ti_status i)))
      else if c_result c = IgnoredIdempotent then Moved (idempotent_move m i results)
      else
        (case missing_evidence (c_result c) i of
           Some what \<Rightarrow> Refused ''STATE_MACHINE_GUARD_BLOCKED'' (Some what) (Some (list_allowed_events m (ti_status i)))
         | None \<Rightarrow> Moved (full_move m i c results)))"

text \<open>\<open>transitionState\<close> once the definition is read and validation passed or was skipped.\<close>

definition run_transition :: "guard_evaluator option \<Rightarrow> machine \<Rightarrow> transition_input \<Rightarrow> guard_error + outcome" where
  "run_transition evaluator m i =
     (if ti_injected i then Inr (Refused ''STATE_MACHINE_GUARD_INJECTION_REJECTED'' None None)
      else if \<not> has_state m (ti_status i) then Inr (Refused ''STATE_MACHINE_UNKNOWN_STATUS'' None None)
      else if \<not> has_event m (ti_event i) then Inr (Refused ''STATE_MACHINE_UNKNOWN_EVENT'' None None)
      else
        ebind (select_transition_cell evaluator m (ti_status i) (ti_event i) (ti_context i)) (\<lambda>sel.
          if \<not> sel_ok sel then Inr (NotSelected sel)
          else
            (case sel_cell sel of
               None \<Rightarrow> Inr (Refused ''STATE_MACHINE_TRANSITION_NOT_ALLOWED'' None None)
             | Some c \<Rightarrow> Inr (apply_cell m i c (or_else [] (sel_results sel))))))"

record transition_options =
  to_skip :: bool
  to_hash :: "string option"
  to_evaluator :: "guard_evaluator option"

definition default_options :: transition_options where
  "default_options = \<lparr>to_skip = False, to_hash = None, to_evaluator = None\<rparr>"

definition skips_validation :: "(jv \<Rightarrow> string) \<Rightarrow> transition_options \<Rightarrow> jv \<Rightarrow> bool" where
  "skips_validation hash_of opts v \<longleftrightarrow>
     to_skip opts \<or> (case to_hash opts of None \<Rightarrow> False | Some h \<Rightarrow> h \<noteq> [] \<and> h = hash_of v)"

definition transition_state :: "(jv \<Rightarrow> string) \<Rightarrow> transition_options \<Rightarrow> jv \<Rightarrow> transition_input \<Rightarrow> guard_error + outcome" where
  "transition_state hash_of opts v i =
     (case executable_definition v of
        None \<Rightarrow> Inr (Refused ''STATE_MACHINE_INVALID_INPUT'' None None)
      | Some m \<Rightarrow>
          if \<not> skips_validation hash_of opts v \<and> validate_executable v \<noteq> [] then Inr (InvalidDefinition (validate_executable v))
          else run_transition (to_evaluator opts) m i)"

definition compile_definition :: "(jv \<Rightarrow> string) \<Rightarrow> jv \<Rightarrow> string \<times> sm_issue list \<times> bool" where
  "compile_definition hash_of v = (let issues = validate_executable v in (hash_of v, issues, issues = []))"

end
