(* ===== verification/MetadataRedaction.thy ===== *)
theory MetadataRedaction imports StateMachineCore begin

text \<open>
  What the engine's redaction of transition metadata removes, and what it lets through.
\<close>

definition string_ok :: "string \<Rightarrow> bool" where
  "string_ok s \<longleftrightarrow> \<not> is_abs_path s \<and> \<not> contains_token s \<and> \<not> sensitive_string s"

text \<open>No recognisable secret: strings are clean, and a sensitive key holds a container only.\<close>

fun clean :: "jv \<Rightarrow> bool" where
  "clean (JStr s) = string_ok s"
| "clean (JArr xs) = (\<forall>x \<in> set xs. clean x)"
| "clean (JObj ps) = (\<forall>p \<in> set ps. clean (snd p) \<and> (sensitive_key (normalize_key (fst p)) \<longrightarrow> is_array (snd p) \<or> is_record (snd p)))"
| "clean _ = True"

lemma marker_clean:
  "clean (redacted_for ''absolute_path'')" "clean (redacted_for ''sensitive_key'')" "clean (redacted_for ''max_depth_exceeded'')"
  by code_simp+

lemma marker_record [simp]: "is_record (redacted_for r)"
  by (simp add: redacted_for_def is_record_def)

lemma redact_string_clean: "clean (redact_string s)"
  by (simp add: redact_string_def marker_clean string_ok_def)

lemma redact_entry_clean: "clean (redact_entry_string s)"
  by (cases "redact_string s") (use redact_string_clean [of s] in \<open>auto simp: redact_entry_string_def marker_clean\<close>)

lemma redact_container:
  "is_array x \<or> is_record x \<Longrightarrow> is_array (redact_metadata x d) \<or> is_record (redact_metadata x d)"
  by (cases x) (simp_all add: redact_metadata.simps is_array_def is_record_def redacted_for_def)

lemma redact_clean: "clean (redact_metadata v d)"
proof (induction v d rule: redact_metadata.induct)
  case (1 v d)
  show ?case
  proof (cases "d > 10")
    case True
    then show ?thesis by (simp add: redact_metadata.simps marker_clean)
  next
    case deep: False
    show ?thesis
    proof (cases v)
      case (JStr s)
      then show ?thesis using deep by (simp add: redact_metadata.simps redact_string_clean)
    next
      case (JArr xs)
      then show ?thesis using deep "1.IH"(1) [OF deep JArr] by (simp add: redact_metadata.simps [of "JArr xs" d])
    next
      case (JObj ps)
      define F where "F = (\<lambda>k x. if sensitive_key (normalize_key k) then
               (case x of JArr _ \<Rightarrow> redact_metadata x (Suc d) | JObj _ \<Rightarrow> redact_metadata x (Suc d) | _ \<Rightarrow> redacted_for ''sensitive_key'')
             else (case x of JStr s \<Rightarrow> redact_entry_string s | JArr _ \<Rightarrow> redact_metadata x (Suc d)
               | JObj _ \<Rightarrow> redact_metadata x (Suc d) | JNull \<Rightarrow> redact_metadata x (Suc d) | _ \<Rightarrow> x))"
      have eq: "redact_metadata (JObj ps) d = JObj (map (\<lambda>(k, x). (k, F k x)) ps)"
        using deep by (simp add: redact_metadata.simps [of "JObj ps" d] F_def)
      have f: "clean (F k x) \<and> (sensitive_key (normalize_key k) \<longrightarrow> is_array (F k x) \<or> is_record (F k x))"
        if p: "(k, x) \<in> set ps" for k x
      proof (cases "\<exists>zs. x = JArr zs \<or> (\<exists>qs. x = JObj qs)")
        case True
        then have c: "is_array x \<or> is_record x" by (auto simp: is_array_def is_record_def)
        have yx: "F k x = redact_metadata x (Suc d)" using True by (auto simp: F_def)
        have "clean (redact_metadata x (Suc d))"
          using True "1.IH"(2-) [OF deep JObj p refl] by auto
        then show ?thesis using yx redact_container [OF c] by simp
      next
        case False
        have n: "clean (redact_metadata JNull (Suc d))"
          by (simp add: redact_metadata.simps marker_clean)
        show ?thesis using False n by (cases x) (auto simp: F_def marker_clean redact_entry_clean)
      qed
      show ?thesis unfolding JObj eq using f by fastforce
    qed (use deep in \<open>simp_all add: redact_metadata.simps\<close>)
  qed
qed


text \<open>A value nested below a sensitive key is kept when its own key is harmless.\<close>

lemma nested_secret_kept:
  "redact_metadata (JObj [(''password'', JObj [(''value'', JStr ''hunter2'')])]) 0
    = JObj [(''password'', JObj [(''value'', JStr ''hunter2'')])]"
  by code_simp

lemma listed_secret_kept:
  "redact_metadata (JObj [(''apiKeys'', JArr [JStr ''hunter2''])]) 0 = JObj [(''apiKeys'', JArr [JStr ''hunter2''])]"
  by code_simp

end
