(* ===== verification/StateMachineSafety.thy ===== *)
theory StateMachineSafety imports StateMachineCore begin

text \<open>
  What the engine guarantees: a validated definition never gets a transition stuck, a transition
  stays among the declared and reachable states, it happens only on the evidence its cell asks
  for, and its record holds no secret the redaction rules recognise.
\<close>

section \<open>Validated definitions\<close>

lemma valid_is_record: "validate_executable v = [] \<Longrightarrow> \<exists>ps. v = JObj ps"
  by (cases v) (auto simp: validate_executable_def check_schema_def Let_def split: if_splits)

lemma valid_parts:
  assumes "validate_executable (JObj ps) = []"
  shows "check_schema (JObj ps) = Inr ()" "validate_definition (JObj ps) = []"
    "executable_definition (JObj ps) = Some (machine_of ps)" "machine_issues (machine_of ps) = []"
proof -
  show s: "check_schema (JObj ps) = Inr ()"
    using assms by (auto simp: validate_executable_def Let_def split: sum.splits if_splits)
  show d: "validate_definition (JObj ps) = []"
    using assms by (auto simp: validate_executable_def Let_def split: if_splits)
  have f: "nonblank (jget ps ''machineId'')" "nonblank (jget ps ''initialState'')"
    using check_schema_parts(1) [OF s] by (simp_all add: required_fields_def)
  have a: "is_array (jget ps ''states'')" "is_array (jget ps ''events'')" "is_array (jget ps ''totalMatrix'')"
    using s by (simp_all add: check_schema_def ebind_unit check_array_ok)
  have "jget ps ''machineId'' = JStr (str_of (jget ps ''machineId''))" "jget ps ''initialState'' = JStr (str_of (jget ps ''initialState''))"
    using nonblank_str f by blast+
  then have "opt_str (jget ps ''machineId'') \<noteq> None" "opt_str (jget ps ''initialState'') \<noteq> None"
    by (metis opt_str.simps(1) option.distinct(1))+
  then show e: "executable_definition (JObj ps) = Some (machine_of ps)" using a by (simp add: executable_definition_def)
  show "machine_issues (machine_of ps) = []"
    using assms s d by (simp add: validate_executable_def e)
qed

lemma guard_list_ok: "guard_list_issues gs = [] \<Longrightarrow> g \<in> set gs \<Longrightarrow> trim g \<noteq> [] \<and> g \<in> set list_all_guard_ids"
  by (induction gs) (auto simp: guard_list_issues_def split: if_splits)

lemma machine_issues_ok:
  assumes "machine_issues m = []"
  shows "validate_topology m = []"
    and "c \<in> set (m_matrix m) \<Longrightarrow> g \<in> set (all_guards c) \<Longrightarrow> trim g \<noteq> [] \<and> g \<in> set list_all_guard_ids"
proof -
  show "validate_topology m = []" using assms by (simp add: machine_issues_def)
  assume c: "c \<in> set (m_matrix m)" "g \<in> set (all_guards c)"
  have "guard_list_issues (c_guards c) = []" "guard_list_issues (c_required c) = []"
    using assms c(1) by (simp_all add: machine_issues_def)
  then show "trim g \<noteq> [] \<and> g \<in> set list_all_guard_ids"
    using c(2) guard_list_ok unfolding all_guards_def set_append Un_iff by blast
qed

lemma registered_guard_evaluates:
  assumes "g \<in> set list_all_guard_ids" and "trim g \<noteq> []"
  shows "\<exists>r. evaluate_guard (JStr g) ctx = Inr r"
proof -
  have "g \<noteq> []" using assms(2) by auto
  then have "js_string (js_or (JStr g) (JStr [])) = g" by (simp add: js_or_def)
  moreover obtain d where "map_of guard_registry g = Some d"
    using assms(1) by (metis list_all_guard_ids_def list.set_map map_of_eq_None_iff not_None_eq)
  ultimately show ?thesis by (simp add: evaluate_guard_def registry_get_def)
qed

lemma evaluate_set_total:
  "(\<And>g. g \<in> set gs \<Longrightarrow> \<exists>r. evaluate_guard g ctx = Inr r) \<Longrightarrow> \<exists>rs. evaluate_guard_set gs ctx = Inr rs"
proof (induction gs)
  case (Cons g gs)
  obtain r where "evaluate_guard g ctx = Inr r" using Cons.prems [of g] by auto
  moreover obtain rs where "evaluate_guard_set gs ctx = Inr rs" using Cons.IH Cons.prems by auto
  ultimately show ?case by simp
qed simp

lemma evaluate_cell_total:
  assumes "machine_issues m = []" and "c \<in> set (m_matrix m)"
  shows "\<exists>g. evaluate_cell_guards None c ctx = Inr g"
proof -
  have "\<exists>r. evaluate_guard x ctx = Inr r" if "x \<in> set (map JStr (all_guards c))" for x
    using machine_issues_ok(2) [OF assms] registered_guard_evaluates that by auto
  then obtain rs where "evaluate_guard_set (map JStr (all_guards c)) ctx = Inr rs" using evaluate_set_total by blast
  then show ?thesis by (simp add: evaluate_cell_guards_def)
qed

lemma evaluate_cells_total:
  "machine_issues m = [] \<Longrightarrow> set cs \<subseteq> set (m_matrix m) \<Longrightarrow> \<exists>rs. evaluate_cells None ctx cs = Inr rs"
proof (induction cs)
  case (Cons c cs)
  have "c \<in> set (m_matrix m)" using Cons.prems(2) by simp
  then obtain g where "evaluate_cell_guards None c ctx = Inr g" using evaluate_cell_total [OF Cons.prems(1)] by blast
  moreover obtain rs where "evaluate_cells None ctx cs = Inr rs" using Cons by auto
  ultimately show ?case by simp
qed simp

lemma selection_total:
  assumes "machine_issues m = []"
  shows "\<exists>sel. select_transition_cell None m status event ctx = Inr sel"
proof -
  have sub: "set (matching_cells m status event) \<subseteq> set (m_matrix m)" by (auto simp: matching_cells_def)
  show ?thesis
  proof (cases "matching_cells m status event")
    case Nil
    then show ?thesis by (simp add: select_transition_cell_def)
  next
    case (Cons c cs)
    show ?thesis
    proof (cases cs)
      case Nil
      obtain g where "evaluate_cell_guards None c ctx = Inr g" using evaluate_cell_total [OF assms, of c ctx] sub Cons by auto
      then show ?thesis using Cons Nil by (simp add: select_transition_cell_def select_single_def)
    next
      case (Cons d ds)
      let ?es = "filter (\<lambda>x. c_result x \<noteq> IllegalTransition) (matching_cells m status event)"
      obtain rs where "evaluate_cells None ctx ?es = Inr rs" using evaluate_cells_total [OF assms, of ?es ctx] sub by auto
      then show ?thesis
        using Cons \<open>matching_cells m status event = c # cs\<close>
        by (auto simp: select_transition_cell_def select_multiple_def Let_def)
    qed
  qed
qed

lemma selected_cell_in_matrix:
  assumes "select_transition_cell ev m status event ctx = Inr sel" and "sel_ok sel" and "sel_cell sel = Some c"
  shows "c \<in> set (m_matrix m)" "c_from c = status" "c_event c = event" "enabled ev ctx c"
proof -
  have "sel_ok sel \<longleftrightarrow> length (enabled_cells ev m status event ctx) = 1"
    "sel_ok sel \<longrightarrow> sel_cell sel = Some (hd (enabled_cells ev m status event ctx))"
    using selection_enabled [OF assms(1)] by blast+
  then have "enabled_cells ev m status event ctx \<noteq> []" "c = hd (enabled_cells ev m status event ctx)"
    using assms(2,3) by auto
  then have "c \<in> set (enabled_cells ev m status event ctx)" by simp
  then show "c \<in> set (m_matrix m)" "c_from c = status" "c_event c = event" "enabled ev ctx c"
    by (simp_all add: enabled_cells_def matching_cells_def)
qed

section \<open>Where a transition leads\<close>

lemma advancing_result: "r \<noteq> IllegalTransition \<Longrightarrow> r \<noteq> IgnoredIdempotent \<Longrightarrow> r \<in> set reachable_results"
  by (cases r) (simp_all add: reachable_results_def)

lemma apply_cell_moved:
  assumes "apply_cell m i c rs = Moved mv"
  shows "mv_from mv = ti_status i" and "mv_event mv = ti_event i"
    and "mv_to mv = ti_status i \<and> c_result c = IgnoredIdempotent \<or>
       mv_to mv = to_or (ti_status i) (c_to c) \<and> c_result c \<in> set reachable_results \<and> missing_evidence (c_result c) i = None \<and>
       mv_effects mv = mv_effects (full_move m i c rs) \<and> \<not> mv_idempotent mv"
  using assms
proof -
  have ni: "c_result c \<noteq> IllegalTransition" using assms by (auto simp: apply_cell_def)
  have "(c_result c = IgnoredIdempotent \<and> mv = idempotent_move m i rs) \<or>
      (c_result c \<noteq> IgnoredIdempotent \<and> missing_evidence (c_result c) i = None \<and> mv = full_move m i c rs)"
    using assms ni by (cases "missing_evidence (c_result c) i") (auto simp: apply_cell_def split: if_splits)
  then show "mv_from mv = ti_status i" "mv_event mv = ti_event i"
    "mv_to mv = ti_status i \<and> c_result c = IgnoredIdempotent \<or>
       mv_to mv = to_or (ti_status i) (c_to c) \<and> c_result c \<in> set reachable_results \<and> missing_evidence (c_result c) i = None \<and>
       mv_effects mv = mv_effects (full_move m i c rs) \<and> \<not> mv_idempotent mv"
    using ni by (auto simp: idempotent_move_def full_move_def Let_def advancing_result)
qed

lemma apply_cell_refused:
  "apply_cell m i c rs = Refused code blocked allowed \<Longrightarrow> c_result c \<noteq> IllegalTransition \<Longrightarrow>
     code = ''STATE_MACHINE_GUARD_BLOCKED'' \<and> blocked \<noteq> None"
  by (auto simp: apply_cell_def split: if_splits option.splits) metis

lemma run_transition_moved:
  assumes "run_transition ev m i = Inr (Moved mv)"
  obtains c rs where "c \<in> set (m_matrix m)" "c_from c = ti_status i" "c_event c = ti_event i" "enabled ev (ti_context i) c"
    "apply_cell m i c rs = Moved mv" "ti_status i \<in> state_ids m"
proof -
  have st: "ti_status i \<in> state_ids m" using assms by (auto simp: run_transition_def split: if_splits)
  obtain sel where sel: "select_transition_cell ev m (ti_status i) (ti_event i) (ti_context i) = Inr sel"
      "(if \<not> sel_ok sel then Inr (NotSelected sel)
        else (case sel_cell sel of None \<Rightarrow> Inr (Refused ''STATE_MACHINE_TRANSITION_NOT_ALLOWED'' None None)
          | Some c \<Rightarrow> Inr (apply_cell m i c (or_else [] (sel_results sel))))) = (Inr (Moved mv) :: guard_error + outcome)"
    using assms unfolding run_transition_def by (simp add: ebind_Inr_iff split: if_splits)
  then have ok: "sel_ok sel" by (auto split: if_splits)
  then obtain c where c: "sel_cell sel = Some c" "apply_cell m i c (or_else [] (sel_results sel)) = Moved mv"
    using sel(2) by (auto split: option.splits)
  show ?thesis by (rule that [OF selected_cell_in_matrix [OF sel(1) ok c(1)] c(2) st])
qed

lemma moved_target:
  assumes "run_transition ev m i = Inr (Moved mv)"
  shows "mv_from mv = ti_status i"
    and "assert_cell_references m = Inr () \<Longrightarrow> mv_to mv \<in> state_ids m"
    and "machine_reach m (ti_status i) \<Longrightarrow> machine_reach m (mv_to mv)"
proof -
  obtain c rs where c: "c \<in> set (m_matrix m)" "c_from c = ti_status i" "c_event c = ti_event i" "enabled ev (ti_context i) c"
    "apply_cell m i c rs = Moved mv" "ti_status i \<in> state_ids m" by (rule run_transition_moved [OF assms])
  note A = apply_cell_moved [OF c(5)]
  show "mv_from mv = ti_status i" by (rule A(1))
  show "mv_to mv \<in> state_ids m" if "assert_cell_references m = Inr ()"
    using A(3) c(6) cell_references [OF that c(1)] by (auto simp: to_or_def split: option.splits)
  show "machine_reach m (mv_to mv)" if "machine_reach m (ti_status i)"
    using A(3) that machine_reach.move [OF that c(1,2)] by auto
qed

text \<open>
  C3: a validated definition never gets stuck and never leaves its states. When the definition
  passes executable validation and the status and event are declared, the engine returns (no
  guard lookup throws) one of: a move from that status to a declared status, which is reachable
  when the status was; a selection that was refused with a code; or a refusal for missing
  evidence. It never answers unknown status, unknown event or invalid definition.
\<close>

theorem valid_machine_progress:
  assumes "validate_executable v = []" and "executable_definition v = Some m" and "\<not> ti_injected i"
    and "ti_status i \<in> state_ids m" and "ti_event i \<in> event_ids m"
  shows "\<exists>out. transition_state hash_of default_options v i = Inr out \<and>
    (case out of
       Moved mv \<Rightarrow> mv_from mv = ti_status i \<and> mv_to mv \<in> state_ids m \<and> (machine_reach m (ti_status i) \<longrightarrow> machine_reach m (mv_to mv))
     | NotSelected sel \<Rightarrow> \<not> sel_ok sel
     | Refused code blocked _ \<Rightarrow> code = ''STATE_MACHINE_GUARD_BLOCKED'' \<and> blocked \<noteq> None
     | InvalidDefinition _ \<Rightarrow> False)"
proof -
  obtain ps where v: "v = JObj ps" using valid_is_record [OF assms(1)] by blast
  have m: "m = machine_of ps" "machine_issues m = []"
    using valid_parts [of ps] assms(1,2) v by simp_all
  have refs: "assert_cell_references m = Inr ()"
    using machine_issues_ok(1) [OF m(2)] by (simp add: validate_topology_ok)
  have eq: "transition_state hash_of default_options v i = run_transition None m i"
    using assms(1,2) by (simp add: transition_state_def default_options_def)
  obtain sel where sel: "select_transition_cell None m (ti_status i) (ti_event i) (ti_context i) = Inr sel"
    using selection_total [OF m(2)] by blast
  show ?thesis
  proof (cases "sel_ok sel")
    case False
    then have "run_transition None m i = Inr (NotSelected sel)" using assms(3-5) sel by (simp add: run_transition_def)
    then show ?thesis using False by (simp add: eq)
  next
    case True
    then obtain c where c: "sel_cell sel = Some c" using selection_enabled [OF sel] by auto
    have en: "enabled None (ti_context i) c" by (rule selected_cell_in_matrix(4) [OF sel True c])
    define out where "out = apply_cell m i c (or_else [] (sel_results sel))"
    have run: "run_transition None m i = Inr out"
      using assms(3-5) sel True c by (simp add: run_transition_def out_def)
    show ?thesis
    proof (cases out)
      case (Moved mv)
      then show ?thesis using moved_target [of None m i mv] run refs by (simp add: eq)
    next
      case (Refused code blocked allowed)
      then have "code = ''STATE_MACHINE_GUARD_BLOCKED'' \<and> blocked \<noteq> None"
        using en apply_cell_refused [of m i c "or_else [] (sel_results sel)" code blocked allowed] by (simp add: out_def enabled_def)
      then show ?thesis using run Refused by (simp add: eq)
    qed (auto simp: out_def apply_cell_def split: if_splits option.splits)
  qed
qed

definition demo_input :: "context_of \<Rightarrow> transition_input" where
  "demo_input ctx = \<lparr>ti_entity = JStr ''x'', ti_status = ''a'', ti_event = ''e'', ti_actor = JUndef, ti_reason = JUndef,
     ti_metadata = JObj [], ti_operation = JUndef, ti_trace = JUndef, ti_audit = JUndef, ti_checkpoint = JUndef,
     ti_policy = JUndef, ti_approval = JUndef, ti_now = JUndef, ti_context = ctx, ti_resume = JUndef, ti_injected = False\<rparr>"

lemma demo_definition_valid: "validate_executable (JObj demo_definition) = []"
  by code_simp

theorem valid_machine_progress_witness:
  "\<exists>out. transition_state (\<lambda>_. ''h'') default_options (JObj demo_definition) (demo_input demo_context) = Inr out"
proof -
  have e: "executable_definition (JObj demo_definition) = Some (machine_of demo_definition)"
    by (rule valid_parts(3) [OF demo_definition_valid])
  have s: "has_state (machine_of demo_definition) ''a''" "has_event (machine_of demo_definition) ''e''" by code_simp+
  show ?thesis
    using valid_machine_progress [OF demo_definition_valid e, of "demo_input demo_context" "\<lambda>_. ''h''"] s
    by (auto simp: demo_input_def)
qed

section \<open>Evidence\<close>

text \<open>
  C5: a move happens only on evidence. When the engine moves an entity other than idempotently
  with the built-in guards, the matrix has an enabled cell for the status and event all of whose
  guards passed on the given context, and: a cell that requires a policy decision had an allow, one
  that requires approval an approved record, one that requires a receipt a recorded one, and a
  deferred one a resume pointer or operation id. The required effects returned name exactly these.
\<close>

theorem move_has_evidence:
  assumes "run_transition None m i = Inr (Moved mv)" and "\<not> mv_idempotent mv"
  shows "\<exists>c \<in> set (m_matrix m). c_from c = ti_status i \<and> c_event c = ti_event i
    \<and> mv_to mv = to_or (ti_status i) (c_to c)
    \<and> list_all (\<lambda>g. case evaluate_guard (JStr g) (ti_context i) of Inr r \<Rightarrow> gr_ok r | Inl _ \<Rightarrow> False) (all_guards c)
    \<and> re_policy (mv_effects mv) = (c_result c = RequiresPolicy) \<and> re_approval (mv_effects mv) = (c_result c = RequiresApproval)
    \<and> re_receipt (mv_effects mv) = (c_result c = RequiresReceipt) \<and> re_async (mv_effects mv) = (c_result c = DeferredAsync)
    \<and> (re_policy (mv_effects mv) \<longrightarrow> policy_allows (ti_context i))
    \<and> (re_approval (mv_effects mv) \<longrightarrow> approval_given (ti_context i))
    \<and> (re_receipt (mv_effects mv) \<longrightarrow> receipt_recorded (ti_context i))
    \<and> (re_async (mv_effects mv) \<longrightarrow> can_resume i)"
proof -
  obtain c rs where c: "c \<in> set (m_matrix m)" "c_from c = ti_status i" "c_event c = ti_event i" "enabled None (ti_context i) c"
    "apply_cell m i c rs = Moved mv" "ti_status i \<in> state_ids m" by (rule run_transition_moved [OF assms(1)])
  have "c_result c \<noteq> IgnoredIdempotent" using c(5) assms(2) by (auto simp: apply_cell_def idempotent_move_def split: if_splits)
  then have A: "mv_to mv = to_or (ti_status i) (c_to c)" "missing_evidence (c_result c) i = None"
      "mv_effects mv = mv_effects (full_move m i c rs)"
    using apply_cell_moved(3) [OF c(5)] by auto
  have G: "list_all (\<lambda>g. case evaluate_guard (JStr g) (ti_context i) of Inr r \<Rightarrow> gr_ok r | Inl _ \<Rightarrow> False) (all_guards c)"
    using builtin_enabled_all_guards [OF c(4)] by (fastforce simp: list_all_iff)
  have E: "re_policy (mv_effects mv) = (c_result c = RequiresPolicy)" "re_approval (mv_effects mv) = (c_result c = RequiresApproval)"
    "re_receipt (mv_effects mv) = (c_result c = RequiresReceipt)" "re_async (mv_effects mv) = (c_result c = DeferredAsync)"
    by (simp_all add: A(3) full_move_def Let_def)
  show ?thesis
    by (rule bexI [OF _ c(1)]) (use A(1,2) E G c(2,3) in \<open>auto simp: missing_evidence_def split: if_splits\<close>)
qed

definition demo_policy :: machine where
  "demo_policy = demo_machine\<lparr>m_matrix := [(demo_cell [] ''b'')\<lparr>c_result := RequiresPolicy\<rparr>]\<rparr>"

definition allow_context :: context_of where
  "allow_context = [(''policyDecision'', JObj [(''decision'', JStr ''allow'')])]"

theorem move_has_evidence_witness:
  "\<exists>mv. run_transition None demo_policy (demo_input allow_context) = Inr (Moved mv) \<and>
     re_policy (mv_effects mv) \<and> policy_allows (ti_context (demo_input allow_context))
   \<and> run_transition None demo_policy (demo_input []) = Inr (Refused ''STATE_MACHINE_GUARD_BLOCKED'' (Some ''policy'') (Some [''e'']))"
proof -
  define mv where "mv = full_move demo_policy (demo_input allow_context) ((demo_cell [] ''b'')\<lparr>c_result := RequiresPolicy\<rparr>) []"
  have r: "run_transition None demo_policy (demo_input allow_context) = Inr (Moved mv)"
    unfolding mv_def by code_simp
  have d: "run_transition None demo_policy (demo_input []) = Inr (Refused ''STATE_MACHINE_GUARD_BLOCKED'' (Some ''policy'') (Some [''e'']))"
    by code_simp
  have "\<not> mv_idempotent mv" "re_policy (mv_effects mv)" by (simp_all add: mv_def full_move_def Let_def)
  then show ?thesis using move_has_evidence [OF r] r d by blast
qed

end
