(* ===== verification/JsonText.thy ===== *)
theory JsonText imports Prelude begin

text \<open>
  \<open>JSON.stringify\<close> on plain data: strings with their escapes, integers, arrays (an undefined item
  prints as null) and objects in insertion order (a property that is undefined is left out).
  A text followed by a delimiter determines where it ends, so the texts of the members of an
  object can be read off its text: this is what makes a hash over such a text cover each member.
\<close>

section \<open>Strings\<close>

definition hex_digit :: "nat \<Rightarrow> char" where
  "hex_digit n = (if n < 10 then char_of (48 + n) else char_of (87 + n))"

definition short_escapes :: "(char \<times> char) list" where
  "short_escapes = [(CHR 0x22, CHR 0x22), (CHR 0x5C, CHR 0x5C), (CHR 0x08, CHR ''b''), (CHR 0x0C, CHR ''f''),
     (CHR 0x0A, CHR ''n''), (CHR 0x0D, CHR ''r''), (CHR 0x09, CHR ''t'')]"

definition json_char :: "char \<Rightarrow> string" where
  "json_char c =
     (case map_of short_escapes c of
        Some e \<Rightarrow> [CHR 0x5C, e]
      | None \<Rightarrow>
          (let n = of_char c :: nat
           in if n < 32 then [CHR 0x5C, CHR ''u'', CHR ''0'', CHR ''0'', hex_digit (n div 16), hex_digit (n mod 16)] else [c]))"

definition json_str :: "string \<Rightarrow> string" where
  "json_str s = CHR 0x22 # concat (map json_char s) @ [CHR 0x22]"

text \<open>Reading one character back.\<close>

definition hex_value :: "char \<Rightarrow> nat" where
  "hex_value c = (let n = of_char c :: nat in if n < 58 then n - 48 else n - 87)"

fun unescape :: "string \<Rightarrow> (char \<times> string) option" where
  "unescape (c # r) =
     (if c = CHR 0x22 then None
      else if c \<noteq> CHR 0x5C then Some (c, r)
      else
        (case r of
           [] \<Rightarrow> None
         | e # r' \<Rightarrow>
             if e = CHR ''u''
             then (case r' of _ # _ # a # b # r'' \<Rightarrow> Some (char_of (16 * hex_value a + hex_value b), r'') | _ \<Rightarrow> None)
             else map_option (\<lambda>c. (c, r')) (map_of (map (\<lambda>(c, e). (e, c)) short_escapes) e)))"
| "unescape [] = None"

lemma hex_value_digit: "n < 16 \<Longrightarrow> hex_value (hex_digit n) = n"
  by (cases "n < 10") (simp_all add: hex_digit_def hex_value_def Let_def)

lemma unescape_char: "unescape (json_char c @ r) = Some (c, r)"
proof (cases "map_of short_escapes c")
  case None
  then have q: "c \<noteq> CHR 0x22" "c \<noteq> CHR 0x5C" by (auto simp: short_escapes_def)
  show ?thesis
  proof (cases "(of_char c :: nat) < 32")
    case True
    then have "16 * hex_value (hex_digit ((of_char c :: nat) div 16)) + hex_value (hex_digit (of_char c mod 16)) = of_char c"
      by (simp add: hex_value_digit)
    then show ?thesis using None True by (simp add: json_char_def Let_def)
  qed (use None q in \<open>simp add: json_char_def Let_def\<close>)
next
  case (Some e)
  then have "c \<in> fst ` set short_escapes" by (force dest: map_of_SomeD)
  then show ?thesis by (elim imageE) (auto simp: short_escapes_def json_char_def)
qed

lemma unescape_quote: "unescape (CHR 0x22 # r) = None"
  by simp

lemma json_chars_prefix:
  "concat (map json_char a) @ CHR 0x22 # r = concat (map json_char b) @ CHR 0x22 # s \<Longrightarrow> a = b \<and> r = s"
proof (induction a arbitrary: b)
  case Nil
  show ?case
  proof (cases b)
    case (Cons d b')
    have "unescape (CHR 0x22 # r) = unescape (json_char d @ concat (map json_char b') @ CHR 0x22 # s)" using Nil Cons by simp
    then show ?thesis unfolding unescape_char by simp
  qed (use Nil in simp)
next
  case (Cons c a)
  show ?case
  proof (cases b)
    case Nil
    have "unescape (CHR 0x22 # s) = unescape (json_char c @ concat (map json_char a) @ CHR 0x22 # r)" using Nil Cons.prems by simp
    then show ?thesis unfolding unescape_char by simp
  next
    case (Cons d b')
    have "unescape (json_char c @ concat (map json_char a) @ CHR 0x22 # r)
        = unescape (json_char d @ concat (map json_char b') @ CHR 0x22 # s)" using Cons \<open>concat (map json_char (c # a)) @ _ = _\<close> by simp
    then have "c = d" "concat (map json_char a) @ CHR 0x22 # r = concat (map json_char b') @ CHR 0x22 # s"
      unfolding unescape_char by simp_all
    then show ?thesis using Cons.IH Cons by simp
  qed
qed

lemma json_str_prefix: "json_str a @ r = json_str b @ s \<Longrightarrow> a = b \<and> r = s"
  using json_chars_prefix [of a r b s] by (simp add: json_str_def)

lemma json_str_inj: "json_str a = json_str b \<Longrightarrow> a = b"
  using json_str_prefix [of a "[]" b "[]"] by simp

section \<open>Values\<close>

definition json_members :: "(string \<times> string option) list \<Rightarrow> string list" where
  "json_members ms = concat (map (\<lambda>(k, t). case t of None \<Rightarrow> [] | Some t \<Rightarrow> [json_str k @ CHR '':'' # t]) ms)"

definition int_text :: "int \<Rightarrow> string" where
  "int_text n = (if n < 0 then CHR ''-'' # digits (nat (- n)) else digits (nat n))"

fun json_text :: "jv \<Rightarrow> string option" where
  "json_text JUndef = None"
| "json_text JNull = Some ''null''"
| "json_text (JBool b) = Some (if b then ''true'' else ''false'')"
| "json_text (JNum n) = Some (int_text n)"
| "json_text (JStr s) = Some (json_str s)"
| "json_text (JArr xs) = Some (CHR ''['' # join_with '','' (map (\<lambda>x. or_else ''null'' (json_text x)) xs) @ '']'')"
| "json_text (JObj ps) = Some (CHR ''{'' # join_with '','' (json_members (map (\<lambda>(k, x). (k, json_text x)) ps)) @ ''}'')"

text \<open>What may follow a value inside a text.\<close>

definition delimited :: "string \<Rightarrow> bool" where
  "delimited r \<longleftrightarrow> r = [] \<or> hd r \<in> {CHR '','', CHR '']'', CHR ''}''}"

lemma delimited_simps [simp]:
  "delimited []" "delimited (c # r) \<longleftrightarrow> c \<in> {CHR '','', CHR '']'', CHR ''}''}"
  by (simp_all add: delimited_def)

text \<open>\<open>ends W t\<close>: compared with the texts of \<open>W\<close>, \<open>t\<close> ends where its delimiter is.\<close>

definition ends :: "string set \<Rightarrow> string \<Rightarrow> bool" where
  "ends W t \<longleftrightarrow> (\<forall>u r s. u \<in> W \<longrightarrow> delimited r \<longrightarrow> delimited s \<longrightarrow> t @ r = u @ s \<longrightarrow> t = u \<and> r = s)"

definition texts :: "string set" where
  "texts = {t. \<exists>v. json_text v = Some t}"

definition members :: "string set" where
  "members = {m. \<exists>k t. t \<in> texts \<and> m = json_str k @ CHR '':'' # t}"

lemma endsD: "ends W t \<Longrightarrow> u \<in> W \<Longrightarrow> delimited r \<Longrightarrow> delimited s \<Longrightarrow> t @ r = u @ s \<Longrightarrow> t = u \<and> r = s"
  by (simp add: ends_def)

lemma ends_member: "ends texts t \<Longrightarrow> ends members (json_str k @ CHR '':'' # t)"
  unfolding ends_def
proof (intro allI impI)
  fix u r s
  assume t: "\<forall>u r s. u \<in> texts \<longrightarrow> delimited r \<longrightarrow> delimited s \<longrightarrow> t @ r = u @ s \<longrightarrow> t = u \<and> r = s"
    and "u \<in> members" and d: "delimited r" "delimited s" and e: "(json_str k @ CHR '':'' # t) @ r = u @ s"
  then obtain k' t' where u: "u = json_str k' @ CHR '':'' # t'" "t' \<in> texts" unfolding members_def by blast
  then have "json_str k @ (CHR '':'' # t @ r) = json_str k' @ (CHR '':'' # t' @ s)" using e by simp
  then have k: "k = k'" "CHR '':'' # t @ r = CHR '':'' # t' @ s" using json_str_prefix by blast+
  then have "t = t' \<and> r = s" using t d u(2) by simp
  then show "json_str k @ CHR '':'' # t = u \<and> r = s" using u(1) k(1) by simp
qed

declare digits.simps [simp del]

lemma digits_all: "c \<in> set (digits n) \<Longrightarrow> \<exists>d < (10::nat). c = char_of (48 + d)"
proof (induction n rule: digits.induct)
  case (1 n)
  show ?case
  proof (cases "n < 10")
    case False
    then have "digits n = digits (n div 10) @ [char_of (48 + n mod 10)]" by (subst digits.simps) simp
    then have "c \<in> set (digits (n div 10)) \<or> c = char_of (48 + n mod 10)" using 1(2) by auto
    then show ?thesis
    proof
      assume "c = char_of (48 + n mod 10)"
      then show ?thesis by (intro exI [of _ "n mod 10"]) simp
    qed (rule 1(1) [OF False])
  next
    case True
    then have "digits n = [char_of (48 + n)]" by (subst digits.simps) simp
    then show ?thesis using 1(2) True by auto
  qed
qed

lemma digits_ne [simp]: "digits n \<noteq> []"
  by (subst digits.simps) simp

definition is_digit :: "char \<Rightarrow> bool" where
  "is_digit c \<longleftrightarrow> (\<exists>d < (10::nat). c = char_of (48 + d))"

lemma is_digit_cases: "is_digit c \<longleftrightarrow> c \<in> set ''0123456789''"
proof -
  have "is_digit c \<longleftrightarrow> c \<in> set (map (\<lambda>d. char_of (48 + d)) [0..<10])" by (auto simp: is_digit_def)
  also have "map (\<lambda>d. char_of (48 + d :: nat)) [0..<10] = ''0123456789''" by code_simp
  finally show ?thesis .
qed

lemma digits_digit: "c \<in> set (digits n) \<Longrightarrow> is_digit c"
  using digits_all by (simp add: is_digit_def)

lemma digits_split:
  assumes "delimited r"
  shows "takeWhile is_digit (digits n @ r) = digits n"
proof -
  have "takeWhile is_digit r = []"
    using assms by (cases r) (auto simp: is_digit_cases)
  then show ?thesis using digits_digit by (simp add: takeWhile_append2)
qed

lemma digits_hd: "is_digit (hd (digits n))"
  by (rule digits_digit [of _ n]) simp

text \<open>Lists joined by commas, up to their closing bracket.\<close>

lemma join_with_Cons: "join_with sep (x # xs) = x @ concat (map (\<lambda>y. sep @ y) xs)"
proof (induction xs arbitrary: x)
  case (Cons y ys)
  then show ?case by simp
qed simp

lemma tail_delimited:
  "close \<in> {CHR '']'', CHR ''}''} \<Longrightarrow> delimited (concat (map (\<lambda>y. '','' @ y) xs) @ close # r)"
  by (cases xs) auto

lemma tails_prefix:
  assumes "\<And>t. t \<in> set xs \<Longrightarrow> ends W t" and "set ys \<subseteq> W" and "close \<in> {CHR '']'', CHR ''}''}"
    and "concat (map (\<lambda>y. '','' @ y) xs) @ close # r = concat (map (\<lambda>y. '','' @ y) ys) @ close # s"
  shows "xs = ys \<and> r = s"
  using assms
proof (induction xs arbitrary: ys)
  case Nil
  then show ?case by (cases ys) auto
next
  case (Cons x xs)
  show ?case
  proof (cases ys)
    case Nil
    then show ?thesis using Cons.prems(3,4) by auto
  next
    case (Cons y ys')
    let ?a = "concat (map (\<lambda>y. '','' @ y) xs) @ close # r" and ?b = "concat (map (\<lambda>y. '','' @ y) ys') @ close # s"
    have e: "x @ ?a = y @ ?b" using Cons.prems(4) Cons by simp
    have W: "y \<in> W" "set ys' \<subseteq> W" using Cons.prems(2) Cons by auto
    have "x = y \<and> ?a = ?b"
      by (rule endsD [OF Cons.prems(1) [of x] W(1) tail_delimited [OF Cons.prems(3)] tail_delimited [OF Cons.prems(3)] e]) simp
    moreover from this have "xs = ys' \<and> r = s" using Cons.IH [OF _ W(2) Cons.prems(3)] Cons.prems(1) by simp
    ultimately show ?thesis using Cons by simp
  qed
qed

lemma joined_prefix:
  assumes "\<And>t. t \<in> set xs \<Longrightarrow> ends W t" and "set ys \<subseteq> W" and "close \<in> {CHR '']'', CHR ''}''}"
    and "\<And>t. t \<in> set xs \<union> W \<Longrightarrow> \<not> delimited t"
    and e: "join_with '','' xs @ close # r = join_with '','' ys @ close # s"
  shows "xs = ys \<and> r = s"
proof (cases xs)
  case Nil
  show ?thesis
  proof (cases ys)
    case (Cons y ys')
    then have "\<not> delimited y" using assms(2,4) by auto
    then show ?thesis using e Nil Cons assms(3) by (cases y) (auto simp: join_with_Cons)
  qed (use e Nil in simp)
next
  case (Cons x xs')
  show ?thesis
  proof (cases ys)
    case Nil
    have "\<not> delimited x" using assms(4) Cons by auto
    then show ?thesis using e Nil Cons assms(3) by (cases x) (auto simp: join_with_Cons)
  next
    case (Cons y ys')
    then have "concat (map (\<lambda>y. '','' @ y) xs) @ close # r = concat (map (\<lambda>y. '','' @ y) ys) @ close # s"
      using e \<open>xs = x # xs'\<close> by (simp add: join_with_Cons)
    then show ?thesis using tails_prefix [OF assms(1-3)] by blast
  qed
qed

section \<open>A text tells where it ends\<close>

lemma int_text_hd: "hd (int_text n) \<in> set ''-0123456789''" "int_text n \<noteq> []"
  using digits_hd [of "nat n"] by (auto simp: int_text_def is_digit_cases)

lemma json_text_hd:
  assumes "json_text v = Some t"
  shows "\<not> delimited t"
proof (cases v)
  case (JNum n)
  then show ?thesis using assms int_text_hd [of n] by (auto simp: delimited_def)
qed (use assms in \<open>auto simp: json_str_def split: if_splits\<close>)

lemma texts_not_delimited: "t \<in> texts \<Longrightarrow> \<not> delimited t"
  using json_text_hd by (auto simp: texts_def)

lemma members_not_delimited: "m \<in> members \<Longrightarrow> \<not> delimited m"
  by (auto simp: members_def json_str_def)

lemma digits_sign: "hd (digits a @ x) \<noteq> CHR ''-''"
  using digits_hd [of a] by (auto simp: is_digit_cases)

lemma int_text_prefix:
  assumes "delimited r" and "delimited s" and "int_text m @ r = int_text n @ s"
  shows "int_text m = int_text n \<and> r = s"
proof -
  have d: "digits a = digits b \<and> r = s" if "digits a @ r = digits b @ s" for a b
    using that digits_split [OF assms(1), of a] digits_split [OF assms(2), of b] by simp
  have "n < 0 \<longleftrightarrow> hd (int_text n @ s) = CHR ''-''" "m < 0 \<longleftrightarrow> hd (int_text m @ r) = CHR ''-''"
    using digits_sign [of "nat n" s] digits_sign [of "nat m" r] by (simp_all add: int_text_def)
  then have "(m < 0) = (n < 0)" using assms(3) by simp
  then show ?thesis using d assms(3) by (auto simp: int_text_def split: if_splits)
qed

lemma int_text_kind: "json_text v = Some t \<Longrightarrow> int_text n @ r = t @ s \<Longrightarrow> \<exists>m. v = JNum m"
proof -
  assume v: "json_text v = Some t" and e: "int_text n @ r = t @ s"
  have "t \<noteq> []" using json_text_hd [OF v] by auto
  then have "hd t \<in> set ''-0123456789''" using int_text_hd [of n] arg_cong [OF e, of hd] by simp
  then show ?thesis using v by (cases v) (auto simp: json_str_def split: if_splits)
qed

lemma int_text_cons: "c # r = int_text n @ s \<Longrightarrow> c \<in> set ''-0123456789''"
  using int_text_hd [of n] by (metis hd_append2 list.sel(1))

lemma json_items:
  "set (map (\<lambda>x. or_else ''null'' (json_text x)) xs) \<subseteq> texts"
proof
  fix t assume "t \<in> set (map (\<lambda>x. or_else ''null'' (json_text x)) xs)"
  then obtain x where t: "t = or_else ''null'' (json_text x)" by auto
  show "t \<in> texts"
  proof (cases "json_text x")
    case None
    then have "json_text JNull = Some t" using t by (simp add: or_else_def)
    then show ?thesis unfolding texts_def by blast
  next
    case (Some u)
    then show ?thesis using t by (auto simp: texts_def or_else_def)
  qed
qed

lemma json_members_mem:
  "m \<in> set (json_members (map (\<lambda>(k, x). (k, json_text x)) ps)) \<Longrightarrow>
     \<exists>k x t. (k, x) \<in> set ps \<and> json_text x = Some t \<and> m = json_str k @ CHR '':'' # t"
  by (fastforce simp: json_members_def split: option.splits)

lemma json_members_sub: "set (json_members (map (\<lambda>(k, x). (k, json_text x)) ps)) \<subseteq> members"
  using json_members_mem by (fastforce simp: members_def texts_def)

text \<open>The kind of a value shows in the first character of its text.\<close>

lemma json_kinds:
  assumes "json_text w = Some u" and "t @ r = u @ s"
  shows "t = ''null'' \<Longrightarrow> w = JNull" "t = ''true'' \<Longrightarrow> w = JBool True" "t = ''false'' \<Longrightarrow> w = JBool False"
    "t = CHR 0x22 # x \<Longrightarrow> \<exists>y. w = JStr y" "t = CHR ''['' # x \<Longrightarrow> \<exists>xs. w = JArr xs" "t = CHR ''{'' # x \<Longrightarrow> \<exists>ps. w = JObj ps"
  using assms by (cases w; auto simp: json_str_def dest: int_text_cons split: if_splits)+

lemma endsI:
  assumes "\<And>w u r s. json_text w = Some u \<Longrightarrow> delimited r \<Longrightarrow> delimited s \<Longrightarrow> t @ r = u @ s \<Longrightarrow> t = u \<and> r = s"
  shows "ends texts t"
  using assms unfolding ends_def texts_def by blast

lemma json_text_ends: "json_text v = Some t \<Longrightarrow> ends texts t"
proof (induction v arbitrary: t)
  case JUndef
  then show ?case by simp
next
  case JNull
  show ?case
  proof (rule endsI)
    fix w u r s assume "json_text w = Some u" "t @ r = u @ s"
    then show "t = u \<and> r = s" using json_kinds(1) JNull by fastforce
  qed
next
  case (JBool b)
  show ?case
  proof (rule endsI)
    fix w u r s assume "json_text w = Some u" "t @ r = u @ s"
    then show "t = u \<and> r = s" using json_kinds(2,3) JBool by (cases b) fastforce+
  qed
next
  case (JNum n)
  show ?case
  proof (rule endsI)
    fix w u r s assume w: "json_text w = Some u" and d: "delimited r" "delimited s" "t @ r = u @ s"
    have e: "int_text n @ r = u @ s" using JNum d by simp
    then obtain m where "w = JNum m" using int_text_kind [OF w] by blast
    then have u: "u = int_text m" using w by simp
    show "t = u \<and> r = s" using int_text_prefix [OF d(1,2), of n m] e JNum u by simp
  qed
next
  case (JStr x)
  show ?case
  proof (rule endsI)
    fix w u r s assume w: "json_text w = Some u" and "t @ r = u @ s"
    then have e: "json_str x @ r = u @ s" using JStr by simp
    then obtain y where "w = JStr y" using json_kinds(4) [OF w e json_str_def] by blast
    then show "t = u \<and> r = s" using json_str_prefix [of x r y s] e w JStr by simp
  qed
next
  case (JArr xs)
  let ?f = "\<lambda>x. or_else ''null'' (json_text x)"
  have n: "ends texts ''null''"
  proof (rule endsI)
    fix w u r s assume "json_text w = Some u" "''null'' @ r = u @ s"
    then show "''null'' = u \<and> r = s" using json_kinds(1) by fastforce
  qed
  have E: "ends texts y" if "y \<in> set (map ?f xs)" for y
    using that JArr.IH n by (auto simp: or_else_def split: option.splits)
  show ?case
  proof (rule endsI)
    fix w u r s assume w: "json_text w = Some u" and "t @ r = u @ s"
    then have e: "(CHR ''['' # join_with '','' (map ?f xs) @ '']'') @ r = u @ s" using JArr.prems by simp
    then obtain ys where ys: "w = JArr ys" using json_kinds(5) [OF w e] by blast
    then have e2: "join_with '','' (map ?f xs) @ CHR '']'' # r = join_with '','' (map ?f ys) @ CHR '']'' # s" using e w by auto
    have "map ?f xs = map ?f ys \<and> r = s"
    proof (rule joined_prefix [OF E json_items _ _ e2])
      show "\<not> delimited y" if "y \<in> set (map ?f xs) \<union> texts" for y
        using that json_items [of xs] texts_not_delimited by blast
    qed simp_all
    then show "t = u \<and> r = s" using JArr.prems w ys by simp
  qed
next
  case (JObj ps)
  let ?f = "\<lambda>ps. json_members (map (\<lambda>(k, x). (k, json_text x)) ps)"
  have E: "ends members y" if "y \<in> set (?f ps)" for y
    using json_members_mem [OF that] JObj.IH ends_member by fastforce
  show ?case
  proof (rule endsI)
    fix w u r s assume w: "json_text w = Some u" and "t @ r = u @ s"
    then have e: "(CHR ''{'' # join_with '','' (?f ps) @ ''}'') @ r = u @ s" using JObj.prems by simp
    then obtain qs where qs: "w = JObj qs" using json_kinds(6) [OF w e] by blast
    then have e2: "join_with '','' (?f ps) @ CHR ''}'' # r = join_with '','' (?f qs) @ CHR ''}'' # s" using e w by auto
    have "?f ps = ?f qs \<and> r = s"
    proof (rule joined_prefix [OF E json_members_sub _ _ e2])
      show "\<not> delimited y" if "y \<in> set (?f ps) \<union> members" for y
        using that json_members_sub [of ps] members_not_delimited by blast
    qed simp_all
    then show "t = u \<and> r = s" using JObj.prems w qs by simp
  qed
qed

text \<open>Two objects with the same text have, member by member, the same keys and texts.\<close>

lemma json_object_text:
  assumes "json_text (JObj ps) = json_text (JObj qs)"
  shows "json_members (map (\<lambda>(k, x). (k, json_text x)) ps) = json_members (map (\<lambda>(k, x). (k, json_text x)) qs)"
proof -
  let ?f = "\<lambda>ps. json_members (map (\<lambda>(k, x). (k, json_text x)) ps)"
  have E: "ends members y" if "y \<in> set (?f ps)" for y
    using json_members_mem [OF that] json_text_ends ends_member by fastforce
  have e: "join_with '','' (?f ps) @ CHR ''}'' # [] = join_with '','' (?f qs) @ CHR ''}'' # []" using assms by simp
  have "?f ps = ?f qs \<and> [] = ([] :: string)"
  proof (rule joined_prefix [OF E json_members_sub _ _ e])
    show "\<not> delimited y" if "y \<in> set (?f ps) \<union> members" for y
      using that json_members_sub [of ps] members_not_delimited by blast
  qed simp_all
  then show ?thesis by blast
qed

end
