(* ===== verification/MachineReplay.thy ===== *)
theory MachineReplay imports StateMachineSafety JsonText begin

text \<open>
  The facade around the engine: \<open>transition.ts\<close> (one transition, a batch), \<open>replay.ts\<close> (replaying
  and verifying a history, the hash chain of a history) and \<open>invariants.ts\<close>. SHA-256 is a
  parameter; message texts are left out.
\<close>

section \<open>Transitions\<close>

record state_context =
  sc_entity :: jv
  sc_status :: jv

definition default_to :: "jv \<Rightarrow> jv \<Rightarrow> jv" where
  "default_to d v = (if v = JUndef then d else v)"

definition input_of :: "state_context \<Rightarrow> string \<Rightarrow> string \<Rightarrow> (string \<times> jv) list \<Rightarrow> transition_input" where
  "input_of st status event ctx =
     \<lparr>ti_entity = default_to (JStr ''default'') (sc_entity st), ti_status = status, ti_event = event,
      ti_actor = default_to (JStr ''system'') (jget ctx ''actor''), ti_reason = default_to (JStr []) (jget ctx ''reason''),
      ti_metadata = default_to (JObj []) (jget ctx ''metadata''), ti_operation = jget ctx ''operationId'', ti_trace = jget ctx ''traceId'',
      ti_audit = jget ctx ''auditId'', ti_checkpoint = jget ctx ''checkpointNodeId'', ti_policy = jget ctx ''policyDecisionId'',
      ti_approval = jget ctx ''approvalId'', ti_now = jget ctx ''now'', ti_context = as_record (jget ctx ''guardContext''),
      ti_resume = JUndef, ti_injected = False\<rparr>"

definition transition_machine :: "jv \<Rightarrow> state_context option \<Rightarrow> string \<Rightarrow> (string \<times> jv) list \<Rightarrow> guard_error + outcome" where
  "transition_machine v st event ctx =
     (if \<not> truthy v then Inr (Refused ''STATE_MACHINE_INVALID_DEFINITION'' None None)
      else
        (case st of
           None \<Rightarrow> Inr (Refused ''STATE_MACHINE_UNKNOWN_STATUS'' None None)
         | Some s \<Rightarrow>
             if event = [] then Inr (Refused ''STATE_MACHINE_UNKNOWN_EVENT'' None None)
             else
               (case sc_status s of
                  JStr status \<Rightarrow>
                    if trim status = [] then Inr (Refused ''STATE_MACHINE_UNKNOWN_STATUS'' None None)
                    else transition_state (\<lambda>_. []) default_options v (input_of s status event ctx)
                | _ \<Rightarrow> Inr (Refused ''STATE_MACHINE_UNKNOWN_STATUS'' None None))))"

definition is_transition_allowed :: "machine \<Rightarrow> string \<Rightarrow> string \<Rightarrow> bool" where
  "is_transition_allowed m status event =
     (case find (\<lambda>c. c_from c = status \<and> c_event c = event) (m_matrix m) of
        None \<Rightarrow> False | Some c \<Rightarrow> c_result c \<noteq> IllegalTransition \<and> c_result c \<noteq> IgnoredIdempotent)"

record batch_result =
  br_event :: string
  br_from :: jv
  br_to :: jv
  br_ok :: bool

text \<open>\<open>batchTransition\<close> goes on after a failure, with the state unchanged.\<close>

fun batch_transition :: "jv \<Rightarrow> state_context \<Rightarrow> (string \<times> (string \<times> jv) list) list
    \<Rightarrow> guard_error + (batch_result list \<times> state_context)" where
  "batch_transition v st [] = Inr ([], st)"
| "batch_transition v st ((event, ctx) # ts) =
     ebind (transition_machine v (Some st) event ctx) (\<lambda>out.
       let st' = (case out of Moved mv \<Rightarrow> if mv_to mv \<noteq> [] then st\<lparr>sc_status := JStr (mv_to mv)\<rparr> else st | _ \<Rightarrow> st);
           r = (case out of
               Moved mv \<Rightarrow> \<lparr>br_event = event, br_from = sc_status st, br_to = JStr (mv_to mv), br_ok = True\<rparr>
             | _ \<Rightarrow> \<lparr>br_event = event, br_from = sc_status st, br_to = sc_status st, br_ok = False\<rparr>)
       in ebind (batch_transition v st' ts) (\<lambda>(rs, final). Inr (r # rs, final)))"

section \<open>Replay\<close>

text \<open>\<open>historyEntry\<close>: an event and an optional record of context.\<close>

definition history_entry :: "jv \<Rightarrow> (string \<times> (string \<times> jv) list) option" where
  "history_entry v =
     (case v of
        JObj ps \<Rightarrow>
          (case jget ps ''event'' of
             JStr e \<Rightarrow>
               if jget ps ''context'' = JUndef \<or> is_record (jget ps ''context'')
               then Some (e, as_record (jget ps ''context'')) else None
           | _ \<Rightarrow> None)
      | _ \<Rightarrow> None)"

datatype replay_error = BadOption string | BadEntry nat | RejectedAt nat string

fun outcome_code :: "outcome \<Rightarrow> string" where
  "outcome_code (Refused code _ _) = code"
| "outcome_code (InvalidDefinition _) = ''STATE_MACHINE_INVALID_DEFINITION''"
| "outcome_code (NotSelected sel) = or_else [] (sel_code sel)"
| "outcome_code (Moved _) = []"

fun replay_loop :: "jv \<Rightarrow> nat \<Rightarrow> state_context \<Rightarrow> jv list
    \<Rightarrow> guard_error + (state_context list \<times> state_context \<times> replay_error list)" where
  "replay_loop v i st [] = Inr ([], st, [])"
| "replay_loop v i st (x # xs) =
     (case history_entry x of
        None \<Rightarrow> Inr ([], st, [BadEntry i])
      | Some (event, ctx) \<Rightarrow>
          ebind (transition_machine v (Some st) event ctx) (\<lambda>out.
            case out of
              Moved mv \<Rightarrow>
                (let st' = st\<lparr>sc_status := JStr (mv_to mv)\<rparr>
                 in ebind (replay_loop v (Suc i) st' xs) (\<lambda>(states, final, errors). Inr (st' # states, final, errors)))
            | _ \<Rightarrow> Inr ([], st, [RejectedAt i (outcome_code out)])))"

record replay_result =
  rp_ok :: bool
  rp_states :: "state_context list"
  rp_final :: "state_context option"
  rp_errors :: "replay_error list"

definition definition_record :: "jv \<Rightarrow> bool" where
  "definition_record v \<longleftrightarrow> is_record v \<and> opt_str (jget (as_record v) ''initialState'') \<noteq> None"

definition replay_state :: "jv \<Rightarrow> state_context option" where
  "replay_state v =
     (case v of
        JObj ps \<Rightarrow>
          if opt_string (jget ps ''currentStatus'')
          then Some \<lparr>sc_entity = jget ps ''entityId'', sc_status = jget ps ''currentStatus''\<rparr> else None
      | _ \<Rightarrow> None)"

definition bad_replay :: "string \<Rightarrow> replay_result" where
  "bad_replay what = \<lparr>rp_ok = False, rp_states = [], rp_final = None, rp_errors = [BadOption what]\<rparr>"

definition replay_transitions :: "jv \<Rightarrow> jv \<Rightarrow> jv \<Rightarrow> guard_error + replay_result" where
  "replay_transitions v initial history =
     (if \<not> definition_record v then Inr (bad_replay ''definition'')
      else
        (case replay_state initial of
           None \<Rightarrow> Inr (bad_replay ''initialState'')
         | Some st \<Rightarrow>
             (case history of
                JArr xs \<Rightarrow>
                  ebind (replay_loop v 0 st xs) (\<lambda>(states, final, errors).
                    Inr \<lparr>rp_ok = (errors = []), rp_states = st # states, rp_final = Some final, rp_errors = errors\<rparr>)
              | _ \<Rightarrow> Inr (bad_replay ''history''))))"

text \<open>\<open>verifyTransitionSequence\<close> starts at the definition's initial state.\<close>

fun verify_loop :: "jv \<Rightarrow> nat \<Rightarrow> string \<Rightarrow> jv list \<Rightarrow> guard_error + (string list \<times> replay_error list)" where
  "verify_loop v i status [] = Inr ([], [])"
| "verify_loop v i status (x # xs) =
     (case history_entry x of
        None \<Rightarrow> Inr ([], [BadEntry i])
      | Some (event, ctx) \<Rightarrow>
          ebind (transition_machine v (Some \<lparr>sc_entity = JStr ''sequence-verification'', sc_status = JStr status\<rparr>) event ctx) (\<lambda>out.
            case out of
              Moved mv \<Rightarrow>
                ebind (verify_loop v (Suc i) (mv_to mv) xs) (\<lambda>(sts, errors). Inr (mv_to mv # sts, errors))
            | _ \<Rightarrow> Inr ([], [RejectedAt i (outcome_code out)])))"

definition verify_transition_sequence :: "jv \<Rightarrow> jv \<Rightarrow> guard_error + (bool \<times> string list \<times> replay_error list)" where
  "verify_transition_sequence v history =
     (if \<not> definition_record v \<or> \<not> is_array history then Inr (False, [], [BadOption ''definition and history''])
      else
        (let start = str_of (jget (as_record v) ''initialState'')
         in ebind (verify_loop v 0 start (items_of history)) (\<lambda>(sts, errors). Inr (errors = [], start # sts, errors))))"

section \<open>The hash chain\<close>

datatype chain_error = MissingPrevious nat | MissingHash nat | PreviousMismatch nat | HashMismatch nat

text \<open>The text an entry's hash covers: \<open>JSON.stringify\<close> of its event, previous hash and context.\<close>

definition entry_text :: "jv \<Rightarrow> string" where
  "entry_text x =
     (let ps = as_record x
      in or_else [] (json_text (JObj [(''event'', jget ps ''event''), (''previousHash'', jget ps ''previousHash''),
           (''context'', js_or (jget ps ''context'') (JObj []))])))"

definition hash_text :: "jv \<Rightarrow> string" where
  "hash_text x = js_string (js_or (jget (as_record x) ''hash'') (JStr []))"

definition entry_errors :: "(string \<Rightarrow> string) \<Rightarrow> nat \<Rightarrow> string \<Rightarrow> jv \<Rightarrow> chain_error list" where
  "entry_errors sha256 i expected x =
     (let ps = as_record x; previous = jget ps ''previousHash'';
          missing = (if opt_str previous = None then [MissingPrevious i] else [])
      in case jget ps ''hash'' of
           JStr h \<Rightarrow>
             if h = [] then missing @ [MissingHash i]
             else missing @ (if previous \<noteq> JStr expected then [PreviousMismatch i] else [])
               @ (if h \<noteq> sha256 (entry_text x) then [HashMismatch i] else [])
         | _ \<Rightarrow> missing @ [MissingHash i])"

definition entry_verified :: "(string \<Rightarrow> string) \<Rightarrow> string \<Rightarrow> jv \<Rightarrow> bool" where
  "entry_verified sha256 expected x \<longleftrightarrow>
     (let ps = as_record x
      in case jget ps ''hash'' of
           JStr h \<Rightarrow> h \<noteq> [] \<and> h = sha256 (entry_text x) \<and> jget ps ''previousHash'' = JStr expected
         | _ \<Rightarrow> False)"

fun chain_scan :: "(string \<Rightarrow> string) \<Rightarrow> nat \<Rightarrow> string \<Rightarrow> jv list \<Rightarrow> chain_error list \<times> nat" where
  "chain_scan sha256 i expected [] = ([], 0)"
| "chain_scan sha256 i expected (x # xs) =
     (case chain_scan sha256 (Suc i) (hash_text x) xs of
        (errors, n) \<Rightarrow>
          (entry_errors sha256 i expected x @ errors,
           if entry_verified sha256 expected x then Suc n else n))"

record tamper_report =
  tp_tampered :: bool
  tp_errors :: "chain_error list"
  tp_verified :: nat

definition detect_tampering :: "(string \<Rightarrow> string) \<Rightarrow> jv \<Rightarrow> tamper_report" where
  "detect_tampering sha256 history =
     (case chain_scan sha256 0 [] (items_of history) of
        (errors, n) \<Rightarrow> \<lparr>tp_tampered = (errors \<noteq> []), tp_errors = errors, tp_verified = n\<rparr>)"

section \<open>Invariants of a definition\<close>

definition ends_with :: "string \<Rightarrow> string \<Rightarrow> bool" where
  "ends_with p s \<longleftrightarrow> length p \<le> length s \<and> drop (length s - length p) s = p"

record invariant_result =
  iv_id :: string
  iv_ok :: bool

definition check_terminal_no_outgoing :: "machine \<Rightarrow> invariant_result" where
  "check_terminal_no_outgoing m =
     \<lparr>iv_id = ''SM_002'',
      iv_ok = list_all (\<lambda>s. filter (\<lambda>c. c_from c = ss_id s \<and> c_result c \<noteq> IllegalTransition \<and> c_result c \<noteq> IgnoredIdempotent)
        (m_matrix m) = []) (filter ss_terminal (m_states m))\<rparr>"

text \<open>The search of this file: a queue, the visited and the reachable states.\<close>

definition invariant_targets :: "machine \<Rightarrow> string \<Rightarrow> string list" where
  "invariant_targets m current =
     map (\<lambda>c. to_or [] (c_to c))
       (filter (\<lambda>c. c_from c = current \<and> c_result c \<noteq> IllegalTransition \<and> to_or [] (c_to c) \<noteq> []) (m_matrix m))"

lemma invariant_targets_sub: "set (invariant_targets m current) \<subseteq> target_set m"
  by (auto simp: invariant_targets_def target_set_def to_or_def split: option.splits if_splits)

function reach_loop :: "machine \<Rightarrow> string list \<Rightarrow> string list \<Rightarrow> string list \<Rightarrow> string list" where
  "reach_loop m visited reached [] = reached"
| "reach_loop m visited reached (current # queue) =
     (if current \<in> set visited then reach_loop m visited reached queue
      else
        (let visited' = current # visited; fresh = filter (\<lambda>t. t \<notin> set visited') (invariant_targets m current)
         in reach_loop m visited' (reached @ fresh) (queue @ fresh)))"
  by pat_completeness auto

termination
proof (relation "measures [\<lambda>(m, visited, reached, queue). card ((target_set m \<union> set queue) - set visited),
    \<lambda>(m, visited, reached, queue). length queue]")
  fix m :: machine and visited reached queue :: "string list" and current
  assume "current \<in> set visited"
  then have "(target_set m \<union> set queue) - set visited = (target_set m \<union> set (current # queue)) - set visited" by auto
  then show "((m, visited, reached, queue), m, visited, reached, current # queue) \<in> measures
      [\<lambda>(m, visited, reached, queue). card ((target_set m \<union> set queue) - set visited), \<lambda>(m, visited, reached, queue). length queue]"
    by simp
next
  fix m :: machine and visited reached queue :: "string list" and current visited' fresh
  assume c: "current \<notin> set visited" and v: "visited' = current # visited"
    and f: "fresh = filter (\<lambda>t. t \<notin> set visited') (invariant_targets m current)"
  have "(target_set m \<union> set (queue @ fresh)) - set visited' \<subset> (target_set m \<union> set (current # queue)) - set visited"
    using c invariant_targets_sub [of m current] by (auto simp: v f)
  then have "card ((target_set m \<union> set (queue @ fresh)) - set visited') < card ((target_set m \<union> set (current # queue)) - set visited)"
    by (intro psubset_card_mono) auto
  then show "((m, visited', reached @ fresh, queue @ fresh), m, visited, reached, current # queue) \<in> measures
      [\<lambda>(m, visited, reached, queue). card ((target_set m \<union> set queue) - set visited), \<lambda>(m, visited, reached, queue). length queue]"
    by simp
qed simp

definition check_all_reachable :: "machine \<Rightarrow> invariant_result" where
  "check_all_reachable m =
     \<lparr>iv_id = ''SM_003'',
      iv_ok = list_all (\<lambda>s. ss_id s \<in> set (reach_loop m [] [m_initial m] [m_initial m])) (m_states m)\<rparr>"

definition check_completeness :: "machine \<Rightarrow> invariant_result" where
  "check_completeness m =
     (let keys = map (\<lambda>c. matrix_key (c_from c) (c_event c)) (m_matrix m)
      in \<lparr>iv_id = ''SM_004'',
          iv_ok = list_all (\<lambda>s. list_all (\<lambda>e. matrix_key (ss_id s) (sv_id e) \<in> set keys) (m_events m)) (m_states m)\<rparr>)"

definition evaluate_invariant :: "machine \<Rightarrow> string \<Rightarrow> invariant_result" where
  "evaluate_invariant m name =
     (if ends_with ''-001'' name \<or> contains ''REACHABLE'' name then \<lparr>iv_id = ''SM_001'', iv_ok = True\<rparr>
      else if ends_with ''-002'' name \<or> contains ''TERMINAL'' name then check_terminal_no_outgoing m
      else if ends_with ''-003'' name \<or> contains ''REACHABILITY'' name then check_all_reachable m
      else if ends_with ''-004'' name \<or> contains ''COMPLETENESS'' name then check_completeness m
      else \<lparr>iv_id = name, iv_ok = False\<rparr>)"

datatype invariant_error = UnknownStatus string | InvariantFailed string

definition assert_invariants :: "machine \<Rightarrow> string option \<Rightarrow> invariant_result list \<times> invariant_error list" where
  "assert_invariants m status =
     (let status_errors = (case status of
            None \<Rightarrow> [] | Some s \<Rightarrow> if s \<noteq> [] \<and> \<not> has_state m s then [UnknownStatus s] else []);
          results = map (evaluate_invariant m) (m_invariants m)
      in (results, status_errors @
            map (\<lambda>(name, r). InvariantFailed name) (filter (\<lambda>(name, r). \<not> iv_ok r) (zip (m_invariants m) results))))"

end
