(* ===== verification/ReplaySafety.thy ===== *)
theory ReplaySafety imports MachineReplay begin

text \<open>
  What replaying and verifying a history is worth: the two replay loops agree, a replay on a
  validated definition returns and stays among the declared states, and two untampered histories
  that end in the same hash are the same history.
\<close>

section \<open>The two replay loops\<close>

lemma verify_replay_loop:
  "verify_loop v i status xs =
     map_sum id (\<lambda>(states, final, errors). (map (\<lambda>s. str_of (sc_status s)) states, errors))
       (replay_loop v i \<lparr>sc_entity = JStr ''sequence-verification'', sc_status = JStr status\<rparr> xs)"
proof (induction xs arbitrary: i status)
  case (Cons x xs)
  show ?case
  proof (cases "history_entry x")
    case (Some e)
    then obtain event ctx where e: "history_entry x = Some (event, ctx)" by (cases e) simp
    let ?r = "transition_machine v (Some \<lparr>sc_entity = JStr ''sequence-verification'', sc_status = JStr status\<rparr>) event ctx"
    show ?thesis
    proof (cases ?r)
      case (Inr out)
      show ?thesis
      proof (cases out)
        case (Moved mv)
        show ?thesis
          using e Inr Moved Cons.IH [of "Suc i" "mv_to mv"]
          by (cases "replay_loop v (Suc i) \<lparr>sc_entity = JStr ''sequence-verification'', sc_status = JStr (mv_to mv)\<rparr> xs")
            (auto simp: Let_def split: prod.splits)
      qed (use e Inr in simp_all)
    qed (use e in simp)
  qed simp
qed simp

text \<open>
  Verifying a transition sequence and replaying it from the definition's initial state agree:
  the same verdict, the same sequence of statuses and the same errors, or the same thrown error.
\<close>

theorem verification_is_replay:
  assumes "definition_record v"
  shows "verify_transition_sequence v (JArr xs) =
    map_sum id (\<lambda>r. (rp_ok r, map (\<lambda>s. str_of (sc_status s)) (rp_states r), rp_errors r))
      (replay_transitions v (JObj [(''entityId'', JStr ''sequence-verification''),
         (''currentStatus'', jget (as_record v) ''initialState'')]) (JArr xs))"
proof -
  obtain start where s: "jget (as_record v) ''initialState'' = JStr start"
    using assms by (cases "jget (as_record v) ''initialState''") (auto simp: definition_record_def)
  let ?st = "\<lparr>sc_entity = JStr ''sequence-verification'', sc_status = JStr start\<rparr>"
  have st: "replay_state (JObj [(''entityId'', JStr ''sequence-verification''), (''currentStatus'', JStr start)]) = Some ?st"
    by (simp add: replay_state_def opt_string_def jget_def)
  show ?thesis
    using assms verify_replay_loop [of v 0 start xs]
    by (cases "replay_loop v 0 ?st xs")
      (auto simp: verify_transition_sequence_def replay_transitions_def st s Let_def is_array_def split: prod.splits)
qed

text \<open>A history whose one event is accepted, replayed and verified.\<close>

definition demo_history :: "jv list" where
  "demo_history = [JObj [(''event'', JStr ''e''), (''context'', JObj [(''guardContext'', JObj demo_context)])]]"

theorem verification_is_replay_witness:
  "verify_transition_sequence (JObj demo_definition) (JArr demo_history) =
    map_sum id (\<lambda>r. (rp_ok r, map (\<lambda>s. str_of (sc_status s)) (rp_states r), rp_errors r))
      (replay_transitions (JObj demo_definition) (JObj [(''entityId'', JStr ''sequence-verification''),
         (''currentStatus'', jget (as_record (JObj demo_definition)) ''initialState'')]) (JArr demo_history))"
proof -
  have "definition_record (JObj demo_definition)" by code_simp
  then show ?thesis by (rule verification_is_replay)
qed

section \<open>Replay on a validated definition\<close>

lemma valid_transition:
  assumes "validate_executable v = []" and "executable_definition v = Some m" and "\<not> ti_injected i"
  shows "\<exists>out. transition_state hash_of default_options v i = Inr out \<and>
    (\<forall>mv. out = Moved mv \<longrightarrow> mv_to mv \<in> state_ids m \<and> (machine_reach m (ti_status i) \<longrightarrow> machine_reach m (mv_to mv)))"
proof -
  obtain ps where v: "v = JObj ps" using valid_is_record [OF assms(1)] by blast
  have m: "machine_issues m = []" using valid_parts [of ps] assms(1,2) v by simp
  have refs: "assert_cell_references m = Inr ()" using machine_issues_ok(1) [OF m] by (simp add: validate_topology_ok)
  have eq: "transition_state hash_of default_options v i = run_transition None m i"
    using assms(1,2) by (simp add: transition_state_def default_options_def)
  obtain sel where "select_transition_cell None m (ti_status i) (ti_event i) (ti_context i) = Inr sel"
    using selection_total [OF m] by blast
  then have "\<exists>out. run_transition None m i = Inr out"
    using assms(3) by (simp add: run_transition_def split: option.split)
  then obtain out where out: "run_transition None m i = Inr out" by blast
  have "mv_to mv \<in> state_ids m \<and> (machine_reach m (ti_status i) \<longrightarrow> machine_reach m (mv_to mv))" if "out = Moved mv" for mv
    using moved_target [of None m i mv] out that refs by simp
  then show ?thesis using eq out by auto
qed

lemma valid_transition_machine:
  assumes "validate_executable v = []" and "executable_definition v = Some m"
  shows "\<exists>out. transition_machine v (Some st) event ctx = Inr out \<and>
    (\<forall>mv s. out = Moved mv \<longrightarrow> sc_status st = JStr s \<longrightarrow>
       mv_to mv \<in> state_ids m \<and> (machine_reach m s \<longrightarrow> machine_reach m (mv_to mv)))"
proof (cases "sc_status st")
  case (JStr s)
  have "\<exists>out. transition_state (\<lambda>_. []) default_options v (input_of st s event ctx) = Inr out \<and>
    (\<forall>mv. out = Moved mv \<longrightarrow> mv_to mv \<in> state_ids m \<and> (machine_reach m s \<longrightarrow> machine_reach m (mv_to mv)))"
    using valid_transition [OF assms, of "input_of st s event ctx" "\<lambda>_. []"] by (simp add: input_of_def)
  then show ?thesis using JStr by (auto simp: transition_machine_def)
qed (simp_all add: transition_machine_def)

lemma replay_loop_valid:
  assumes "validate_executable v = []" and "executable_definition v = Some m" and "sc_status st = JStr s"
  shows "\<exists>states final errors. replay_loop v i st xs = Inr (states, final, errors) \<and>
    (\<forall>x \<in> set states. \<exists>t. sc_status x = JStr t \<and> t \<in> state_ids m \<and> (machine_reach m s \<longrightarrow> machine_reach m t)) \<and>
    (errors = [] \<longleftrightarrow> length states = length xs) \<and> final = last (st # states)"
  using assms(3)
proof (induction xs arbitrary: i st s)
  case (Cons x xs)
  show ?case
  proof (cases "history_entry x")
    case (Some e)
    then obtain event ctx where e: "history_entry x = Some (event, ctx)" by (cases e) simp
    obtain out where out: "transition_machine v (Some st) event ctx = Inr out"
      "\<And>mv. out = Moved mv \<Longrightarrow> mv_to mv \<in> state_ids m \<and> (machine_reach m s \<longrightarrow> machine_reach m (mv_to mv))"
      using valid_transition_machine [OF assms(1,2), of st event ctx] Cons.prems by blast
    show ?thesis
    proof (cases out)
      case (Moved mv)
      let ?st = "st\<lparr>sc_status := JStr (mv_to mv)\<rparr>"
      obtain states final errors where r: "replay_loop v (Suc i) ?st xs = Inr (states, final, errors)"
        "\<forall>x \<in> set states. \<exists>t. sc_status x = JStr t \<and> t \<in> state_ids m \<and> (machine_reach m (mv_to mv) \<longrightarrow> machine_reach m t)"
        "errors = [] \<longleftrightarrow> length states = length xs" "final = last (?st # states)"
        using Cons.IH [of ?st "mv_to mv" "Suc i"] by auto
      then show ?thesis using e out Moved by (auto simp: Let_def)
    qed (use e out(1) in simp_all)
  qed simp
qed simp

text \<open>
  A replay on a validated definition returns and never leaves the machine. Whatever the
  history holds, from a declared status every replayed status is declared, and reachable when
  the first one is; the replay is complete exactly when it reports no error, and its final state
  is the last one replayed.
\<close>

theorem replay_stays_in_machine:
  assumes "validate_executable v = []" and "executable_definition v = Some m"
    and "replay_state initial = Some st" and "sc_status st = JStr s" and "s \<in> state_ids m"
  shows "\<exists>r. replay_transitions v initial (JArr xs) = Inr r \<and>
    (\<forall>x \<in> set (rp_states r). \<exists>t. sc_status x = JStr t \<and> t \<in> state_ids m \<and> (machine_reach m s \<longrightarrow> machine_reach m t)) \<and>
    (rp_ok r \<longleftrightarrow> length (rp_states r) = Suc (length xs)) \<and> rp_final r = Some (last (rp_states r))"
proof -
  obtain ps where v: "v = JObj ps" using valid_is_record [OF assms(1)] by blast
  have "definition_record v"
    using assms(2) v by (auto simp: definition_record_def is_record_def executable_definition_def split: if_splits option.splits)
  moreover obtain states final errors where "replay_loop v 0 st xs = Inr (states, final, errors)"
    "\<forall>x \<in> set states. \<exists>t. sc_status x = JStr t \<and> t \<in> state_ids m \<and> (machine_reach m s \<longrightarrow> machine_reach m t)"
    "errors = [] \<longleftrightarrow> length states = length xs" "final = last (st # states)"
    using replay_loop_valid [OF assms(1,2,4), of 0 xs] by blast
  ultimately show ?thesis using assms(3-5) by (simp add: replay_transitions_def)
qed

theorem replay_stays_in_machine_witness:
  "\<exists>r. replay_transitions (JObj demo_definition) (JObj [(''currentStatus'', JStr ''a'')]) (JArr demo_history) = Inr r"
proof -
  have e: "executable_definition (JObj demo_definition) = Some (machine_of demo_definition)"
    by (rule valid_parts(3) [OF demo_definition_valid])
  have s: "has_state (machine_of demo_definition) ''a''" by code_simp
  have r: "replay_state (JObj [(''currentStatus'', JStr ''a'')]) = Some \<lparr>sc_entity = JUndef, sc_status = JStr ''a''\<rparr>"
    by (simp add: replay_state_def opt_string_def jget_def)
  show ?thesis
    using replay_stays_in_machine [OF demo_definition_valid e r, of "''a''" demo_history] s by auto
qed

section \<open>The hash chain\<close>

fun chain_ok :: "(string \<Rightarrow> string) \<Rightarrow> string \<Rightarrow> jv list \<Rightarrow> bool" where
  "chain_ok sha expected [] = True"
| "chain_ok sha expected (x # xs) = (entry_verified sha expected x \<and> chain_ok sha (hash_text x) xs)"

definition tip :: "string \<Rightarrow> jv list \<Rightarrow> string" where
  "tip expected xs = (if xs = [] then expected else hash_text (last xs))"

lemma entry_errors_Nil: "entry_errors sha i expected x = [] \<longleftrightarrow> entry_verified sha expected x"
  by (auto simp: entry_errors_def entry_verified_def Let_def split: jv.splits if_splits option.splits)

lemma chain_scan_ok: "fst (chain_scan sha i expected xs) = [] \<longleftrightarrow> chain_ok sha expected xs"
  by (induction xs arbitrary: i expected) (simp_all add: entry_errors_Nil case_prod_unfold)

lemma untampered_chain: "\<not> tp_tampered (detect_tampering sha (JArr xs)) \<longleftrightarrow> chain_ok sha [] xs"
  using chain_scan_ok [of sha 0 "[]" xs] by (simp add: detect_tampering_def case_prod_unfold)

lemma chain_ok_snoc: "chain_ok sha e (xs @ [x]) \<longleftrightarrow> chain_ok sha e xs \<and> entry_verified sha (tip e xs) x"
  by (induction xs arbitrary: e) (auto simp: tip_def)

lemma entry_verifiedD:
  assumes "entry_verified sha e x"
  shows "hash_text x = sha (entry_text x)" "hash_text x \<noteq> []" "jget (as_record x) ''previousHash'' = JStr e"
  using assms by (auto simp: entry_verified_def hash_text_def js_or_def Let_def split: jv.splits)

text \<open>What the hash of an entry covers.\<close>

definition covered :: "jv \<Rightarrow> string option \<times> jv \<times> string option" where
  "covered x = (let ps = as_record x
     in (json_text (jget ps ''event''), jget ps ''previousHash'', json_text (js_or (jget ps ''context'') (JObj []))))"

lemma js_or_text: "json_text (js_or v (JObj ps)) \<noteq> None"
  by (cases v) (simp_all add: js_or_def)

lemma json_str_hd: "hd (json_str s @ r) = CHR 0x22"
  by (simp add: json_str_def)

lemma entry_text_inj:
  assumes "entry_text x = entry_text y" and "jget (as_record x) ''previousHash'' = JStr a" and "jget (as_record y) ''previousHash'' = JStr b"
  shows "covered x = covered y"
proof -
  let ?c = "\<lambda>x. js_or (jget (as_record x) ''context'') (JObj [])" and ?e = "\<lambda>x. jget (as_record x) ''event''"
  obtain cx cy where c: "json_text (?c x) = Some cx" "json_text (?c y) = Some cy"
    using js_or_text by (metis not_Some_eq)
  have "json_members (map (\<lambda>(k, x). (k, json_text x)) [(''event'', ?e x), (''previousHash'', JStr a), (''context'', ?c x)])
      = json_members (map (\<lambda>(k, x). (k, json_text x)) [(''event'', ?e y), (''previousHash'', JStr b), (''context'', ?c y)])"
    by (rule json_object_text) (use assms in \<open>simp add: entry_text_def or_else_def Let_def\<close>)
  then show ?thesis
    using c assms(2,3)
    by (auto simp: covered_def json_members_def Let_def split: option.splits dest: json_str_prefix json_str_inj)
qed

lemma same_tip_chain:
  "chain_ok sha [] xs \<Longrightarrow> chain_ok sha [] ys \<Longrightarrow> tip [] xs = tip [] ys \<Longrightarrow>
     inj_on sha (entry_text ` (set xs \<union> set ys)) \<Longrightarrow> map covered xs = map covered ys"
proof (induction xs arbitrary: ys rule: rev_induct)
  case Nil
  show ?case
  proof (cases ys rule: rev_cases)
    case (snoc zs y)
    then have "tip [] ys \<noteq> []" using Nil(2) entry_verifiedD(2) by (auto simp: chain_ok_snoc tip_def)
    then show ?thesis using Nil(3) by (simp add: tip_def)
  qed simp
next
  case (snoc x xs)
  have x: "entry_verified sha (tip [] xs) x" "chain_ok sha [] xs" using snoc.prems(1) by (simp_all add: chain_ok_snoc)
  show ?case
  proof (cases ys rule: rev_cases)
    case Nil
    then show ?thesis using snoc.prems(3) entry_verifiedD(2) [OF x(1)] by (simp add: tip_def)
  next
    case (snoc zs y)
    have y: "entry_verified sha (tip [] zs) y" "chain_ok sha [] zs" using snoc.prems(2) snoc by (simp_all add: chain_ok_snoc)
    have "hash_text x = hash_text y" using snoc.prems(3) snoc by (simp add: tip_def)
    then have "sha (entry_text x) = sha (entry_text y)" using entry_verifiedD(1) x(1) y(1) by metis
    then have e: "entry_text x = entry_text y"
      by (rule inj_onD [OF snoc.prems(4)]) (simp_all add: snoc)
    have "covered x = covered y"
      by (rule entry_text_inj [OF e entry_verifiedD(3) [OF x(1)] entry_verifiedD(3) [OF y(1)]])
    moreover from this have "tip [] xs = tip [] zs"
      using entry_verifiedD(3) [OF x(1)] entry_verifiedD(3) [OF y(1)] by (simp add: covered_def Let_def)
    moreover have "inj_on sha (entry_text ` (set xs \<union> set zs))"
      using snoc.prems(4) snoc by (auto intro: inj_on_subset)
    ultimately show ?thesis using snoc.IH [OF x(2) y(2)] snoc by simp
  qed
qed

text \<open>
  C22: the hash chain is tamper evident. Two histories in which no tampering is detected and whose
  last hashes agree have the same length and agree, entry by entry, on the JSON text of the
  event, on the previous hash and on the JSON text of the context, unless SHA-256 collides on
  the texts of their entries.
\<close>

theorem same_tip_same_history:
  assumes "\<not> tp_tampered (detect_tampering sha (JArr xs))" and "\<not> tp_tampered (detect_tampering sha (JArr ys))"
    and "tip [] xs = tip [] ys" and "inj_on sha (entry_text ` (set xs \<union> set ys))"
  shows "map covered xs = map covered ys"
  using same_tip_chain assms untampered_chain by blast

definition demo_entry :: "(string \<Rightarrow> string) \<Rightarrow> string \<Rightarrow> string \<Rightarrow> jv" where
  "demo_entry sha event note =
     (let ps = [(''event'', JStr event), (''previousHash'', JStr [])]
      in JObj (ps @ [(''hash'', JStr (sha (entry_text (JObj ps)))), (''note'', JStr note)]))"

theorem same_tip_same_history_witness:
  "map covered [demo_entry (\<lambda>s. CHR ''h'' # s) ''e'' ''x''] = map covered [demo_entry (\<lambda>s. CHR ''h'' # s) ''e'' ''y'']"
proof (rule same_tip_same_history [where sha = "\<lambda>s. CHR ''h'' # s"])
  show "\<not> tp_tampered (detect_tampering (\<lambda>s. CHR ''h'' # s) (JArr [demo_entry (\<lambda>s. CHR ''h'' # s) ''e'' ''x'']))" by code_simp
  show "\<not> tp_tampered (detect_tampering (\<lambda>s. CHR ''h'' # s) (JArr [demo_entry (\<lambda>s. CHR ''h'' # s) ''e'' ''y'']))" by code_simp
  show "tip [] [demo_entry (\<lambda>s. CHR ''h'' # s) ''e'' ''x''] = tip [] [demo_entry (\<lambda>s. CHR ''h'' # s) ''e'' ''y'']" by code_simp
qed (auto intro: inj_onI)

section \<open>Where the facade and the engine differ\<close>

definition idempotent_cell :: cell where
  "idempotent_cell = (demo_cell [] ''b'')\<lparr>c_result := IgnoredIdempotent\<rparr>"

text \<open>
  The invariant SM-003 follows the target of an idempotent cell, which the engine never moves to:
  a state that the topology check finds unreachable passes it.
\<close>

lemma idempotent_target_counts_as_reachable:
  "iv_ok (check_all_reachable (demo_machine\<lparr>m_matrix := [idempotent_cell]\<rparr>)) \<and>
   assert_reachability (demo_machine\<lparr>m_matrix := [idempotent_cell]\<rparr>) = Inl (UnreachableStates [''b''])"
  by code_simp

text \<open>
  \<open>isTransitionAllowed\<close> looks at the first cell of a status and event only: with an illegal
  default before a guarded cell it denies a transition that the engine makes.
\<close>

definition illegal_cell :: cell where
  "illegal_cell = (demo_cell [] ''a'')\<lparr>c_result := IllegalTransition, c_to := None, c_error := Some ''NOT_YET''\<rparr>"

lemma allowed_looks_at_first_cell:
  "\<not> is_transition_allowed (demo_machine\<lparr>m_matrix := [illegal_cell, demo_cell [''require_approval''] ''b'']\<rparr>) ''a'' ''e'' \<and>
   enabled_cells None (demo_machine\<lparr>m_matrix := [illegal_cell, demo_cell [''require_approval''] ''b'']\<rparr>) ''a'' ''e'' demo_context
     = [demo_cell [''require_approval''] ''b'']"
  by code_simp

end
