(* ===== verification/EndpointTraffic.thy ===== *)
theory EndpointTraffic imports Complex_Main Prelude begin

text \<open>
  The traffic controller of the upstream gateway,
  \<open>packages/agents/src/upstream-gateway/endpoint-traffic.ts\<close>, and the normalisation of its
  policies in \<open>support.ts\<close>: a token bucket with a concurrency limit per service operation and,
  when an endpoint has a policy of its own, per endpoint; a circuit breaker per endpoint; smooth
  weighted round robin among the endpoints that are admitted.

  Milliseconds and configured numbers are \<open>int\<close>, token levels \<open>rat\<close> (floating point rounding is
  not modelled); the clock is read once per operation. The metric, the audit record and the
  persisting of a denied request are left out.
\<close>

section \<open>Policies\<close>

record traffic_policy =
  po_per_minute :: int
  po_burst :: int
  po_concurrent :: int

text \<open>The numeric properties a configuration object may hold; absent ones are \<open>None\<close>.\<close>

record policy_input =
  pi_per_minute :: "int option"
  pi_burst :: "int option"
  pi_max_concurrent :: "int option"
  pi_concurrency :: "int option"
  pi_concurrent :: "int option"

definition no_policy :: policy_input where
  "no_policy = \<lparr>pi_per_minute = None, pi_burst = None, pi_max_concurrent = None, pi_concurrency = None, pi_concurrent = None\<rparr>"

text \<open>\<open>a || b || d\<close> on numbers: absent and 0 are falsy.\<close>

fun first_num :: "int option list \<Rightarrow> int \<Rightarrow> int" where
  "first_num [] d = d"
| "first_num (x # xs) d = (case x of None \<Rightarrow> first_num xs d | Some n \<Rightarrow> if n = 0 then first_num xs d else n)"

definition clamp :: "int \<Rightarrow> int \<Rightarrow> int \<Rightarrow> int" where
  "clamp lo hi n = max lo (min n hi)"

definition normalize_traffic_policy :: "policy_input \<Rightarrow> policy_input \<Rightarrow> traffic_policy" where
  "normalize_traffic_policy src input =
     (let burst = clamp 1 10000 (first_num [pi_burst src, pi_burst input] 30)
      in \<lparr>po_per_minute = clamp 1 10000 (first_num [pi_per_minute src, pi_per_minute input] 120),
          po_burst = burst,
          po_concurrent = clamp 1 10000 (first_num [pi_max_concurrent src, pi_concurrency src, pi_concurrent src,
            pi_max_concurrent input, pi_concurrency input] burst)\<rparr>)"

text \<open>The same function on an already normalised policy, or on \<open>{}\<close>.\<close>

definition policy_of :: "traffic_policy option \<Rightarrow> traffic_policy" where
  "policy_of p = normalize_traffic_policy no_policy
     (case p of
        None \<Rightarrow> no_policy
      | Some q \<Rightarrow> no_policy\<lparr>pi_per_minute := Some (po_per_minute q), pi_burst := Some (po_burst q), pi_max_concurrent := Some (po_concurrent q)\<rparr>)"

record breaker =
  cb_enabled :: bool
  cb_threshold :: int
  cb_cooldown :: int

record breaker_input =
  bi_enabled :: bool
  bi_failure_threshold :: "int option"
  bi_failures_before_open :: "int option"
  bi_failure_count :: "int option"
  bi_cooldown :: "int option"
  bi_open :: "int option"
  bi_reset_after :: "int option"

definition normalize_circuit_breaker :: "breaker_input \<Rightarrow> breaker" where
  "normalize_circuit_breaker b =
     \<lparr>cb_enabled = bi_enabled b,
      cb_threshold = clamp 1 100 (first_num [bi_failure_threshold b, bi_failures_before_open b, bi_failure_count b] 3),
      cb_cooldown = clamp 100 3600000 (first_num [bi_cooldown b, bi_open b, bi_reset_after b] 30000)\<rparr>"

section \<open>Services and endpoints\<close>

record endpoint =
  ep_id :: string
  ep_url :: string
  ep_weight :: int
  ep_disabled :: bool
  ep_policy :: "traffic_policy option"
  ep_policy_source :: string
  ep_inherited :: bool
  ep_breaker :: "breaker option"
  ep_breaker_source :: string

record service =
  sv_service :: string
  sv_base_url :: string
  sv_endpoints :: "endpoint list"
  sv_policy :: "traffic_policy option"
  sv_breaker :: "breaker option"

definition primary_endpoint :: "service \<Rightarrow> endpoint" where
  "primary_endpoint s = \<lparr>ep_id = ''primary'', ep_url = sv_base_url s, ep_weight = 1, ep_disabled = False, ep_policy = sv_policy s,
     ep_policy_source = ''service'', ep_inherited = True, ep_breaker = sv_breaker s, ep_breaker_source = ''service''\<rparr>"

definition endpoints_for :: "service \<Rightarrow> endpoint list" where
  "endpoints_for s =
     (let live = filter (\<lambda>e. \<not> ep_disabled e) (sv_endpoints s)
      in if live \<noteq> [] then live else if sv_endpoints s \<noteq> [] then [] else [primary_endpoint s])"

definition own_policy :: "endpoint \<Rightarrow> bool" where
  "own_policy e \<longleftrightarrow> ep_policy_source e = ''endpoint'' \<and> \<not> ep_inherited e"

definition endpoint_name :: "endpoint \<Rightarrow> string" where
  "endpoint_name e = str_or (ep_id e) ''primary''"

definition traffic_key :: "service \<Rightarrow> string \<Rightarrow> string" where
  "traffic_key s op = sv_service s @ ''::'' @ op"

definition endpoint_key :: "service \<Rightarrow> string \<Rightarrow> endpoint \<Rightarrow> string" where
  "endpoint_key s op e = traffic_key s op @ ''::'' @ endpoint_name e"

definition breaker_of :: "service \<Rightarrow> endpoint \<Rightarrow> breaker option" where
  "breaker_of s e = (case ep_breaker e of None \<Rightarrow> sv_breaker s | b \<Rightarrow> b)"

text \<open>\<open>breaker.enabled !== false\<close>.\<close>

definition breaker_on :: "breaker option \<Rightarrow> bool" where
  "breaker_on b \<longleftrightarrow> (case b of None \<Rightarrow> True | Some c \<Rightarrow> cb_enabled c)"

record public_endpoint =
  pe_id :: string
  pe_weight :: int
  pe_breaker :: bool
  pe_policy_source :: string
  pe_breaker_source :: string

definition public_endpoint_of :: "endpoint \<Rightarrow> public_endpoint" where
  "public_endpoint_of e = \<lparr>pe_id = endpoint_name e, pe_weight = (if ep_weight e = 0 then 1 else ep_weight e),
     pe_breaker = breaker_on (ep_breaker e), pe_policy_source = str_or (ep_policy_source e) ''service'',
     pe_breaker_source = str_or (ep_breaker_source e) ''service''\<rparr>"

section \<open>The controller's state\<close>

record bucket =
  bk_tokens :: rat
  bk_updated :: int
  bk_inflight :: int

record circuit =
  ci_failures :: int
  ci_opened_until :: int

text \<open>
  The weights a cursor holds. \<open>None\<close> is NaN: reading a name that the weights object does not
  have but inherits from \<open>Object.prototype\<close> gives a function, whose number is NaN.
\<close>

type_synonym weights = "(string \<times> int option) list"

record cursor =
  cu_signature :: "(string \<times> int) list"
  cu_weights :: weights

record traffic =
  buckets :: "(string \<times> bucket) list"
  cursors :: "(string \<times> cursor) list"
  circuits :: "(string \<times> circuit) list"

definition no_traffic :: traffic where
  "no_traffic = \<lparr>buckets = [], cursors = [], circuits = []\<rparr>"

section \<open>Circuits\<close>

record circuit_snapshot =
  cs_failures :: int
  cs_opened_until :: int
  cs_open :: bool
  cs_retry :: int

definition circuit_of :: "traffic \<Rightarrow> string \<Rightarrow> circuit" where
  "circuit_of st key = or_else \<lparr>ci_failures = 0, ci_opened_until = 0\<rparr> (map_of (circuits st) key)"

definition circuit_snapshot_of :: "traffic \<Rightarrow> string \<Rightarrow> breaker option \<Rightarrow> int \<Rightarrow> circuit_snapshot \<times> traffic" where
  "circuit_snapshot_of st key b now =
     (let c = circuit_of st key
      in if ci_opened_until c > 0 \<and> ci_opened_until c \<le> now
         then (\<lparr>cs_failures = 0, cs_opened_until = 0, cs_open = False, cs_retry = 0\<rparr>,
               st\<lparr>circuits := jmap_set key \<lparr>ci_failures = 0, ci_opened_until = 0\<rparr> (circuits st)\<rparr>)
         else
           (let retry = max 0 (ci_opened_until c - now)
            in (\<lparr>cs_failures = ci_failures c, cs_opened_until = ci_opened_until c, cs_open = (breaker_on b \<and> retry > 0), cs_retry = retry\<rparr>, st)))"

text \<open>\<open>recordEndpointOutcome\<close>; \<open>None\<close> is an outcome without an endpoint.\<close>

definition record_outcome :: "traffic \<Rightarrow> service \<Rightarrow> string \<Rightarrow> endpoint option \<Rightarrow> int \<Rightarrow> bool \<Rightarrow> int \<Rightarrow> traffic" where
  "record_outcome st s op ep status ok now =
     (case ep of
        None \<Rightarrow> st
      | Some e \<Rightarrow>
          if ep_id e = [] \<or> \<not> breaker_on (breaker_of s e) then st
          else
            (let key = endpoint_key s op e
             in if ok then st\<lparr>circuits := jmap_set key \<lparr>ci_failures = 0, ci_opened_until = 0\<rparr> (circuits st)\<rparr>
                else if \<not> (status = 0 \<or> status = 429 \<or> status \<ge> 500) then st
                else
                  (case circuit_snapshot_of st key (breaker_of s e) now of
                     (snap, st') \<Rightarrow>
                       (let failures = cs_failures snap + 1;
                            threshold = first_num [map_option cb_threshold (breaker_of s e)] 3;
                            cooldown = first_num [map_option cb_cooldown (breaker_of s e)] 30000
                        in st'\<lparr>circuits := jmap_set key
                             \<lparr>ci_failures = failures, ci_opened_until = (if failures \<ge> threshold then now + cooldown else 0)\<rparr>
                             (circuits st')\<rparr>))))"

section \<open>Token buckets\<close>

definition rate_of :: "traffic_policy \<Rightarrow> rat" where
  "rate_of p = of_int (po_per_minute p) / 60000"

text \<open>\<open>trafficSnapshot\<close>: every call in the file leaves the map alone (\<open>commit: false\<close>).\<close>

definition traffic_snapshot :: "traffic \<Rightarrow> string \<Rightarrow> traffic_policy \<Rightarrow> int \<Rightarrow> bucket" where
  "traffic_snapshot st key p now =
     (let b = or_else \<lparr>bk_tokens = of_int (po_burst p), bk_updated = now, bk_inflight = 0\<rparr> (map_of (buckets st) key);
          elapsed = max 0 (now - (if bk_updated b = 0 then now else bk_updated b))
      in \<lparr>bk_tokens = min (of_int (po_burst p)) (bk_tokens b + of_int elapsed * rate_of p),
          bk_updated = now, bk_inflight = max 0 (bk_inflight b)\<rparr>)"

definition take_slot :: "bucket \<Rightarrow> bucket" where
  "take_slot b = b\<lparr>bk_tokens := bk_tokens b - 1, bk_inflight := bk_inflight b + 1\<rparr>"

definition put_bucket :: "string \<Rightarrow> bucket \<Rightarrow> traffic \<Rightarrow> traffic" where
  "put_bucket key b st = st\<lparr>buckets := jmap_set key b (buckets st)\<rparr>"

section \<open>Decisions\<close>

record limit_view =
  li_per_minute :: int
  li_burst :: int
  li_concurrent :: int
  li_remaining :: int
  li_inflight :: int

definition limit_view_of :: "traffic_policy \<Rightarrow> bucket \<Rightarrow> limit_view" where
  "limit_view_of p b = \<lparr>li_per_minute = po_per_minute p, li_burst = po_burst p, li_concurrent = po_concurrent p,
     li_remaining = max 0 \<lfloor>bk_tokens b\<rfloor>, li_inflight = bk_inflight b\<rparr>"

record decision =
  de_allowed :: bool
  de_endpoint :: "public_endpoint option"
  de_circuit :: circuit_snapshot
  de_service_limit :: limit_view
  de_endpoint_limit :: "limit_view option"
  de_retry :: int
  de_reason :: string
  de_scope :: string

definition wait_for_token :: "traffic_policy \<Rightarrow> bucket \<Rightarrow> int" where
  "wait_for_token p b = \<lceil>(1 - bk_tokens b) / rate_of p\<rceil>"

definition has_token :: "bucket \<Rightarrow> bool" where
  "has_token b \<longleftrightarrow> bk_tokens b \<ge> 1"

definition has_concurrency :: "traffic_policy \<Rightarrow> bucket \<Rightarrow> bool" where
  "has_concurrency p b \<longleftrightarrow> bk_inflight b < po_concurrent p"
definition endpoint_policy :: "endpoint \<Rightarrow> traffic_policy option" where
  "endpoint_policy e = (if own_policy e then Some (policy_of (ep_policy e)) else None)"

text \<open>The bucket of an endpoint that has a policy of its own.\<close>

definition endpoint_bucket :: "traffic \<Rightarrow> service \<Rightarrow> string \<Rightarrow> endpoint \<Rightarrow> int \<Rightarrow> (traffic_policy \<times> bucket) option" where
  "endpoint_bucket st s op e now =
     map_option (\<lambda>p. (p, traffic_snapshot st (endpoint_key s op e) p now)) (endpoint_policy e)"

text \<open>Taking a slot of the service bucket and, when there is one, of the endpoint bucket.\<close>

definition take_slots :: "traffic \<Rightarrow> service \<Rightarrow> string \<Rightarrow> endpoint \<Rightarrow> bucket \<Rightarrow> (traffic_policy \<times> bucket) option \<Rightarrow> traffic" where
  "take_slots st s op e b eb =
     (let st1 = put_bucket (traffic_key s op) (take_slot b) st
      in case eb of None \<Rightarrow> st1 | Some (p, c) \<Rightarrow> put_bucket (endpoint_key s op e) (take_slot c) st1)"

definition traffic_decision :: "traffic \<Rightarrow> service \<Rightarrow> string \<Rightarrow> bool \<Rightarrow> endpoint \<Rightarrow> int \<Rightarrow> decision \<times> traffic" where
  "traffic_decision st s op consume e now =
     (let p = policy_of (sv_policy s) in
      case circuit_snapshot_of st (endpoint_key s op e) (breaker_of s e) now of
        (circuit, st1) \<Rightarrow>
          (let b = traffic_snapshot st1 (traffic_key s op) p now;
               eb = endpoint_bucket st1 s op e now;
               e_token = (case eb of None \<Rightarrow> True | Some (_, c) \<Rightarrow> has_token c);
               e_conc = (case eb of None \<Rightarrow> True | Some (q, c) \<Rightarrow> has_concurrency q c);
               allowed = (\<not> cs_open circuit \<and> has_token b \<and> has_concurrency p b \<and> e_token \<and> e_conc);
               taken = (consume \<and> allowed);
               b' = (if taken then take_slot b else b);
               eb' = (if taken then map_option (\<lambda>(q, c). (q, take_slot c)) eb else eb);
               retry = (if cs_open circuit then cs_retry circuit
                  else if \<not> has_token b then wait_for_token p b'
                  else (case eb' of Some (q, c) \<Rightarrow> if \<not> e_token then wait_for_token q c else 0 | None \<Rightarrow> 0))
           in (\<lparr>de_allowed = allowed, de_endpoint = Some (public_endpoint_of e), de_circuit = circuit,
                de_service_limit = limit_view_of p b', de_endpoint_limit = map_option (\<lambda>(q, c). limit_view_of q c) eb',
                de_retry = max 0 retry,
                de_reason = (if allowed then []
                  else if cs_open circuit then ''circuit_open''
                  else if \<not> has_token b \<or> \<not> e_token then ''token_bucket_empty'' else ''concurrency_limit_exceeded''),
                de_scope = (if allowed then [] else if cs_open circuit then ''endpoint''
                  else if \<not> has_token b \<or> \<not> has_concurrency p b then ''service'' else ''endpoint'')\<rparr>,
               if taken then take_slots st1 s op e b eb else st1)))"

definition consume_allowed :: "traffic \<Rightarrow> service \<Rightarrow> string \<Rightarrow> endpoint \<Rightarrow> decision \<Rightarrow> int \<Rightarrow> decision \<times> traffic" where
  "consume_allowed st s op e d now =
     (let p = policy_of (sv_policy s); b = traffic_snapshot st (traffic_key s op) p now;
          st1 = put_bucket (traffic_key s op) (take_slot b) st;
          eb = endpoint_bucket st1 s op e now
      in (d\<lparr>de_service_limit := limit_view_of p (take_slot b),
            de_endpoint_limit := map_option (\<lambda>(q, c). limit_view_of q (take_slot c)) eb\<rparr>,
          case eb of None \<Rightarrow> st1 | Some (q, c) \<Rightarrow> put_bucket (endpoint_key s op e) (take_slot c) st1))"

definition no_endpoint_decision :: "traffic \<Rightarrow> service \<Rightarrow> string \<Rightarrow> int \<Rightarrow> decision" where
  "no_endpoint_decision st s op now =
     (let p = policy_of (sv_policy s)
      in \<lparr>de_allowed = False, de_endpoint = None,
          de_circuit = \<lparr>cs_failures = 0, cs_opened_until = 0, cs_open = False, cs_retry = 0\<rparr>,
          de_service_limit = limit_view_of p (traffic_snapshot st (traffic_key s op) p now), de_endpoint_limit = None,
          de_retry = 0, de_reason = ''no_enabled_endpoint'', de_scope = ''endpoint''\<rparr>)"

section \<open>Selection\<close>

text \<open>Reading and writing the weights object: \<open>__proto__\<close> is an accessor that ignores a number.\<close>

definition weight_get :: "weights \<Rightarrow> string \<Rightarrow> int option" where
  "weight_get w i =
     (case map_of w i of
        Some v \<Rightarrow> Some (or_else 0 v)
      | None \<Rightarrow> if i \<in> set prototype_names then None else Some 0)"

definition weight_put :: "string \<Rightarrow> int option \<Rightarrow> weights \<Rightarrow> weights" where
  "weight_put i v w = (if i = ''__proto__'' then w else jmap_set i v w)"

text \<open>The loop's variables; \<open>pk_best\<close> is the selected endpoint with its decision and weight.\<close>

record pick =
  pk_traffic :: traffic
  pk_weights :: weights
  pk_fallback :: "(endpoint \<times> decision) option"
  pk_best :: "(endpoint \<times> decision \<times> int) option"
  pk_eligible :: int

definition pick_endpoint :: "service \<Rightarrow> string \<Rightarrow> int \<Rightarrow> endpoint \<Rightarrow> pick \<Rightarrow> pick" where
  "pick_endpoint s op now e k =
     (case traffic_decision (pk_traffic k) s op False e now of
        (d, st) \<Rightarrow>
          (let k1 = k\<lparr>pk_traffic := st, pk_fallback := (case pk_fallback k of None \<Rightarrow> Some (e, d) | f \<Rightarrow> f)\<rparr>; i = endpoint_name e
           in if \<not> de_allowed d then k1\<lparr>pk_weights := weight_put i (Some 0) (pk_weights k)\<rparr>
              else
                (let next_weight = map_option (\<lambda>w. w + ep_weight e) (weight_get (pk_weights k) i)
                 in k1\<lparr>pk_weights := weight_put i next_weight (pk_weights k),
                       pk_eligible := pk_eligible k + ep_weight e,
                       pk_best := (case next_weight of
                          None \<Rightarrow> pk_best k
                        | Some w \<Rightarrow> (case pk_best k of
                             None \<Rightarrow> Some (e, d, w)
                           | Some (e', d', w') \<Rightarrow> if w > w' then Some (e, d, w) else pk_best k))\<rparr>)))"

definition signature_of :: "endpoint list \<Rightarrow> (string \<times> int) list" where
  "signature_of es = map (\<lambda>e. (endpoint_name e, ep_weight e)) es"

definition cursor_weights :: "traffic \<Rightarrow> string \<Rightarrow> (string \<times> int) list \<Rightarrow> weights" where
  "cursor_weights st key sig =
     (case map_of (cursors st) key of None \<Rightarrow> [] | Some c \<Rightarrow> if cu_signature c = sig then cu_weights c else [])"

definition select_endpoint :: "traffic \<Rightarrow> service \<Rightarrow> string \<Rightarrow> bool \<Rightarrow> int \<Rightarrow> (endpoint option \<times> decision) \<times> traffic" where
  "select_endpoint st s op consume now =
     (let es = endpoints_for s; key = traffic_key s op
      in if es = []
         then ((None, no_endpoint_decision st s op now), if consume then st\<lparr>cursors := jmap_del key (cursors st)\<rparr> else st)
         else
           (let k = fold (pick_endpoint s op now) es
                  \<lparr>pk_traffic = st, pk_weights = cursor_weights st key (signature_of es), pk_fallback = None, pk_best = None, pk_eligible = 0\<rparr>;
                w = (case pk_best k of None \<Rightarrow> pk_weights k
                  | Some (e, d, v) \<Rightarrow> weight_put (endpoint_name e)
                      (map_option (\<lambda>x. x - pk_eligible k) (weight_get (pk_weights k) (endpoint_name e))) (pk_weights k));
                st1 = (if consume then (pk_traffic k)\<lparr>cursors := jmap_set key \<lparr>cu_signature = signature_of es, cu_weights = w\<rparr> (cursors (pk_traffic k))\<rparr>
                  else pk_traffic k)
            in case pk_best k of
                 Some (e, d, v) \<Rightarrow>
                   if consume then (case consume_allowed st1 s op e d now of (d', st2) \<Rightarrow> ((Some e, d'), st2)) else ((Some e, d), st1)
               | None \<Rightarrow> (case pk_fallback k of Some (e, d) \<Rightarrow> ((Some e, d), st1)
                   | None \<Rightarrow> (case traffic_decision st1 s op False (hd es) now of (d, st2) \<Rightarrow> ((Some (hd es), d), st2)))))"

section \<open>Slots\<close>

definition free_slot :: "bucket \<Rightarrow> bucket" where
  "free_slot b = b\<lparr>bk_inflight := max 0 (bk_inflight b - 1)\<rparr>"

definition release_traffic :: "traffic \<Rightarrow> service \<Rightarrow> string \<Rightarrow> endpoint option \<Rightarrow> int \<Rightarrow> traffic" where
  "release_traffic st s op ep now =
     (let chosen = (case ep of Some e \<Rightarrow> Some e | None \<Rightarrow> (case endpoints_for s of [] \<Rightarrow> None | e # _ \<Rightarrow> Some e))
      in case chosen of
           None \<Rightarrow> st
         | Some e \<Rightarrow>
             (let b = traffic_snapshot st (traffic_key s op) (policy_of (sv_policy s)) now;
                  st1 = put_bucket (traffic_key s op) (free_slot b) st
              in case endpoint_bucket st1 s op e now of
                   None \<Rightarrow> st1
                 | Some (q, c) \<Rightarrow> put_bucket (endpoint_key s op e) (free_slot c) st1))"

text \<open>
  \<open>withTrafficSlot\<close> up to its \<open>await\<close>: a granted slot is the endpoint that \<open>run\<close> gets and that
  the \<open>finally\<close> block releases; a denied request throws with this decision.
\<close>

definition enter_slot :: "traffic \<Rightarrow> service \<Rightarrow> string \<Rightarrow> int \<Rightarrow> (decision + endpoint option \<times> decision) \<times> traffic" where
  "enter_slot st s op now =
     (case select_endpoint st s op True now of
        ((e, d), st') \<Rightarrow> (if de_allowed d then Inr (e, d) else Inl d, st'))"

text \<open>The service a key belongs to: the part before the first \<open>::\<close>.\<close>

fun key_service :: "string \<Rightarrow> string" where
  "key_service (a # b # r) = (if a = CHR '':'' \<and> b = CHR '':'' then [] else a # key_service (b # r))"
| "key_service r = r"

definition retire_map :: "string set \<Rightarrow> (string \<times> 'v) list \<Rightarrow> (string \<times> 'v) list" where
  "retire_map ids m = filter (\<lambda>(k, v). key_service k \<notin> ids) m"

definition retire_services :: "traffic \<Rightarrow> string list \<Rightarrow> nat \<times> traffic" where
  "retire_services st ids =
     (let retired = set (filter (\<lambda>i. i \<noteq> []) (map trim ids))
      in if retired = {} then (0, st)
         else
           (let st' = \<lparr>buckets = retire_map retired (buckets st), cursors = retire_map retired (cursors st), circuits = retire_map retired (circuits st)\<rparr>
            in (length (buckets st) - length (buckets st') + (length (cursors st) - length (cursors st')) + (length (circuits st) - length (circuits st')), st')))"

end
