(* ===== verification/TrafficSafety.thy ===== *)
theory TrafficSafety imports EndpointTraffic begin

text \<open>
  What the traffic controller guarantees: the in-flight counters equal the slots that are out, a
  slot is granted only within the limits and with a closed circuit, the number of grants is
  bounded by the token bucket, the rotation is fair, and a circuit opens at its threshold.
\<close>

section \<open>Policies are within bounds\<close>

lemma clamp_bounds: "lo \<le> hi \<Longrightarrow> lo \<le> clamp lo hi n \<and> clamp lo hi n \<le> hi"
  by (simp add: clamp_def)

lemma policy_bounds:
  "1 \<le> po_per_minute (policy_of p)" "1 \<le> po_burst (policy_of p)" "1 \<le> po_concurrent (policy_of p)"
  by (simp_all add: policy_of_def normalize_traffic_policy_def Let_def clamp_def)

lemma rate_pos: "0 < rate_of (policy_of p)"
  using policy_bounds(1) [of p] by (simp add: rate_of_def)

text \<open>Normalising a normalised policy again, as every operation does, changes nothing.\<close>

lemma clamp_1: "clamp 1 10000 n \<noteq> 0" "clamp 1 10000 (clamp 1 10000 n) = clamp 1 10000 n"
  by (simp_all add: clamp_def)

lemma policy_of_idem: "policy_of (Some (normalize_traffic_policy src input)) = normalize_traffic_policy src input"
  by (simp add: policy_of_def normalize_traffic_policy_def no_policy_def Let_def clamp_1)

section \<open>Admission\<close>

definition circuit_open :: "traffic \<Rightarrow> string \<Rightarrow> breaker option \<Rightarrow> int \<Rightarrow> bool" where
  "circuit_open st key b now \<longleftrightarrow> breaker_on b \<and> ci_opened_until (circuit_of st key) > now"

definition admitted :: "traffic \<Rightarrow> service \<Rightarrow> string \<Rightarrow> int \<Rightarrow> endpoint \<Rightarrow> bool" where
  "admitted st s op now e \<longleftrightarrow>
     \<not> circuit_open st (endpoint_key s op e) (breaker_of s e) now \<and>
     has_token (traffic_snapshot st (traffic_key s op) (policy_of (sv_policy s)) now) \<and>
     has_concurrency (policy_of (sv_policy s)) (traffic_snapshot st (traffic_key s op) (policy_of (sv_policy s)) now) \<and>
     (case endpoint_policy e of
        None \<Rightarrow> True
      | Some p \<Rightarrow> has_token (traffic_snapshot st (endpoint_key s op e) p now) \<and>
          has_concurrency p (traffic_snapshot st (endpoint_key s op e) p now))"

text \<open>States that a decision cannot tell apart.\<close>

definition same_admission :: "traffic \<Rightarrow> traffic \<Rightarrow> int \<Rightarrow> bool" where
  "same_admission st st' now \<longleftrightarrow> buckets st' = buckets st \<and> cursors st' = cursors st \<and>
     (\<forall>key b. circuit_open st' key b now = circuit_open st key b now)"

lemma same_admission_refl [simp]: "same_admission st st now"
  by (simp add: same_admission_def)

lemma same_admission_trans: "same_admission a b now \<Longrightarrow> same_admission b c now \<Longrightarrow> same_admission a c now"
  by (simp add: same_admission_def)

lemma snapshot_cong: "buckets st' = buckets st \<Longrightarrow> traffic_snapshot st' = traffic_snapshot st"
  by (simp add: traffic_snapshot_def fun_eq_iff)

lemma admitted_cong: "same_admission st st' now \<Longrightarrow> admitted st' s op now e = admitted st s op now e"
  using snapshot_cong [of st' st] by (simp add: same_admission_def admitted_def split: option.split)

lemma circuit_of_set: "circuit_of (st\<lparr>circuits := jmap_set key c (circuits st)\<rparr>) k = (if k = key then c else circuit_of st k)"
  by (simp add: circuit_of_def or_else_def)

lemma circuit_snapshot_spec:
  assumes "circuit_snapshot_of st key b now = (snap, st')"
  shows "same_admission st st' now" and "cs_open snap = circuit_open st key b now"
proof -
  let ?c = "circuit_of st key"
  have "same_admission st st' now \<and> cs_open snap = circuit_open st key b now"
  proof (cases "ci_opened_until ?c > 0 \<and> ci_opened_until ?c \<le> now")
    case True
    then have "snap = \<lparr>cs_failures = 0, cs_opened_until = 0, cs_open = False, cs_retry = 0\<rparr>"
      "st' = st\<lparr>circuits := jmap_set key \<lparr>ci_failures = 0, ci_opened_until = 0\<rparr> (circuits st)\<rparr>"
      using assms by (simp_all add: circuit_snapshot_of_def Let_def)
    then show ?thesis using True by (simp add: same_admission_def circuit_open_def circuit_of_set)
  next
    case False
    then have "st' = st" "cs_open snap = (breaker_on b \<and> max 0 (ci_opened_until ?c - now) > 0)"
      using assms by (auto simp: circuit_snapshot_of_def Let_def)
    then show ?thesis by (auto simp: circuit_open_def)
  qed
  then show "same_admission st st' now" "cs_open snap = circuit_open st key b now" by blast+
qed

lemma decision_spec:
  assumes "traffic_decision st s op False e now = (d, st')"
  shows "same_admission st st' now" and "de_allowed d = admitted st s op now e"
proof -
  obtain snap st1 where c: "circuit_snapshot_of st (endpoint_key s op e) (breaker_of s e) now = (snap, st1)" by fastforce
  note S = circuit_snapshot_spec [OF c]
  have b: "buckets st1 = buckets st" using S(1) by (simp add: same_admission_def)
  show "same_admission st st' now" using assms c S(1) by (simp add: traffic_decision_def Let_def)
  show "de_allowed d = admitted st s op now e"
    using assms c S(2)
    by (auto simp: traffic_decision_def Let_def admitted_def snapshot_cong [OF b] endpoint_bucket_def split: option.splits)
qed

section \<open>The selection loop\<close>

definition names_ok :: "service \<Rightarrow> bool" where
  "names_ok s \<longleftrightarrow> (\<forall>e \<in> set (endpoints_for s). endpoint_name e \<notin> set prototype_names)"

lemma weight_get_ok: "i \<notin> set prototype_names \<Longrightarrow> \<exists>n. weight_get w i = Some n"
  by (simp add: weight_get_def split: option.split)

text \<open>What one turn of the loop does, in terms of \<^const>\<open>admitted\<close>.\<close>

lemma pick_turn:
  assumes "endpoint_name e \<notin> set prototype_names"
  shows "same_admission (pk_traffic k) (pk_traffic (pick_endpoint s op now e k)) now"
    and "\<not> admitted (pk_traffic k) s op now e \<Longrightarrow> pk_best (pick_endpoint s op now e k) = pk_best k"
    and "admitted (pk_traffic k) s op now e \<Longrightarrow> \<exists>e' d' w'. pk_best (pick_endpoint s op now e k) = Some (e', d', w') \<and>
       (pk_best k = Some (e', d', w') \<or> e' = e \<and> de_allowed d')"
    and "\<exists>e' d'. pk_fallback (pick_endpoint s op now e k) = Some (e', d') \<and>
       (pk_fallback k = Some (e', d') \<or> pk_fallback k = None \<and> e' = e \<and> de_allowed d' = admitted (pk_traffic k) s op now e)"
proof -
  obtain d st where d: "traffic_decision (pk_traffic k) s op False e now = (d, st)" by fastforce
  note D = decision_spec [OF d]
  obtain n where n: "weight_get (pk_weights k) (endpoint_name e) = Some n" using weight_get_ok [OF assms] by blast
  show "same_admission (pk_traffic k) (pk_traffic (pick_endpoint s op now e k)) now"
    using D(1) d by (simp add: pick_endpoint_def Let_def)
  show "\<not> admitted (pk_traffic k) s op now e \<Longrightarrow> pk_best (pick_endpoint s op now e k) = pk_best k"
    using D(2) d by (simp add: pick_endpoint_def Let_def)
  show "admitted (pk_traffic k) s op now e \<Longrightarrow> \<exists>e' d' w'. pk_best (pick_endpoint s op now e k) = Some (e', d', w') \<and>
       (pk_best k = Some (e', d', w') \<or> e' = e \<and> de_allowed d')"
    using D(2) d n by (simp add: pick_endpoint_def Let_def split: option.split)
  show "\<exists>e' d'. pk_fallback (pick_endpoint s op now e k) = Some (e', d') \<and>
       (pk_fallback k = Some (e', d') \<or> pk_fallback k = None \<and> e' = e \<and> de_allowed d' = admitted (pk_traffic k) s op now e)"
    using D(2) d by (cases "pk_fallback k") (auto simp: pick_endpoint_def Let_def)
qed

text \<open>The loop's invariant against the state \<open>st\<close> it starts in and the endpoints it has seen.\<close>

definition pick_inv :: "service \<Rightarrow> string \<Rightarrow> int \<Rightarrow> traffic \<Rightarrow> endpoint set \<Rightarrow> pick \<Rightarrow> bool" where
  "pick_inv s op now st seen k \<longleftrightarrow>
     same_admission st (pk_traffic k) now \<and>
     (pk_best k = None \<longrightarrow> (\<forall>e \<in> seen. \<not> admitted st s op now e)) \<and>
     (\<forall>e d w. pk_best k = Some (e, d, w) \<longrightarrow> e \<in> seen \<and> admitted st s op now e \<and> de_allowed d) \<and>
     (seen \<noteq> {} \<longrightarrow> pk_fallback k \<noteq> None) \<and>
     (\<forall>e d. pk_fallback k = Some (e, d) \<longrightarrow> e \<in> seen \<and> de_allowed d = admitted st s op now e)"

lemma pick_inv_step:
  assumes "pick_inv s op now st seen k" and "endpoint_name e \<notin> set prototype_names"
  shows "pick_inv s op now st (insert e seen) (pick_endpoint s op now e k)"
proof -
  let ?k = "pick_endpoint s op now e k"
  note T = pick_turn [OF assms(2), where k = k and s = s and op = op and now = now]
  note I = assms(1) [unfolded pick_inv_def]
  have same: "same_admission st (pk_traffic k) now" using I by blast
  note a = admitted_cong [OF same, of s op]
  have 1: "same_admission st (pk_traffic ?k) now" by (rule same_admission_trans [OF same T(1)])
  have best: "(pk_best ?k = None \<longrightarrow> (\<forall>x \<in> insert e seen. \<not> admitted st s op now x)) \<and>
      (\<forall>x d w. pk_best ?k = Some (x, d, w) \<longrightarrow> x \<in> insert e seen \<and> admitted st s op now x \<and> de_allowed d)"
  proof (cases "admitted st s op now e")
    case True
    then obtain x d w where x: "pk_best ?k = Some (x, d, w)" "pk_best k = Some (x, d, w) \<or> x = e \<and> de_allowed d"
      using T(3) a by blast
    have "x \<in> insert e seen \<and> admitted st s op now x \<and> de_allowed d" using x(2) I True by blast
    then show ?thesis by (simp add: x(1))
  next
    case False
    then have b: "pk_best ?k = pk_best k" using T(2) a by blast
    show ?thesis unfolding b using I False by blast
  qed
  obtain x d where x: "pk_fallback ?k = Some (x, d)"
    "pk_fallback k = Some (x, d) \<or> pk_fallback k = None \<and> x = e \<and> de_allowed d = admitted st s op now e"
    using T(4) a by metis
  have "x \<in> insert e seen \<and> de_allowed d = admitted st s op now x" using x(2) I by blast
  then have "\<forall>y c. pk_fallback ?k = Some (y, c) \<longrightarrow> y \<in> insert e seen \<and> de_allowed c = admitted st s op now y"
    by (simp add: x(1))
  then show ?thesis unfolding pick_inv_def using 1 best x(1) by blast
qed

lemma pick_inv_fold:
  assumes "pick_inv s op now st seen k" and "\<forall>e \<in> set es. endpoint_name e \<notin> set prototype_names"
  shows "pick_inv s op now st (set es \<union> seen) (fold (pick_endpoint s op now) es k)"
  using assms
proof (induction es arbitrary: seen k)
  case (Cons e es)
  have "pick_inv s op now st (insert e seen) (pick_endpoint s op now e k)"
    by (rule pick_inv_step [OF Cons.prems(1)]) (use Cons.prems(2) in simp)
  from Cons.IH [OF this] show ?case using Cons.prems(2) by simp
qed simp

text \<open>The loop's result and the state with the cursor it stores.\<close>

definition picked :: "traffic \<Rightarrow> service \<Rightarrow> string \<Rightarrow> int \<Rightarrow> pick" where
  "picked st s op now = fold (pick_endpoint s op now) (endpoints_for s)
     \<lparr>pk_traffic = st, pk_weights = cursor_weights st (traffic_key s op) (signature_of (endpoints_for s)),
      pk_fallback = None, pk_best = None, pk_eligible = 0\<rparr>"

definition charged :: "pick \<Rightarrow> endpoint \<Rightarrow> weights" where
  "charged k e = weight_put (endpoint_name e)
     (map_option (\<lambda>x. x - pk_eligible k) (weight_get (pk_weights k) (endpoint_name e))) (pk_weights k)"

definition with_cursor :: "service \<Rightarrow> string \<Rightarrow> pick \<Rightarrow> endpoint \<Rightarrow> traffic" where
  "with_cursor s op k e = (pk_traffic k)\<lparr>cursors := jmap_set (traffic_key s op)
     \<lparr>cu_signature = signature_of (endpoints_for s), cu_weights = charged k e\<rparr> (cursors (pk_traffic k))\<rparr>"

lemma select_best:
  assumes "endpoints_for s \<noteq> []" and "pk_best (picked st s op now) = Some (e, d, w)"
  shows "select_endpoint st s op True now =
    (case consume_allowed (with_cursor s op (picked st s op now) e) s op e d now of (d', st') \<Rightarrow> ((Some e, d'), st'))"
  using assms by (simp add: select_endpoint_def Let_def picked_def [symmetric] with_cursor_def charged_def)

text \<open>The outcome of a consuming selection.\<close>

definition granted :: "traffic \<Rightarrow> service \<Rightarrow> string \<Rightarrow> int \<Rightarrow> endpoint \<Rightarrow> decision \<Rightarrow> traffic \<Rightarrow> bool" where
  "granted st s op now e d st' \<longleftrightarrow> e \<in> set (endpoints_for s) \<and> admitted st s op now e \<and>
     (\<exists>st1 d1. buckets st1 = buckets st \<and> consume_allowed st1 s op e d1 now = (d, st'))"

lemma enter_slot_spec:
  assumes "names_ok s" and "enter_slot st s op now = (r, st')"
  shows "(\<exists>e d. r = Inr (Some e, d) \<and> granted st s op now e d st') \<or>
    (\<exists>d. r = Inl d \<and> buckets st' = buckets st \<and> (\<forall>e \<in> set (endpoints_for s). \<not> admitted st s op now e))"
proof (cases "endpoints_for s = []")
  case True
  then show ?thesis
    using assms(2) by (auto simp: enter_slot_def select_endpoint_def no_endpoint_decision_def Let_def)
next
  case False
  let ?es = "endpoints_for s"
  define k0 where "k0 = \<lparr>pk_traffic = st, pk_weights = cursor_weights st (traffic_key s op) (signature_of ?es), pk_fallback = None, pk_best = None, pk_eligible = 0\<rparr>"
  define k where "k = picked st s op now"
  have "pick_inv s op now st {} k0" by (simp add: pick_inv_def k0_def)
  then have I: "pick_inv s op now st (set ?es) k"
    using pick_inv_fold [of s op now st "{}" k0 ?es] assms(1) by (simp add: k_def picked_def k0_def names_ok_def)
  have same: "buckets (pk_traffic k) = buckets st" using I by (simp add: pick_inv_def same_admission_def)
  show ?thesis
  proof (cases "pk_best k")
    case None
    have ne: "set ?es \<noteq> {}" using False by simp
    obtain e d where f: "pk_fallback k = Some (e, d)" using I ne by (auto simp: pick_inv_def)
    have na: "\<forall>x \<in> set ?es. \<not> admitted st s op now x" using I None by (simp add: pick_inv_def)
    have "e \<in> set ?es" "de_allowed d = admitted st s op now e" using I f by (auto simp: pick_inv_def)
    then have "\<not> de_allowed d" using na by simp
    then show ?thesis using assms(2) None f False same na
      by (auto simp: enter_slot_def select_endpoint_def Let_def k_def picked_def)
  next
    case (Some b)
    then obtain e d0 w where b: "pk_best k = Some (e, d0, w)" by (cases b) auto
    then have e: "e \<in> set ?es" "admitted st s op now e" "de_allowed d0" using I by (auto simp: pick_inv_def)
    define st1 where "st1 = with_cursor s op k e"
    have st1: "buckets st1 = buckets st" using same by (simp add: st1_def with_cursor_def)
    obtain d st2 where c: "consume_allowed st1 s op e d0 now = (d, st2)" by fastforce
    have "de_allowed d" using c e(3) by (auto simp: consume_allowed_def Let_def)
    then have "r = Inr (Some e, d)" "st' = st2"
      using assms(2) select_best [OF False, of st op now e d0 w] b c by (simp_all add: enter_slot_def k_def st1_def)
    then show ?thesis using st1 c e(1,2) by (auto simp: granted_def)
  qed
qed

section \<open>Accounting\<close>

definition inflight :: "traffic \<Rightarrow> string \<Rightarrow> int" where
  "inflight st k = (case map_of (buckets st) k of None \<Rightarrow> 0 | Some b \<Rightarrow> bk_inflight b)"

definition slot_keys :: "service \<Rightarrow> string \<Rightarrow> endpoint \<Rightarrow> string list" where
  "slot_keys s op e = traffic_key s op # (if own_policy e then [endpoint_key s op e] else [])"

type_synonym slot = "service \<times> string \<times> endpoint"

definition outstanding :: "slot list \<Rightarrow> string \<Rightarrow> int" where
  "outstanding slots k = (\<Sum>(s, op, e) \<leftarrow> slots. of_nat (count_list (slot_keys s op e) k))"

lemma endpoint_key_new: "endpoint_key s op e \<noteq> traffic_key s op"
  by (simp add: endpoint_key_def)

lemma inflight_put: "inflight (put_bucket k b st) k' = (if k' = k then bk_inflight b else inflight st k')"
  by (simp add: inflight_def put_bucket_def)

lemma snapshot_inflight: "bk_inflight (traffic_snapshot st k p now) = max 0 (inflight st k)"
  by (simp add: traffic_snapshot_def inflight_def or_else_def Let_def split: option.split)

lemma inflight_cong: "buckets st' = buckets st \<Longrightarrow> inflight st' k = inflight st k"
  by (simp add: inflight_def)

lemma endpoint_bucket_eq:
  "endpoint_bucket st s op e now =
     (if own_policy e then Some (policy_of (ep_policy e), traffic_snapshot st (endpoint_key s op e) (policy_of (ep_policy e)) now) else None)"
  by (simp add: endpoint_bucket_def endpoint_policy_def)

lemma consume_inflight:
  assumes "consume_allowed st s op e d now = (d', st')" and "\<And>k. 0 \<le> inflight st k"
  shows "inflight st' k = inflight st k + of_nat (count_list (slot_keys s op e) k)"
  using assms endpoint_key_new [of s op e]
  by (auto simp: consume_allowed_def Let_def endpoint_bucket_eq inflight_put snapshot_inflight take_slot_def slot_keys_def split: if_splits)

lemma release_inflight:
  assumes "\<And>k. 0 \<le> inflight st k"
  shows "inflight (release_traffic st s op (Some e) now) k =
    (if k \<in> set (slot_keys s op e) then max 0 (inflight st k - 1) else inflight st k)"
  using assms endpoint_key_new [of s op e]
  by (auto simp: release_traffic_def Let_def endpoint_bucket_eq inflight_put snapshot_inflight free_slot_def slot_keys_def split: if_splits)

lemma count_slot_keys: "count_list (slot_keys s op e) k = (if k \<in> set (slot_keys s op e) then 1 else 0)"
  using endpoint_key_new [of s op e] by (auto simp: slot_keys_def)

lemma outstanding_simps [simp]:
  "outstanding [] k = 0"
  "outstanding ((s, op, e) # slots) k = of_nat (count_list (slot_keys s op e) k) + outstanding slots k"
  by (simp_all add: outstanding_def)

lemma outstanding_nonneg: "0 \<le> outstanding slots k"
  by (induction slots) auto

lemma outstanding_remove:
  "(s, op, e) \<in> set slots \<Longrightarrow> outstanding (remove1 (s, op, e) slots) k = outstanding slots k - of_nat (count_list (slot_keys s op e) k)"
proof (induction slots)
  case (Cons x slots)
  then show ?case by (cases x) auto
qed simp

lemma key_service_local: "key_service (a @ CHR '':'' # CHR '':'' # x) = key_service (a @ CHR '':'' # CHR '':'' # y)"
proof (induction a)
  case (Cons c a)
  then show ?case by (cases a) auto
qed simp

lemma key_service_slot: "k \<in> set (slot_keys s op e) \<Longrightarrow> key_service k = key_service (traffic_key s op)"
proof -
  assume "k \<in> set (slot_keys s op e)"
  then have "k = traffic_key s op \<or> k = endpoint_key s op e" by (auto simp: slot_keys_def split: if_splits)
  then show ?thesis
    using key_service_local [of "sv_service s" op "op @ ''::'' @ endpoint_name e"] by (auto simp: traffic_key_def endpoint_key_def)
qed

lemma map_of_retire: "map_of (retire_map ids m) k = (if key_service k \<in> ids then None else map_of m k)"
  by (induction m) (auto simp: retire_map_def)

text \<open>
  Runs of the controller. The list holds the slots that are out: the requests that
  \<open>withTrafficSlot\<close> has let in and not released. Services are taken as they are at each call, so
  policies may change between calls. Services are retired here only while no slot of theirs is out.
\<close>

inductive traffic_reach :: "traffic \<Rightarrow> slot list \<Rightarrow> bool" where
  start: "traffic_reach no_traffic []"
| enter: "traffic_reach st slots \<Longrightarrow> names_ok s \<Longrightarrow> enter_slot st s op now = (Inr (Some e, d), st') \<Longrightarrow>
     traffic_reach st' ((s, op, e) # slots)"
| denied: "traffic_reach st slots \<Longrightarrow> names_ok s \<Longrightarrow> enter_slot st s op now = (Inl d, st') \<Longrightarrow> traffic_reach st' slots"
| preview: "traffic_reach st slots \<Longrightarrow> names_ok s \<Longrightarrow> traffic_reach (snd (select_endpoint st s op False now)) slots"
| outcome: "traffic_reach st slots \<Longrightarrow> traffic_reach (record_outcome st s op e status ok now) slots"
| leave: "traffic_reach st slots \<Longrightarrow> (s, op, e) \<in> set slots \<Longrightarrow>
     traffic_reach (release_traffic st s op (Some e) now) (remove1 (s, op, e) slots)"
| retire: "traffic_reach st slots \<Longrightarrow> (\<forall>(s, op, e) \<in> set slots. key_service (traffic_key s op) \<notin> trim ` set ids) \<Longrightarrow>
     traffic_reach (snd (retire_services st ids)) slots"

lemma snapshot_buckets: "buckets (snd (circuit_snapshot_of st key b now)) = buckets st"
  by (simp add: circuit_snapshot_of_def Let_def)

lemma decision_buckets: "buckets (snd (traffic_decision st s op False e now)) = buckets st"
  using decision_spec(1) [of st s op e now] by (cases "traffic_decision st s op False e now") (simp add: same_admission_def)

lemma pick_buckets: "buckets (pk_traffic (pick_endpoint s op now e k)) = buckets (pk_traffic k)"
  using decision_buckets [of "pk_traffic k" s op e now]
  by (cases "traffic_decision (pk_traffic k) s op False e now") (simp add: pick_endpoint_def Let_def)

lemma picked_buckets: "buckets (pk_traffic (picked st s op now)) = buckets st"
proof -
  have "buckets (pk_traffic (fold (pick_endpoint s op now) es k)) = buckets (pk_traffic k)" for es k
    by (induction es arbitrary: k) (simp_all add: pick_buckets)
  then show ?thesis by (simp add: picked_def)
qed

lemma preview_buckets: "buckets (snd (select_endpoint st s op False now)) = buckets st"
  using picked_buckets [of st s op now] decision_buckets
  by (simp add: select_endpoint_def Let_def picked_def [symmetric] case_prod_unfold split: option.split)

lemma outcome_buckets: "buckets (record_outcome st s op e status ok now) = buckets st"
  using snapshot_buckets
  by (simp add: record_outcome_def Let_def case_prod_unfold split: option.split)

lemma retire_inflight: "inflight (snd (retire_services st ids)) k =
    (if key_service k \<in> set (filter (\<lambda>i. i \<noteq> []) (map trim ids)) then 0 else inflight st k)"
  by (cases "filter (\<lambda>i. i \<noteq> []) (map trim ids) = []")
    (auto simp: retire_services_def Let_def inflight_def map_of_retire filter_empty_conv)

lemma outstanding_zero: "(\<forall>(s, op, e) \<in> set slots. k \<notin> set (slot_keys s op e)) \<Longrightarrow> outstanding slots k = 0"
  by (induction slots) (auto simp: count_slot_keys)

lemma accounting: "traffic_reach st slots \<Longrightarrow> inflight st k = outstanding slots k"
proof (induction arbitrary: k rule: traffic_reach.induct)
  case start
  show ?case by (simp add: inflight_def no_traffic_def)
next
  case (enter st slots s op now e d st')
  have nn: "0 \<le> inflight st k" for k using enter.IH outstanding_nonneg by simp
  obtain st1 d1 where st1: "buckets st1 = buckets st" "consume_allowed st1 s op e d1 now = (d, st')"
    using enter_slot_spec [OF enter.hyps(2,3)] by (auto simp: granted_def)
  have "inflight st' k = inflight st1 k + of_nat (count_list (slot_keys s op e) k)"
    by (rule consume_inflight [OF st1(2)]) (use nn inflight_cong [OF st1(1)] in simp)
  then show ?case using enter.IH inflight_cong [OF st1(1)] by simp
next
  case (denied st slots s op now d st')
  then show ?case using enter_slot_spec [OF denied.hyps(2,3)] inflight_cong [of st' st] by auto
next
  case (preview st slots s op now)
  then show ?case using inflight_cong [OF preview_buckets] by metis
next
  case (outcome st slots s op e status ok now)
  then show ?case using inflight_cong [OF outcome_buckets] by metis
next
  case (leave st slots s op e now)
  have nn: "0 \<le> inflight st k" for k using leave.IH outstanding_nonneg by simp
  have "0 \<le> outstanding (remove1 (s, op, e) slots) k" by (rule outstanding_nonneg)
  then show ?case
    using leave.IH [of k] release_inflight [of st s op e now k, OF nn] outstanding_remove [OF leave.hyps(2), of k] count_slot_keys [of s op e k]
    by (auto split: if_splits)
next
  case (retire st slots ids)
  have "outstanding slots k = 0" if "key_service k \<in> trim ` set ids"
    using retire.hyps(2) that key_service_slot by (intro outstanding_zero) fastforce
  then show ?case using retire.IH [of k] retire_inflight [of st ids k] by auto
qed



section \<open>The rate limit\<close>

text \<open>The tokens of the service bucket as seen at a time.\<close>

definition credit :: "traffic \<Rightarrow> service \<Rightarrow> string \<Rightarrow> int \<Rightarrow> rat" where
  "credit st s op t = bk_tokens (traffic_snapshot st (traffic_key s op) (policy_of (sv_policy s)) t)"

datatype call = Enter int | Leave endpoint int | Preview int | Outcome endpoint int bool int

fun call_time :: "call \<Rightarrow> int" where
  "call_time (Enter t) = t"
| "call_time (Leave e t) = t"
| "call_time (Preview t) = t"
| "call_time (Outcome e status ok t) = t"

text \<open>One call for a service operation: the endpoint it was let in to, if any, and the new state.\<close>

definition call_step :: "service \<Rightarrow> string \<Rightarrow> traffic \<Rightarrow> call \<Rightarrow> endpoint option \<times> traffic" where
  "call_step s op st c =
     (case c of
        Enter t \<Rightarrow> (case enter_slot st s op t of (r, st') \<Rightarrow> ((case r of Inl _ \<Rightarrow> None | Inr (ep, _) \<Rightarrow> ep), st'))
      | Leave e t \<Rightarrow> (None, release_traffic st s op (Some e) t)
      | Preview t \<Rightarrow> (None, snd (select_endpoint st s op False t))
      | Outcome e status ok t \<Rightarrow> (None, record_outcome st s op (Some e) status ok t))"

text \<open>A run of calls and the endpoints of the requests let in, in order.\<close>

fun traffic_run :: "service \<Rightarrow> string \<Rightarrow> traffic \<Rightarrow> call list \<Rightarrow> endpoint list" where
  "traffic_run s op st [] = []"
| "traffic_run s op st (c # cs) =
     (case call_step s op st c of
        (g, st') \<Rightarrow> (case g of None \<Rightarrow> traffic_run s op st' cs | Some e \<Rightarrow> e # traffic_run s op st' cs))"

lemma credit_cong: "buckets st' = buckets st \<Longrightarrow> credit st' s op t = credit st s op t"
  by (simp add: credit_def traffic_snapshot_def)

lemma credit_later:
  assumes "t \<le> t'"
  shows "credit st s op t' \<le> credit st s op t + rate_of (policy_of (sv_policy s)) * of_int (t' - t)"
    and "credit st s op t \<le> credit st s op t'"
proof -
  let ?p = "policy_of (sv_policy s)"
  let ?b = "or_else \<lparr>bk_tokens = of_int (po_burst ?p), bk_updated = t, bk_inflight = 0\<rparr> (map_of (buckets st) (traffic_key s op))"
  have r: "0 < rate_of ?p" by (rule rate_pos)
  show "credit st s op t' \<le> credit st s op t + rate_of ?p * of_int (t' - t)"
  proof (cases "map_of (buckets st) (traffic_key s op)")
    case None
    then show ?thesis using r assms by (simp add: credit_def traffic_snapshot_def or_else_def)
  next
    case (Some b)
    let ?e = "\<lambda>t. max 0 (t - (if bk_updated b = 0 then t else bk_updated b))"
    have "?e t' \<le> ?e t + (t' - t)" using assms by auto
    then have "(of_int (?e t') :: rat) \<le> of_int (?e t) + of_int (t' - t)" by (metis of_int_add of_int_le_iff)
    then have "of_int (?e t') * rate_of ?p \<le> (of_int (?e t) + of_int (t' - t)) * rate_of ?p" using r by (simp add: mult_right_mono)
    then have m: "bk_tokens b + of_int (?e t') * rate_of ?p \<le> bk_tokens b + of_int (?e t) * rate_of ?p + rate_of ?p * of_int (t' - t)"
      by (simp add: algebra_simps)
    have n: "0 \<le> rate_of ?p * of_int (t' - t)" using r assms by simp
    show ?thesis using m n Some by (simp add: credit_def traffic_snapshot_def or_else_def Let_def)
  qed
  show "credit st s op t \<le> credit st s op t'"
  proof (cases "map_of (buckets st) (traffic_key s op)")
    case None
    then show ?thesis using r assms by (simp add: credit_def traffic_snapshot_def or_else_def)
  next
    case (Some b)
    let ?e = "\<lambda>t. max 0 (t - (if bk_updated b = 0 then t else bk_updated b))"
    have "?e t \<le> ?e t'" using assms by auto
    then have "(of_int (?e t) :: rat) * rate_of ?p \<le> of_int (?e t') * rate_of ?p" using r by (simp add: mult_right_mono)
    then show ?thesis using Some by (simp add: credit_def traffic_snapshot_def or_else_def Let_def)
  qed
qed

lemma credit_le_burst: "credit st s op t \<le> of_int (po_burst (policy_of (sv_policy s)))"
  by (simp add: credit_def traffic_snapshot_def Let_def)

lemma credit_put:
  "credit (put_bucket (traffic_key s op) b st) s op t =
     (if bk_updated b = t then min (of_int (po_burst (policy_of (sv_policy s)))) (bk_tokens b)
      else credit (put_bucket (traffic_key s op) b st) s op t)"
  by (simp add: credit_def traffic_snapshot_def put_bucket_def or_else_def Let_def)

lemma credit_put_other: "k \<noteq> traffic_key s op \<Longrightarrow> credit (put_bucket k b st) s op t = credit st s op t"
  by (simp add: credit_def traffic_snapshot_def put_bucket_def)

lemma consume_credit:
  assumes "consume_allowed st s op e d t = (d', st')"
  shows "credit st' s op t = credit st s op t - 1"
proof -
  let ?b = "traffic_snapshot st (traffic_key s op) (policy_of (sv_policy s)) t"
  have "credit st' s op t = credit (put_bucket (traffic_key s op) (take_slot ?b) st) s op t"
    using assms endpoint_key_new [of s op e]
    by (auto simp: consume_allowed_def Let_def endpoint_bucket_eq credit_put_other split: if_splits)
  also have "\<dots> = min (of_int (po_burst (policy_of (sv_policy s)))) (bk_tokens (take_slot ?b))"
    by (subst credit_put) (simp add: take_slot_def traffic_snapshot_def Let_def)
  also have "\<dots> = credit st s op t - 1"
    using credit_le_burst [of st s op t] by (simp add: take_slot_def credit_def)
  finally show ?thesis .
qed

lemma release_credit: "credit (release_traffic st s op (Some e) t) s op t = credit st s op t"
proof -
  let ?b = "traffic_snapshot st (traffic_key s op) (policy_of (sv_policy s)) t"
  have "credit (release_traffic st s op (Some e) t) s op t = credit (put_bucket (traffic_key s op) (free_slot ?b) st) s op t"
    using endpoint_key_new [of s op e]
    by (auto simp: release_traffic_def Let_def endpoint_bucket_eq credit_put_other split: if_splits)
  also have "\<dots> = min (of_int (po_burst (policy_of (sv_policy s)))) (bk_tokens (free_slot ?b))"
    by (subst credit_put) (simp add: free_slot_def traffic_snapshot_def Let_def)
  also have "\<dots> = credit st s op t"
    using credit_le_burst [of st s op t] by (simp add: free_slot_def credit_def)
  finally show ?thesis .
qed

lemma call_credit:
  assumes "names_ok s" and "call_step s op st c = (g, st')"
  shows "credit st' s op (call_time c) = credit st s op (call_time c) - (if g = None then 0 else 1)"
    and "g \<noteq> None \<Longrightarrow> 1 \<le> credit st s op (call_time c)"
proof -
  have "credit st' s op (call_time c) = credit st s op (call_time c) - (if g = None then 0 else 1) \<and>
      (g \<noteq> None \<longrightarrow> 1 \<le> credit st s op (call_time c))"
  proof (cases c)
    case (Enter t)
    obtain r st2 where r: "enter_slot st s op t = (r, st2)" by fastforce
    then have g: "g = (case r of Inl _ \<Rightarrow> None | Inr (ep, _) \<Rightarrow> ep)" "st' = st2" using assms(2) Enter by (simp_all add: call_step_def)
    show ?thesis
      using enter_slot_spec [OF assms(1) r]
    proof
      assume "\<exists>e d. r = Inr (Some e, d) \<and> granted st s op t e d st2"
      then obtain e d st1 d1 where "r = Inr (Some e, d)" "admitted st s op t e" "buckets st1 = buckets st"
        "consume_allowed st1 s op e d1 t = (d, st2)" by (auto simp: granted_def)
      then show ?thesis
        using consume_credit [of st1 s op e d1 t d st2] credit_cong [of st1 st s op t] g Enter
        by (simp add: admitted_def has_token_def credit_def)
    next
      assume "\<exists>d. r = Inl d \<and> buckets st2 = buckets st \<and> (\<forall>e \<in> set (endpoints_for s). \<not> admitted st s op t e)"
      then show ?thesis using g Enter credit_cong [of st2 st s op t] by auto
    qed
  next
    case (Leave e t)
    then show ?thesis using assms(2) release_credit by (auto simp: call_step_def)
  next
    case (Preview t)
    then show ?thesis using assms(2) credit_cong [OF preview_buckets] by (auto simp: call_step_def)
  next
    case (Outcome e status ok t)
    then show ?thesis using assms(2) credit_cong [OF outcome_buckets] by (auto simp: call_step_def)
  qed
  then show "credit st' s op (call_time c) = credit st s op (call_time c) - (if g = None then 0 else 1)"
    "g \<noteq> None \<Longrightarrow> 1 \<le> credit st s op (call_time c)" by blast+
qed

lemma run_rate:
  assumes "names_ok s"
  shows "sorted (t0 # map call_time cs) \<Longrightarrow> 0 \<le> credit st s op t0 \<Longrightarrow>
     of_nat (length (traffic_run s op st cs)) \<le> credit st s op t0
       + rate_of (policy_of (sv_policy s)) * of_int (last (t0 # map call_time cs) - t0)"
proof (induction cs arbitrary: st t0)
  case (Cons c cs)
  let ?r = "rate_of (policy_of (sv_policy s))" and ?t = "call_time c"
  obtain g st' where g: "call_step s op st c = (g, st')" by fastforce
  note C = call_credit [OF assms g]
  have t: "t0 \<le> ?t" "sorted (?t # map call_time cs)" using Cons.prems(1) by auto
  have up: "credit st s op ?t \<le> credit st s op t0 + ?r * of_int (?t - t0)" by (rule credit_later(1) [OF t(1)])
  have "0 \<le> credit st s op ?t" using credit_later(2) [OF t(1), of st s op] Cons.prems(2) by simp
  then have "0 \<le> credit st' s op ?t" using C by (cases g) simp_all
  from Cons.IH [OF t(2) this]
  have "of_nat (length (traffic_run s op st' cs)) \<le> credit st' s op ?t + ?r * of_int (last (?t # map call_time cs) - ?t)" .
  then have "of_nat (length (traffic_run s op st (c # cs))) \<le> credit st s op ?t + ?r * of_int (last (?t # map call_time cs) - ?t)"
    using C(1) g by (cases g) simp_all
  also have "\<dots> \<le> credit st s op t0 + ?r * of_int (?t - t0) + ?r * of_int (last (?t # map call_time cs) - ?t)"
    using up by simp
  also have "\<dots> = credit st s op t0 + ?r * of_int (last (t0 # map call_time (c # cs)) - t0)"
    by (simp add: algebra_simps)
  finally show ?case .
qed simp


section \<open>Fair rotation\<close>

definition weight_of :: "weights \<Rightarrow> string \<Rightarrow> int" where
  "weight_of w i = or_else 0 (weight_get w i)"

lemma weight_of_put: "j \<notin> set prototype_names \<Longrightarrow> weight_of (weight_put j (Some n) w) i = (if i = j then n else weight_of w i)"
  by (auto simp: weight_of_def weight_get_def weight_put_def or_else_def prototype_names_def)

lemma weight_get_of: "i \<notin> set prototype_names \<Longrightarrow> weight_get w i = Some (weight_of w i)"
  using weight_get_ok [of i w] by (auto simp: weight_of_def or_else_def)

text \<open>The loop over endpoints that are all admitted, against the weights it starts with.\<close>

definition turn_inv :: "weights \<Rightarrow> endpoint list \<Rightarrow> pick \<Rightarrow> bool" where
  "turn_inv w0 seen k \<longleftrightarrow>
     (\<forall>e \<in> set seen. weight_of (pk_weights k) (endpoint_name e) = weight_of w0 (endpoint_name e) + ep_weight e) \<and>
     (\<forall>i. i \<notin> endpoint_name ` set seen \<longrightarrow> weight_of (pk_weights k) i = weight_of w0 i) \<and>
     pk_eligible k = sum_list (map ep_weight seen) \<and>
     (seen \<noteq> [] \<longrightarrow> (\<exists>e d w. pk_best k = Some (e, d, w) \<and> e \<in> set seen \<and> w = weight_of w0 (endpoint_name e) + ep_weight e \<and>
        (\<forall>x \<in> set seen. weight_of w0 (endpoint_name x) + ep_weight x \<le> w))) \<and>
     (seen = [] \<longrightarrow> pk_best k = None)"

lemma turn_inv_step:
  assumes I: "turn_inv w0 seen k" and name: "endpoint_name e \<notin> set prototype_names" "endpoint_name e \<notin> endpoint_name ` set seen"
    and a: "admitted (pk_traffic k) s op now e"
  shows "turn_inv w0 (seen @ [e]) (pick_endpoint s op now e k)"
proof -
  let ?k = "pick_endpoint s op now e k" and ?i = "endpoint_name e"
  let ?n = "weight_of w0 ?i + ep_weight e"
  obtain d st where d: "traffic_decision (pk_traffic k) s op False e now = (d, st)" by fastforce
  have al: "de_allowed d" using decision_spec(2) [OF d] a by simp
  have old: "weight_of (pk_weights k) ?i = weight_of w0 ?i" using I name(2) by (simp add: turn_inv_def)
  have k: "pk_weights ?k = weight_put ?i (Some ?n) (pk_weights k)" "pk_eligible ?k = pk_eligible k + ep_weight e"
    "pk_best ?k = (case pk_best k of None \<Rightarrow> Some (e, d, ?n)
       | Some (e', d', w') \<Rightarrow> if ?n > w' then Some (e, d, ?n) else pk_best k)"
    using d al weight_get_of [OF name(1), of "pk_weights k"] by (simp_all add: pick_endpoint_def Let_def old)
  have 1: "\<forall>x \<in> set (seen @ [e]). weight_of (pk_weights ?k) (endpoint_name x) = weight_of w0 (endpoint_name x) + ep_weight x"
  proof
    fix x assume x: "x \<in> set (seen @ [e])"
    show "weight_of (pk_weights ?k) (endpoint_name x) = weight_of w0 (endpoint_name x) + ep_weight x"
    proof (cases "x = e")
      case False
      then have "x \<in> set seen" using x by simp
      moreover from this have "endpoint_name x \<noteq> ?i" using name(2) by (metis image_eqI)
      ultimately show ?thesis using I by (simp add: k(1) weight_of_put [OF name(1)] turn_inv_def)
    qed (simp add: k(1) weight_of_put [OF name(1)])
  qed
  have 2: "\<forall>i. i \<notin> endpoint_name ` set (seen @ [e]) \<longrightarrow> weight_of (pk_weights ?k) i = weight_of w0 i"
    using I by (auto simp: k(1) weight_of_put [OF name(1)] turn_inv_def)
  have 3: "pk_eligible ?k = sum_list (map ep_weight (seen @ [e]))" using I by (simp add: k(2) turn_inv_def)
  have 4: "\<exists>x d w. pk_best ?k = Some (x, d, w) \<and> x \<in> set (seen @ [e]) \<and> w = weight_of w0 (endpoint_name x) + ep_weight x \<and>
      (\<forall>x \<in> set (seen @ [e]). weight_of w0 (endpoint_name x) + ep_weight x \<le> w)"
  proof (cases "seen = []")
    case True
    then show ?thesis using I by (simp add: k(3) turn_inv_def)
  next
    case False
    then obtain x c w where b: "pk_best k = Some (x, c, w)" "x \<in> set seen" "w = weight_of w0 (endpoint_name x) + ep_weight x"
      "\<forall>x \<in> set seen. weight_of w0 (endpoint_name x) + ep_weight x \<le> w"
      using I unfolding turn_inv_def by blast
    show ?thesis
    proof (cases "?n > w")
      case True
      then have "\<forall>x \<in> set seen. weight_of w0 (endpoint_name x) + ep_weight x \<le> ?n" using b(4) by fastforce
      then show ?thesis using True by (simp add: k(3) b(1))
    next
      case False
      then show ?thesis using b by (simp add: k(3))
    qed
  qed
  show ?thesis unfolding turn_inv_def using 1 2 3 4 by blast
qed

lemma turn_fold:
  assumes "turn_inv w0 seen k" and "distinct (map endpoint_name (seen @ es))"
    and "\<forall>e \<in> set es. endpoint_name e \<notin> set prototype_names" and "\<forall>e \<in> set es. admitted st s op now e"
    and "same_admission st (pk_traffic k) now"
  shows "turn_inv w0 (seen @ es) (fold (pick_endpoint s op now) es k)"
  using assms
proof (induction es arbitrary: seen k)
  case (Cons e es)
  have "turn_inv w0 (seen @ [e]) (pick_endpoint s op now e k)"
    by (rule turn_inv_step [OF Cons.prems(1)]) (use Cons.prems admitted_cong [OF Cons.prems(5)] in auto)
  moreover have "same_admission st (pk_traffic (pick_endpoint s op now e k)) now"
    using Cons.prems(3,5) pick_turn(1) same_admission_trans by (metis list.set_intros(1))
  ultimately show ?case using Cons.IH [of "seen @ [e]"] Cons.prems by simp
qed simp

text \<open>Services whose endpoints can be told apart and have a positive weight.\<close>

definition rotation_ok :: "service \<Rightarrow> bool" where
  "rotation_ok s \<longleftrightarrow> names_ok s \<and> endpoints_for s \<noteq> [] \<and> distinct (map endpoint_name (endpoints_for s)) \<and>
     (\<forall>e \<in> set (endpoints_for s). 1 \<le> ep_weight e)"

definition total_weight :: "service \<Rightarrow> int" where
  "total_weight s = sum_list (map ep_weight (endpoints_for s))"

definition cursor_weight :: "service \<Rightarrow> string \<Rightarrow> traffic \<Rightarrow> endpoint \<Rightarrow> int" where
  "cursor_weight s op st e = weight_of (cursor_weights st (traffic_key s op) (signature_of (endpoints_for s))) (endpoint_name e)"

text \<open>Between two selections the weights add up to 0 and none falls to minus the total.\<close>

definition balanced :: "service \<Rightarrow> string \<Rightarrow> traffic \<Rightarrow> bool" where
  "balanced s op st \<longleftrightarrow> sum_list (map (cursor_weight s op st) (endpoints_for s)) = 0 \<and>
     (\<forall>e \<in> set (endpoints_for s). - total_weight s < cursor_weight s op st e)"

lemma put_cursors: "cursors (put_bucket k b st) = cursors st"
  by (simp add: put_bucket_def)

lemma consume_cursors: "cursors (snd (consume_allowed st s op e d now)) = cursors st"
  by (simp add: consume_allowed_def Let_def put_cursors split: option.split prod.split)

lemma cursor_weight_cong: "cursors st' = cursors st \<Longrightarrow> cursor_weight s op st' e = cursor_weight s op st e"
  by (simp add: cursor_weight_def cursor_weights_def)

text \<open>One request let in while every endpoint is admitted.\<close>

lemma rotation_step:
  assumes ok: "rotation_ok s" and all: "\<forall>e \<in> set (endpoints_for s). admitted st s op t e"
    and r: "enter_slot st s op t = (r, st')"
  shows "\<exists>e d. r = Inr (Some e, d) \<and> e \<in> set (endpoints_for s) \<and>
    (\<forall>x \<in> set (endpoints_for s). cursor_weight s op st x + ep_weight x \<le> cursor_weight s op st e + ep_weight e) \<and>
    (\<forall>x \<in> set (endpoints_for s). cursor_weight s op st' x = cursor_weight s op st x + ep_weight x - (if x = e then total_weight s else 0))"
proof -
  let ?es = "endpoints_for s" and ?k = "picked st s op t"
  let ?w0 = "cursor_weights st (traffic_key s op) (signature_of ?es)"
  have n: "names_ok s" "?es \<noteq> []" "distinct (map endpoint_name ?es)" using ok by (simp_all add: rotation_ok_def)
  have I: "turn_inv ?w0 ?es ?k"
    unfolding picked_def
    by (rule turn_fold [of ?w0 "[]" _ ?es st, simplified]) (use n all in \<open>auto simp: turn_inv_def names_ok_def\<close>)
  obtain e d w where b: "pk_best ?k = Some (e, d, w)" "e \<in> set ?es" "w = weight_of ?w0 (endpoint_name e) + ep_weight e"
    "\<forall>x \<in> set ?es. weight_of ?w0 (endpoint_name x) + ep_weight x \<le> w"
    using I n(2) unfolding turn_inv_def by blast
  have total: "pk_eligible ?k = total_weight s" using I by (simp add: turn_inv_def total_weight_def)
  have name: "endpoint_name e \<notin> set prototype_names" using n(1) b(2) by (simp add: names_ok_def)
  obtain d' st2 where c: "consume_allowed (with_cursor s op ?k e) s op e d t = (d', st2)" by fastforce
  have st2: "cursors st2 = cursors (with_cursor s op ?k e)" using consume_cursors [of "with_cursor s op ?k e" s op e d t] c by simp
  have sel: "select_endpoint st s op True t = ((Some e, d'), st2)" using select_best [OF n(2) b(1)] c by simp
  have "\<not> (\<exists>d. r = Inl d \<and> buckets st' = buckets st \<and> (\<forall>e \<in> set ?es. \<not> admitted st s op t e))" using all b(2) by blast
  then have "\<exists>e d. r = Inr (Some e, d)" using enter_slot_spec [OF n(1) r] by blast
  then have r': "r = Inr (Some e, d')" "st' = st2" using r sel by (auto simp: enter_slot_def split: if_splits)
  have inj: "endpoint_name x = endpoint_name e \<longleftrightarrow> x = e" if "x \<in> set ?es" for x
    using n(3) that b(2) by (auto simp: distinct_map dest: inj_onD)
  have "cursor_weights st' (traffic_key s op) (signature_of ?es) = charged ?k e"
    by (simp add: cursor_weights_def r'(2) st2 with_cursor_def)
  then have "cursor_weight s op st' x = cursor_weight s op st x + ep_weight x - (if x = e then total_weight s else 0)" if "x \<in> set ?es" for x
    using I that inj [OF that] b(2) total weight_get_of [OF name, of "pk_weights ?k"]
    by (auto simp: cursor_weight_def charged_def weight_of_put [OF name] turn_inv_def)
  then show ?thesis using r' b(2-4) by (auto simp: cursor_weight_def)
qed

lemma sum_list_pos: "xs \<noteq> [] \<Longrightarrow> (\<And>x. x \<in> set xs \<Longrightarrow> 1 \<le> f x) \<Longrightarrow> 0 < (sum_list (map f xs) :: int)"
  by (induction xs) (auto, smt (verit) list.map_disc_iff sum_list.Nil list.simps(8))

lemma sum_list_le0: "(\<And>x. x \<in> set xs \<Longrightarrow> f x \<le> 0) \<Longrightarrow> (sum_list (map f xs) :: int) \<le> 0"
  by (induction xs) (auto simp: add_nonpos_nonpos)

lemma sum_list_none: "e \<notin> set xs \<Longrightarrow> sum_list (map (\<lambda>x. if x = e then c else 0) xs) = (0 :: int)"
  by (induction xs) auto

lemma sum_list_one: "distinct xs \<Longrightarrow> e \<in> set xs \<Longrightarrow> sum_list (map (\<lambda>x. if x = e then c else 0) xs) = (c :: int)"
  by (induction xs) (auto simp: sum_list_none)

lemma balanced_step:
  assumes ok: "rotation_ok s" and b: "balanced s op st" and e: "e \<in> set (endpoints_for s)"
    and best: "\<forall>x \<in> set (endpoints_for s). cursor_weight s op st x + ep_weight x \<le> cursor_weight s op st e + ep_weight e"
    and new: "\<forall>x \<in> set (endpoints_for s). cursor_weight s op st' x = cursor_weight s op st x + ep_weight x - (if x = e then total_weight s else 0)"
  shows "balanced s op st'"
proof -
  let ?es = "endpoints_for s" and ?c = "cursor_weight s op st" and ?T = "total_weight s"
  have d: "distinct ?es" using ok by (simp add: rotation_ok_def distinct_map)
  have w: "\<forall>x \<in> set ?es. 1 \<le> ep_weight x" using ok by (simp add: rotation_ok_def)
  have T: "0 < ?T" using sum_list_pos [of ?es ep_weight] ok by (simp add: rotation_ok_def total_weight_def)
  have sum: "sum_list (map (\<lambda>x. ?c x + ep_weight x) ?es) = ?T"
    using b by (simp add: balanced_def total_weight_def sum_list_addf)
  have "map (cursor_weight s op st') ?es = map (\<lambda>x. (?c x + ep_weight x) - (if x = e then ?T else 0)) ?es"
    using new by (intro map_cong) simp_all
  then have "sum_list (map (cursor_weight s op st') ?es) = sum_list (map (\<lambda>x. ?c x + ep_weight x) ?es)
      - sum_list (map (\<lambda>x. if x = e then ?T else 0) ?es)"
    by (simp only: sum_list_subtractf)
  then have zero: "sum_list (map (cursor_weight s op st') ?es) = 0"
    using sum_list_one [OF d e, of ?T] sum by simp
  have "0 < ?c e + ep_weight e"
  proof (rule ccontr)
    assume "\<not> ?thesis"
    then have "sum_list (map (\<lambda>x. ?c x + ep_weight x) ?es) \<le> 0" using best by (intro sum_list_le0) fastforce
    then show False using sum T by simp
  qed
  then have pos: "- ?T < ?c e + ep_weight e - ?T" by simp
  have "- ?T < cursor_weight s op st' x" if x: "x \<in> set ?es" for x
  proof -
    have "- ?T < ?c x" "1 \<le> ep_weight x" using b w x by (simp_all add: balanced_def)
    then show ?thesis using pos new x by auto
  qed
  then show ?thesis using zero by (simp add: balanced_def)
qed

fun enters :: "call list \<Rightarrow> nat" where
  "enters [] = 0"
| "enters (c # cs) = (case c of Enter _ \<Rightarrow> Suc (enters cs) | _ \<Rightarrow> enters cs)"

text \<open>Whenever a request comes in, every endpoint is admitted.\<close>

fun always_admitted :: "service \<Rightarrow> string \<Rightarrow> traffic \<Rightarrow> call list \<Rightarrow> bool" where
  "always_admitted s op st [] = True"
| "always_admitted s op st (c # cs) =
     ((case c of Enter t \<Rightarrow> \<forall>e \<in> set (endpoints_for s). admitted st s op t e | _ \<Rightarrow> True) \<and>
      always_admitted s op (snd (call_step s op st c)) cs)"

lemma snapshot_cursors: "cursors (snd (circuit_snapshot_of st key b now)) = cursors st"
  by (simp add: circuit_snapshot_of_def Let_def)

lemma release_cursors: "cursors (release_traffic st s op e now) = cursors st"
  by (simp add: release_traffic_def Let_def put_cursors split: option.split prod.split list.split)

lemma outcome_cursors: "cursors (record_outcome st s op e status ok now) = cursors st"
  using snapshot_cursors by (simp add: record_outcome_def Let_def case_prod_unfold split: option.split)

lemma decision_cursors: "cursors (snd (traffic_decision st s op False e now)) = cursors st"
  using decision_spec(1) [of st s op e now] by (cases "traffic_decision st s op False e now") (simp add: same_admission_def)

lemma pick_cursors: "cursors (pk_traffic (pick_endpoint s op now e k)) = cursors (pk_traffic k)"
  using decision_cursors [of "pk_traffic k" s op e now]
  by (cases "traffic_decision (pk_traffic k) s op False e now") (simp add: pick_endpoint_def Let_def)

lemma preview_cursors: "cursors (snd (select_endpoint st s op False now)) = cursors st"
proof -
  have "cursors (pk_traffic (fold (pick_endpoint s op now) es k)) = cursors (pk_traffic k)" for es k
    by (induction es arbitrary: k) (simp_all add: pick_cursors)
  then have "cursors (pk_traffic (picked st s op now)) = cursors st" by (simp add: picked_def)
  then show ?thesis
    using decision_cursors
    by (simp add: select_endpoint_def Let_def picked_def [symmetric] case_prod_unfold split: option.split)
qed

lemma rotation_run:
  assumes "rotation_ok s"
  shows "balanced s op st \<Longrightarrow> always_admitted s op st cs \<Longrightarrow>
    set (traffic_run s op st cs) \<subseteq> set (endpoints_for s) \<and> length (traffic_run s op st cs) = enters cs \<and>
    (\<forall>e \<in> set (endpoints_for s). - total_weight s
       < cursor_weight s op st e + int (enters cs) * ep_weight e - total_weight s * int (count_list (traffic_run s op st cs) e))"
proof (induction cs arbitrary: st)
  case Nil
  then show ?case by (simp add: balanced_def)
next
  case (Cons c cs)
  show ?case
  proof (cases c)
    case (Enter t)
    obtain r st' where r: "enter_slot st s op t = (r, st')" by fastforce
    have all: "\<forall>e \<in> set (endpoints_for s). admitted st s op t e" using Cons.prems(2) Enter by simp
    obtain e d where e: "r = Inr (Some e, d)" "e \<in> set (endpoints_for s)"
      "\<forall>x \<in> set (endpoints_for s). cursor_weight s op st x + ep_weight x \<le> cursor_weight s op st e + ep_weight e"
      "\<forall>x \<in> set (endpoints_for s). cursor_weight s op st' x = cursor_weight s op st x + ep_weight x - (if x = e then total_weight s else 0)"
      using rotation_step [OF assms all r] by blast
    have step: "call_step s op st c = (Some e, st')" using r e(1) Enter by (simp add: call_step_def)
    have "balanced s op st'" by (rule balanced_step [OF assms Cons.prems(1) e(2-4)])
    moreover have "always_admitted s op st' cs" using Cons.prems(2) step by simp
    ultimately have IH: "set (traffic_run s op st' cs) \<subseteq> set (endpoints_for s)" "length (traffic_run s op st' cs) = enters cs"
      "\<forall>x \<in> set (endpoints_for s). - total_weight s
       < cursor_weight s op st' x + int (enters cs) * ep_weight x - total_weight s * int (count_list (traffic_run s op st' cs) x)"
      using Cons.IH by blast+
    then show ?thesis using step e(2,4) Enter by (auto simp: algebra_simps)
  next
    case (Leave e t)
    have step: "call_step s op st c = (None, release_traffic st s op (Some e) t)" using Leave by (simp add: call_step_def)
    note cw = cursor_weight_cong [OF release_cursors, of s op st s op "Some e" t]
    have "balanced s op (release_traffic st s op (Some e) t)" using Cons.prems(1) by (simp add: balanced_def cw cong: map_cong)
    then show ?thesis using Cons.IH [of "release_traffic st s op (Some e) t"] Cons.prems(2) step Leave by (simp add: cw)
  next
    case (Preview t)
    have step: "call_step s op st c = (None, snd (select_endpoint st s op False t))" using Preview by (simp add: call_step_def)
    note cw = cursor_weight_cong [OF preview_cursors, of s op st s op t]
    have "balanced s op (snd (select_endpoint st s op False t))" using Cons.prems(1) by (simp add: balanced_def cw cong: map_cong)
    then show ?thesis using Cons.IH [of "snd (select_endpoint st s op False t)"] Cons.prems(2) step Preview by (simp add: cw)
  next
    case (Outcome e status ok t)
    have step: "call_step s op st c = (None, record_outcome st s op (Some e) status ok t)" using Outcome by (simp add: call_step_def)
    note cw = cursor_weight_cong [OF outcome_cursors, of s op st s op "Some e" status ok t]
    have "balanced s op (record_outcome st s op (Some e) status ok t)" using Cons.prems(1) by (simp add: balanced_def cw cong: map_cong)
    then show ?thesis using Cons.IH [of "record_outcome st s op (Some e) status ok t"] Cons.prems(2) step Outcome by (simp add: cw)
  qed
qed

lemma sum_count: "set xs \<subseteq> set es \<Longrightarrow> distinct es \<Longrightarrow> (\<Sum>e \<leftarrow> es. int (count_list xs e)) = int (length xs)"
proof (induction xs)
  case (Cons x xs)
  have "(\<Sum>e \<leftarrow> es. int (count_list (x # xs) e)) = (\<Sum>e \<leftarrow> es. (if e = x then 1 else 0) + int (count_list xs e))"
    by (intro arg_cong [of _ _ sum_list] map_cong) auto
  also have "\<dots> = 1 + (\<Sum>e \<leftarrow> es. int (count_list xs e))"
    using sum_list_one [of es x 1] Cons.prems by (simp add: sum_list_addf)
  finally show ?case using Cons by simp
qed simp

lemma sum_list_squeeze:
  "(\<And>x. x \<in> set xs \<Longrightarrow> f x \<le> g x) \<Longrightarrow> sum_list (map f xs) = (sum_list (map g xs) :: int) \<Longrightarrow> x \<in> set xs \<Longrightarrow> f x = g x"
proof (induction xs)
  case (Cons y xs)
  have "sum_list (map f xs) \<le> sum_list (map g xs)" by (rule sum_list_mono) (use Cons.prems(1) in auto)
  moreover have "f y \<le> g y" using Cons.prems(1) by simp
  ultimately have "f y = g y" "sum_list (map f xs) = sum_list (map g xs)" using Cons.prems(2) by simp_all
  then show ?case using Cons by auto
qed simp

text \<open>
  C18: the rotation is fair. From a fresh cursor, if every endpoint is admitted whenever a request
  comes in, then after as many requests as the sum of the weights (with releases, previews and
  outcomes in between) every endpoint got exactly as many requests as its weight.
\<close>

theorem rotation_is_fair:
  assumes "rotation_ok s" and "map_of (cursors st) (traffic_key s op) = None"
    and "always_admitted s op st cs" and "int (enters cs) = total_weight s"
  shows "\<forall>e \<in> set (endpoints_for s). int (count_list (traffic_run s op st cs) e) = ep_weight e"
proof -
  let ?es = "endpoints_for s" and ?T = "total_weight s" and ?n = "\<lambda>e. int (count_list (traffic_run s op st cs) e)"
  have ok: "names_ok s" "distinct ?es" "?es \<noteq> []" "\<forall>x \<in> set ?es. 1 \<le> ep_weight x"
    using assms(1) by (simp_all add: rotation_ok_def distinct_map)
  have T: "0 < ?T" using sum_list_pos [of ?es ep_weight] ok by (simp add: total_weight_def)
  have c0: "cursor_weight s op st e = 0" if "e \<in> set ?es" for e
    using that ok(1) assms(2) by (simp add: cursor_weight_def cursor_weights_def weight_of_def weight_get_def names_ok_def or_else_def)
  then have "balanced s op st" using T by (simp add: balanced_def cong: map_cong)
  then have R: "set (traffic_run s op st cs) \<subseteq> set ?es" "length (traffic_run s op st cs) = enters cs"
    "\<forall>e \<in> set ?es. - ?T < cursor_weight s op st e + int (enters cs) * ep_weight e - ?T * ?n e"
    using rotation_run [OF assms(1) _ assms(3)] by blast+
  have le: "?n e \<le> ep_weight e" if "e \<in> set ?es" for e
  proof -
    have "- ?T < ?T * (ep_weight e - ?n e)" using R(3) that c0 assms(4) by (simp add: algebra_simps)
    then have "?T * (-1) < ?T * (ep_weight e - ?n e)" by simp
    then have "-1 < ep_weight e - ?n e" using T by (simp only: mult_less_cancel_left_pos)
    then show ?thesis by simp
  qed
  have "(\<Sum>e \<leftarrow> ?es. ?n e) = sum_list (map ep_weight ?es)"
    using sum_count [OF R(1) ok(2)] R(2) assms(4) by (simp add: total_weight_def)
  then show ?thesis using sum_list_squeeze [of ?es ?n ep_weight] le by blast
qed

section \<open>The circuit breaker\<close>

definition breaker_threshold :: "service \<Rightarrow> endpoint \<Rightarrow> int" where
  "breaker_threshold s e = first_num [map_option cb_threshold (breaker_of s e)] 3"

definition breaker_cooldown :: "service \<Rightarrow> endpoint \<Rightarrow> int" where
  "breaker_cooldown s e = first_num [map_option cb_cooldown (breaker_of s e)] 30000"

fun failures :: "service \<Rightarrow> string \<Rightarrow> endpoint \<Rightarrow> traffic \<Rightarrow> (int \<times> int) list \<Rightarrow> traffic" where
  "failures s op e st [] = st"
| "failures s op e st ((status, t) # fs) = failures s op e (record_outcome st s op (Some e) status False t) fs"

definition counted :: "int \<Rightarrow> bool" where
  "counted status \<longleftrightarrow> status = 0 \<or> status = 429 \<or> status \<ge> 500"

lemma failure_counts:
  assumes "ep_id e \<noteq> []" and "breaker_on (breaker_of s e)" and "counted status"
    and "circuit_of st (endpoint_key s op e) = \<lparr>ci_failures = n, ci_opened_until = 0\<rparr>"
  shows "circuit_of (record_outcome st s op (Some e) status False t) (endpoint_key s op e) =
    \<lparr>ci_failures = n + 1, ci_opened_until = (if n + 1 \<ge> breaker_threshold s e then t + breaker_cooldown s e else 0)\<rparr>"
proof -
  have "circuit_snapshot_of st (endpoint_key s op e) (breaker_of s e) t =
      (\<lparr>cs_failures = n, cs_opened_until = 0, cs_open = (breaker_on (breaker_of s e) \<and> max 0 (0 - t) > 0), cs_retry = max 0 (0 - t)\<rparr>, st)"
    by (simp add: circuit_snapshot_of_def assms(4) Let_def)
  then show ?thesis
    using assms(1-3) by (simp add: record_outcome_def counted_def Let_def circuit_of_set breaker_threshold_def breaker_cooldown_def)
qed

lemma failures_circuit:
  assumes "ep_id e \<noteq> []" and "breaker_on (breaker_of s e)"
  shows "\<forall>(status, t) \<in> set fs. counted status \<Longrightarrow>
    circuit_of st (endpoint_key s op e) = \<lparr>ci_failures = n, ci_opened_until = 0\<rparr> \<Longrightarrow> fs \<noteq> [] \<Longrightarrow>
    n + int (length fs) \<le> breaker_threshold s e \<Longrightarrow>
    circuit_of (failures s op e st fs) (endpoint_key s op e) =
      \<lparr>ci_failures = n + int (length fs),
       ci_opened_until = (if n + int (length fs) = breaker_threshold s e then snd (last fs) + breaker_cooldown s e else 0)\<rparr>"
proof (induction fs arbitrary: st n)
  case (Cons f fs)
  obtain status t where f: "f = (status, t)" by (cases f)
  note step = failure_counts [OF assms _ Cons.prems(2), of status t]
  show ?case
  proof (cases "fs = []")
    case True
    then show ?thesis using step Cons.prems f by simp
  next
    case False
    then have "n + 1 < breaker_threshold s e" using Cons.prems(4) by (cases fs) auto
    then have "circuit_of (record_outcome st s op (Some e) status False t) (endpoint_key s op e) = \<lparr>ci_failures = n + 1, ci_opened_until = 0\<rparr>"
      using step Cons.prems(1) f by simp
    from Cons.IH [OF _ this False] show ?thesis using Cons.prems f False by (simp add: algebra_simps)
  qed
qed simp

text \<open>
  The circuit breaker opens exactly at its threshold. From a closed circuit without failures,
  after a row of counted failures no longer than the threshold the circuit is open exactly when
  the row is as long as the threshold and the cooldown since the last failure has not passed; any
  success in between closes it and starts the count again, and a status that does not count (a
  client error) leaves it as it is.
\<close>

theorem circuit_opens_at_threshold:
  assumes "ep_id e \<noteq> []" and "breaker_on (breaker_of s e)" and "circuit_of st (endpoint_key s op e) = \<lparr>ci_failures = 0, ci_opened_until = 0\<rparr>"
    and "fs \<noteq> []" and "\<forall>(status, t) \<in> set fs. counted status" and "int (length fs) \<le> breaker_threshold s e" and "0 \<le> now"
  shows "(circuit_open (failures s op e st fs) (endpoint_key s op e) (breaker_of s e) now \<longleftrightarrow>
      int (length fs) = breaker_threshold s e \<and> now < snd (last fs) + breaker_cooldown s e) \<and>
    circuit_of (record_outcome st' s op (Some e) status True t) (endpoint_key s op e) = \<lparr>ci_failures = 0, ci_opened_until = 0\<rparr> \<and>
    (\<not> counted status \<longrightarrow> record_outcome st' s op (Some e) status False t = st')"
proof (intro conjI impI)
  show "circuit_open (failures s op e st fs) (endpoint_key s op e) (breaker_of s e) now \<longleftrightarrow>
      int (length fs) = breaker_threshold s e \<and> now < snd (last fs) + breaker_cooldown s e"
    using failures_circuit [OF assms(1,2,5,3,4)] assms(2,6,7) by (simp add: circuit_open_def)
  show "circuit_of (record_outcome st' s op (Some e) status True t) (endpoint_key s op e) = \<lparr>ci_failures = 0, ci_opened_until = 0\<rparr>"
    using assms(1,2) by (simp add: record_outcome_def Let_def circuit_of_set)
  show "record_outcome st' s op (Some e) status False t = st'" if "\<not> counted status"
    using assms(1,2) that by (simp add: record_outcome_def counted_def)
qed

section \<open>Examples\<close>

definition demo_endpoint :: "string \<Rightarrow> int \<Rightarrow> endpoint" where
  "demo_endpoint i w = \<lparr>ep_id = i, ep_url = ''https://x'', ep_weight = w, ep_disabled = False, ep_policy = None, ep_policy_source = ''service'',
     ep_inherited = True, ep_breaker = None, ep_breaker_source = ''service''\<rparr>"

definition demo_service :: "endpoint list \<Rightarrow> int \<Rightarrow> service" where
  "demo_service es n = \<lparr>sv_service = ''s'', sv_base_url = ''https://x'', sv_endpoints = es,
     sv_policy = Some \<lparr>po_per_minute = 120, po_burst = 30, po_concurrent = n\<rparr>, sv_breaker = None\<rparr>"

abbreviation two_endpoints :: service where
  "two_endpoints \<equiv> demo_service [demo_endpoint ''a'' 2, demo_endpoint ''b'' 1] 10"

lemma two_ok: "names_ok two_endpoints" "rotation_ok two_endpoints" "total_weight two_endpoints = 3"
  by (simp_all add: names_ok_def rotation_ok_def total_weight_def endpoints_for_def demo_service_def demo_endpoint_def
      endpoint_name_def str_or_def prototype_names_def)

lemma demo_enter: "\<exists>d st. enter_slot no_traffic two_endpoints ''op'' 1000 = (Inr (Some (demo_endpoint ''a'' 2), d), st)"
proof -
  have "(case fst (enter_slot no_traffic two_endpoints ''op'' 1000) of Inr (ep, d) \<Rightarrow> ep | Inl d \<Rightarrow> None) = Some (demo_endpoint ''a'' 2)"
    by code_simp
  then show ?thesis
    by (cases "enter_slot no_traffic two_endpoints ''op'' 1000") (auto split: sum.splits prod.splits)
qed




theorem rotation_is_fair_witness:
  "int (count_list (traffic_run two_endpoints ''op'' no_traffic [Enter 1000, Enter 1001, Enter 1002]) (demo_endpoint ''a'' 2)) = 2"
proof -
  have a: "always_admitted two_endpoints ''op'' no_traffic [Enter 1000, Enter 1001, Enter 1002]" by code_simp
  have m: "demo_endpoint ''a'' 2 \<in> set (endpoints_for two_endpoints)" "ep_weight (demo_endpoint ''a'' 2) = 2"
    by (simp_all add: endpoints_for_def demo_service_def demo_endpoint_def)
  show ?thesis
    using rotation_is_fair [OF two_ok(2) _ a] m two_ok(3) by (simp add: no_traffic_def)
qed

theorem circuit_opens_at_threshold_witness:
  "circuit_open (failures two_endpoints ''op'' (demo_endpoint ''a'' 2) no_traffic [(503, 1000), (0, 1001), (429, 1002)])
     (endpoint_key two_endpoints ''op'' (demo_endpoint ''a'' 2)) (breaker_of two_endpoints (demo_endpoint ''a'' 2)) 2000"
proof -
  let ?e = "demo_endpoint ''a'' 2"
  have b: "ep_id ?e \<noteq> []" "breaker_of two_endpoints ?e = None" "breaker_threshold two_endpoints ?e = 3" "breaker_cooldown two_endpoints ?e = 30000"
    by (simp_all add: demo_endpoint_def breaker_of_def demo_service_def breaker_threshold_def breaker_cooldown_def)
  have c: "circuit_of no_traffic (endpoint_key two_endpoints ''op'' ?e) = \<lparr>ci_failures = 0, ci_opened_until = 0\<rparr>"
    by (simp add: circuit_of_def no_traffic_def or_else_def)
  show ?thesis
    using circuit_opens_at_threshold [OF b(1) _ c, of "[(503, 1000), (0, 1001), (429, 1002)]" 2000] b
    by (simp add: breaker_on_def counted_def)
qed

text \<open>
  Retiring a service that has requests out lifts its concurrency limit. The manifest
  finaliser retires updated services too: with a limit of one, a request in flight while the
  service is retired frees, when it ends, the slot of the request let in after the update, so a
  third request is let in beside the second.
\<close>

theorem retiring_lifts_limit:
  "let s = demo_service [demo_endpoint ''a'' 1] 1; e = demo_endpoint ''a'' 1;
       st1 = snd (enter_slot no_traffic s ''op'' 1000);
       st2 = snd (enter_slot (snd (retire_services st1 [''s''])) s ''op'' 2000);
       r3 = enter_slot (release_traffic st2 s ''op'' (Some e) 3000) s ''op'' 4000
   in \<not> isl (fst (enter_slot no_traffic s ''op'' 1000)) \<and> isl (fst (enter_slot st1 s ''op'' 1500)) \<and>
      \<not> isl (fst (enter_slot (snd (retire_services st1 [''s''])) s ''op'' 2000)) \<and> \<not> isl (fst r3) \<and>
      inflight (snd r3) (traffic_key s ''op'') = 1"
  by code_simp

text \<open>A service id that contains \<open>::\<close> is never retired: its keys are cut at the first \<open>::\<close>.\<close>

lemma colon_service_not_retired:
  "retire_services (snd (enter_slot no_traffic ((demo_service [] 1)\<lparr>sv_service := ''team::api''\<rparr>) ''op'' 1000)) [''team::api''] =
     (0, snd (enter_slot no_traffic ((demo_service [] 1)\<lparr>sv_service := ''team::api''\<rparr>) ''op'' 1000))"
  by code_simp

text \<open>
  An endpoint named like a property of \<open>Object.prototype\<close> is not selected at its first turn, and
  the fallback lets the request in without taking a token or a slot.
\<close>

lemma inherited_name_unmetered:
  "(case enter_slot no_traffic (demo_service [demo_endpoint ''constructor'' 1] 1) ''op'' 1000 of
      (r, st) \<Rightarrow> \<not> isl r \<and> buckets st = [])"
  by code_simp

text \<open>A clock that steps back and forth refills the bucket for time that did not pass.\<close>

lemma clock_step_refills:
  "let s = demo_service [] 10; st = put_bucket (traffic_key s ''op'') \<lparr>bk_tokens = 0, bk_updated = 61000, bk_inflight = 1\<rparr> no_traffic
   in credit st s ''op'' 61000 = 0 \<and>
      credit (release_traffic st s ''op'' None 51000) s ''op'' 61000 = 20"
  by code_simp

end
