(* ===== verification/CanonicalJson.thy ===== *)
theory CanonicalJson imports StateMachineCore JsonText "HOL-Library.Char_ord" "HOL-Library.List_Lexorder" begin

text \<open>
  \<open>packages/contracts/src/serialization/canonical-json.ts\<close>, the text under every digest and
  signature, and the definition hash the state machine engine computes from it. The values are
  plain data and the four transport types the serialiser governs; a date is its time, printed by
  a parameter (\<open>toISOString\<close>), a buffer its bytes, printed by a parameter (base 64). Values are
  finite trees, so the check for cycles has no counterpart. Strings are ordered by code unit.
\<close>

section \<open>The serialiser\<close>

datatype cv =
    CUndef
  | CNull
  | CBool bool
  | CNum int
  | CNotFinite
  | CStr string
  | CDate "int option"
  | CBuffer "nat list"
  | CArr "cv list"
  | CMap "(string \<times> cv) list"
  | CSet "cv list"
  | CObj "(string \<times> cv) list"
  | CForeign string

text \<open>\<open>CMap\<close> has its keys as \<open>String(key)\<close> gives them; \<open>CForeign\<close> is what is refused: a bigint, a
  function, a symbol, an object with another prototype.\<close>

datatype canonical_error = UnsupportedValue string | InvalidDate

fun collect :: "('e + 'a) list \<Rightarrow> 'e + 'a list" where
  "collect [] = Inr []"
| "collect (r # rs) = ebind r (\<lambda>x. ebind (collect rs) (\<lambda>xs. Inr (x # xs)))"

definition braced :: "string list \<Rightarrow> string" where
  "braced ms = CHR ''{'' # join_with '','' ms @ ''}''"

definition bracketed :: "string list \<Rightarrow> string" where
  "bracketed ts = CHR ''['' # join_with '','' ts @ '']''"

fun serialize :: "(int \<Rightarrow> string) \<Rightarrow> (nat list \<Rightarrow> string) \<Rightarrow> cv \<Rightarrow> canonical_error + string" where
  "serialize dt b64 CUndef = Inr ''null''"
| "serialize dt b64 CNull = Inr ''null''"
| "serialize dt b64 (CBool b) = Inr (if b then ''true'' else ''false'')"
| "serialize dt b64 (CNum n) = Inr (int_text n)"
| "serialize dt b64 CNotFinite = Inr ''null''"
| "serialize dt b64 (CStr s) = Inr (json_str s)"
| "serialize dt b64 (CDate t) = (case t of None \<Rightarrow> Inl InvalidDate | Some ms \<Rightarrow> Inr (json_str (dt ms)))"
| "serialize dt b64 (CBuffer bs) = Inr (json_str (b64 bs))"
| "serialize dt b64 (CArr xs) = ebind (collect (map (serialize dt b64) xs)) (\<lambda>ts. Inr (bracketed ts))"
| "serialize dt b64 (CMap ms) =
     ebind (collect (map (\<lambda>(k, r). ebind r (\<lambda>t. Inr (json_str k @ CHR '':'' # t))) (sort_key fst (map (\<lambda>(k, x). (k, serialize dt b64 x)) ms))))
       (\<lambda>ts. Inr (braced ts))"
| "serialize dt b64 (CSet xs) = ebind (collect (map (serialize dt b64) xs)) (\<lambda>ts. Inr (bracketed (sort ts)))"
| "serialize dt b64 (CObj ps) =
     ebind (collect (map (\<lambda>(k, r). ebind r (\<lambda>t. Inr (json_str k @ CHR '':'' # t))) (sort_key fst (map (\<lambda>(k, x). (k, serialize dt b64 x)) ps))))
       (\<lambda>ts. Inr (braced ts))"
| "serialize dt b64 (CForeign what) = Inl (UnsupportedValue what)"

definition canonical_equal :: "(int \<Rightarrow> string) \<Rightarrow> (nat list \<Rightarrow> string) \<Rightarrow> cv \<Rightarrow> cv \<Rightarrow> canonical_error + bool" where
  "canonical_equal dt b64 v w = ebind (serialize dt b64 v) (\<lambda>s. ebind (serialize dt b64 w) (\<lambda>t. Inr (s = t)))"

section \<open>Plain data\<close>

text \<open>JSON values among the values of the serialiser.\<close>

fun plain :: "jv \<Rightarrow> cv" where
  "plain JUndef = CUndef"
| "plain JNull = CNull"
| "plain (JBool b) = CBool b"
| "plain (JNum n) = CNum n"
| "plain (JStr s) = CStr s"
| "plain (JArr xs) = CArr (map plain xs)"
| "plain (JObj ps) = CObj (map (\<lambda>(k, x). (k, plain x)) ps)"

text \<open>What the text of a plain value keeps: undefined reads as null, properties are sorted by name.\<close>

fun normal :: "jv \<Rightarrow> jv" where
  "normal JUndef = JNull"
| "normal (JArr xs) = JArr (map normal xs)"
| "normal (JObj ps) = JObj (sort_key fst (map (\<lambda>(k, x). (k, normal x)) ps))"
| "normal v = v"

fun has_undef :: "jv \<Rightarrow> bool" where
  "has_undef JUndef = True"
| "has_undef (JArr xs) = list_ex has_undef xs"
| "has_undef (JObj ps) = list_ex (\<lambda>(k, x). has_undef x) ps"
| "has_undef _ = False"

lemma sort_key_map_fst: "sort_key fst (map (\<lambda>(k, x). (k, f x)) ps) = map (\<lambda>(k, x). (k, f x)) (sort_key fst ps)"
proof -
  have i: "insort_key fst (k, f x) (map (\<lambda>(k, x). (k, f x)) qs) = map (\<lambda>(k, x). (k, f x)) (insort_key fst (k, x) qs)"
    for k :: "'a" and x and qs by (induction qs) auto
  show ?thesis by (induction ps) (auto simp: i)
qed

lemma normal_no_undef: "\<not> has_undef (normal v)"
  by (induction v) (auto simp: list_ex_iff)

lemma collect_Inr: "collect (map (\<lambda>x. Inr (f x)) xs) = Inr (map f xs)"
  by (induction xs) simp_all

lemma json_members_all:
  "\<forall>(k, x) \<in> set ps. json_text x = Some (g x) \<Longrightarrow>
     json_members (map (\<lambda>(k, x). (k, json_text x)) ps) = map (\<lambda>(k, x). json_str k @ CHR '':'' # g x) ps"
  by (induction ps) (auto simp: json_members_def)

text \<open>The canonical text of plain data is the JSON text of its normal form.\<close>

lemma serialize_plain: "\<exists>t. serialize dt b64 (plain v) = Inr t \<and> json_text (normal v) = Some t"
proof (induction v)
  case (JArr xs)
  define g where "g x = the (json_text (normal x))" for x
  have g: "serialize dt b64 (plain x) = Inr (g x)" "json_text (normal x) = Some (g x)" if "x \<in> set xs" for x
    using JArr.IH [OF that] by (auto simp: g_def)
  have "collect (map (serialize dt b64 \<circ> plain) xs) = Inr (map g xs)"
    using g by (simp add: comp_def collect_Inr cong: map_cong)
  moreover have m: "map ((\<lambda>x. or_else ''null'' (json_text x)) \<circ> normal) xs = map g xs"
    using g by (simp add: or_else_def)
  ultimately show ?case by (simp add: bracketed_def m)
next
  case (JObj ps)
  define g where "g x = the (json_text (normal x))" for x
  have g: "serialize dt b64 (plain x) = Inr (g x)" "json_text (normal x) = Some (g x)" if "(k, x) \<in> set ps" for k x
    using JObj.IH [OF that, of x] by (auto simp: g_def)
  let ?s = "sort_key fst ps"
  have s: "(k, x) \<in> set ?s \<longleftrightarrow> (k, x) \<in> set ps" for k x by simp
  have "sort_key fst (map (\<lambda>(k, x). (k, serialize dt b64 x)) (map (\<lambda>(k, x). (k, plain x)) ps))
      = map (\<lambda>(k, x). (k, serialize dt b64 (plain x))) ?s"
    by (simp add: comp_def case_prod_unfold sort_key_map_fst [of "\<lambda>x. serialize dt b64 (plain x)", unfolded case_prod_unfold])
  then have 1: "map (\<lambda>(k, r). ebind r (\<lambda>t. Inr (json_str k @ CHR '':'' # t)))
        (sort_key fst (map (\<lambda>(k, x). (k, serialize dt b64 x)) (map (\<lambda>(k, x). (k, plain x)) ps)))
      = map (\<lambda>p. Inr (json_str (fst p) @ CHR '':'' # g (snd p))) ?s"
    using g s by (auto simp: case_prod_unfold)
  have 2: "json_members (map (\<lambda>(k, x). (k, json_text x)) (map (\<lambda>(k, x). (k, normal x)) ?s))
      = map (\<lambda>p. json_str (fst p) @ CHR '':'' # g (snd p)) ?s"
  proof -
    have "\<forall>(k, y) \<in> set (map (\<lambda>(k, x). (k, normal x)) ?s). json_text y = Some (the (json_text y))"
      using g s by fastforce
    from json_members_all [OF this] show ?thesis by (simp add: comp_def case_prod_unfold g_def)
  qed
  show ?case using 1 2 by (simp add: collect_Inr braced_def sort_key_map_fst)
qed simp_all

section \<open>The text identifies the data\<close>

fun undigits :: "nat \<Rightarrow> string \<Rightarrow> nat" where
  "undigits a [] = a"
| "undigits a (c # cs) = undigits (10 * a + (of_char c - 48)) cs"

lemma undigits_append: "undigits a (xs @ [c]) = 10 * undigits a xs + (of_char c - 48)"
  by (induction xs arbitrary: a) simp_all

lemma undigits_digits: "undigits 0 (digits n) = n"
proof (induction n rule: digits.induct)
  case (1 n)
  show ?case
  proof (cases "n < 10")
    case True
    then show ?thesis by (subst digits.simps) simp
  next
    case False
    then have "digits n = digits (n div 10) @ [char_of (48 + n mod 10)]" by (subst digits.simps) simp
    then show ?thesis using 1 [OF False] by (simp add: undigits_append)
  qed
qed

lemma digits_inj: "digits m = digits n \<Longrightarrow> m = n"
  by (metis undigits_digits)

lemma int_text_inj: "int_text m = int_text n \<Longrightarrow> m = n"
proof -
  assume e: "int_text m = int_text n"
  have "hd (digits k) \<noteq> CHR ''-''" for k using digits_sign [of k "[]"] by simp
  then have s: "m < 0 \<longleftrightarrow> n < 0" using e unfolding int_text_def by (metis list.sel(1))
  show ?thesis
  proof (cases "m < 0")
    case True
    then have "digits (nat (- m)) = digits (nat (- n))" using e s unfolding int_text_def by simp
    then have "nat (- m) = nat (- n)" by (rule digits_inj)
    then show ?thesis using True s by simp
  next
    case False
    then have "digits (nat m) = digits (nat n)" using e s unfolding int_text_def by simp
    then have "nat m = nat n" by (rule digits_inj)
    then show ?thesis using False s by simp
  qed
qed

lemma json_array_text:
  assumes "json_text (JArr xs) = json_text (JArr ys)"
  shows "map (\<lambda>x. or_else ''null'' (json_text x)) xs = map (\<lambda>x. or_else ''null'' (json_text x)) ys"
proof -
  let ?f = "\<lambda>x. or_else ''null'' (json_text x)"
  have E: "ends texts y" if "y \<in> set (map ?f xs)" for y
    using json_items [of xs] that json_text_ends by (auto simp: texts_def)
  have e: "join_with '','' (map ?f xs) @ CHR '']'' # [] = join_with '','' (map ?f ys) @ CHR '']'' # []" using assms by simp
  have "map ?f xs = map ?f ys \<and> [] = ([] :: string)"
  proof (rule joined_prefix [OF E json_items _ _ e])
    show "\<not> delimited y" if "y \<in> set (map ?f xs) \<union> texts" for y
      using that json_items [of xs] texts_not_delimited by blast
  qed simp_all
  then show ?thesis by blast
qed

lemma json_text_defined: "\<not> has_undef v \<Longrightarrow> \<exists>t. json_text v = Some t"
  by (cases v) simp_all

lemma json_text_kind:
  assumes "json_text v = Some t" and "json_text w = Some t"
  shows "v = JNull \<Longrightarrow> w = JNull" "v = JBool b \<Longrightarrow> w = JBool b" "v = JNum n \<Longrightarrow> \<exists>m. w = JNum m"
    "v = JStr x \<Longrightarrow> \<exists>y. w = JStr y" "v = JArr xs \<Longrightarrow> \<exists>ys. w = JArr ys" "v = JObj ps \<Longrightarrow> \<exists>qs. w = JObj qs"
proof -
  have e: "t @ [] = t @ []" ..
  note K = json_kinds [OF assms(2) e]
  show "v = JNull \<Longrightarrow> w = JNull" using K(1) assms(1) by simp
  show "v = JBool b \<Longrightarrow> w = JBool b" using K(2,3) assms(1) by (cases b) simp_all
  show "v = JNum n \<Longrightarrow> \<exists>m. w = JNum m" using int_text_kind [OF assms(2), of n "[]" "[]"] assms(1) by simp
  show "v = JStr x \<Longrightarrow> \<exists>y. w = JStr y" using K(4) assms(1) by (simp add: json_str_def) metis
  show "v = JArr xs \<Longrightarrow> \<exists>ys. w = JArr ys" using K(5) assms(1) by simp metis
  show "v = JObj ps \<Longrightarrow> \<exists>qs. w = JObj qs" using K(6) assms(1) by simp metis
qed

lemma members_inj:
  assumes "map (\<lambda>(k, x). json_str k @ CHR '':'' # g x) ps = map (\<lambda>(k, x). json_str k @ CHR '':'' # g x) qs"
    and "\<And>k x y. (k, x) \<in> set ps \<Longrightarrow> (k, y) \<in> set qs \<Longrightarrow> g x = g y \<Longrightarrow> x = y"
  shows "ps = qs"
  using assms
proof (induction ps arbitrary: qs)
  case (Cons p ps)
  obtain k x where p: "p = (k, x)" by (cases p)
  then obtain k' y qs' where q: "qs = (k', y) # qs'" using Cons.prems(1) by (cases qs) auto
  have e: "json_str k @ CHR '':'' # g x = json_str k' @ CHR '':'' # g y" using Cons.prems(1) p q by simp
  then have "k = k'" "CHR '':'' # g x = CHR '':'' # g y" using json_str_prefix by blast+
  then have "x = y" using Cons.prems(2) p q by auto
  moreover have "ps = qs'" using Cons.IH [of qs'] Cons.prems p q by auto
  ultimately show ?case using p q \<open>k = k'\<close> by simp
qed simp

lemma json_text_inj: "\<not> has_undef v \<Longrightarrow> \<not> has_undef w \<Longrightarrow> json_text v = json_text w \<Longrightarrow> v = w"
proof (induction v arbitrary: w)
  case JUndef
  then show ?case by simp
next
  case JNull
  then show ?case using json_text_kind(1) [of JNull "''null''" w] by (metis json_text.simps(2))
next
  case (JBool b)
  then show ?case using json_text_kind(2) [of "JBool b" _ w b] by (metis json_text.simps(3))
next
  case (JNum n)
  then obtain m where "w = JNum m" using json_text_kind(3) [of "JNum n" _ w n] by (metis json_text.simps(4))
  then show ?case using JNum int_text_inj by simp
next
  case (JStr x)
  then obtain y where "w = JStr y" using json_text_kind(4) [of "JStr x" _ w x] by (metis json_text.simps(5))
  then show ?case using JStr json_str_inj by simp
next
  case (JArr xs)
  then obtain ys where w: "w = JArr ys" using json_text_kind(5) [of "JArr xs" _ w xs] by (metis json_text.simps(6))
  have m: "map (\<lambda>x. or_else ''null'' (json_text x)) xs = map (\<lambda>x. or_else ''null'' (json_text x)) ys"
    using json_array_text JArr.prems(3) w by blast
  have i: "x = y" if "x \<in> set xs" "y \<in> set ys" "or_else ''null'' (json_text x) = or_else ''null'' (json_text y)" for x y
  proof -
    have u: "\<not> has_undef x" "\<not> has_undef y" using that JArr.prems(1,2) w by (auto simp: list_ex_iff)
    obtain s t where "json_text x = Some s" "json_text y = Some t" using json_text_defined u by blast
    then show ?thesis using JArr.IH [OF that(1) u] that(3) by (simp add: or_else_def)
  qed
  have "xs = ys" by (rule list.inj_map_strong [OF i m])
  then show ?case using w by simp
next
  case (JObj ps)
  then obtain qs where w: "w = JObj qs" using json_text_kind(6) [of "JObj ps" _ w ps] by (metis json_text.simps(7))
  let ?g = "\<lambda>x. the (json_text x)"
  have u: "\<not> has_undef x" "\<not> has_undef y" if "(k, x) \<in> set ps" "(k, y) \<in> set qs" for k x y
    using that JObj.prems(1,2) w by (auto simp: list_ex_iff)
  have d: "\<forall>(k, x) \<in> set ps. json_text x = Some (?g x)" "\<forall>(k, x) \<in> set qs. json_text x = Some (?g x)"
    using JObj.prems(1,2) w json_text_defined by (fastforce simp: list_ex_iff)+
  have "map (\<lambda>(k, x). json_str k @ CHR '':'' # ?g x) ps = map (\<lambda>(k, x). json_str k @ CHR '':'' # ?g x) qs"
    using json_object_text [of ps qs] JObj.prems(3) w json_members_all [OF d(1)] json_members_all [OF d(2)] by simp
  moreover have "x = y" if "(k, x) \<in> set ps" "(k, y) \<in> set qs" "?g x = ?g y" for k x y
  proof -
    have "json_text x = json_text y" using d that by fastforce
    then show ?thesis using JObj.IH [OF that(1), of x] u [OF that(1,2)] by simp
  qed
  ultimately have "ps = qs" by (rule members_inj)
  then show ?case using w by simp
qed

text \<open>
  C24: the canonical text identifies plain data. Plain data always has a canonical text, and two
  values have the same text exactly when they are the same up to the order of properties and
  undefined against null.
\<close>

theorem canonical_text_identifies:
  "(\<exists>t. serialize dt b64 (plain v) = Inr t) \<and>
   (serialize dt b64 (plain v) = serialize dt b64 (plain w) \<longleftrightarrow> normal v = normal w)"
proof -
  obtain s where s: "serialize dt b64 (plain v) = Inr s" "json_text (normal v) = Some s" using serialize_plain by blast
  obtain t where t: "serialize dt b64 (plain w) = Inr t" "json_text (normal w) = Some t" using serialize_plain by blast
  have "s = t \<longleftrightarrow> normal v = normal w"
    using s(2) t(2) json_text_inj [OF normal_no_undef normal_no_undef, of v w] by auto
  then show ?thesis using s(1) t(1) by auto
qed

text \<open>
  The header promises a text that is never computed over an ambiguous projection; values of
  different types share their texts.
\<close>

lemma canonical_collisions:
  "serialize dt b64 (CMap [(''a'', CNum 1)]) = serialize dt b64 (CObj [(''a'', CNum 1)])"
  "serialize dt b64 (CSet [CNum 2, CNum 1]) = serialize dt b64 (CArr [CNum 1, CNum 2])"
  "serialize dt b64 (CDate (Some ms)) = serialize dt b64 (CStr (dt ms))"
  "serialize dt b64 (CBuffer bs) = serialize dt b64 (CStr (b64 bs))"
  "serialize dt b64 CNotFinite = serialize dt b64 CNull"
proof -
  have "int_text 1 = ''1''" "int_text 2 = ''2''" by code_simp+
  then show "serialize dt b64 (CSet [CNum 2, CNum 1]) = serialize dt b64 (CArr [CNum 1, CNum 2])"
    by (simp add: bracketed_def less_char_def)
qed simp_all

section \<open>The definition hash\<close>

definition canonical_text :: "jv \<Rightarrow> string" where
  "canonical_text v = (case serialize (\<lambda>_. []) (\<lambda>_. []) (plain v) of Inl _ \<Rightarrow> [] | Inr t \<Rightarrow> t)"

definition definition_hash :: "(string \<Rightarrow> string) \<Rightarrow> jv \<Rightarrow> string" where
  "definition_hash sha v = ''sha256:'' @ sha (canonical_text v)"

lemma canonical_text_eq: "canonical_text v = canonical_text w \<longleftrightarrow> normal v = normal w"
proof -
  have "(\<exists>t. serialize (\<lambda>_. []) (\<lambda>_. []) (plain v) = Inr t) \<and> (\<exists>t. serialize (\<lambda>_. []) (\<lambda>_. []) (plain w) = Inr t)"
    using serialize_plain by blast
  moreover have "serialize (\<lambda>_. []) (\<lambda>_. []) (plain v) = serialize (\<lambda>_. []) (\<lambda>_. []) (plain w) \<longleftrightarrow> normal v = normal w"
  proof -
    obtain s where s: "serialize (\<lambda>_. []) (\<lambda>_. []) (plain v) = Inr s" "json_text (normal v) = Some s" using serialize_plain by blast
    obtain t where t: "serialize (\<lambda>_. []) (\<lambda>_. []) (plain w) = Inr t" "json_text (normal w) = Some t" using serialize_plain by blast
    show ?thesis using s t json_text_inj [OF normal_no_undef normal_no_undef, of v w] by auto
  qed
  ultimately show ?thesis by (auto simp: canonical_text_def)
qed

text \<open>
  A validated hash pins the definition. After compiling a definition, a transition that
  presents the returned hash skips validation exactly for that definition (up to the order of its
  properties and undefined against null), unless SHA-256 collides on the two texts.
\<close>

theorem validated_hash_pins_definition:
  assumes "compile_definition (definition_hash sha) v = (h, issues, compiled)"
    and "inj_on sha {canonical_text v, canonical_text v'}"
  shows "skips_validation (definition_hash sha) (default_options\<lparr>to_hash := Some h\<rparr>) v' \<longleftrightarrow> normal v' = normal v"
proof -
  have h: "h = definition_hash sha v" using assms(1) by (simp add: compile_definition_def Let_def)
  have "definition_hash sha v = definition_hash sha v' \<longleftrightarrow> canonical_text v = canonical_text v'"
    using assms(2) by (auto simp: definition_hash_def dest: inj_onD)
  then show ?thesis
    using canonical_text_eq [of v v'] by (auto simp: skips_validation_def default_options_def h definition_hash_def)
qed

theorem validated_hash_pins_definition_witness:
  "skips_validation (definition_hash (\<lambda>t. t)) (default_options\<lparr>to_hash := Some (definition_hash (\<lambda>t. t) (JObj [(''a'', JNull), (''b'', JNum 1)]))\<rparr>)
     (JObj [(''b'', JNum 1), (''a'', JNull)])"
proof -
  have c: "compile_definition (definition_hash (\<lambda>t. t)) (JObj [(''a'', JNull), (''b'', JNum 1)]) =
      (definition_hash (\<lambda>t. t) (JObj [(''a'', JNull), (''b'', JNum 1)]), validate_executable (JObj [(''a'', JNull), (''b'', JNum 1)]),
       validate_executable (JObj [(''a'', JNull), (''b'', JNum 1)]) = [])"
    by (simp add: compile_definition_def Let_def)
  have "normal (JObj [(''b'', JNum 1), (''a'', JNull)]) = normal (JObj [(''a'', JNull), (''b'', JNum 1)])"
    by (simp add: less_char_def)
  then show ?thesis using validated_hash_pins_definition [OF c, of "JObj [(''b'', JNum 1), (''a'', JNull)]"] by simp
qed

text \<open>
  Undefined and null share a text but not a verdict: the hash of a valid definition lets a
  definition pass that the schema refuses.
\<close>

lemma null_slips_through:
  "validate_executable (JObj (demo_definition @ [(''proofMappings'', JUndef)])) = [] \<and>
   validate_executable (JObj (demo_definition @ [(''proofMappings'', JNull)])) \<noteq> [] \<and>
   canonical_text (JObj (demo_definition @ [(''proofMappings'', JUndef)])) = canonical_text (JObj (demo_definition @ [(''proofMappings'', JNull)]))"
proof -
  have "validate_executable (JObj (demo_definition @ [(''proofMappings'', JUndef)])) = []" by code_simp
  moreover have "validate_executable (JObj (demo_definition @ [(''proofMappings'', JNull)])) \<noteq> []" by code_simp
  ultimately show ?thesis by (simp add: canonical_text_eq)
qed

end
