(* ===== verification/TagPolicy.thy ===== *)
theory TagPolicy imports Prelude begin

text \<open>
  Tag based authorization: the tag hierarchy of
  \<open>packages/foundation/src/security/authorization/tag-tree.ts\<close> and the universal tag policy of
  \<open>universal-tag-policy.ts\<close> over it. A tag store is its finite map from ids to records; ids given
  to the loops are already trimmed. Time stamps and the copy of the inputs in a decision are left
  out; a revision given as a string is read when it is a decimal integer.
\<close>

section \<open>Ids\<close>

definition normalize_id :: "jv \<Rightarrow> string" where
  "normalize_id v = trim (js_string (js_or v (JStr [])))"

definition listed :: "jv \<Rightarrow> jv list" where
  "listed v = (case v of JArr xs \<Rightarrow> xs | _ \<Rightarrow> [v])"

definition unique_strings :: "jv \<Rightarrow> string list" where
  "unique_strings v = dedup (filter (\<lambda>s. s \<noteq> []) (map normalize_id (listed v)))"

definition unique_texts :: "string list \<Rightarrow> string list" where
  "unique_texts xs = unique_strings (JArr (map JStr xs))"

section \<open>Tags\<close>

record tag_record =
  tg_id :: string
  tg_parent :: string
  tg_kind :: string
  tg_status :: string
  tg_enabled :: bool
  tg_scopes :: "string list"

definition normalize_tag_record :: "string \<Rightarrow> jv \<Rightarrow> tag_record option" where
  "normalize_tag_record tag v =
     (case v of
        JObj ps \<Rightarrow>
          (let t = \<lparr>tg_id = normalize_id (js_or (js_or (jget ps ''tagId'') (jget ps ''id'')) (JStr tag)),
                    tg_parent = normalize_id (js_or (jget ps ''parentTagId'') (jget ps ''parentId'')),
                    tg_kind = normalize_id (js_or (jget ps ''kind'') (JStr ''custom'')),
                    tg_status = normalize_id (js_or (jget ps ''status'') (JStr ''active'')),
                    tg_enabled = (jget ps ''enabled'' \<noteq> JBool False),
                    tg_scopes = unique_strings (js_or (js_or (jget ps ''scopePrerequisites'') (jget ps ''scopesRequired'')) (JArr []))\<rparr>
           in if tg_id t = [] then None else Some t)
      | _ \<Rightarrow> None)"

type_synonym tag_map = "(string \<times> jv) list"

definition get_tag :: "tag_map \<Rightarrow> string \<Rightarrow> jv" where
  "get_tag m i = or_else JNull (map_of m i)"

definition active_tag :: "tag_map \<Rightarrow> string \<Rightarrow> tag_record option" where
  "active_tag m i =
     (case normalize_tag_record i (get_tag m i) of
        None \<Rightarrow> None
      | Some t \<Rightarrow> if \<not> tg_enabled t \<or> tg_status t = ''archived'' then None else Some t)"

definition tag_from :: "tag_map \<Rightarrow> bool \<Rightarrow> string \<Rightarrow> tag_record option" where
  "tag_from m active i = (if active then active_tag m i else normalize_tag_record i (get_tag m i))"

lemma tag_from_key: "tag_from m active i = Some t \<Longrightarrow> i \<in> fst ` set m"
proof -
  assume "tag_from m active i = Some t"
  then have "get_tag m i \<noteq> JNull"
    by (auto simp: tag_from_def active_tag_def normalize_tag_record_def split: if_splits option.splits)
  then have "map_of m i \<noteq> None" by (cases "map_of m i") (simp_all add: get_tag_def or_else_def)
  then show ?thesis by (simp add: map_of_eq_None_iff)
qed

section \<open>Lineage\<close>

text \<open>The loop of \<open>lineageOf\<close>: it stops at a blank id, at an id it has seen and at a missing tag.\<close>

function lineage_loop :: "tag_map \<Rightarrow> bool \<Rightarrow> string list \<Rightarrow> string \<Rightarrow> tag_record list" where
  "lineage_loop m active seen cursor =
     (if cursor = [] \<or> cursor \<in> set seen then []
      else (case tag_from m active cursor of
              None \<Rightarrow> []
            | Some t \<Rightarrow> t # lineage_loop m active (cursor # seen) (tg_parent t)))"
  by pat_completeness auto
termination
proof (relation "measure (\<lambda>(m, active, seen, cursor). card (fst ` set m - set seen))")
  fix m :: tag_map and active and seen :: "string list" and cursor t
  assume c: "\<not> (cursor = [] \<or> cursor \<in> set seen)" and t: "tag_from m active cursor = Some t"
  have "fst ` set m - set (cursor # seen) \<subset> fst ` set m - set seen" using c tag_from_key [OF t] by auto
  then show "((m, active, cursor # seen, tg_parent t), m, active, seen, cursor) \<in> measure (\<lambda>(m, active, seen, cursor). card (fst ` set m - set seen))"
    by (simp add: psubset_card_mono)
qed simp

declare lineage_loop.simps [simp del]

text \<open>\<open>includeSelf || tag.tagId !== requestedTagId\<close> decides on each tag as it is pushed.\<close>

definition lineage_of :: "tag_map \<Rightarrow> jv \<Rightarrow> bool \<Rightarrow> bool \<Rightarrow> bool \<Rightarrow> tag_record list" where
  "lineage_of m tag include_self active root_first =
     (let requested = normalize_id tag;
          out = filter (\<lambda>t. include_self \<or> tg_id t \<noteq> requested) (lineage_loop m active [] requested)
      in if root_first then rev out else out)"

definition ancestors_of :: "tag_map \<Rightarrow> jv \<Rightarrow> bool \<Rightarrow> bool \<Rightarrow> bool \<Rightarrow> string list" where
  "ancestors_of m tag include_self active root_first =
     map tg_id (filter (\<lambda>t. include_self \<or> tg_id t \<noteq> normalize_id tag)
       (lineage_of m (JStr (normalize_id tag)) include_self active root_first))"

datatype tag_error = SelfParent | UnknownParent string | TagCycle

fun no_repeat :: "string list \<Rightarrow> tag_record list \<Rightarrow> tag_error + unit" where
  "no_repeat seen [] = Inr ()"
| "no_repeat seen (t # ts) = (if tg_id t \<in> set seen then Inl TagCycle else no_repeat (tg_id t # seen) ts)"

definition assert_parent_allowed :: "tag_map \<Rightarrow> jv \<Rightarrow> jv \<Rightarrow> tag_error + unit" where
  "assert_parent_allowed m tag parent =
     (let i = normalize_id tag; p = normalize_id parent
      in if p = [] then Inr ()
         else if p = i then Inl SelfParent
         else if tag_from m False p = None then Inl (UnknownParent p)
         else no_repeat [i] (lineage_of m (JStr p) True False False))"

definition scope_prerequisites_for :: "tag_map \<Rightarrow> jv \<Rightarrow> string list" where
  "scope_prerequisites_for m tag = unique_texts (concat (map tg_scopes (lineage_of m tag True False True)))"

definition effective_tags_for :: "tag_map \<Rightarrow> jv \<Rightarrow> string list" where
  "effective_tags_for m tags =
     unique_texts (concat (map (\<lambda>i. ancestors_of m (JStr i) True True False) (unique_strings tags)))"

section \<open>The policy\<close>

record entity_ref =
  er_type :: string
  er_id :: string

definition entity_ref_of :: "jv \<Rightarrow> entity_ref list" where
  "entity_ref_of v =
     (case v of
        JObj ps \<Rightarrow>
          (let ty = normalize_id (js_or (jget ps ''entityType'') (jget ps ''type''));
               i = normalize_id (js_or (jget ps ''entityId'') (jget ps ''id''))
           in if ty \<noteq> [] \<and> i \<noteq> [] then [\<lparr>er_type = ty, er_id = i\<rparr>] else [])
      | _ \<Rightarrow> [])"

definition normalize_entity_refs :: "jv \<Rightarrow> entity_ref list" where
  "normalize_entity_refs v = concat (map entity_ref_of (listed v))"

definition number_of :: "jv \<Rightarrow> int option" where
  "number_of v =
     (case v of
        JNum n \<Rightarrow> Some n
      | JBool b \<Rightarrow> Some (if b then 1 else 0)
      | JStr s \<Rightarrow>
          (let t = trim s
           in if t \<noteq> [] \<and> list_all (\<lambda>c. c \<in> set ''0123456789'') t
              then Some (foldl (\<lambda>a c. 10 * a + (of_char c - 48)) 0 t) else None)
      | _ \<Rightarrow> None)"

definition revision_number :: "jv \<Rightarrow> int" where
  "revision_number v = (case number_of (js_or v (JNum 0)) of Some n \<Rightarrow> if n > 0 then n else 0 | None \<Rightarrow> 0)"

text \<open>The store: its tags, its projections per entity type and its policy revision.\<close>

record tag_store =
  ts_tags :: tag_map
  ts_projections :: "string \<Rightarrow> jv list"
  ts_revision :: jv

definition projections_for :: "tag_store \<Rightarrow> entity_ref \<Rightarrow> jv list" where
  "projections_for s e =
     filter (\<lambda>p. js_string (js_or (jget (as_record p) ''entityId'') (JStr [])) = er_id e) (ts_projections s (er_type e))"

definition direct_tags :: "tag_store \<Rightarrow> entity_ref \<Rightarrow> string list" where
  "direct_tags s e = unique_strings (JArr (map (\<lambda>p. jget (as_record p) ''tagId'') (projections_for s e)))"

definition entity_tags :: "tag_store \<Rightarrow> entity_ref \<Rightarrow> string list" where
  "entity_tags s e = effective_tags_for (ts_tags s) (JArr (map JStr (direct_tags s e)))"

record tag_policy =
  tp_entity_refs :: jv
  tp_entities :: jv
  tp_deny :: jv
  tp_denied :: jv
  tp_allow :: jv
  tp_allowed :: jv
  tp_required :: jv
  tp_revision :: jv
  tp_fail_on_stale :: bool
  tp_require_fresh :: bool

definition has_tag_policy_rules :: "tag_policy \<Rightarrow> bool" where
  "has_tag_policy_rules p \<longleftrightarrow>
     normalize_entity_refs (js_or (tp_entity_refs p) (tp_entities p)) \<noteq> [] \<or>
     unique_strings (js_or (tp_deny p) (tp_denied p)) \<noteq> [] \<or> unique_strings (js_or (tp_allow p) (tp_allowed p)) \<noteq> [] \<or>
     unique_strings (tp_required p) \<noteq> [] \<or> tp_require_fresh p \<or> tp_fail_on_stale p"

record tag_decision =
  td_allowed :: bool
  td_reason :: string
  td_stale :: bool
  td_matched_deny :: "string list"
  td_matched_allow :: "string list"
  td_missing :: "string list"

definition policy_refs :: "tag_policy \<Rightarrow> entity_ref list" where
  "policy_refs p = normalize_entity_refs (case tp_entity_refs p of JArr (x # xs) \<Rightarrow> JArr (x # xs) | _ \<Rightarrow> tp_entities p)"

definition both :: "jv \<Rightarrow> jv \<Rightarrow> string list" where
  "both a b = unique_texts (unique_strings a @ unique_strings b)"

definition policy_revision_value :: "jv \<Rightarrow> jv" where
  "policy_revision_value v = (case v of JObj ps \<Rightarrow> jget ps ''revision'' | _ \<Rightarrow> v)"

definition evaluate_tag_policy :: "tag_store option \<Rightarrow> tag_policy \<Rightarrow> tag_decision" where
  "evaluate_tag_policy store p =
     (case store of
        None \<Rightarrow> \<lparr>td_allowed = False, td_reason = ''tag_store_unavailable'', td_stale = True, td_matched_deny = [], td_matched_allow = [], td_missing = []\<rparr>
      | Some s \<Rightarrow>
          (let current = revision_number (jget (as_record (ts_revision s)) ''revision'');
               given = revision_number (policy_revision_value (tp_revision p));
               stale = (given > 0 \<and> current > given);
               tags = concat (map (entity_tags s) (policy_refs p));
               deny = both (tp_deny p) (tp_denied p); allow = both (tp_allow p) (tp_allowed p); required = unique_strings (tp_required p);
               hit_deny = filter (\<lambda>t. t \<in> set tags) deny; hit_allow = filter (\<lambda>t. t \<in> set tags) allow;
               missing = filter (\<lambda>t. t \<notin> set tags) required;
               answer = (\<lambda>ok reason. \<lparr>td_allowed = ok, td_reason = reason, td_stale = stale, td_matched_deny = hit_deny,
                 td_matched_allow = hit_allow, td_missing = missing\<rparr>)
           in if hit_deny \<noteq> [] then answer False ''tag_policy_denied''
              else if (tp_fail_on_stale p \<or> tp_require_fresh p) \<and> stale then answer False ''tag_policy_stale''
              else if missing \<noteq> [] then answer False ''tag_policy_required_tag_missing''
              else if allow \<noteq> [] \<and> hit_allow = [] then answer False ''tag_policy_allow_tag_missing''
              else answer True ''tag_policy_allowed''))"

end
