(* ===== verification/TagSafety.thy ===== *)
theory TagSafety imports TagPolicy begin

text \<open>
  What the tag hierarchy and the universal tag policy guarantee: a walk up the hierarchy meets
  exactly the tags above its start, the parent check keeps the stored hierarchy a forest, and the
  policy allows exactly when none of its four rules refuses.
\<close>

section \<open>Climbing the hierarchy\<close>

text \<open>\<open>climbs m active i j\<close>: \<open>j\<close> is \<open>i\<close> or an ancestor of \<open>i\<close>, through tags the lookup finds.\<close>

inductive climbs :: "tag_map \<Rightarrow> bool \<Rightarrow> string \<Rightarrow> string \<Rightarrow> bool" for m active where
  climbs_self: "climbs m active i i"
| climbs_up: "climbs m active i j \<Longrightarrow> j \<noteq> [] \<Longrightarrow> tag_from m active j = Some t \<Longrightarrow> climbs m active i (tg_parent t)"

lemma climbs_from_parent:
  "climbs m active (tg_parent t) k \<Longrightarrow> i \<noteq> [] \<Longrightarrow> tag_from m active i = Some t \<Longrightarrow> climbs m active i k"
  by (induction "tg_parent t" k rule: climbs.induct) (auto intro: climbs.intros)

text \<open>The ids under which the walk found its tags.\<close>

function walk_ids :: "tag_map \<Rightarrow> bool \<Rightarrow> string list \<Rightarrow> string \<Rightarrow> string list" where
  "walk_ids m active seen cursor =
     (if cursor = [] \<or> cursor \<in> set seen then []
      else (case tag_from m active cursor of
              None \<Rightarrow> []
            | Some t \<Rightarrow> cursor # walk_ids m active (cursor # seen) (tg_parent t)))"
  by pat_completeness auto
termination
proof (relation "measure (\<lambda>(m, active, seen, cursor). card (fst ` set m - set seen))")
  fix m :: tag_map and active and seen :: "string list" and cursor t
  assume c: "\<not> (cursor = [] \<or> cursor \<in> set seen)" and t: "tag_from m active cursor = Some t"
  have "fst ` set m - set (cursor # seen) \<subset> fst ` set m - set seen" using c tag_from_key [OF t] by auto
  then show "((m, active, cursor # seen, tg_parent t), m, active, seen, cursor) \<in> measure (\<lambda>(m, active, seen, cursor). card (fst ` set m - set seen))"
    by (simp add: psubset_card_mono)
qed simp

declare walk_ids.simps [simp del]

lemma lineage_loop_ids:
  "lineage_loop m active seen i = map (\<lambda>j. the (tag_from m active j)) (walk_ids m active seen i)"
proof (induction m active seen i rule: walk_ids.induct)
  case (1 m active seen i)
  then show ?case by (simp add: lineage_loop.simps [of m active seen i] walk_ids.simps [of m active seen i] split: option.splits)
qed

lemma walk_ids_found: "j \<in> set (walk_ids m active seen i) \<Longrightarrow> j \<noteq> [] \<and> (\<exists>t. tag_from m active j = Some t) \<and> climbs m active i j"
proof (induction m active seen i rule: walk_ids.induct)
  case (1 m active seen i)
  show ?case
  proof (cases "i = [] \<or> i \<in> set seen \<or> tag_from m active i = None")
    case True
    then show ?thesis using 1(2) by (subst (asm) walk_ids.simps) (auto split: if_splits)
  next
    case False
    then obtain t where t: "tag_from m active i = Some t" by auto
    have up: "climbs m active (tg_parent t) k \<Longrightarrow> climbs m active i k" for k
      using climbs_from_parent [OF _ _ t] False by blast
    have "j = i \<or> j \<in> set (walk_ids m active (i # seen) (tg_parent t))"
      using 1(2) False t by (subst (asm) walk_ids.simps) simp
    then show ?thesis using 1(1) [of t] False t up climbs_self by (metis option.simps(5))
  qed
qed

lemma walk_ids_closed:
  "tag_from m active j = Some t \<Longrightarrow> j \<in> set (walk_ids m active seen i) \<Longrightarrow> tg_parent t \<noteq> [] \<Longrightarrow>
   tag_from m active (tg_parent t) = Some u \<Longrightarrow> tg_parent t \<in> set (walk_ids m active seen i) \<union> set seen"
proof (induction m active seen i rule: walk_ids.induct)
  case (1 m active seen i)
  show ?case
  proof (cases "i = [] \<or> i \<in> set seen \<or> tag_from m active i = None")
    case True
    then show ?thesis using 1(3) by (subst (asm) walk_ids.simps) (auto split: if_splits)
  next
    case False
    then obtain v where v: "tag_from m active i = Some v" by auto
    let ?rest = "walk_ids m active (i # seen) (tg_parent v)"
    have w: "walk_ids m active seen i = i # ?rest" using False v by (subst walk_ids.simps) simp
    show ?thesis
    proof (cases "j = i")
      case True
      then have "v = t" using v 1(2) by simp
      then have "tg_parent t \<in> set ?rest \<union> set (i # seen)" using 1(4,5) by (subst walk_ids.simps) simp
      then show ?thesis using w by auto
    next
      case j: False
      then have "j \<in> set ?rest" using 1(3) w by simp
      then show ?thesis using 1(1) [of v] 1(2,4,5) False v w by auto
    qed
  qed
qed

lemma walk_ids_complete:
  "climbs m active i j \<Longrightarrow> j \<noteq> [] \<Longrightarrow> tag_from m active j = Some u \<Longrightarrow> j \<in> set (walk_ids m active [] i)"
proof (induction arbitrary: u rule: climbs.induct)
  case (climbs_self i)
  then show ?case by (subst walk_ids.simps) simp
next
  case (climbs_up i j t)
  then show ?case using walk_ids_closed [of m active j t "[]" i u] by auto
qed

lemma walk_ids_iff:
  "j \<in> set (walk_ids m active [] i) \<longleftrightarrow> climbs m active i j \<and> j \<noteq> [] \<and> tag_from m active j \<noteq> None"
  using walk_ids_found walk_ids_complete by (metis not_None_eq)

lemma set_lineage_loop:
  "set (lineage_loop m active [] i) = {t. \<exists>j. climbs m active i j \<and> j \<noteq> [] \<and> tag_from m active j = Some t}"
proof -
  have ids: "set (walk_ids m active [] i) = {j. climbs m active i j \<and> j \<noteq> [] \<and> tag_from m active j \<noteq> None}"
    using walk_ids_iff by blast
  show ?thesis unfolding lineage_loop_ids set_map ids by (force simp: image_def)
qed

section \<open>Normalised ids\<close>

lemma normalize_id_trim [simp]: "trim (normalize_id v) = normalize_id v"
  by (simp add: normalize_id_def)

lemma normalize_id_JStr [simp]: "normalize_id (JStr s) = trim s"
  by (simp add: normalize_id_def js_or_def)

lemma found_id: "tag_from m active j = Some t \<Longrightarrow> tg_id t \<noteq> [] \<and> trim (tg_id t) = tg_id t"
  by (auto simp: tag_from_def active_tag_def normalize_tag_record_def Let_def split: jv.splits if_splits option.splits)

lemma unique_strings_id: "i \<in> set (unique_strings v) \<Longrightarrow> i \<noteq> [] \<and> trim i = i"
  by (auto simp: unique_strings_def)

lemma unique_texts_ids: "(\<And>x. x \<in> set xs \<Longrightarrow> x \<noteq> [] \<and> trim x = x) \<Longrightarrow> set (unique_texts xs) = set xs"
  by (force simp: unique_texts_def unique_strings_def listed_def)

lemma ancestors_with_self:
  "trim i = i \<Longrightarrow> set (ancestors_of m (JStr i) True active rf) = tg_id ` {t. \<exists>j. climbs m active i j \<and> j \<noteq> [] \<and> tag_from m active j = Some t}"
  by (simp add: ancestors_of_def lineage_of_def set_lineage_loop Let_def)

lemma set_effective_tags:
  "set (effective_tags_for m tags) =
     {tg_id t | i j t. i \<in> set (unique_strings tags) \<and> climbs m True i j \<and> j \<noteq> [] \<and> active_tag m j = Some t}"
proof -
  let ?above = "\<lambda>i. tg_id ` {t. \<exists>j. climbs m True i j \<and> j \<noteq> [] \<and> tag_from m True j = Some t}"
  let ?all = "concat (map (\<lambda>i. ancestors_of m (JStr i) True True False) (unique_strings tags))"
  have "set ?all = (\<Union>i\<in>set (unique_strings tags). set (ancestors_of m (JStr i) True True False))" by simp
  also have "\<dots> = (\<Union>i\<in>set (unique_strings tags). ?above i)"
    using unique_strings_id by (intro SUP_cong) (simp_all add: ancestors_with_self)
  finally have all: "set ?all = (\<Union>i\<in>set (unique_strings tags). ?above i)" .
  have "set (effective_tags_for m tags) = set ?all"
    unfolding effective_tags_for_def by (rule unique_texts_ids) (unfold all, auto dest: found_id)
  then show ?thesis
    unfolding all by (auto simp: tag_from_def)
qed

text \<open>
  The tags an entity effectively carries are the ids of exactly the active tags met by climbing
  from one of its direct tags through active tags, each listed once; the walk always ends, whatever
  cycles the store holds.
\<close>

theorem effective_tags_are_ancestors:
  "set (effective_tags_for m tags) =
     {tg_id t | i j t. i \<in> set (unique_strings tags) \<and> climbs m True i j \<and> j \<noteq> [] \<and> active_tag m j = Some t} \<and>
   distinct (effective_tags_for m tags)"
proof
  show "distinct (effective_tags_for m tags)" by (simp add: effective_tags_for_def unique_texts_def unique_strings_def)
qed (rule set_effective_tags)

section \<open>The parent check\<close>

text \<open>The stored parent links, and a store whose links form a forest over tags it holds.\<close>

definition parent_links :: "tag_map \<Rightarrow> (string \<times> string) set" where
  "parent_links m = {(i, p). i \<noteq> [] \<and> p \<noteq> [] \<and> (case tag_from m False i of None \<Rightarrow> False | Some t \<Rightarrow> tg_parent t = p)}"

definition forest :: "tag_map \<Rightarrow> bool" where
  "forest m \<longleftrightarrow>
     list_all (\<lambda>i. case tag_from m False i of None \<Rightarrow> False
       | Some t \<Rightarrow> tg_id t = i \<and> (tg_parent t = [] \<or> tg_parent t \<in> fst ` set m)) (map fst m) \<and>
     acyclic (parent_links m)"

lemma forest_found: "forest m \<Longrightarrow> tag_from m False i = Some t \<Longrightarrow> tg_id t = i \<and> (tg_parent t = [] \<or> tg_parent t \<in> fst ` set m)"
  using tag_from_key [of m False i t] by (force simp: forest_def list_all_iff)

lemma forest_stored: "forest m \<Longrightarrow> i \<in> fst ` set m \<Longrightarrow> \<exists>t. tag_from m False i = Some t"
  by (force simp: forest_def list_all_iff split: option.splits)

lemma climbs_links: "(i, j) \<in> (parent_links m)\<^sup>* \<Longrightarrow> climbs m False i j"
  by (induction rule: rtrancl_induct) (auto simp: parent_links_def split: option.splits intro: climbs.intros)

lemma no_repeat_ok: "no_repeat seen ts = Inr () \<Longrightarrow> t \<in> set ts \<Longrightarrow> tg_id t \<notin> set seen"
  by (induction seen ts rule: no_repeat.induct) (auto split: if_splits)

lemma tag_from_put: "tag_from ((i, v) # m) active j =
   (if j = i then (case normalize_tag_record i v of None \<Rightarrow> None
      | Some t \<Rightarrow> if active \<and> (\<not> tg_enabled t \<or> tg_status t = ''archived'') then None else Some t)
    else tag_from m active j)"
  by (auto simp: tag_from_def active_tag_def get_tag_def or_else_def split: option.splits)

lemma checked_parent_not_below:
  assumes f: "forest m" and ok: "assert_parent_allowed m a b = Inr ()" and p: "normalize_id b \<noteq> []"
  shows "(normalize_id b, normalize_id a) \<notin> (parent_links m)\<^sup>*" and "normalize_id b \<in> fst ` set m"
proof -
  let ?i = "normalize_id a" and ?p = "normalize_id b"
  obtain u where u: "tag_from m False ?p = Some u" and ne: "?p \<noteq> ?i"
      and walk: "no_repeat [?i] (lineage_of m (JStr ?p) True False False) = Inr ()"
    using ok p by (auto simp: assert_parent_allowed_def Let_def split: if_splits)
  show "?p \<in> fst ` set m" using tag_from_key [OF u] .
  show "(?p, ?i) \<notin> (parent_links m)\<^sup>*"
  proof
    assume r: "(?p, ?i) \<in> (parent_links m)\<^sup>*"
    obtain k where "(k, ?i) \<in> parent_links m" using r ne by (auto elim: rtranclE)
    then obtain t where t: "tag_from m False k = Some t" "tg_parent t = ?i" "?i \<noteq> []"
      by (auto simp: parent_links_def split: option.splits)
    then obtain w where w: "tag_from m False ?i = Some w" using forest_found [OF f t(1)] forest_stored [OF f] by auto
    have "w \<in> set (lineage_loop m False [] ?p)" using climbs_links [OF r] t(3) w by (auto simp: set_lineage_loop)
    then have "tg_id w \<noteq> ?i" using no_repeat_ok [OF walk] by (auto simp: lineage_of_def)
    then show False using forest_found [OF f w] by simp
  qed
qed

text \<open>
  C23: when the parent check accepts a tag and its parent, storing the tag under that parent, new or
  moved, keeps the stored hierarchy a forest: every tag under its own id, every parent present, no
  tag above itself.
\<close>

theorem parent_check_keeps_forest:
  assumes "forest m" and "assert_parent_allowed m a b = Inr ()"
    and "normalize_tag_record (normalize_id a) v = Some t" and "tg_id t = normalize_id a" and "tg_parent t = normalize_id b"
  shows "forest ((normalize_id a, v) # m)"
proof -
  let ?i = "normalize_id a" and ?p = "normalize_id b" and ?m = "(normalize_id a, v) # m"
  have links: "parent_links ?m \<subseteq> (if ?p = [] then {} else {(?i, ?p)}) \<union> parent_links m"
    using assms(3,5) by (auto simp: parent_links_def tag_from_put split: if_splits option.splits)
  have "acyclic (parent_links ?m)"
  proof (cases "?p = []")
    case True
    then show ?thesis using links assms(1) by (auto simp: forest_def elim: acyclic_subset)
  next
    case False
    then have "acyclic (insert (?i, ?p) (parent_links m))"
      using assms(1) checked_parent_not_below(1) [OF assms(1,2)] by (auto simp: forest_def acyclic_insert)
    then show ?thesis by (rule acyclic_subset) (use links False in auto)
  qed
  moreover have "?p = [] \<or> ?p \<in> fst ` set m" using checked_parent_not_below(2) [OF assms(1,2)] by auto
  ultimately show ?thesis using assms
    by (auto simp: forest_def list_all_iff tag_from_put split: option.splits)
qed

definition two_tags :: tag_map where
  "two_tags = [(''team'', JObj [(''parentTagId'', JStr ''org'')]), (''org'', JObj [])]"

lemma forest_two_tags: "forest two_tags"
proof -
  have "parent_links two_tags \<subseteq> {(''team'', ''org'')}"
  proof clarify
    fix i q
    assume "(i, q) \<in> parent_links two_tags"
    then obtain t where t: "tag_from two_tags False i = Some t" and q: "tg_parent t = q" "q \<noteq> []"
      by (auto simp: parent_links_def split: option.splits)
    have "i = ''team'' \<or> i = ''org''" using tag_from_key [OF t] by (auto simp: two_tags_def)
    moreover have "map_option tg_parent (tag_from two_tags False ''team'') = Some ''org''"
      and "map_option tg_parent (tag_from two_tags False ''org'') = Some []" by code_simp+
    ultimately show "i = ''team'' \<and> q = ''org''" using t q by auto
  qed
  moreover have "acyclic {(''team'', ''org'')}" by (simp add: acyclic_insert wf_acyclic)
  ultimately have "acyclic (parent_links two_tags)" by (rule acyclic_subset [rotated])
  moreover have "list_all (\<lambda>i. case tag_from two_tags False i of None \<Rightarrow> False
       | Some t \<Rightarrow> tg_id t = i \<and> (tg_parent t = [] \<or> tg_parent t \<in> fst ` set two_tags)) (map fst two_tags)"
    by code_simp
  ultimately show ?thesis by (simp add: forest_def)
qed

lemma parent_check_keeps_forest_witness:
  "forest ((''dev'', JObj [(''parentTagId'', JStr ''team'')]) # two_tags)"
proof -
  have ok: "assert_parent_allowed two_tags (JStr ''dev'') (JStr ''team'') = Inr ()" by code_simp
  have rec: "normalize_tag_record (normalize_id (JStr ''dev'')) (JObj [(''parentTagId'', JStr ''team'')]) =
      Some \<lparr>tg_id = ''dev'', tg_parent = ''team'', tg_kind = ''custom'', tg_status = ''active'', tg_enabled = True, tg_scopes = []\<rparr>"
    by code_simp
  have ids: "normalize_id (JStr ''dev'') = ''dev''" "normalize_id (JStr ''team'') = ''team''" by code_simp+
  show ?thesis using parent_check_keeps_forest [OF forest_two_tags ok rec] by (simp add: ids del: normalize_id_JStr)
qed

section \<open>The policy\<close>

text \<open>The tags that count for a request: those of every entity the policy names.\<close>

definition governing_tags :: "tag_store \<Rightarrow> tag_policy \<Rightarrow> string set" where
  "governing_tags s p = (\<Union>e\<in>set (policy_refs p). set (entity_tags s e))"

definition policy_stale :: "tag_store \<Rightarrow> tag_policy \<Rightarrow> bool" where
  "policy_stale s p \<longleftrightarrow>
     revision_number (policy_revision_value (tp_revision p)) > 0 \<and>
     revision_number (jget (as_record (ts_revision s)) ''revision'') > revision_number (policy_revision_value (tp_revision p))"

lemma set_both [simp]: "set (both a b) = set (unique_strings a) \<union> set (unique_strings b)"
  unfolding both_def by (subst unique_texts_ids) (auto dest: unique_strings_id)

text \<open>
  The universal tag policy allows a request exactly when there is a store and none of its rules
  refuses: no deny tag governs the request, the revision is not stale where freshness is asked for,
  every required tag governs it, and a given allow list has a tag that does.
\<close>

theorem tag_policy_decision:
  "td_allowed (evaluate_tag_policy st p) \<longleftrightarrow>
     (case st of None \<Rightarrow> False
      | Some s \<Rightarrow>
          (set (unique_strings (tp_deny p)) \<union> set (unique_strings (tp_denied p))) \<inter> governing_tags s p = {} \<and>
          \<not> ((tp_fail_on_stale p \<or> tp_require_fresh p) \<and> policy_stale s p) \<and>
          set (unique_strings (tp_required p)) \<subseteq> governing_tags s p \<and>
          \<not> (set (unique_strings (tp_allow p)) \<union> set (unique_strings (tp_allowed p)) \<noteq> {} \<and>
             (set (unique_strings (tp_allow p)) \<union> set (unique_strings (tp_allowed p))) \<inter> governing_tags s p = {}))"
proof (cases st)
  case None
  then show ?thesis by (simp add: evaluate_tag_policy_def)
next
  case (Some s)
  have g: "set (concat (map (entity_tags s) (policy_refs p))) = governing_tags s p" by (simp add: governing_tags_def)
  have no_hit: "filter (\<lambda>t. t \<in> governing_tags s p) xs = [] \<longleftrightarrow> set xs \<inter> governing_tags s p = {}" for xs
    by (auto simp: filter_empty_conv)
  have none_missing: "filter (\<lambda>t. t \<notin> governing_tags s p) xs = [] \<longleftrightarrow> set xs \<subseteq> governing_tags s p" for xs
    by (auto simp: filter_empty_conv)
  have empty: "both a b = [] \<longleftrightarrow> set (unique_strings a) \<union> set (unique_strings b) = {}" for a b
    using set_both [of a b] by (metis set_empty)
  show ?thesis unfolding Some evaluate_tag_policy_def Let_def option.case g
    by (simp add: no_hit none_missing empty policy_stale_def)
qed

text \<open>
  C19: a deny tag reaches everything below it: when a denied tag is met by climbing through active
  tags from a tag an entity of the policy carries, the request is refused.
\<close>

theorem deny_reaches_descendants:
  assumes "e \<in> set (policy_refs p)" and "i \<in> set (direct_tags s e)" and "climbs (ts_tags s) True i j" and "j \<noteq> []"
    and "active_tag (ts_tags s) j = Some t" and "tg_id t \<in> set (unique_strings (tp_deny p)) \<union> set (unique_strings (tp_denied p))"
  shows "td_allowed (evaluate_tag_policy (Some s) p) = False \<and> td_reason (evaluate_tag_policy (Some s) p) = ''tag_policy_denied''"
proof -
  have "set (unique_texts (direct_tags s e)) = set (direct_tags s e)"
    by (rule unique_texts_ids) (auto simp: direct_tags_def dest: unique_strings_id)
  then have "i \<in> set (unique_strings (JArr (map JStr (direct_tags s e))))"
    using assms(2) by (simp add: unique_texts_def)
  then have "tg_id t \<in> set (entity_tags s e)" using assms(3-5) by (auto simp: entity_tags_def set_effective_tags)
  then have "tg_id t \<in> set (filter (\<lambda>t. t \<in> set (concat (map (entity_tags s) (policy_refs p)))) (both (tp_deny p) (tp_denied p)))"
    using assms(1,6) by auto
  then show ?thesis unfolding evaluate_tag_policy_def Let_def option.case by (auto simp: filter_empty_conv)
qed

definition denied_store :: tag_store where
  "denied_store = \<lparr>ts_tags = two_tags, ts_projections = (\<lambda>_. [JObj [(''entityId'', JStr ''e1''), (''tagId'', JStr ''team'')]]), ts_revision = JUndef\<rparr>"

definition denied_policy :: "jv \<Rightarrow> tag_policy" where
  "denied_policy deny = \<lparr>tp_entity_refs = JUndef, tp_entities = JObj [(''type'', JStr ''user''), (''id'', JStr ''e1'')],
     tp_deny = deny, tp_denied = JArr [JStr ''org''], tp_allow = JUndef, tp_allowed = JUndef, tp_required = JUndef,
     tp_revision = JUndef, tp_fail_on_stale = False, tp_require_fresh = False\<rparr>"

lemma deny_reaches_descendants_witness:
  "td_allowed (evaluate_tag_policy (Some denied_store) (denied_policy JUndef)) = False \<and>
   td_reason (evaluate_tag_policy (Some denied_store) (denied_policy JUndef)) = ''tag_policy_denied''"
proof (rule deny_reaches_descendants)
  let ?org = "\<lparr>tg_id = ''org'', tg_parent = [], tg_kind = ''custom'', tg_status = ''active'', tg_enabled = True, tg_scopes = []\<rparr>"
  let ?team = "\<lparr>tg_id = ''team'', tg_parent = ''org'', tg_kind = ''custom'', tg_status = ''active'', tg_enabled = True, tg_scopes = []\<rparr>"
  show "\<lparr>er_type = ''user'', er_id = ''e1''\<rparr> \<in> set (policy_refs (denied_policy JUndef))" by code_simp
  show "''team'' \<in> set (direct_tags denied_store \<lparr>er_type = ''user'', er_id = ''e1''\<rparr>)" by code_simp
  have "tag_from two_tags True ''team'' = Some ?team" by code_simp
  then have "climbs two_tags True ''team'' (tg_parent ?team)" using climbs_up [OF climbs_self] by fastforce
  then show "climbs (ts_tags denied_store) True ''team'' ''org''" by (simp add: denied_store_def)
  show "''org'' \<noteq> []" by simp
  show "active_tag (ts_tags denied_store) ''org'' = Some ?org" by code_simp
  show "tg_id ?org \<in> set (unique_strings (tp_deny (denied_policy JUndef))) \<union> set (unique_strings (tp_denied (denied_policy JUndef)))" by code_simp
qed

text \<open>
  \<open>denyTags || deniedTags\<close> in \<open>hasUniversalTagPolicyRules\<close> stops at an empty \<open>denyTags\<close> list, which
  is truthy, while the evaluation joins both lists: a policy whose only rules are in \<open>deniedTags\<close>
  is reported as having none, although evaluating it refuses the request.
\<close>

lemma empty_deny_list_hides_rules:
  "let p = (denied_policy (JArr []))\<lparr>tp_entities := JArr []\<rparr>;
       q = p\<lparr>tp_entity_refs := JArr [JObj [(''type'', JStr ''user''), (''id'', JStr ''e1'')]]\<rparr>
   in \<not> has_tag_policy_rules p \<and> \<not> td_allowed (evaluate_tag_policy (Some denied_store) q)"
  by code_simp

end
