(* ===== verification/PolicyEnforcement.thy ===== *)
theory PolicyEnforcement imports Prelude begin

text \<open>
  The policy enforcement point of
  \<open>packages/foundation/src/security/authorization/pdp/policy-enforcement-point.ts\<close>. The
  authorization engine, the approval receipt store and the audit store are ports of the code: they
  are arguments here. A port that rejects is \<open>None\<close>; awaiting is left out, since each call awaits the
  one before it.
\<close>

section \<open>Decisions\<close>

record pep_decision =
  pd_allowed :: bool
  pd_effect :: string
  pd_reason_code :: jv
  pd_redacted_reason :: jv
  pd_decision_id :: jv
  pd_operation_id :: jv
  pd_input_hash :: jv
  pd_trace_id :: jv
  pd_subject :: jv

datatype pep_error = EngineRejected | InvalidDecision | IncompleteDecision

definition authorization_decision :: "jv \<Rightarrow> pep_error + pep_decision" where
  "authorization_decision v =
     (case v of
        JObj ps \<Rightarrow>
          (case (jget ps ''allowed'', jget ps ''effect'') of
             (JBool a, JStr e) \<Rightarrow>
               Inr \<lparr>pd_allowed = a, pd_effect = e, pd_reason_code = jget ps ''reasonCode'', pd_redacted_reason = jget ps ''redactedReason'',
                    pd_decision_id = jget ps ''decisionId'', pd_operation_id = jget ps ''operationId'', pd_input_hash = jget ps ''inputHash'',
                    pd_trace_id = jget ps ''traceId'', pd_subject = jget ps ''subject''\<rparr>
           | _ \<Rightarrow> Inl IncompleteDecision)
      | _ \<Rightarrow> Inl InvalidDecision)"

definition is_approval_effect :: "string \<Rightarrow> bool" where
  "is_approval_effect e \<longleftrightarrow> e = ''require_approval'' \<or> e = ''needsApproval''"

section \<open>The ports\<close>

record pep_params =
  pp_operation :: jv
  pp_tool :: jv
  pp_subject :: jv
  pp_resource :: jv
  pp_input :: jv
  pp_request :: jv
  pp_context :: jv
  pp_trace_id :: jv

record receipt_query =
  rq_decision_id :: jv
  rq_operation_id :: jv
  rq_subject_id :: jv
  rq_input_hash :: jv

text \<open>
  \<open>pep_receipts = None\<close>: no store, or one without \<open>validateReceipt\<close>. \<open>pep_audit\<close>: a store with
  \<open>recordDecision\<close> is there.
\<close>

record pep =
  pep_engine :: "pep_params \<Rightarrow> jv option"
  pep_receipts :: "(receipt_query \<Rightarrow> jv option) option"
  pep_audit :: bool

definition receipt_query_of :: "pep_decision \<Rightarrow> receipt_query" where
  "receipt_query_of d = \<lparr>rq_decision_id = pd_decision_id d, rq_operation_id = pd_operation_id d,
     rq_subject_id = jget (as_record (pd_subject d)) ''subjectId'', rq_input_hash = pd_input_hash d\<rparr>"

definition check_approval_receipt :: "pep \<Rightarrow> pep_decision \<Rightarrow> jv" where
  "check_approval_receipt pep d =
     (case pep_receipts pep of None \<Rightarrow> JNull | Some validate \<Rightarrow> or_else JNull (validate (receipt_query_of d)))"

definition receipt_valid :: "jv \<Rightarrow> bool" where
  "receipt_valid r = truthy (jget (as_record r) ''valid'')"

section \<open>Enforcement\<close>

definition operation_risk_text :: "pep_params \<Rightarrow> string" where
  "operation_risk_text p =
     js_string (js_or (js_or (js_or (prop_of (pp_tool p) ''risk'') (prop_of (prop_of (pp_operation p) ''safety'') ''risk''))
       (prop_of (pp_operation p) ''risk'')) (JStr []))"

definition is_high_risk :: "pep_params \<Rightarrow> pep_decision \<Rightarrow> bool" where
  "is_high_risk p d \<longleftrightarrow>
     (operation_risk_text p = ''destructive'' \<or> truthy (prop_of (pp_tool p) ''destructive'') \<or>
      truthy (prop_of (pp_tool p) ''requiresApproval'') \<or> prop_of (pp_operation p) ''requiresApproval'' = JBool True \<or>
      prop_of (prop_of (pp_operation p) ''safety'') ''requiresApproval'' = JBool True) \<and>
     pd_effect d = ''allow'' \<and> pd_reason_code d \<noteq> JStr ''approval_receipt_valid''"

text \<open>\<open>en_audited\<close> is what the audit store was given; its own failure is ignored.\<close>

record enforcement =
  en_allowed :: bool
  en_decision :: pep_decision
  en_needs_approval :: bool
  en_receipt :: jv
  en_audited :: "pep_decision list"

definition approved :: "pep_decision \<Rightarrow> pep_decision" where
  "approved d = d\<lparr>pd_effect := ''allow'', pd_allowed := True, pd_reason_code := JStr ''approval_receipt_valid'',
     pd_redacted_reason := JStr ''Approval receipt validated.''\<rparr>"

definition receipt_required :: "pep_decision \<Rightarrow> pep_decision" where
  "receipt_required d = d\<lparr>pd_effect := ''require_approval'', pd_allowed := False, pd_reason_code := JStr ''approval_receipt_required'',
     pd_redacted_reason := JStr ''High-risk operation requires an approval receipt (confirm:true is insufficient).''\<rparr>"

definition enforce_decision :: "pep \<Rightarrow> pep_params \<Rightarrow> pep_decision \<Rightarrow> enforcement" where
  "enforce_decision pep p d0 =
     (let asks = is_approval_effect (pd_effect d0) \<and> pep_receipts pep \<noteq> None;
          receipt = (if asks then check_approval_receipt pep d0 else JNull);
          d1 = (if receipt_valid receipt then approved d0 else d0);
          d2 = (if is_high_risk p d1 \<and> \<not> receipt_valid (check_approval_receipt pep d1) then receipt_required d1 else d1)
      in \<lparr>en_allowed = pd_allowed d2, en_decision = d2, en_needs_approval = is_approval_effect (pd_effect d2), en_receipt = receipt,
          en_audited = (if pep_audit pep then [d2] else [])\<rparr>)"

definition enforce :: "pep \<Rightarrow> pep_params \<Rightarrow> pep_error + enforcement" where
  "enforce pep p =
     (case pep_engine pep p of
        None \<Rightarrow> Inl EngineRejected
      | Some v \<Rightarrow> (case authorization_decision v of Inl e \<Rightarrow> Inl e | Inr d0 \<Rightarrow> Inr (enforce_decision pep p d0)))"

section \<open>The HTTP middleware\<close>

record pep_request =
  rr_operation :: jv
  rr_tool :: jv
  rr_subject :: jv
  rr_resource :: jv
  rr_body :: jv
  rr_context :: jv
  rr_trace_id :: jv
  rr_self :: jv

record error_envelope =
  ee_code :: jv
  ee_message :: jv
  ee_operation_id :: "jv option"
  ee_decision_id :: jv
  ee_trace_id :: jv

datatype http_outcome =
    Forwarded pep_decision jv
  | Answered nat error_envelope
  | Thrown nat pep_decision string
  | EnforceFailed pep_error

definition effect_to_status_code :: "string \<Rightarrow> nat" where
  "effect_to_status_code e = (if e = ''require_confirmation'' then 412 else 403)"

definition is_external_caller :: "jv \<Rightarrow> bool" where
  "is_external_caller subject \<longleftrightarrow> \<not> truthy subject \<or> prop_of subject ''type'' = JStr ''anonymous''"

definition build_error_envelope :: "jv \<Rightarrow> pep_decision \<Rightarrow> error_envelope" where
  "build_error_envelope subject d =
     \<lparr>ee_code = js_or (pd_reason_code d) (JStr ''forbidden''),
      ee_message = (if is_external_caller subject then JStr ''Access denied.'' else js_or (pd_redacted_reason d) (JStr ''Access denied.'')),
      ee_operation_id = (if is_external_caller subject then None else Some (pd_operation_id d)),
      ee_decision_id = pd_decision_id d, ee_trace_id = js_or (pd_trace_id d) (JStr [])\<rparr>"

definition request_params :: "pep_request \<Rightarrow> pep_params" where
  "request_params r =
     \<lparr>pp_operation = js_or (rr_operation r) (JObj []), pp_tool = js_or (rr_tool r) JNull, pp_subject = js_or (rr_subject r) (JObj []),
      pp_resource = js_or (rr_resource r) (JObj []), pp_input = js_or (rr_body r) (JObj []), pp_request = rr_self r,
      pp_context = js_or (rr_context r) (JObj []), pp_trace_id = js_or (rr_trace_id r) (JStr [])\<rparr>"

text \<open>\<open>responds\<close>: a response with a \<open>status\<close> function was given. \<open>Forwarded\<close> also stores on the request.\<close>

definition http_middleware :: "pep \<Rightarrow> bool \<Rightarrow> pep_request \<Rightarrow> http_outcome" where
  "http_middleware pep responds r =
     (case enforce pep (request_params r) of
        Inl e \<Rightarrow> EnforceFailed e
      | Inr en \<Rightarrow>
          (if en_allowed en then Forwarded (en_decision en) (en_receipt en)
           else let code = effect_to_status_code (pd_effect (en_decision en)); env = build_error_envelope (rr_subject r) (en_decision en)
                in if responds then Answered code env else Thrown code (en_decision en) (js_string (ee_message env))))"

section \<open>The console route guard\<close>

record route_guard_result =
  gu_allowed :: bool
  gu_reason :: jv
  gu_decision :: pep_decision

definition guard_params :: "string list \<Rightarrow> string list \<Rightarrow> jv \<Rightarrow> jv \<Rightarrow> pep_params" where
  "guard_params scopes capabilities subject request =
     \<lparr>pp_operation = JObj [(''id'', JStr ''console.route_guard''), (''requiredScopes'', JArr (map JStr scopes)), (''readOnly'', JBool True)],
      pp_tool = JNull, pp_subject = subject, pp_resource = JObj [], pp_input = JObj [], pp_request = request,
      pp_context = JObj [(''requiredCapabilities'', JArr (map JStr capabilities))], pp_trace_id = JStr []\<rparr>"

definition guard_route :: "pep \<Rightarrow> string list \<Rightarrow> string list \<Rightarrow> jv \<Rightarrow> jv \<Rightarrow> pep_error + route_guard_result" where
  "guard_route pep scopes capabilities subject request =
     (case enforce pep (guard_params scopes capabilities subject request) of
        Inl e \<Rightarrow> Inl e
      | Inr en \<Rightarrow> Inr \<lparr>gu_allowed = en_allowed en, gu_reason = pd_redacted_reason (en_decision en), gu_decision = en_decision en\<rparr>)"

section \<open>What gets through\<close>

text \<open>Asking for the receipt again after a change of effect and reason asks the same question.\<close>

lemma receipt_query_approved [simp]: "receipt_query_of (approved d) = receipt_query_of d"
  by (simp add: receipt_query_of_def approved_def)

definition has_valid_receipt :: "pep \<Rightarrow> pep_decision \<Rightarrow> bool" where
  "has_valid_receipt pep d \<longleftrightarrow> receipt_valid (check_approval_receipt pep d)"

lemma no_store_no_receipt: "pep_receipts pep = None \<Longrightarrow> \<not> has_valid_receipt pep d"
  by (simp add: has_valid_receipt_def check_approval_receipt_def receipt_valid_def jget_def truthy.simps)

lemma not_high_risk_approved: "\<not> is_high_risk p (approved d)"
  by (simp add: is_high_risk_def approved_def)

lemma approved_effect [simp]: "pd_allowed (approved d)" "pd_effect (approved d) = ''allow''"
  by (simp_all add: approved_def)

lemma receipt_required_refuses [simp]: "\<not> pd_allowed (receipt_required d)"
  by (simp add: receipt_required_def)

lemma high_risk_effect: "is_high_risk p d \<Longrightarrow> \<not> is_approval_effect (pd_effect d)"
  by (auto simp: is_high_risk_def is_approval_effect_def)

lemma receipt_asked: "has_valid_receipt pep d \<Longrightarrow> pep_receipts pep \<noteq> None"
  using no_store_no_receipt by blast

lemma null_receipt [simp]: "\<not> receipt_valid JNull"
  by (simp add: receipt_valid_def jget_def truthy.simps)

text \<open>
  The enforcement point lets a request through exactly when the engine allowed it and, for a
  high risk request with effect allow, a receipt for this very decision is valid, or the engine asked
  for approval and that receipt is valid; the audit store sees the decision that was enforced.
\<close>

theorem enforcement_decision:
  "(en_allowed (enforce_decision pep p d) \<longleftrightarrow>
      pd_allowed d \<and> \<not> (is_high_risk p d \<and> \<not> has_valid_receipt pep d) \<or>
      is_approval_effect (pd_effect d) \<and> has_valid_receipt pep d) \<and>
   en_allowed (enforce_decision pep p d) = pd_allowed (en_decision (enforce_decision pep p d)) \<and>
   en_audited (enforce_decision pep p d) = (if pep_audit pep then [en_decision (enforce_decision pep p d)] else [])"
  using high_risk_effect [of p d] receipt_asked [of pep d] not_high_risk_approved [of p d]
  by (auto simp: enforce_decision_def Let_def has_valid_receipt_def)

definition risky :: "pep_params \<Rightarrow> bool" where
  "risky p \<longleftrightarrow>
     operation_risk_text p = ''destructive'' \<or> truthy (prop_of (pp_tool p) ''destructive'') \<or>
     truthy (prop_of (pp_tool p) ''requiresApproval'') \<or> prop_of (pp_operation p) ''requiresApproval'' = JBool True \<or>
     prop_of (prop_of (pp_operation p) ''safety'') ''requiresApproval'' = JBool True"

lemma receipt_for_high_risk:
  assumes "pep_engine pep p = Some v" and "authorization_decision v = Inr d"
    and "pd_allowed d \<Longrightarrow> pd_effect d = ''allow'' \<and> pd_reason_code d \<noteq> JStr ''approval_receipt_valid''"
    and "risky p" and "enforce pep p = Inr en" and "en_allowed en"
  shows "\<exists>validate r. pep_receipts pep = Some validate \<and> validate (receipt_query_of d) = Some r \<and> receipt_valid r"
proof -
  have "is_approval_effect (pd_effect d) \<and> has_valid_receipt pep d \<or> pd_allowed d \<and> \<not> (is_high_risk p d \<and> \<not> has_valid_receipt pep d)"
    using assms(1,2,5,6) high_risk_effect [of p d] receipt_asked [of pep d] not_high_risk_approved [of p d]
    by (auto simp: enforce_def enforce_decision_def Let_def has_valid_receipt_def split: if_splits)
  then have "has_valid_receipt pep d" using assms(3,4) by (auto simp: is_high_risk_def risky_def)
  then show ?thesis
    by (auto simp: has_valid_receipt_def check_approval_receipt_def or_else_def split: option.splits)
qed

text \<open>
  With an engine that allows by the effect allow only and does not itself claim a validated
  receipt, no high risk request gets through without a receipt the store finds valid for the
  decision's own ids: a refusing, failing or missing receipt store stops it.
\<close>

theorem high_risk_needs_receipt:
  assumes "pep_engine pep p = Some v" and "authorization_decision v = Inr d"
    and "pd_allowed d = (pd_effect d = ''allow'')" and "pd_reason_code d \<noteq> JStr ''approval_receipt_valid''"
    and "risky p" and "enforce pep p = Inr en" and "en_allowed en"
  shows "\<exists>validate r. pep_receipts pep = Some validate \<and> validate (receipt_query_of d) = Some r \<and> receipt_valid r"
  by (rule receipt_for_high_risk [OF assms(1,2) _ assms(5-7)]) (use assms(3,4) in simp)

definition allowing_pep :: "jv option \<Rightarrow> pep" where
  "allowing_pep receipt =
     \<lparr>pep_engine = (\<lambda>_. Some (JObj [(''allowed'', JBool True), (''effect'', JStr ''allow''), (''decisionId'', JStr ''d1'')])),
      pep_receipts = Some (\<lambda>q. if rq_decision_id q = JStr ''d1'' then receipt else None), pep_audit = True\<rparr>"

definition wipe_request :: pep_params where
  "wipe_request = \<lparr>pp_operation = JObj [(''id'', JStr ''store.wipe''), (''safety'', JObj [(''risk'', JStr ''destructive'')])], pp_tool = JNull,
     pp_subject = JObj [], pp_resource = JObj [], pp_input = JObj [], pp_request = JNull, pp_context = JObj [], pp_trace_id = JStr []\<rparr>"

lemma high_risk_needs_receipt_witness:
  "\<exists>validate r. pep_receipts (allowing_pep (Some (JObj [(''valid'', JBool True)]))) = Some validate \<and>
     validate \<lparr>rq_decision_id = JStr ''d1'', rq_operation_id = JUndef, rq_subject_id = JUndef, rq_input_hash = JUndef\<rparr> = Some r \<and> receipt_valid r"
proof -
  let ?d = "\<lparr>pd_allowed = True, pd_effect = ''allow'', pd_reason_code = JUndef, pd_redacted_reason = JUndef, pd_decision_id = JStr ''d1'',
      pd_operation_id = JUndef, pd_input_hash = JUndef, pd_trace_id = JUndef, pd_subject = JUndef\<rparr>"
  let ?v = "JObj [(''allowed'', JBool True), (''effect'', JStr ''allow''), (''decisionId'', JStr ''d1'')]"
  let ?pep = "allowing_pep (Some (JObj [(''valid'', JBool True)]))"
  have "\<exists>validate r. pep_receipts ?pep = Some validate \<and> validate (receipt_query_of ?d) = Some r \<and> receipt_valid r"
  proof (rule high_risk_needs_receipt)
    show "pep_engine ?pep wipe_request = Some ?v" by (simp add: allowing_pep_def)
    show "authorization_decision ?v = Inr ?d" by code_simp
    show "pd_allowed ?d = (pd_effect ?d = ''allow'')" by simp
    show "pd_reason_code ?d \<noteq> JStr ''approval_receipt_valid''" by simp
    show "risky wipe_request" by code_simp
    show "enforce ?pep wipe_request = Inr (enforce_decision ?pep wipe_request ?d)" by code_simp
    show "en_allowed (enforce_decision ?pep wipe_request ?d)" by code_simp
  qed
  moreover have "receipt_query_of ?d = \<lparr>rq_decision_id = JStr ''d1'', rq_operation_id = JUndef, rq_subject_id = JUndef, rq_input_hash = JUndef\<rparr>"
    by code_simp
  ultimately show ?thesis by simp
qed

text \<open>A refusal never names the operation to an external caller, and its status is 403 or 412.\<close>

lemma refusal_hides_operation:
  "case http_middleware pep responds r of
     Answered code env \<Rightarrow> code \<in> {403, 412} \<and>
       (if is_external_caller (rr_subject r) then ee_operation_id env = None \<and> ee_message env = JStr ''Access denied.'' else True)
   | Forwarded d receipt \<Rightarrow> pd_allowed d
   | Thrown code d msg \<Rightarrow> code \<in> {403, 412} \<and> \<not> pd_allowed d
   | EnforceFailed e \<Rightarrow> True"
  by (auto simp: http_middleware_def Let_def effect_to_status_code_def build_error_envelope_def enforce_def enforce_decision_def
    split: sum.splits option.splits if_splits)

text \<open>
  The receipt that lets a high risk request through is checked but not returned: the result, and the
  request the middleware forwards, carry null for it.
\<close>

lemma high_risk_receipt_not_reported:
  "case enforce (allowing_pep (Some (JObj [(''valid'', JBool True)]))) wipe_request of
     Inl e \<Rightarrow> False
   | Inr en \<Rightarrow> en_allowed en \<and> en_receipt en = JNull"
  "case enforce (allowing_pep (Some (JObj [(''valid'', JBool False)]))) wipe_request of
     Inl e \<Rightarrow> False
   | Inr en \<Rightarrow> \<not> en_allowed en"
  by code_simp+

end
