(* ===== verification/JsNumber.thy ===== *)
theory JsNumber imports Prelude Complex_Main begin

text \<open>
  What several components use of JavaScript's library on strings: \<open>split\<close> at a separator and
  \<open>Number(text)\<close>. A number is its exact rational value; NaN and the infinities are \<open>None\<close>.
\<close>

section \<open>Split\<close>

fun split_from :: "char \<Rightarrow> string \<Rightarrow> string \<Rightarrow> string list" where
  "split_from sep acc [] = [rev acc]"
| "split_from sep acc (c # cs) = (if c = sep then rev acc # split_from sep [] cs else split_from sep (c # acc) cs)"

definition split_on :: "char \<Rightarrow> string \<Rightarrow> string list" where
  "split_on sep s = split_from sep [] s"

section \<open>Numbers\<close>

definition is_digit :: "char \<Rightarrow> bool" where
  "is_digit c \<longleftrightarrow> (let n = (of_char c :: nat) in 48 \<le> n \<and> n \<le> 57)"

definition hex_value :: "char \<Rightarrow> nat option" where
  "hex_value c =
     (let n = of_char c in
      if 48 \<le> n \<and> n \<le> 57 then Some (n - 48) else if 65 \<le> n \<and> n \<le> 70 then Some (n - 55)
      else if 97 \<le> n \<and> n \<le> 102 then Some (n - 87) else None)"

fun radix_value :: "nat \<Rightarrow> nat \<Rightarrow> string \<Rightarrow> nat option" where
  "radix_value b a [] = Some a"
| "radix_value b a (c # cs) = (case hex_value c of None \<Rightarrow> None | Some d \<Rightarrow> if d < b then radix_value b (b * a + d) cs else None)"

definition digits_value :: "nat \<Rightarrow> string \<Rightarrow> nat option" where
  "digits_value b s = (if s = [] then None else radix_value b 0 s)"

definition sign_of :: "string \<Rightarrow> int \<times> string" where
  "sign_of s = (case s of [] \<Rightarrow> (1, []) | c # cs \<Rightarrow> if c = CHR ''-'' then (-1, cs) else if c = CHR ''+'' then (1, cs) else (1, s))"

definition exponent_value :: "string \<Rightarrow> int option" where
  "exponent_value s =
     (case s of
        [] \<Rightarrow> Some 0
      | c # cs \<Rightarrow>
          (if c = CHR ''e'' \<or> c = CHR ''E''
           then (case sign_of cs of (sg, ds) \<Rightarrow> map_option (\<lambda>n. sg * int n) (digits_value 10 ds)) else None))"

definition scale10 :: "int \<Rightarrow> rat" where
  "scale10 e = (if e \<ge> 0 then 10 ^ nat e else 1 / 10 ^ nat (- e))"

definition decimal_value :: "string \<Rightarrow> rat option" where
  "decimal_value s =
     (let ip = takeWhile is_digit s; r = dropWhile is_digit s;
          fp = (if r \<noteq> [] \<and> hd r = CHR ''.'' then takeWhile is_digit (tl r) else []);
          rest = (if r \<noteq> [] \<and> hd r = CHR ''.'' then dropWhile is_digit (tl r) else r)
      in case (digits_value 10 (ip @ fp), exponent_value rest) of
           (Some n, Some e) \<Rightarrow> Some (of_nat n * scale10 (e - int (length fp)))
         | _ \<Rightarrow> None)"

definition js_number :: "string \<Rightarrow> rat option" where
  "js_number s =
     (let t = trim s; p = take 2 t; r = drop 2 t in
      if t = [] then Some 0
      else if p = ''0x'' \<or> p = ''0X'' then map_option of_nat (digits_value 16 r)
      else if p = ''0o'' \<or> p = ''0O'' then map_option of_nat (digits_value 8 r)
      else if p = ''0b'' \<or> p = ''0B'' then map_option of_nat (digits_value 2 r)
      else case sign_of t of (sg, u) \<Rightarrow> map_option (\<lambda>x. of_int sg * x) (decimal_value u))"

text \<open>\<open>Number.isInteger(Number(text))\<close> with the value.\<close>

definition integer_of_text :: "string \<Rightarrow> int option" where
  "integer_of_text s = (case js_number s of None \<Rightarrow> None | Some x \<Rightarrow> if of_int \<lfloor>x\<rfloor> = x then Some \<lfloor>x\<rfloor> else None)"

lemma js_number_examples:
  "map js_number ['''', ''12'', '' -3.50'', ''0x1f'', ''25e-1'', ''1e2'', ''.5'', ''1a'', ''.''] =
     [Some 0, Some 12, Some (- 7 / 2), Some 31, Some (5 / 2), Some 100, Some (1 / 2), None, None]"
  by code_simp

end
