(* ===== verification/AuthzCommon.thy ===== *)
theory AuthzCommon imports JsNumber begin

text \<open>
  The shared helpers of the authorization engine
  (\<open>packages/foundation/src/security/authorization/authorization-engine-common.ts\<close>) and its
  capability checks (\<open>authorization-capabilities.ts\<close>). The generated lists of operation and tool
  ids are an argument.
\<close>

section \<open>Strings\<close>

definition authz_text :: "jv \<Rightarrow> string" where
  "authz_text v = trim (js_string (js_or v (JStr [])))"

definition unique_of :: "jv list \<Rightarrow> string list" where
  "unique_of vs = dedup (filter (\<lambda>s. s \<noteq> []) (map authz_text vs))"

definition object_or_null :: "jv \<Rightarrow> jv" where
  "object_or_null v = (case v of JObj ps \<Rightarrow> JObj ps | _ \<Rightarrow> JNull)"

definition first_string :: "jv list \<Rightarrow> string" where
  "first_string vs = or_else [] (find (\<lambda>s. s \<noteq> []) (map authz_text vs))"

definition strings_from_one :: "jv \<Rightarrow> jv list" where
  "strings_from_one v =
     (case v of
        JArr xs \<Rightarrow> xs
      | JStr s \<Rightarrow> if CHR '','' \<in> set s then map JStr (split_on CHR '','' s) else [JStr s]
      | JUndef \<Rightarrow> []
      | JNull \<Rightarrow> []
      | _ \<Rightarrow> [v])"

definition strings_from :: "jv list \<Rightarrow> string list" where
  "strings_from vs = unique_of (concat (map strings_from_one vs))"

definition strs :: "string list \<Rightarrow> jv" where
  "strs xs = JArr (map JStr xs)"

text \<open>The first requested string outside a non-empty allow list, or the empty string.\<close>

definition denied_outside_allowed :: "jv list \<Rightarrow> string list \<Rightarrow> string" where
  "denied_outside_allowed vs allowed =
     or_else [] (find (\<lambda>v. unique_of (map JStr allowed) \<noteq> [] \<and> v \<notin> set (unique_of (map JStr allowed))) (strings_from vs))"

section \<open>Risk\<close>

text \<open>
  \<open>None\<close>: a name every object inherits reads as a function or an object, which compares as NaN.
  Two such names are taken to compare as NaN too.
\<close>

definition risk_rank :: "jv \<Rightarrow> int option" where
  "risk_rank v =
     (let s = js_string (js_or v (JStr ''read_only''))
      in if s = ''read_only'' then Some 0 else if s = ''safe_write'' then Some 1 else if s = ''repair_write'' then Some 2
         else if s = ''destructive'' then Some 3 else if s \<in> set prototype_names then None else Some 0)"

definition rank_above :: "jv \<Rightarrow> jv \<Rightarrow> bool" where
  "rank_above a b = (case (risk_rank a, risk_rank b) of (Some x, Some y) \<Rightarrow> x > y | _ \<Rightarrow> False)"

section \<open>Capabilities\<close>

record catalog =
  kc_operations :: "string list"
  kc_tools :: "string list"

definition capability_wildcards :: "string list" where
  "capability_wildcards = [''cap:*'', ''cap:api:*'', ''cap:tool:*'']"

definition api_capability_id :: "string \<Rightarrow> string" where
  "api_capability_id i = ''cap:api:'' @ trim i"

definition tool_execute_capability_id :: "string \<Rightarrow> string" where
  "tool_execute_capability_id i = ''cap:tool:'' @ trim i @ '':execute''"

definition kernel_permissions :: "catalog \<Rightarrow> string list" where
  "kernel_permissions c =
     map (\<lambda>i. ''cap:api:'' @ i) (kc_operations c) @ map (\<lambda>i. ''cap:tool:'' @ i @ '':execute'') (kc_tools c)"

definition is_kernel_capability :: "catalog \<Rightarrow> string \<Rightarrow> bool" where
  "is_kernel_capability c v \<longleftrightarrow> trim v \<in> set (kernel_permissions c) \<or> trim v \<in> set capability_wildcards"

definition normalize_kernel_capabilities :: "catalog \<Rightarrow> jv list \<Rightarrow> string list" where
  "normalize_kernel_capabilities c vs = unique_of (map JStr (filter (is_kernel_capability c) (strings_from vs)))"

definition unknown_kernel_capabilities :: "catalog \<Rightarrow> jv list \<Rightarrow> string list" where
  "unknown_kernel_capabilities c vs = unique_of (map JStr (filter (\<lambda>v. \<not> is_kernel_capability c v) (strings_from vs)))"

definition assert_known_kernel_capabilities :: "catalog \<Rightarrow> jv list \<Rightarrow> string list + string list" where
  "assert_known_kernel_capabilities c vs =
     (if unknown_kernel_capabilities c vs \<noteq> [] then Inl (unknown_kernel_capabilities c vs)
      else Inr (normalize_kernel_capabilities c vs))"

definition required_capabilities_for :: "catalog \<Rightarrow> jv \<Rightarrow> jv \<Rightarrow> string list" where
  "required_capabilities_for c operation tool =
     (let explicit = strings_from [prop_of operation ''requiredCapabilities'', prop_of operation ''capabilities'',
            prop_of tool ''requiredCapabilities'', prop_of tool ''capabilities''];
          tool_id = authz_text (prop_of tool ''id'');
          operation_id = authz_text (js_or (prop_of operation ''id'') (prop_of tool ''operationId''))
      in if unique_of (map JStr explicit) \<noteq> [] then unique_of (map JStr explicit)
         else if tool_id \<noteq> [] \<and> tool_id \<in> set (kc_tools c) then [tool_execute_capability_id tool_id]
         else if operation_id \<noteq> [] \<and> operation_id \<in> set (kc_operations c) then [api_capability_id operation_id] else [])"

definition subject_capabilities :: "catalog \<Rightarrow> jv \<Rightarrow> jv \<Rightarrow> jv \<Rightarrow> jv \<Rightarrow> string list" where
  "subject_capabilities c subject actor session grant =
     normalize_kernel_capabilities c
       [prop_of subject ''capabilities'', prop_of subject ''capabilityIds'', prop_of subject ''permissions'',
        prop_of actor ''capabilities'', prop_of actor ''capabilityIds'', prop_of actor ''permissions'',
        prop_of (prop_of actor ''user'') ''capabilities'', prop_of (prop_of actor ''user'') ''capabilityIds'',
        prop_of (prop_of session ''user'') ''capabilities'', prop_of (prop_of session ''user'') ''capabilityIds'',
        prop_of grant ''capabilities'', prop_of grant ''capabilityIds'',
        prop_of (prop_of grant ''metadata'') ''capabilities'', prop_of (prop_of grant ''metadata'') ''capabilityIds'']"

definition has_capability :: "jv list \<Rightarrow> string \<Rightarrow> bool" where
  "has_capability capabilities capability \<longleftrightarrow>
     (let i = trim capability; cs = set (unique_of capabilities)
      in i = [] \<or> ''cap:*'' \<in> cs \<or> i \<in> cs \<or> (is_prefix ''cap:api:'' i \<and> ''cap:api:*'' \<in> cs) \<or>
         (is_prefix ''cap:tool:'' i \<and> ''cap:tool:*'' \<in> cs))"

section \<open>Lemmas\<close>

lemma authz_text_JStr [simp]: "authz_text (JStr s) = trim s"
  by (simp add: authz_text_def js_or_def)

lemma authz_text_trim [simp]: "trim (authz_text v) = authz_text v"
  by (simp add: authz_text_def)

lemma unique_of_clean: "s \<in> set (unique_of vs) \<Longrightarrow> s \<noteq> [] \<and> trim s = s"
  by (auto simp: unique_of_def)

lemma distinct_unique_of [simp]: "distinct (unique_of vs)"
  by (simp add: unique_of_def)

lemma unique_of_strings: "distinct xs \<Longrightarrow> (\<And>x. x \<in> set xs \<Longrightarrow> x \<noteq> [] \<and> trim x = x) \<Longrightarrow> unique_of (map JStr xs) = xs"
proof -
  assume d: "distinct xs" and c: "\<And>x. x \<in> set xs \<Longrightarrow> x \<noteq> [] \<and> trim x = x"
  have "map authz_text (map JStr xs) = xs" using c by (simp add: map_idI)
  moreover have "filter (\<lambda>s. s \<noteq> []) xs = xs" using c by (simp add: filter_id_conv)
  ultimately show ?thesis using d by (simp add: unique_of_def dedup_distinct)
qed

lemma unique_of_idem [simp]: "unique_of (map JStr (unique_of vs)) = unique_of vs"
  using unique_of_clean by (intro unique_of_strings) auto

lemma strings_from_clean: "s \<in> set (strings_from vs) \<Longrightarrow> s \<noteq> [] \<and> trim s = s"
  unfolding strings_from_def by (rule unique_of_clean)

lemma unique_of_strings_from [simp]: "unique_of (map JStr (strings_from vs)) = strings_from vs"
  by (simp add: strings_from_def)

lemma strings_from_strs: "strings_from [strs xs] = unique_of (map JStr xs)"
  by (simp add: strings_from_def strings_from_one_def strs_def)

lemma set_strings_from: "set (strings_from vs) = (\<Union>v\<in>set vs. set (strings_from [v]))"
  by (auto simp: strings_from_def unique_of_def)

lemma find_SomeD: "find P xs = Some x \<Longrightarrow> P x \<and> x \<in> set xs"
  by (induction xs) (auto split: if_splits)

lemma denied_outside_none:
  "denied_outside_allowed vs allowed = [] \<longleftrightarrow>
     unique_of (map JStr allowed) = [] \<or> set (strings_from vs) \<subseteq> set (unique_of (map JStr allowed))"
proof -
  let ?P = "\<lambda>v. unique_of (map JStr allowed) \<noteq> [] \<and> v \<notin> set (unique_of (map JStr allowed))"
  show ?thesis
  proof (cases "find ?P (strings_from vs)")
    case None
    then have "\<forall>x\<in>set (strings_from vs). \<not> ?P x" by (auto simp only: find_None_iff)
    then show ?thesis unfolding denied_outside_allowed_def None or_else_def by auto
  next
    case (Some x)
    then have "?P x \<and> x \<in> set (strings_from vs)" by (rule find_SomeD)
    then show ?thesis using strings_from_clean [of x vs] unfolding denied_outside_allowed_def Some or_else_def by auto
  qed
qed

end
