(* ===== verification/AuthzSubject.thy ===== *)
theory AuthzSubject imports AuthzCommon begin

text \<open>
  Who asks, and for what: \<open>resolveAuthorizationSubject\<close> of
  \<open>packages/foundation/src/security/authorization/authorization-engine-support.ts\<close> and
  \<open>resolveResourceContext\<close> of \<open>authorization-resource-context.ts\<close>. A resolved subject or context is
  the object the code returns. Where the code reads \<open>x || []\<close> as a list, \<open>x\<close> is a list or falsy: any
  other value raises there. The property names an object inherits are not used as ids or paths.
\<close>

section \<open>Alternatives\<close>

text \<open>The values of some keys in some sources, source by source.\<close>

definition alts :: "jv list \<Rightarrow> string list \<Rightarrow> jv list" where
  "alts sources keys = concat (map (\<lambda>s. map (prop_of s) keys) sources)"

definition spread :: "(string \<times> jv) list \<Rightarrow> (string \<times> jv) list \<Rightarrow> (string \<times> jv) list" where
  "spread ps qs = filter (\<lambda>p. fst p \<notin> fst ` set qs) ps @ qs"

definition list_of :: "jv \<Rightarrow> jv list" where
  "list_of v = (case v of JArr xs \<Rightarrow> xs | _ \<Rightarrow> [])"

text \<open>\<open>String(a || b || ... || "")\<close>.\<close>

definition or_text :: "jv list \<Rightarrow> jv" where
  "or_text vs = JStr (js_string (foldr js_or vs (JStr [])))"

section \<open>The subject\<close>

definition list_fields :: "(string \<times> string list) list" where
  "list_fields =
     [(''teamIds'', [''teamIds'']), (''departmentIds'', [''departmentIds'']), (''allowedAccountIds'', [''allowedAccountIds'']),
      (''allowedEndpointIds'', [''allowedEndpointIds'']),
      (''allowedOpaqueMailboxIds'', [''allowedOpaqueMailboxIds'', ''allowedMailboxIds'']),
      (''allowedWorkspaceIds'', [''allowedWorkspaceIds'']), (''allowedDataClasses'', [''allowedDataClasses'']),
      (''allowedEgress'', [''allowedEgress'']), (''allowedStaticSemanticFamilies'', [''allowedStaticSemanticFamilies'']),
      (''allowedCapabilityDomains'', [''allowedCapabilityDomains'']), (''allowedCapabilityVerbs'', [''allowedCapabilityVerbs'']),
      (''allowedResourceKinds'', [''allowedResourceKinds'']), (''allowedEffectKinds'', [''allowedEffectKinds'']),
      (''allowedServiceIds'', [''allowedServiceIds'']), (''allowedSecretBindings'', [''allowedSecretBindings''])]"

definition boundary_fields :: "jv list \<Rightarrow> jv list \<Rightarrow> (string \<times> jv) list" where
  "boundary_fields sources account_tail =
     [(''tenantId'', JStr (first_string (alts sources [''tenantId'']))),
      (''accountId'', JStr (first_string (alts sources [''accountId''] @ account_tail))),
      (''endpointId'', JStr (first_string (alts sources [''endpointId'']))),
      (''opaqueMailboxId'', JStr (first_string (alts sources [''opaqueMailboxId'', ''mailboxId'']))),
      (''orgId'', JStr (first_string (alts sources [''orgId''])))] @
     map (\<lambda>(k, keys). (k, strs (strings_from (alts sources keys)))) list_fields"

definition subject_scopes :: "jv \<Rightarrow> jv \<Rightarrow> jv \<Rightarrow> jv \<Rightarrow> string list" where
  "subject_scopes subject actor session grant =
     unique_of (list_of (prop_of subject ''scopes'') @ list_of (prop_of actor ''scopes'') @
       list_of (prop_of (prop_of actor ''user'') ''scopes'') @ list_of (prop_of (prop_of session ''user'') ''scopes'') @
       list_of (prop_of grant ''scopes''))"

definition subject_attributes :: "jv \<Rightarrow> jv \<Rightarrow> jv \<Rightarrow> jv \<Rightarrow> jv" where
  "subject_attributes user actor subject metadata =
     JObj (spread (spread (spread (as_record (prop_of user ''attributes'')) (as_record (prop_of actor ''attributes'')))
       (as_record (prop_of subject ''attributes''))) (as_record (prop_of metadata ''attributes'')))"

definition given_subject :: "catalog \<Rightarrow> jv \<Rightarrow> jv \<Rightarrow> jv \<Rightarrow> jv \<Rightarrow> jv \<Rightarrow> jv \<Rightarrow> (string \<times> jv) list" where
  "given_subject c subject actor session grant user metadata =
     [(''type'', js_or (js_or (prop_of subject ''type'') (prop_of subject ''subjectType''))
         (JStr (if truthy grant then ''tool-grant'' else if truthy user then ''console-user'' else ''subject''))),
      (''subjectId'', or_text [prop_of subject ''subjectId'', prop_of subject ''userId'', prop_of subject ''id'', prop_of user ''userId'', prop_of grant ''id'']),
      (''username'', or_text [prop_of subject ''username'', prop_of user ''username'', prop_of grant ''label'']),
      (''roleId'', or_text [prop_of subject ''roleId'', prop_of user ''roleId'']),
      (''scopes'', strs (unique_of (map JStr (subject_scopes subject actor session grant)))),
      (''capabilities'', strs (subject_capabilities c subject actor session grant)),
      (''agentProfileId'', or_text [prop_of subject ''agentProfileId'', prop_of subject ''profileId'']),
      (''maxRisk'', js_or (prop_of subject ''maxRisk'') (JStr []))] @
     boundary_fields [subject, user, grant, metadata] [prop_of user ''userId'']"

definition grant_subject :: "catalog \<Rightarrow> jv \<Rightarrow> jv \<Rightarrow> jv \<Rightarrow> jv \<Rightarrow> (string \<times> jv) list" where
  "grant_subject c actor session grant metadata =
     [(''type'', JStr ''tool-grant''), (''subjectId'', or_text [prop_of grant ''id'']),
      (''username'', or_text [prop_of grant ''label'', prop_of grant ''id'']), (''roleId'', JStr ''tool-grant''),
      (''scopes'', strs (unique_of (list_of (prop_of grant ''scopes'')))),
      (''capabilities'', strs (subject_capabilities c (JObj []) actor session grant)), (''agentProfileId'', JStr []),
      (''maxRisk'', js_or (js_or (prop_of grant ''maxRisk'') (prop_of (prop_of grant ''metadata'') ''maxRisk'')) (JStr []))] @
     boundary_fields [grant, metadata] []"

definition user_subject :: "catalog \<Rightarrow> jv \<Rightarrow> jv \<Rightarrow> jv \<Rightarrow> jv \<Rightarrow> (string \<times> jv) list" where
  "user_subject c actor session grant user =
     [(''type'', JStr ''console-user''), (''subjectId'', or_text [prop_of user ''userId'', prop_of user ''username'']),
      (''username'', or_text [prop_of user ''username'', prop_of user ''userId'']), (''roleId'', or_text [prop_of user ''roleId'']),
      (''scopes'', strs (unique_of (list_of (prop_of user ''scopes'')))),
      (''capabilities'', strs (subject_capabilities c (JObj []) actor session grant)), (''agentProfileId'', JStr []), (''maxRisk'', JStr [])] @
     boundary_fields [user] [prop_of user ''userId'']"

definition actor_subject :: "catalog \<Rightarrow> jv \<Rightarrow> jv \<Rightarrow> jv \<Rightarrow> (string \<times> jv) list" where
  "actor_subject c actor session grant =
     [(''type'', js_or (prop_of actor ''type'') (JStr ''actor'')),
      (''subjectId'', or_text [prop_of actor ''userId'', prop_of actor ''subjectId'', prop_of actor ''id'', prop_of actor ''username'']),
      (''username'', or_text [prop_of actor ''username'', prop_of actor ''label'']), (''roleId'', or_text [prop_of actor ''roleId'']),
      (''scopes'', strs (unique_of (list_of (prop_of actor ''scopes'')))),
      (''capabilities'', strs (subject_capabilities c (JObj []) actor session grant)),
      (''agentProfileId'', or_text [prop_of actor ''agentProfileId'']), (''maxRisk'', js_or (prop_of actor ''maxRisk'') (JStr []))] @
     boundary_fields [actor] [prop_of actor ''userId'']"

definition anonymous_subject :: "(string \<times> jv) list" where
  "anonymous_subject =
     [(''type'', JStr ''anonymous''), (''subjectId'', JStr []), (''username'', JStr []), (''roleId'', JStr []), (''scopes'', JArr []),
      (''capabilities'', JArr []), (''agentProfileId'', JStr []), (''maxRisk'', JStr []), (''tenantId'', JStr []), (''accountId'', JStr []),
      (''endpointId'', JStr []), (''opaqueMailboxId'', JStr []), (''orgId'', JStr [])] @
     map (\<lambda>(k, _). (k, JArr [])) list_fields @ [(''attributes'', JObj [])]"

definition resolve_authorization_subject :: "catalog \<Rightarrow> jv \<Rightarrow> jv \<Rightarrow> jv \<Rightarrow> jv \<Rightarrow> jv" where
  "resolve_authorization_subject c subject actor session grant =
     (let user = js_or (js_or (prop_of session ''user'') (prop_of actor ''user'')) JNull;
          metadata = js_or (js_or (object_or_null (prop_of subject ''metadata'')) (object_or_null (prop_of grant ''metadata''))) (JObj []);
          attributes = [(''attributes'', subject_attributes user actor subject metadata)]
      in if object_or_null subject \<noteq> JNull then JObj (given_subject c subject actor session grant user metadata @ attributes)
         else if truthy grant then JObj (grant_subject c actor session grant metadata @ attributes)
         else if truthy user then JObj (user_subject c actor session grant user @ attributes)
         else if truthy actor then JObj (actor_subject c actor session grant @ attributes)
         else JObj anonymous_subject)"

section \<open>The resource\<close>

fun walk_path :: "jv \<Rightarrow> string list \<Rightarrow> jv" where
  "walk_path v [] = v"
| "walk_path v (p # ps) = (case v of JObj qs \<Rightarrow> walk_path (jget qs p) ps | _ \<Rightarrow> JUndef)"

definition value_at_path :: "jv \<Rightarrow> string \<Rightarrow> jv" where
  "value_at_path source path =
     (case source of
        JObj ps \<Rightarrow>
          (let key = trim path in
           if key = [] then JUndef
           else if key \<in> fst ` set ps then jget ps key
           else if CHR ''.'' \<notin> set key then JUndef else walk_path source (split_on CHR ''.'' key))
      | _ \<Rightarrow> JUndef)"

text \<open>The eight places a resource field is looked for.\<close>

record places =
  pl_input :: jv
  pl_input_resource :: jv
  pl_context :: jv
  pl_context_resource :: jv
  pl_operation_resource :: jv
  pl_operation_context :: jv
  pl_tool_resource :: jv
  pl_tool_context :: jv

definition object_or_empty :: "jv \<Rightarrow> jv" where
  "object_or_empty v = JObj (as_record v)"

definition places_of :: "jv \<Rightarrow> jv \<Rightarrow> jv \<Rightarrow> jv \<Rightarrow> places" where
  "places_of operation tool input context =
     \<lparr>pl_input = input,
      pl_input_resource = JObj (spread (as_record (prop_of input ''resourceContext'')) (as_record (prop_of input ''resource''))),
      pl_context = context,
      pl_context_resource = JObj (spread (as_record (prop_of context ''resourceContext'')) (as_record (prop_of context ''resource''))),
      pl_operation_resource = object_or_empty (prop_of operation ''resource''),
      pl_operation_context = object_or_empty (prop_of operation ''resourceContext''),
      pl_tool_resource = object_or_empty (prop_of tool ''resource''),
      pl_tool_context = object_or_empty (prop_of tool ''resourceContext'')\<rparr>"

definition field_map_aliases :: "string \<Rightarrow> places \<Rightarrow> string list" where
  "field_map_aliases key p =
     strings_from (map (\<lambda>r. prop_of (prop_of r ''fieldMap'') key)
       [pl_operation_context p, pl_operation_resource p, pl_tool_context p, pl_tool_resource p])"

definition mapped_resource_values :: "string \<Rightarrow> places \<Rightarrow> jv list" where
  "mapped_resource_values key p =
     concat (map (\<lambda>a. map (\<lambda>s. value_at_path s a) [pl_input p, pl_input_resource p, pl_context p, pl_context_resource p])
       (field_map_aliases key p))"

text \<open>
  A field: the keys callers may use for it, split where \<open>input.metadata\<close> is consulted, the metadata
  keys, and the keys an operation or a tool may declare.
\<close>

record resource_field =
  rf_key :: string
  rf_before :: "string list"
  rf_meta :: "string list"
  rf_after :: "string list"
  rf_declared :: "string list"

definition field_values :: "resource_field \<Rightarrow> places \<Rightarrow> jv list" where
  "field_values f p =
     map (prop_of (pl_input p)) (rf_before f) @ map (prop_of (prop_of (pl_input p) ''metadata'')) (rf_meta f) @
     map (prop_of (pl_input p)) (rf_after f) @ map (prop_of (pl_input_resource p)) (rf_before f @ rf_after f) @
     mapped_resource_values (rf_key f) p @
     map (prop_of (pl_context p)) (rf_before f @ rf_after f) @ map (prop_of (pl_context_resource p)) (rf_before f @ rf_after f) @
     alts [pl_operation_resource p, pl_operation_context p, pl_tool_resource p, pl_tool_context p] (rf_declared f)"

definition plain_field :: "string \<Rightarrow> string list \<Rightarrow> resource_field" where
  "plain_field k keys = \<lparr>rf_key = k, rf_before = keys, rf_meta = [], rf_after = [], rf_declared = [k]\<rparr>"

definition workspace_field :: "string list \<Rightarrow> resource_field" where
  "workspace_field declared = \<lparr>rf_key = ''workspaceId'',
     rf_before = [''workspaceId'', ''workspace'', ''workspace-id'', ''workspaceIds'', ''workspace-ids'', ''allowedWorkspaceIds'', ''allowed-workspace-ids''],
     rf_meta = [''allowedWorkspaceIds''],
     rf_after = [''registryWorkspaceId'', ''registry-workspace-id'', ''targetWorkspaceId'', ''target-workspace-id'', ''parentWorkspaceId'', ''parent-workspace-id''],
     rf_declared = declared\<rparr>"

definition data_class_field :: resource_field where
  "data_class_field = \<lparr>rf_key = ''dataClass'', rf_before = [''dataClass'', ''data-class'', ''allowedDataClasses'', ''allowed-data-classes''],
     rf_meta = [''allowedDataClasses''], rf_after = [], rf_declared = [''dataClass'']\<rparr>"

definition egress_field :: "string list \<Rightarrow> resource_field" where
  "egress_field declared = \<lparr>rf_key = ''requestedEgress'',
     rf_before = [''requestedEgress'', ''requested-egress'', ''requestedEgresses'', ''requested-egresses'', ''allowedEgress'', ''allowed-egress''],
     rf_meta = [''allowedEgress''], rf_after = [], rf_declared = declared\<rparr>"

definition service_field :: "string list \<Rightarrow> resource_field" where
  "service_field declared = \<lparr>rf_key = ''serviceId'',
     rf_before = [''serviceId'', ''service-id'', ''serviceIds'', ''service-ids'', ''allowedServiceIds'', ''allowed-service-ids''],
     rf_meta = [''allowedServiceIds''], rf_after = [''upstreamId'', ''upstream-id''], rf_declared = declared\<rparr>"

definition secret_field :: resource_field where
  "secret_field = \<lparr>rf_key = ''secretBindingId'',
     rf_before = [''secretBindingId'', ''secret-binding-id'', ''secretBindingIds'', ''secret-binding-ids'', ''allowedSecretBindings'', ''allowed-secret-bindings''],
     rf_meta = [''allowedSecretBindings''],
     rf_after = [''authBindingId'', ''auth-binding-id'', ''bindingId'', ''binding-id'', ''credentialRef'', ''credentialRefs'', ''secretRef'', ''secretRefs''],
     rf_declared = [''secretBindingId'', ''secretBindingIds'', ''authBindingId'', ''bindingId'']\<rparr>"

text \<open>\<open>dataClasses\<close> takes the mapped values as one list: an array among them is one string.\<close>

definition data_class_values :: "places \<Rightarrow> jv list" where
  "data_class_values p =
     (let keys = [''dataClasses'', ''data-classes'', ''allowedDataClasses'', ''allowed-data-classes''] in
      map (prop_of (pl_input p)) keys @ [prop_of (prop_of (pl_input p) ''metadata'') ''allowedDataClasses''] @
      map (prop_of (pl_input_resource p)) keys @ [JArr (mapped_resource_values ''dataClasses'' p)] @
      map (prop_of (pl_context p)) keys @ map (prop_of (pl_context_resource p)) keys @
      alts [pl_operation_resource p, pl_operation_context p, pl_tool_resource p, pl_tool_context p] [''dataClasses''])"

definition boundary_required :: "string \<Rightarrow> places \<Rightarrow> bool" where
  "boundary_required key p =
     list_ex (\<lambda>s. truthy (prop_of s key))
       [pl_input p, pl_input_resource p, pl_context p, pl_context_resource p, pl_operation_resource p, pl_operation_context p,
        pl_tool_resource p, pl_tool_context p]"

definition resolve_resource_context :: "jv \<Rightarrow> jv \<Rightarrow> jv \<Rightarrow> jv \<Rightarrow> jv" where
  "resolve_resource_context operation tool input context =
     (let p = places_of operation tool input context;
          one = (\<lambda>f. JStr (first_string (field_values f p))); many = (\<lambda>f. strs (strings_from (field_values f p)))
      in JObj
        [(''tenantId'', one (plain_field ''tenantId'' [''tenantId'', ''tenant-id''])),
         (''workspaceId'', one (workspace_field [''workspaceId''])),
         (''workspaceIds'', many (workspace_field [''workspaceId'', ''workspaceIds''])),
         (''accountId'', one (plain_field ''accountId'' [''accountId'', ''account'', ''account-id''])),
         (''endpointId'', one (plain_field ''endpointId'' [''endpointId'', ''endpoint'', ''endpoint-id''])),
         (''opaqueMailboxId'', one (plain_field ''opaqueMailboxId'' [''opaqueMailboxId'', ''mailboxId'', ''mailbox'', ''opaque-mailbox-id'', ''mailbox-id''])),
         (''accountBoundaryRequired'', JBool (boundary_required ''accountBoundaryRequired'' p)),
         (''endpointBoundaryRequired'', JBool (boundary_required ''endpointBoundaryRequired'' p)),
         (''mailboxBoundaryRequired'', JBool (boundary_required ''mailboxBoundaryRequired'' p)),
         (''dataClass'', one data_class_field),
         (''requestedEgress'', one (egress_field [''requestedEgress''])),
         (''requestedEgresses'', many (egress_field [''requestedEgress'', ''requestedEgresses''])),
         (''serviceId'', one (service_field [''serviceId''])),
         (''serviceIds'', many (service_field [''serviceId'', ''serviceIds''])),
         (''secretBindingId'', one secret_field),
         (''secretBindingIds'', many secret_field),
         (''staticSemanticFamilyId'', one (plain_field ''staticSemanticFamilyId'' [''staticSemanticFamilyId'', ''static-semantic-family-id'', ''familyId'', ''family-id''])),
         (''capabilityDomain'', one (plain_field ''capabilityDomain'' [''capabilityDomain'', ''capability-domain''])),
         (''capabilityVerb'', one (plain_field ''capabilityVerb'' [''capabilityVerb'', ''capability-verb''])),
         (''resourceKind'', one (plain_field ''resourceKind'' [''resourceKind'', ''resource-kind''])),
         (''effectKind'', one (plain_field ''effectKind'' [''effectKind'', ''effect-kind''])),
         (''dataClasses'', strs (unique_of (map JStr (strings_from (data_class_values p)))))])"

end
