(* ===== verification/AuthzBoundaries.thy ===== *)
theory AuthzBoundaries imports AuthzSubject begin

text \<open>
  The attribute boundaries of the authorization engine: \<open>abacDenyDetails\<close> of
  \<open>packages/foundation/src/security/authorization/authorization-engine-support.ts\<close> and
  \<open>compileAbacFacts\<close> of \<open>authorization-engine.ts\<close>. A denial is its reason code; the sentence that
  goes with it is left out.
\<close>

section \<open>Compiled boundaries\<close>

record abac_facts =
  af_texts :: "(string \<times> string) list"
  af_sets :: "(string \<times> string list) list"

text \<open>Where a boundary is written: the subject, the policy, its metadata, the agent profile.\<close>

definition policy_sources :: "jv \<Rightarrow> jv \<Rightarrow> jv \<Rightarrow> jv list" where
  "policy_sources subject grant profile = [subject, grant, prop_of grant ''metadata'', profile]"

definition boundary_keys :: "string \<Rightarrow> string list" where
  "boundary_keys k = (if k = ''allowedMailboxIds'' then [''allowedOpaqueMailboxIds'', ''allowedMailboxIds''] else [k])"

definition compiled_texts :: "string list" where
  "compiled_texts = [''tenantId'', ''accountId'', ''endpointId'', ''opaqueMailboxId'']"

definition compiled_sets :: "string list" where
  "compiled_sets = [''allowedWorkspaceIds'', ''allowedAccountIds'', ''allowedEndpointIds'', ''allowedMailboxIds'', ''allowedDataClasses'',
     ''allowedEgress'', ''allowedStaticSemanticFamilies'', ''allowedCapabilityDomains'', ''allowedCapabilityVerbs'',
     ''allowedResourceKinds'', ''allowedEffectKinds'', ''allowedServiceIds'', ''allowedSecretBindings'']"

definition compile_abac_facts :: "jv \<Rightarrow> jv \<Rightarrow> jv \<Rightarrow> abac_facts" where
  "compile_abac_facts subject grant profile =
     (let src = policy_sources subject grant profile in
      \<lparr>af_texts = map (\<lambda>k. (k, first_string (alts src [k]))) compiled_texts,
       af_sets = map (\<lambda>k. (k, unique_of (map JStr (strings_from (alts src (boundary_keys k)))))) compiled_sets\<rparr>)"

section \<open>Reading a boundary\<close>

definition policy_string :: "abac_facts option \<Rightarrow> jv list \<Rightarrow> string \<Rightarrow> string" where
  "policy_string compiled src k =
     first_string ((case compiled of None \<Rightarrow> JUndef | Some f \<Rightarrow> (case map_of (af_texts f) k of None \<Rightarrow> JUndef | Some t \<Rightarrow> JStr t)) # alts src [k])"

definition allowed_values :: "abac_facts option \<Rightarrow> jv list \<Rightarrow> string \<Rightarrow> string list" where
  "allowed_values compiled src k =
     (case compiled of
        Some f \<Rightarrow> (case map_of (af_sets f) k of Some s \<Rightarrow> s | None \<Rightarrow> strings_from (JUndef # alts src (boundary_keys k)))
      | None \<Rightarrow> strings_from (JUndef # alts src (boundary_keys k)))"

definition list_count :: "jv \<Rightarrow> nat" where
  "list_count v = (case v of JArr xs \<Rightarrow> length xs | _ \<Rightarrow> 0)"

definition requested_value :: "jv \<Rightarrow> jv \<Rightarrow> bool" where
  "requested_value v vs \<longleftrightarrow> first_string [v] \<noteq> [] \<or> list_count vs > 0"

text \<open>\<open>subject.scopes?.includes("auth:admin")\<close>, or the owner role.\<close>

definition boundary_bypass :: "jv \<Rightarrow> bool" where
  "boundary_bypass subject \<longleftrightarrow>
     prop_of subject ''roleId'' = JStr ''owner'' \<or>
     (case prop_of subject ''scopes'' of JArr xs \<Rightarrow> JStr ''auth:admin'' \<in> set xs | JStr s \<Rightarrow> contains ''auth:admin'' s | _ \<Rightarrow> False)"

section \<open>The checks\<close>

definition first_denial :: "(bool \<times> string) list \<Rightarrow> string option" where
  "first_denial checks = map_option snd (find fst checks)"

definition outside :: "jv list \<Rightarrow> string list \<Rightarrow> bool" where
  "outside vs allowed \<longleftrightarrow> denied_outside_allowed vs allowed \<noteq> []"

text \<open>A boundary that must be there when the resource asks for it: workspaces, data classes, egress, services, secrets.\<close>

definition empty_boundary_denied :: "bool \<Rightarrow> string list \<Rightarrow> jv \<Rightarrow> jv \<Rightarrow> bool" where
  "empty_boundary_denied bypass allowed v vs \<longleftrightarrow> allowed = [] \<and> requested_value v vs \<and> \<not> bypass"

text \<open>A boundary an operation requires: account, endpoint, mailbox. The account is also checked when a policy names one.\<close>

definition required_checks :: "bool \<Rightarrow> bool \<Rightarrow> jv \<Rightarrow> string \<Rightarrow> string list \<Rightarrow> bool \<Rightarrow> string \<Rightarrow> (bool \<times> string) list" where
  "required_checks always required i policy allowed bypass name =
     (let checked = truthy i \<and> (required \<or> always \<and> (policy \<noteq> [] \<or> allowed \<noteq> [])) \<and> \<not> bypass in
      [(required \<and> \<not> truthy i \<and> \<not> bypass, name @ ''_resource_missing''),
       (checked \<and> policy = [] \<and> allowed = [], name @ ''_boundary_missing''),
       (checked \<and> policy \<noteq> [] \<and> JStr policy \<noteq> i, name @ ''_mismatch''),
       (checked \<and> outside [i] allowed, name @ ''_not_allowed'')])"

definition abac_checks :: "abac_facts option \<Rightarrow> jv \<Rightarrow> jv \<Rightarrow> jv \<Rightarrow> jv \<Rightarrow> (bool \<times> string) list" where
  "abac_checks compiled subject grant profile resource =
     (let src = policy_sources subject grant profile; r = prop_of resource; bypass = boundary_bypass subject;
          text_of = policy_string compiled src; allowed = allowed_values compiled src
      in [(truthy (r ''tenantId'') \<and> text_of ''tenantId'' \<noteq> [] \<and> JStr (text_of ''tenantId'') \<noteq> r ''tenantId'' \<and> \<not> bypass, ''tenant_mismatch''),
          (empty_boundary_denied bypass (allowed ''allowedWorkspaceIds'') (r ''workspaceId'') (r ''workspaceIds''), ''workspace_boundary_missing''),
          (outside [r ''workspaceId'', r ''workspaceIds''] (allowed ''allowedWorkspaceIds''), ''workspace_not_allowed'')] @
         required_checks True (truthy (r ''accountBoundaryRequired'')) (r ''accountId'') (text_of ''accountId'') (allowed ''allowedAccountIds'') bypass ''account'' @
         required_checks False (truthy (r ''endpointBoundaryRequired'')) (r ''endpointId'') (text_of ''endpointId'') (allowed ''allowedEndpointIds'') bypass ''endpoint'' @
         required_checks False (truthy (r ''mailboxBoundaryRequired'')) (r ''opaqueMailboxId'') (text_of ''opaqueMailboxId'') (allowed ''allowedMailboxIds'') bypass ''mailbox'' @
         [(empty_boundary_denied bypass (allowed ''allowedDataClasses'') (r ''dataClass'') (r ''dataClasses''), ''data_class_boundary_missing''),
          (outside [r ''dataClass''] (allowed ''allowedDataClasses''), ''data_class_not_allowed''),
          (outside [r ''dataClasses''] (allowed ''allowedDataClasses''), ''data_class_not_allowed''),
          (empty_boundary_denied bypass (allowed ''allowedEgress'') (r ''requestedEgress'') (r ''requestedEgresses''), ''egress_boundary_missing''),
          (outside [r ''requestedEgress'', r ''requestedEgresses''] (allowed ''allowedEgress''), ''egress_not_allowed''),
          (empty_boundary_denied bypass (allowed ''allowedServiceIds'') (r ''serviceId'') (r ''serviceIds''), ''service_boundary_missing''),
          (outside [r ''serviceId'', r ''serviceIds''] (allowed ''allowedServiceIds''), ''service_not_allowed''),
          (empty_boundary_denied bypass (allowed ''allowedSecretBindings'') (r ''secretBindingId'') (r ''secretBindingIds''), ''secret_binding_boundary_missing''),
          (outside [r ''secretBindingId'', r ''secretBindingIds''] (allowed ''allowedSecretBindings''), ''secret_binding_not_allowed''),
          (outside [r ''staticSemanticFamilyId'', r ''staticSemanticFamilyIds''] (allowed ''allowedStaticSemanticFamilies''), ''static_semantic_family_not_allowed''),
          (outside [r ''capabilityDomain'', r ''capabilityDomains''] (allowed ''allowedCapabilityDomains''), ''capability_domain_not_allowed''),
          (outside [r ''capabilityVerb'', r ''capabilityVerbs''] (allowed ''allowedCapabilityVerbs''), ''capability_verb_not_allowed''),
          (outside [r ''resourceKind'', r ''resourceKinds''] (allowed ''allowedResourceKinds''), ''resource_kind_not_allowed''),
          (outside [r ''effectKind'', r ''effectKinds''] (allowed ''allowedEffectKinds''), ''effect_kind_not_allowed'')])"

definition abac_denial :: "abac_facts option \<Rightarrow> jv \<Rightarrow> jv \<Rightarrow> jv \<Rightarrow> jv \<Rightarrow> string option" where
  "abac_denial compiled subject grant profile resource = first_denial (abac_checks compiled subject grant profile resource)"

section \<open>Compiled and dynamic boundaries\<close>

lemma first_string_again: "first_string (JStr (first_string vs) # vs) = first_string vs"
proof (cases "find (\<lambda>s. s \<noteq> []) (map authz_text vs)")
  case (Some t)
  then have "t \<in> set (map authz_text vs)" "t \<noteq> []" using find_SomeD [OF Some] by auto
  then have "trim t = t" by auto
  then show ?thesis using Some \<open>t \<noteq> []\<close> by (simp add: first_string_def or_else_def)
qed (simp add: first_string_def or_else_def)

lemma first_string_undef: "first_string (JUndef # vs) = first_string vs"
  by (simp add: first_string_def authz_text_def js_or_def)

lemma strings_from_undef: "strings_from (JUndef # vs) = strings_from vs"
  by (simp add: strings_from_def strings_from_one_def)

lemma compiled_policy_string:
  "policy_string (Some (compile_abac_facts subject grant profile)) (policy_sources subject grant profile) k =
   policy_string None (policy_sources subject grant profile) k"
proof -
  let ?src = "policy_sources subject grant profile"
  have "map_of (af_texts (compile_abac_facts subject grant profile)) k =
      (if k \<in> set compiled_texts then Some (first_string (alts ?src [k])) else None)"
    by (simp add: compile_abac_facts_def Let_def map_of_map_restrict)
  then show ?thesis by (simp add: policy_string_def first_string_again first_string_undef)
qed

lemma compiled_allowed_values:
  "allowed_values (Some (compile_abac_facts subject grant profile)) (policy_sources subject grant profile) k =
   allowed_values None (policy_sources subject grant profile) k"
proof -
  let ?src = "policy_sources subject grant profile"
  have "map_of (af_sets (compile_abac_facts subject grant profile)) k =
      (if k \<in> set compiled_sets then Some (strings_from (alts ?src (boundary_keys k))) else None)"
    by (simp add: compile_abac_facts_def Let_def map_of_map_restrict)
  then show ?thesis by (simp add: allowed_values_def strings_from_undef)
qed

lemma compiled_abac:
  "abac_denial (Some (compile_abac_facts subject grant profile)) subject grant profile resource =
   abac_denial None subject grant profile resource"
  by (simp add: abac_denial_def abac_checks_def compiled_policy_string compiled_allowed_values Let_def)

text \<open>
  C27: compiling the boundaries of a subject, a policy and a profile changes no decision: on every
  resource the compiled boundaries refuse with the same reason as reading them again on the request.
\<close>

theorem compiled_boundaries_agree:
  "abac_denial (Some (compile_abac_facts subject grant profile)) subject grant profile resource =
   abac_denial None subject grant profile resource"
  by (rule compiled_abac)

section \<open>What passing the boundaries means\<close>

lemma first_denial_None: "first_denial cs = None \<longleftrightarrow> (\<forall>c\<in>set cs. \<not> fst c)"
proof (induction cs)
  case (Cons c cs)
  then show ?case by (cases c) (auto simp: first_denial_def)
qed (simp add: first_denial_def)

lemma trim_Nil_iff: "trim s = [] \<longleftrightarrow> (\<forall>c\<in>set s. is_space c)"
proof
  assume "trim s = []"
  then have all: "\<forall>c\<in>set (dropWhile is_space s). is_space c" by (simp add: trim_def dropWhile_eq_Nil_conv)
  have "dropWhile is_space s = []" using all hd_dropWhile [of is_space s] by (metis hd_in_set)
  then show "\<forall>c\<in>set s. is_space c" by (simp add: dropWhile_eq_Nil_conv)
qed (auto simp: trim_def dropWhile_eq_Nil_conv dest: set_dropWhileD)

lemma strings_from_blank: "trim s = [] \<Longrightarrow> strings_from [JStr s] = []"
proof -
  assume b: "trim s = []"
  then have "CHR '','' \<notin> set s" by (auto simp: trim_Nil_iff is_space_def)
  then show ?thesis using b by (simp add: strings_from_def strings_from_one_def unique_of_def)
qed

lemma strings_from_pair: "set (strings_from [v, w]) = set (strings_from [v]) \<union> set (strings_from [w])"
  by (subst set_strings_from) simp

text \<open>A boundary that refuses nothing holds what is asked for, unless the subject may bypass it.\<close>

lemma boundary_contains:
  assumes "\<not> empty_boundary_denied bypass allowed (JStr s) (strs xs)" and "\<not> bypass"
    and "\<not> outside vs allowed" and "set (strings_from vs) \<subseteq> set (strings_from [JStr s, strs xs])"
    and "unique_of (map JStr allowed) = allowed"
  shows "set (strings_from vs) \<subseteq> set allowed"
proof (cases "allowed = []")
  case True
  then have "trim s = []" "xs = []" using assms(1,2)
    by (auto simp: empty_boundary_denied_def requested_value_def list_count_def strs_def first_string_def or_else_def split: if_splits)
  then have "strings_from [JStr s, strs xs] = []"
    using strings_from_blank [of s] by (auto simp: strings_from_def strings_from_one_def strs_def unique_of_def)
  then show ?thesis using assms(4) by simp
next
  case False
  then show ?thesis using assms(3,5) by (simp add: outside_def denied_outside_none)
qed

lemma allowed_values_clean: "unique_of (map JStr (allowed_values None src k)) = allowed_values None src k"
  by (simp add: allowed_values_def)

text \<open>Everything a caller, an operation or a tool names, under any alias, for the guarded kinds of resources.\<close>

definition asked_for :: "string \<Rightarrow> places \<Rightarrow> jv list" where
  "asked_for k p =
     (if k = ''allowedWorkspaceIds'' then field_values (workspace_field [''workspaceId'', ''workspaceIds'']) p
      else if k = ''allowedEgress'' then field_values (egress_field [''requestedEgress'', ''requestedEgresses'']) p
      else if k = ''allowedServiceIds'' then field_values (service_field [''serviceId'', ''serviceIds'']) p
      else if k = ''allowedSecretBindings'' then field_values secret_field p
      else data_class_values p)"

definition guarded :: "string list" where
  "guarded = [''allowedWorkspaceIds'', ''allowedEgress'', ''allowedServiceIds'', ''allowedSecretBindings'', ''allowedDataClasses'']"

lemma strings_from_strs_field: "set (strings_from [strs (strings_from vs)]) = set (strings_from vs)"
  by (simp add: strings_from_strs)

lemma boundary_pair:
  assumes checks: "\<forall>c\<in>set checks. \<not> fst c" and "\<not> bypass"
    and "(empty_boundary_denied bypass (allowed_values None src a) (JStr s) (strs (strings_from xs)), e) \<in> set checks"
    and "(outside vs (allowed_values None src a), n) \<in> set checks"
    and vs: "vs = [JStr s, strs (strings_from xs)] \<or> vs = [strs (strings_from xs)]"
  shows "set (strings_from xs) \<subseteq> set (allowed_values None src a)"
proof -
  have "set (strings_from vs) \<subseteq> set (allowed_values None src a)"
  proof (rule boundary_contains)
    show "\<not> empty_boundary_denied bypass (allowed_values None src a) (JStr s) (strs (strings_from xs))"
      using bspec [OF checks assms(3)] by simp
    show "\<not> bypass" by (rule assms(2))
    show "\<not> outside vs (allowed_values None src a)" using bspec [OF checks assms(4)] by simp
    show "set (strings_from vs) \<subseteq> set (strings_from [JStr s, strs (strings_from xs)])" using vs by (auto simp: strings_from_pair)
    show "unique_of (map JStr (allowed_values None src a)) = allowed_values None src a" by (rule allowed_values_clean)
  qed
  then show ?thesis using vs by (auto simp: strings_from_pair strings_from_strs_field)
qed


definition demo_subject :: jv where
  "demo_subject = JObj [(''roleId'', JStr ''member''), (''allowedWorkspaceIds'', JArr [JStr ''w1'', JStr ''w2''])]"


end
