(* ===== verification/ClientIp.thy ===== *)
theory ClientIp imports JsNumber begin

text \<open>
  Which address a request comes from: \<open>packages/foundation/src/security/trusted-client-ip.ts\<close>. The
  trusted proxies are the text of the environment variable or a given list; \<open>isIP\<close> of \<open>node:net\<close> is
  modelled by the grammar of the addresses.
\<close>

section \<open>Addresses\<close>

definition strip_brackets :: "string \<Rightarrow> string" where
  "strip_brackets s =
     (let t = (if s \<noteq> [] \<and> hd s = CHR ''['' then tl s else s)
      in if t \<noteq> [] \<and> last t = CHR '']'' then butlast t else t)"

definition normalize_ip_address :: "jv \<Rightarrow> string" where
  "normalize_ip_address v =
     (let t = strip_brackets (trim (js_string (js_or v (JStr []))))
      in if is_prefix ''::ffff:'' t then drop 7 t else t)"

definition is_octet :: "string \<Rightarrow> bool" where
  "is_octet s \<longleftrightarrow> s \<noteq> [] \<and> list_all is_digit s \<and> (length s = 1 \<or> hd s \<noteq> CHR ''0'') \<and> length s \<le> 3 \<and>
     (case radix_value 10 0 s of None \<Rightarrow> False | Some n \<Rightarrow> n \<le> 255)"

definition is_ipv4 :: "string \<Rightarrow> bool" where
  "is_ipv4 s \<longleftrightarrow> (let ps = split_on CHR ''.'' s in length ps = 4 \<and> list_all is_octet ps)"

definition is_hex_group :: "string \<Rightarrow> bool" where
  "is_hex_group s \<longleftrightarrow> s \<noteq> [] \<and> length s \<le> 4 \<and> list_all (\<lambda>c. hex_value c \<noteq> None) s"

text \<open>How many 16-bit groups a colon separated part stands for; an IPv4 address may end the last part.\<close>

definition group_count :: "bool \<Rightarrow> string \<Rightarrow> nat option" where
  "group_count final s =
     (if s = [] then Some 0
      else let gs = split_on CHR '':'' s in
        if list_all is_hex_group gs then Some (length gs)
        else if final \<and> list_all is_hex_group (butlast gs) \<and> is_ipv4 (last gs) then Some (length gs + 1) else None)"

fun cut_double_colon :: "string \<Rightarrow> string \<Rightarrow> (string \<times> string) option" where
  "cut_double_colon acc (a # b # cs) =
     (if a = CHR '':'' \<and> b = CHR '':'' then Some (rev acc, cs) else cut_double_colon (a # acc) (b # cs))"
| "cut_double_colon acc _ = None"

definition is_zone_char :: "char \<Rightarrow> bool" where
  "is_zone_char c \<longleftrightarrow> is_digit c \<or> (let n = (of_char c :: nat) in (65 \<le> n \<and> n \<le> 90) \<or> (97 \<le> n \<and> n \<le> 122)) \<or> c \<in> set ''-.:''"

definition is_ipv6 :: "string \<Rightarrow> bool" where
  "is_ipv6 s \<longleftrightarrow>
     (let body = takeWhile (\<lambda>c. c \<noteq> CHR ''%'') s; zone = dropWhile (\<lambda>c. c \<noteq> CHR ''%'') s in
      (zone = [] \<or> (tl zone \<noteq> [] \<and> list_all is_zone_char (tl zone))) \<and>
      (case cut_double_colon [] body of
         None \<Rightarrow> body \<noteq> [] \<and> group_count True body = Some 8
       | Some (a, b) \<Rightarrow>
           (case (group_count False a, group_count True b) of (Some m, Some n) \<Rightarrow> m + n \<le> 7 | _ \<Rightarrow> False)))"

definition is_ip :: "string \<Rightarrow> bool" where
  "is_ip s \<longleftrightarrow> is_ipv4 s \<or> is_ipv6 s"

definition lower_char :: "char \<Rightarrow> char" where
  "lower_char c = (let n = (of_char c :: nat) in if 65 \<le> n \<and> n \<le> 90 then char_of (n + 32) else c)"

text \<open>An address has ASCII letters only, so \<open>toLowerCase\<close> changes nothing else.\<close>

definition normalize_network_ip :: "jv \<Rightarrow> string" where
  "normalize_network_ip v = (let n = normalize_ip_address v in if is_ip n then map lower_char n else [])"

section \<open>Trusted proxies\<close>

datatype proxy_input = ProxyText jv | ProxyList "jv list"

text \<open>The module keeps the last text it parsed and its addresses.\<close>

type_synonym proxy_cache = "(string \<times> string list) option"

definition parse_proxies :: "string \<Rightarrow> string list" where
  "parse_proxies text = dedup (filter (\<lambda>a. a \<noteq> []) (map (\<lambda>p. normalize_network_ip (JStr p)) (split_on CHR '','' text)))"

definition trusted_proxy_set :: "proxy_cache \<Rightarrow> proxy_input \<Rightarrow> string list \<times> proxy_cache" where
  "trusted_proxy_set cache value =
     (case value of
        ProxyList vs \<Rightarrow> (dedup (filter (\<lambda>a. a \<noteq> []) (map normalize_network_ip vs)), cache)
      | ProxyText v \<Rightarrow>
          (let text = js_string (js_or v (JStr []))
           in case cache of
                Some (t, addresses) \<Rightarrow>
                  if t = text then (addresses, cache) else (parse_proxies text, Some (text, parse_proxies text))
              | None \<Rightarrow> (parse_proxies text, Some (text, parse_proxies text))))"

section \<open>The forwarded chain\<close>

definition max_forwarded :: nat where
  "max_forwarded = 32"

definition forwarded_for_chain :: "jv \<Rightarrow> string list" where
  "forwarded_for_chain request =
     (let header = prop_of (prop_of request ''headers'') ''x-forwarded-for'';
          text = (case header of JArr xs \<Rightarrow> js_string (JArr xs) | _ \<Rightarrow> js_string (js_or header (JStr [])));
          entries = map trim (split_on CHR '','' text);
          normalized = map (\<lambda>e. normalize_network_ip (JStr e)) entries
      in if trim text = [] then []
         else if entries = [] \<or> length entries > max_forwarded \<or> list_ex (\<lambda>e. e = []) entries then []
         else if list_all (\<lambda>a. a \<noteq> []) normalized then normalized else [])"

definition first_forwarded_for :: "jv \<Rightarrow> string" where
  "first_forwarded_for request = (case forwarded_for_chain request of [] \<Rightarrow> [] | a # _ \<Rightarrow> a)"

definition is_loopback_address :: "jv \<Rightarrow> bool" where
  "is_loopback_address v \<longleftrightarrow>
     (let a = map lower_char (normalize_ip_address v)
      in a \<in> {''localhost'', ''127.0.0.1'', ''::1'', ''0:0:0:0:0:0:0:1''} \<or> is_prefix ''127.'' a)"

definition remote_address :: "jv \<Rightarrow> string" where
  "remote_address request =
     normalize_network_ip (js_or (js_or (prop_of (prop_of request ''socket'') ''remoteAddress'')
       (prop_of (prop_of request ''connection'') ''remoteAddress'')) (JStr []))"

definition is_trusted_proxy_address :: "proxy_cache \<Rightarrow> proxy_input \<Rightarrow> jv \<Rightarrow> bool \<times> proxy_cache" where
  "is_trusted_proxy_address cache proxies v =
     (let a = normalize_network_ip v
      in if a = [] then (False, cache) else (case trusted_proxy_set cache proxies of (trusted, cache') \<Rightarrow> (a \<in> set trusted, cache')))"

text \<open>The loop over the chain from its right end; the client so far is the first argument.\<close>

fun walk_chain :: "string list \<Rightarrow> string \<Rightarrow> string list \<Rightarrow> string" where
  "walk_chain trusted client [] = client"
| "walk_chain trusted client (a # as) = (if client \<in> set trusted then walk_chain trusted a as else client)"

definition client_ip_from_request :: "proxy_cache \<Rightarrow> proxy_input \<Rightarrow> string \<Rightarrow> jv \<Rightarrow> string \<times> proxy_cache" where
  "client_ip_from_request cache proxies unknown request =
     (let remote = remote_address request; chain = forwarded_for_chain request
      in case trusted_proxy_set cache proxies of
           (trusted, cache') \<Rightarrow>
             (if remote \<noteq> [] \<and> remote \<in> set trusted \<and> chain \<noteq> [] then walk_chain trusted remote (rev chain)
              else str_or remote unknown, cache'))"

section \<open>Hosts\<close>

definition hostname_from_host_header :: "jv \<Rightarrow> string" where
  "hostname_from_host_header v =
     (let host = map lower_char (trim (js_string (js_or v (JStr []))))
      in if host = [] then []
         else if hd host = CHR ''[''
           then (let inner = takeWhile (\<lambda>c. c \<noteq> CHR '']'') host in if CHR '']'' \<in> set host then tl inner else [])
         else takeWhile (\<lambda>c. c \<noteq> CHR '':'') host)"

definition is_local_http_host :: "jv \<Rightarrow> bool" where
  "is_local_http_host v = is_loopback_address (JStr (hostname_from_host_header v))"

section \<open>The remembered proxies\<close>

definition cache_ok :: "proxy_cache \<Rightarrow> bool" where
  "cache_ok cache = (case cache of None \<Rightarrow> True | Some (t, addresses) \<Rightarrow> addresses = parse_proxies t)"

text \<open>Remembering the last text changes no answer.\<close>

lemma trusted_proxy_cache:
  assumes "cache_ok cache"
  shows "cache_ok (snd (trusted_proxy_set cache proxies))"
    and "fst (trusted_proxy_set cache proxies) = fst (trusted_proxy_set None proxies)"
  using assms by (auto simp: trusted_proxy_set_def cache_ok_def Let_def split: proxy_input.splits option.splits)

lemma client_ip_cache: "cache_ok cache \<Longrightarrow>
    fst (client_ip_from_request cache proxies unknown request) = fst (client_ip_from_request None proxies unknown request) \<and>
    cache_ok (snd (client_ip_from_request cache proxies unknown request))"
  using trusted_proxy_cache [of cache proxies]
  by (auto simp: client_ip_from_request_def Let_def split: prod.splits)

section \<open>Who the client is\<close>

lemma walk_chain_find:
  "walk_chain trusted client as = or_else (last (client # as)) (find (\<lambda>a. a \<notin> set trusted) (client # as))"
  by (induction as arbitrary: client) (auto simp: or_else_def)

lemma client_ip_hops:
  "fst (client_ip_from_request cache proxies unknown request) =
     (if remote_address request \<noteq> [] \<and> remote_address request \<in> set (fst (trusted_proxy_set cache proxies)) \<and> forwarded_for_chain request \<noteq> []
      then or_else (hd (forwarded_for_chain request))
        (find (\<lambda>a. a \<notin> set (fst (trusted_proxy_set cache proxies))) (remote_address request # rev (forwarded_for_chain request)))
      else str_or (remote_address request) unknown)"
  by (auto simp: client_ip_from_request_def walk_chain_find last_rev Let_def split: prod.splits)

text \<open>
  The client address is the first hop that is not a trusted proxy, walking from the socket peer
  back along the forwarded chain: the leftmost entry when all are trusted, and the socket peer itself
  when it is not trusted or the chain is missing, too long or holds anything but addresses.
\<close>

theorem client_is_first_untrusted_hop:
  "fst (client_ip_from_request cache proxies unknown request) =
     (let remote = remote_address request; chain = forwarded_for_chain request; trusted = fst (trusted_proxy_set cache proxies)
      in if remote \<noteq> [] \<and> remote \<in> set trusted \<and> chain \<noteq> []
         then or_else (hd chain) (find (\<lambda>a. a \<notin> set trusted) (remote # rev chain))
         else str_or remote unknown)"
  by (simp add: client_ip_hops Let_def)

lemma find_append_Some: "find P (xs @ y # ys) = find P (xs @ [y])" if "P y"
  using that by (induction xs) auto

text \<open>
  C20: a client cannot choose its address. What stands in the forwarded header to the left of an
  untrusted hop makes no difference: two requests of one socket peer whose chains agree from an
  untrusted hop on are attributed to the same address, one of the hops they share.
\<close>

theorem forged_entries_ignored:
  assumes "forwarded_for_chain r = forged @ hop # trail" and "forwarded_for_chain r' = forged' @ hop # trail"
    and "remote_address r = remote_address r'" and "hop \<notin> set (fst (trusted_proxy_set cache proxies))"
  shows "fst (client_ip_from_request cache proxies unknown r) = fst (client_ip_from_request cache proxies unknown r') \<and>
    fst (client_ip_from_request cache proxies unknown r) \<in> {str_or (remote_address r) unknown} \<union> set (hop # trail)"
proof -
  let ?P = "\<lambda>a. a \<notin> set (fst (trusted_proxy_set cache proxies))"
  let ?hops = "remote_address r # rev trail @ [hop]"
  have cut: "find ?P (remote_address r # rev (f @ hop # trail)) = find ?P ?hops" for f
    using find_append_Some [of ?P hop "remote_address r # rev trail" "rev f"] assms(4) by simp
  obtain a where a: "find ?P ?hops = Some a"
    using assms(4) by (cases "find ?P ?hops") (auto simp: find_None_iff split: if_splits)
  then have "a \<in> set ?hops" by (metis find_Some_iff nth_mem)
  then have mem: "a \<in> {remote_address r} \<union> set (hop # trail)" by auto
  show ?thesis
  proof (cases "remote_address r \<noteq> [] \<and> remote_address r \<in> set (fst (trusted_proxy_set cache proxies))")
    case True
    have "fst (client_ip_from_request cache proxies unknown q) = a"
      if "forwarded_for_chain q = f @ hop # trail" "remote_address q = remote_address r" for q f
      unfolding client_ip_hops using True that(2) cut [of f] a by (simp add: that(1) or_else_def)
    then show ?thesis using assms(1-3) True mem by (auto simp: str_or_def)
  next
    case False
    then show ?thesis using assms(3) by (auto simp: client_ip_hops)
  qed
qed

definition forwarded_request :: "string \<Rightarrow> jv" where
  "forwarded_request header = JObj [(''socket'', JObj [(''remoteAddress'', JStr ''10.0.0.1'')]), (''headers'', JObj [(''x-forwarded-for'', JStr header)])]"

lemma forged_entries_ignored_witness:
  "fst (client_ip_from_request None (ProxyText (JStr ''10.0.0.1'')) [] (forwarded_request ''127.0.0.1, 203.0.113.9'')) =
   fst (client_ip_from_request None (ProxyText (JStr ''10.0.0.1'')) [] (forwarded_request '' 203.0.113.9''))"
proof -
  have 1: "forwarded_for_chain (forwarded_request ''127.0.0.1, 203.0.113.9'') = [''127.0.0.1''] @ ''203.0.113.9'' # []" by code_simp
  have 2: "forwarded_for_chain (forwarded_request '' 203.0.113.9'') = [] @ ''203.0.113.9'' # []" by code_simp
  have 3: "remote_address (forwarded_request ''127.0.0.1, 203.0.113.9'') = remote_address (forwarded_request '' 203.0.113.9'')" by code_simp
  have 4: "''203.0.113.9'' \<notin> set (fst (trusted_proxy_set None (ProxyText (JStr ''10.0.0.1''))))" by code_simp
  show ?thesis using forged_entries_ignored [OF 1 2 3 4] by blast
qed

end
