(* ===== verification/AddressRules.thy ===== *)
theory AddressRules imports ClientIp "HOL-Library.Word" begin

text \<open>
  The address rules of a credential: \<open>ipv4ToInt\<close>, \<open>compileIpRule\<close>, \<open>ipMatchesRule\<close> and
  \<open>ipMatchesPredicate\<close> of
  \<open>packages/foundation/src/security/authorization/authorization-engine-support.ts\<close>. JavaScript's
  bitwise operators work on 32 bits: the numbers are 32-bit words.
\<close>

unbundle bit_operations_syntax

section \<open>Addresses as words\<close>

fun octets_to_int :: "32 word \<Rightarrow> string list \<Rightarrow> 32 word option" where
  "octets_to_int out [] = Some out"
| "octets_to_int out (p # ps) =
     (case integer_of_text p of
        None \<Rightarrow> None
      | Some n \<Rightarrow> if n < 0 \<or> n > 255 then None else octets_to_int (push_bit 8 out + of_int n) ps)"

definition ipv4_to_int :: "jv \<Rightarrow> 32 word option" where
  "ipv4_to_int v =
     (let parts = split_on CHR ''.'' (normalize_ip_address v)
      in if length parts \<noteq> 4 then None else octets_to_int 0 parts)"

section \<open>Rules\<close>

datatype ip_predicate = ExactIp string | IpRange "32 word" int "32 word"

definition range_mask :: "int \<Rightarrow> 32 word" where
  "range_mask bits = (if bits = 0 then 0 else push_bit (nat (32 - bits)) 0xffffffff)"

text \<open>\<open>None\<close> is \<open>{ok: false}\<close>. Of \<open>split("/")\<close> the first two parts are used.\<close>

definition compile_ip_rule :: "jv \<Rightarrow> ip_predicate option" where
  "compile_ip_rule rule =
     (let r = trim (js_string (js_or rule (JStr [])))
      in if r = [] then None
         else if CHR ''/'' \<notin> set r
         then (let i = normalize_ip_address (JStr r) in if i = [] then None else Some (ExactIp i))
         else (let parts = split_on CHR ''/'' r
               in case (ipv4_to_int (JStr (parts ! 0)), integer_of_text (parts ! 1)) of
                    (Some base, Some bits) \<Rightarrow> if bits < 0 \<or> bits > 32 then None else Some (IpRange base bits (range_mask bits))
                  | _ \<Rightarrow> None))"

definition ip_matches_predicate :: "jv \<Rightarrow> ip_predicate option \<Rightarrow> bool" where
  "ip_matches_predicate ip pred =
     (let i = normalize_ip_address ip
      in case pred of
           None \<Rightarrow> False
         | Some (ExactIp e) \<Rightarrow> i \<noteq> [] \<and> i = e
         | Some (IpRange base bits m) \<Rightarrow>
             i \<noteq> [] \<and> (case ipv4_to_int (JStr i) of None \<Rightarrow> False | Some a \<Rightarrow> a AND m = base AND m))"

definition ip_matches_rule :: "jv \<Rightarrow> jv \<Rightarrow> bool" where
  "ip_matches_rule ip rule =
     (let i = normalize_ip_address ip
      in if i = [] then False
         else case compile_ip_rule rule of
                None \<Rightarrow> False
              | Some (ExactIp e) \<Rightarrow> i = e
              | Some (IpRange base bits m) \<Rightarrow> (case ipv4_to_int (JStr i) of None \<Rightarrow> False | Some a \<Rightarrow> a AND m = base AND m))"

lemma ip_matches_compiled: "ip_matches_rule ip rule = ip_matches_predicate ip (compile_ip_rule rule)"
  by (auto simp: ip_matches_rule_def ip_matches_predicate_def Let_def split: option.splits ip_predicate.splits)

section \<open>The mask test\<close>

lemma masked_eq: "a AND push_bit n (0xffffffff :: 32 word) = b AND push_bit n 0xffffffff \<longleftrightarrow> drop_bit n a = drop_bit n b"
proof -
  have ones: "(0xffffffff :: 32 word) = - 1" by simp
  show ?thesis unfolding ones
  proof
    assume e: "a AND push_bit n (- 1 :: 32 word) = b AND push_bit n (- 1)"
    show "drop_bit n a = drop_bit n b"
    proof (rule bit_word_eqI)
      fix k assume "k < LENGTH(32)"
      have "bit (a AND push_bit n (- 1)) (n + k) = bit (b AND push_bit n (- 1)) (n + k)" using e by simp
      then show "bit (drop_bit n a) k = bit (drop_bit n b) k"
        by (auto simp: bit_simps dest: bit_imp_le_length)
    qed
  next
    assume e: "drop_bit n a = drop_bit n b"
    show "a AND push_bit n (- 1 :: 32 word) = b AND push_bit n (- 1)"
    proof (rule bit_word_eqI)
      fix k assume "k < LENGTH(32)"
      have "n \<le> k \<Longrightarrow> bit a k = bit b k"
        using arg_cong [OF e, of "\<lambda>w. bit w (k - n)"] by (simp add: bit_drop_bit_eq)
      then show "bit (a AND push_bit n (- 1)) k = bit (b AND push_bit n (- 1)) k"
        by (auto simp: bit_simps)
    qed
  qed
qed

text \<open>
  C30: a compiled range matches exactly the IPv4 addresses that agree with its base on the leading
  bits the rule asks for, and the dynamic check of the same rule agrees with the compiled one.
\<close>

theorem range_matches_leading_bits:
  assumes "compile_ip_rule rule = Some (IpRange base bits m)"
  shows "0 \<le> bits \<and> bits \<le> 32 \<and>
    ip_matches_predicate ip (Some (IpRange base bits m)) =
      (case ipv4_to_int (JStr (normalize_ip_address ip)) of None \<Rightarrow> False
       | Some a \<Rightarrow> unat a div 2 ^ nat (32 - bits) = unat base div 2 ^ nat (32 - bits)) \<and>
    ip_matches_rule ip rule = ip_matches_predicate ip (Some (IpRange base bits m))"
proof -
  have b: "0 \<le> bits" "bits \<le> 32" "m = range_mask bits"
    using assms by (auto simp: compile_ip_rule_def Let_def split: if_splits option.splits)
  have same: "a AND m = base AND m \<longleftrightarrow> unat a div 2 ^ nat (32 - bits) = unat base div 2 ^ nat (32 - bits)" for a
  proof (cases "bits = 0")
    case True
    have "unat w < 2 ^ LENGTH(32)" for w :: "32 word" by (rule unsigned_less)
    then have "unat w div 2 ^ 32 = 0" for w :: "32 word" by simp
    then show ?thesis using True b(3) by (simp add: range_mask_def)
  next
    case False
    then have "a AND m = base AND m \<longleftrightarrow> drop_bit (nat (32 - bits)) a = drop_bit (nat (32 - bits)) base"
      unfolding b(3) range_mask_def by (simp only: masked_eq if_False)
    also have "\<dots> \<longleftrightarrow> unat (drop_bit (nat (32 - bits)) a) = unat (drop_bit (nat (32 - bits)) base)"
      by (rule word_unat_eq_iff)
    finally show ?thesis using unat_drop_bit_eq [of "nat (32 - bits)" a] unat_drop_bit_eq [of "nat (32 - bits)" base] drop_bit_eq_div [where ?'a = nat] by metis
  qed
  have blank: "ipv4_to_int (JStr []) = None" by code_simp
  have "ip_matches_predicate ip (Some (IpRange base bits m)) =
      (case ipv4_to_int (JStr (normalize_ip_address ip)) of None \<Rightarrow> False
       | Some a \<Rightarrow> unat a div 2 ^ nat (32 - bits) = unat base div 2 ^ nat (32 - bits))"
    using blank by (auto simp: ip_matches_predicate_def Let_def same split: option.splits)
  then show ?thesis using b assms by (simp add: ip_matches_compiled)
qed

lemma range_matches_leading_bits_witness:
  "0 \<le> (8::int) \<and> 8 \<le> (32::int) \<and>
   ip_matches_predicate (JStr ''10.1.2.3'') (Some (IpRange 0x0a000000 8 (range_mask 8))) =
     (case ipv4_to_int (JStr (normalize_ip_address (JStr ''10.1.2.3''))) of None \<Rightarrow> False
      | Some a \<Rightarrow> unat a div 2 ^ nat (32 - 8) = unat (0x0a000000 :: 32 word) div 2 ^ nat (32 - 8)) \<and>
   ip_matches_rule (JStr ''10.1.2.3'') (JStr ''10.0.0.0/8'') = ip_matches_predicate (JStr ''10.1.2.3'') (Some (IpRange 0x0a000000 8 (range_mask 8)))"
proof (rule range_matches_leading_bits)
  show "compile_ip_rule (JStr ''10.0.0.0/8'') = Some (IpRange 0x0a000000 8 (range_mask 8))" by code_simp
qed

text \<open>
  \<open>Number("")\<close> is 0: a rule whose prefix length is missing compiles to the range of all addresses
  instead of being refused as malformed, and a blank octet is 0. Parts after a second slash are
  ignored.
\<close>

lemma missing_prefix_matches_all:
  "compile_ip_rule (JStr ''10.0.0.0/'') = Some (IpRange 0x0a000000 0 0) \<and>
   ip_matches_rule (JStr ''203.0.113.9'') (JStr ''10.0.0.0/'') \<and>
   \<not> ip_matches_rule (JStr ''203.0.113.9'') (JStr ''10.0.0.0/8'') \<and>
   compile_ip_rule (JStr ''10..0.1/8/24'') = Some (IpRange 0x0a000001 8 0xff000000)"
  by code_simp

end
