(* ===== verification/AuthzEngine.thy ===== *)
theory AuthzEngine imports AuthzBoundaries AddressRules begin

text \<open>
  The authorization engine: \<open>packages/foundation/src/security/authorization/authorization-engine.ts\<close>
  with the helpers it takes from \<open>authorization-engine-support.ts\<close>. URL parsing, \<open>Date.parse\<close>, the
  clock and the environment's proxies come with the platform, the governance store is an argument.
  Of a decision the model keeps what the caller acts on; random ids, time stamps, the echo of the
  resource and the sentences for people are left out.
\<close>

section \<open>The platform\<close>

record parsed_url =
  u_protocol :: string
  u_host :: string
  u_origin :: string

record platform =
  pf_url :: "string \<Rightarrow> parsed_url option"
  pf_date :: "string \<Rightarrow> int option"
  pf_now :: int
  pf_proxies :: proxy_input

text \<open>\<open>Number(value)\<close>; \<open>None\<close> is NaN or infinite.\<close>

definition to_number :: "jv \<Rightarrow> rat option" where
  "to_number v =
     (case v of
        JUndef \<Rightarrow> None
      | JNull \<Rightarrow> Some 0
      | JBool b \<Rightarrow> Some (if b then 1 else 0)
      | JNum n \<Rightarrow> Some (of_int n)
      | JStr s \<Rightarrow> js_number s
      | JArr xs \<Rightarrow> js_number (js_string (JArr xs))
      | JObj _ \<Rightarrow> None)"

section \<open>The request\<close>

record authz_input =
  ai_operation :: jv
  ai_tool :: jv
  ai_grant :: jv
  ai_restriction :: jv
  ai_profile :: jv
  ai_subject :: jv
  ai_actor :: jv
  ai_session :: jv
  ai_input :: jv
  ai_request :: jv
  ai_context :: jv
  ai_dry_run :: jv
  ai_grant_required :: jv
  ai_enforce_confirmation :: jv

definition strip_slashes :: "string \<Rightarrow> string" where
  "strip_slashes s = rev (dropWhile (\<lambda>c. c = CHR ''/'') (rev s))"

definition has_confirmation :: "jv \<Rightarrow> jv \<Rightarrow> bool" where
  "has_confirmation input request \<longleftrightarrow>
     prop_of input ''confirm'' = JBool True \<or> prop_of input ''confirmed'' = JBool True \<or>
     map lower_char (js_string (js_or (js_or (prop_of (prop_of request ''headers'') ''x-meshrix-confirm'')
       (prop_of (prop_of request ''headers'') ''x-meshrix-safety-confirm'')) (JStr []))) \<in> {''1'', ''true'', ''yes''}"

definition request_origin :: "platform \<Rightarrow> jv \<Rightarrow> string" where
  "request_origin pf request =
     (let origin = authz_text (prop_of (prop_of request ''headers'') ''origin'');
          referer = authz_text (prop_of (prop_of request ''headers'') ''referer'')
      in if origin \<noteq> [] then strip_slashes origin
         else if referer \<noteq> [] then (case pf_url pf referer of None \<Rightarrow> [] | Some u \<Rightarrow> u_origin u) else [])"

definition source_ip :: "platform \<Rightarrow> jv \<Rightarrow> string" where
  "source_ip pf request = fst (client_ip_from_request None (pf_proxies pf) [] request)"

definition operation_risk :: "jv \<Rightarrow> jv \<Rightarrow> jv" where
  "operation_risk operation tool =
     JStr (js_string (js_or (js_or (js_or (prop_of tool ''risk'') (prop_of (prop_of operation ''safety'') ''risk'')) (prop_of operation ''risk''))
       (JStr (if prop_of operation ''readOnly'' = JBool False then ''safe_write'' else ''read_only''))))"

definition read_actions :: "string list" where
  "read_actions = [''list'', ''get'', ''read'', ''download'', ''query'', ''evaluate'', ''preview'', ''history'', ''info'']"

definition infer_operation_action :: "jv \<Rightarrow> jv \<Rightarrow> string" where
  "infer_operation_action operation tool =
     (let i = js_string (js_or (js_or (prop_of operation ''id'') (prop_of tool ''operationId'')) (JStr []));
          parts = filter (\<lambda>p. p \<noteq> []) (split_on CHR ''.'' i)
      in if truthy (prop_of operation ''action'') then js_string (prop_of operation ''action'')
         else if i = [] then (if prop_of tool ''readOnly'' = JBool False then ''write'' else ''read'')
         else if parts \<noteq> [] \<and> last parts \<in> set read_actions then ''read'' else ''write'')"

definition required_scopes_for :: "jv \<Rightarrow> jv \<Rightarrow> string list" where
  "required_scopes_for operation tool =
     unique_of (list_of (prop_of operation ''requiredScopes'') @ list_of (prop_of tool ''requiredScopes''))"

definition grant_has_toolset :: "jv \<Rightarrow> jv \<Rightarrow> bool" where
  "grant_has_toolset grant tool \<longleftrightarrow>
     \<not> truthy tool \<or> list_of (prop_of grant ''toolsets'') = [] \<or>
     list_ex (\<lambda>t. t \<in> set (list_of (prop_of grant ''toolsets''))) (list_of (prop_of tool ''toolsets''))"

definition toolset_misses :: "jv \<Rightarrow> jv \<Rightarrow> string list" where
  "toolset_misses grant tool =
     (if \<not> truthy tool \<or> list_of (prop_of grant ''toolsets'') = [] then []
      else filter (\<lambda>t. t \<notin> set (unique_of (list_of (prop_of grant ''toolsets'')))) (unique_of (list_of (prop_of tool ''toolsets''))))"

definition max_risk_allowed :: "jv \<Rightarrow> jv \<Rightarrow> jv \<Rightarrow> jv \<Rightarrow> jv" where
  "max_risk_allowed profile grant subject fallback =
     (case filter truthy [prop_of profile ''maxRisk'', prop_of grant ''maxRisk'', prop_of (prop_of grant ''metadata'') ''maxRisk'', prop_of subject ''maxRisk''] of
        [] \<Rightarrow> fallback
      | c # cs \<Rightarrow> foldl (\<lambda>lowest item. if rank_above lowest item then item else lowest) c cs)"

definition ends_with :: "string \<Rightarrow> string \<Rightarrow> bool" where
  "ends_with suffix s \<longleftrightarrow> is_prefix (rev suffix) (rev s)"

definition effective_subject_capabilities :: "jv \<Rightarrow> jv list" where
  "effective_subject_capabilities subject =
     (let cs = list_of (prop_of subject ''capabilities'')
      in if boundary_bypass subject then cs else filter (\<lambda>c. \<not> ends_with '':*'' (authz_text c)) cs)"

definition approved_pending_operation_matches :: "jv \<Rightarrow> jv \<Rightarrow> bool" where
  "approved_pending_operation_matches context operation =
     (case prop_of context ''approvedPendingOperation'' of
        JObj ps \<Rightarrow>
          (let text = (\<lambda>v. js_string (js_or v (JStr [])));
               approved_id = text (jget ps ''operationId''); scope = text (jget ps ''approvalScope'');
               required = text (prop_of (prop_of operation ''safety'') ''approvalScope'')
           in text (jget ps ''status'') \<in> {''approved'', ''completed''} \<and>
              (approved_id = [] \<or> approved_id = text (prop_of operation ''id'')) \<and> (required = [] \<or> scope = required))
      | _ \<Rightarrow> False)"

section \<open>Compiled facts\<close>

text \<open>The revisions and the cache key the code stores with the facts take part in no decision.\<close>

record compiled_facts =
  cf_subject :: jv
  cf_scopes :: "string list"
  cf_capabilities :: "string list"
  cf_missing_toolsets :: "string list"
  cf_origins :: "string list"
  cf_cidrs :: "ip_predicate list"
  cf_max_uses :: rat
  cf_max_risk :: jv
  cf_tool_deny :: "string list"
  cf_tool_allow :: "string list"
  cf_profile_deny :: "string list"
  cf_profile_allow :: "string list"
  cf_abac :: abac_facts

datatype compile_error = MalformedOrigin | MalformedCidr | MalformedMaxUses

definition normalize_origin_entry :: "platform \<Rightarrow> jv \<Rightarrow> string" where
  "normalize_origin_entry pf v =
     (let raw = strip_slashes (authz_text v)
      in if raw = [] then []
         else case pf_url pf raw of
                None \<Rightarrow> []
              | Some u \<Rightarrow>
                  if u_protocol u \<in> {''http:'', ''https:''} \<and> u_host u \<noteq> [] then strip_slashes (u_protocol u @ ''//'' @ u_host u) else [])"

definition compile_origins :: "platform \<Rightarrow> jv \<Rightarrow> compile_error + string list" where
  "compile_origins pf policy =
     (let os = map (normalize_origin_entry pf) (list_of (prop_of policy ''allowedOrigins''))
      in if [] \<in> set os then Inl MalformedOrigin else Inr os)"

definition compile_cidrs :: "jv \<Rightarrow> compile_error + ip_predicate list" where
  "compile_cidrs policy =
     (let rs = map compile_ip_rule (list_of (prop_of policy ''allowedCidrs''))
      in if None \<in> set rs then Inl MalformedCidr else Inr (map the rs))"

definition compile_max_uses :: "jv \<Rightarrow> compile_error + rat" where
  "compile_max_uses policy =
     (let raw = prop_of policy ''maxUses''
      in if raw = JUndef \<or> raw = JNull \<or> trim (js_string raw) = [] then Inr 0
         else case to_number raw of
                None \<Rightarrow> Inl MalformedMaxUses
              | Some n \<Rightarrow> if n = of_int \<lfloor>n\<rfloor> \<and> 0 \<le> n \<and> n \<le> 9007199254740991 then Inr n else Inl MalformedMaxUses)"

definition policy_of_input :: "authz_input \<Rightarrow> jv" where
  "policy_of_input i = js_or (ai_grant i) (ai_restriction i)"

definition subject_of_input :: "catalog \<Rightarrow> authz_input \<Rightarrow> jv" where
  "subject_of_input c i = resolve_authorization_subject c (ai_subject i) (ai_actor i) (ai_session i) (policy_of_input i)"

definition compile_facts :: "platform \<Rightarrow> catalog \<Rightarrow> authz_input \<Rightarrow> compile_error + compiled_facts" where
  "compile_facts pf c i =
     (let policy = policy_of_input i; subject = subject_of_input c i; tool = ai_tool i; profile = ai_profile i in
      ebind (compile_origins pf policy) (\<lambda>origins.
      ebind (compile_cidrs policy) (\<lambda>cidrs.
      ebind (compile_max_uses policy) (\<lambda>max_uses.
      Inr \<lparr>cf_subject = subject, cf_scopes = unique_of (list_of (prop_of subject ''scopes'')),
           cf_capabilities = unique_of (effective_subject_capabilities subject),
           cf_missing_toolsets =
             (if list_of (prop_of policy ''toolsets'') = [] then []
              else filter (\<lambda>t. t \<notin> set (unique_of (list_of (prop_of policy ''toolsets'')))) (unique_of (list_of (prop_of tool ''toolsets'')))),
           cf_origins = origins, cf_cidrs = cidrs, cf_max_uses = max_uses,
           cf_max_risk = max_risk_allowed profile policy subject
             (JStr (if ai_grant_required i = JBool True \<or> truthy policy \<or> truthy tool then ''safe_write'' else ''destructive'')),
           cf_tool_deny = unique_of (list_of (prop_of policy ''toolDeny'')), cf_tool_allow = unique_of (list_of (prop_of policy ''toolAllow'')),
           cf_profile_deny = unique_of (list_of (prop_of profile ''toolDeny'')), cf_profile_allow = unique_of (list_of (prop_of profile ''toolAllow'')),
           cf_abac = compile_abac_facts subject policy profile\<rparr>))))"

section \<open>The decision\<close>

record authz_decision =
  ad_effect :: string
  ad_reason :: string
  ad_operation_id :: string
  ad_subject :: jv
  ad_risk :: jv
  ad_required_capabilities :: "string list"
  ad_missing_capabilities :: "string list"
  ad_required_scopes :: "string list"
  ad_missing_scopes :: "string list"
  ad_missing_toolsets :: "string list"

definition ad_allowed :: "authz_decision \<Rightarrow> bool" where
  "ad_allowed d \<longleftrightarrow> ad_effect d \<in> {''allow'', ''dry_run_only''}"

text \<open>\<open>hasCompiledCapability\<close>.\<close>

definition has_compiled_capability :: "string list \<Rightarrow> string \<Rightarrow> bool" where
  "has_compiled_capability cs capability \<longleftrightarrow>
     (let i = trim capability in
      i = [] \<or> ''cap:*'' \<in> set cs \<or> i \<in> set cs \<or> (is_prefix ''cap:api:'' i \<and> ''cap:api:*'' \<in> set cs) \<or>
      (is_prefix ''cap:tool:'' i \<and> ''cap:tool:*'' \<in> set cs))"

definition required_capabilities :: "catalog \<Rightarrow> authz_input \<Rightarrow> string list" where
  "required_capabilities c i =
     unique_of (map JStr (required_capabilities_for c (ai_operation i) (ai_tool i) @ strings_from [prop_of (ai_context i) ''requiredCapabilities'']))"

definition missing_capabilities :: "catalog \<Rightarrow> compiled_facts option \<Rightarrow> jv \<Rightarrow> authz_input \<Rightarrow> string list" where
  "missing_capabilities c facts subject i =
     (if required_capabilities c i \<noteq> [] \<and> js_string (js_or (prop_of subject ''type'') (JStr [])) \<noteq> ''console-user'' \<and>
         prop_of (ai_context i) ''skipAuthorization'' \<noteq> JBool True
      then filter (\<lambda>k. case facts of
             Some f \<Rightarrow> \<not> has_compiled_capability (cf_capabilities f) k
           | None \<Rightarrow> \<not> has_capability (effective_subject_capabilities subject) k) (required_capabilities c i)
      else [])"

definition missing_scopes :: "compiled_facts option \<Rightarrow> jv \<Rightarrow> authz_input \<Rightarrow> string list" where
  "missing_scopes facts subject i =
     (let held = (case facts of Some f \<Rightarrow> cf_scopes f | None \<Rightarrow> unique_of (list_of (prop_of subject ''scopes'')))
      in filter (\<lambda>s. s \<notin> set held) (required_scopes_for (ai_operation i) (ai_tool i)))"

definition needs_approval :: "authz_input \<Rightarrow> bool" where
  "needs_approval i \<longleftrightarrow>
     operation_risk (ai_operation i) (ai_tool i) = JStr ''destructive'' \<or> truthy (prop_of (ai_tool i) ''destructive'') \<or>
     truthy (prop_of (ai_tool i) ''requiresApproval'') \<or> prop_of (ai_operation i) ''requiresApproval'' = JBool True \<or>
     prop_of (prop_of (ai_operation i) ''safety'') ''requiresApproval'' = JBool True"

definition expired :: "platform \<Rightarrow> jv \<Rightarrow> bool" where
  "expired pf policy \<longleftrightarrow>
     truthy (prop_of policy ''expiresAt'') \<and>
     (case pf_date pf (js_string (prop_of policy ''expiresAt'')) of None \<Rightarrow> False | Some t \<Rightarrow> t \<le> pf_now pf)"

definition uses_exhausted :: "jv \<Rightarrow> bool" where
  "uses_exhausted policy =
     (case (to_number (js_or (prop_of policy ''maxUses'') (JNum 0)), to_number (js_or (prop_of policy ''useCount'') (JNum 0))) of
        (Some m, Some n) \<Rightarrow> m > 0 \<and> n \<ge> m
      | _ \<Rightarrow> False)"

definition origin_refused :: "platform \<Rightarrow> compiled_facts option \<Rightarrow> jv \<Rightarrow> jv \<Rightarrow> bool" where
  "origin_refused pf facts policy request =
     (let allowed = (case facts of
            Some f \<Rightarrow> cf_origins f
          | None \<Rightarrow> map (\<lambda>o'. strip_slashes (js_string (js_or o' (JStr [])))) (list_of (prop_of policy ''allowedOrigins'')))
      in allowed \<noteq> [] \<and> (request_origin pf request = [] \<or> request_origin pf request \<notin> set allowed))"

definition source_refused :: "platform \<Rightarrow> compiled_facts option \<Rightarrow> jv \<Rightarrow> jv \<Rightarrow> bool" where
  "source_refused pf facts policy request =
     (let ip = JStr (source_ip pf request) in
      case facts of
        Some f \<Rightarrow> cf_cidrs f \<noteq> [] \<and> \<not> list_ex (\<lambda>r. ip_matches_predicate ip (Some r)) (cf_cidrs f)
      | None \<Rightarrow> list_of (prop_of policy ''allowedCidrs'') \<noteq> [] \<and> \<not> list_ex (ip_matches_rule ip) (list_of (prop_of policy ''allowedCidrs'')))"

text \<open>A tool list: its strings when compiled, its raw entries otherwise.\<close>

definition tool_list :: "(compiled_facts \<Rightarrow> string list) \<Rightarrow> compiled_facts option \<Rightarrow> jv \<Rightarrow> jv list" where
  "tool_list compiled facts raw = (case facts of Some f \<Rightarrow> map JStr (compiled f) | None \<Rightarrow> list_of raw)"

text \<open>The chain of the decision: the first line that applies gives effect and reason.\<close>

definition gates :: "platform \<Rightarrow> catalog \<Rightarrow> jv \<Rightarrow> compiled_facts option \<Rightarrow> authz_input \<Rightarrow> jv \<Rightarrow> (bool \<times> string \<times> string) list" where
  "gates pf c gov facts i subject =
     (let operation = ai_operation i; tool = ai_tool i; context = ai_context i; policy = policy_of_input i; profile = ai_profile i;
          text = (\<lambda>v. js_string (js_or v (JStr [])));
          governs = (\<lambda>e. truthy (prop_of gov ''applicable'') \<and> prop_of gov ''effect'' = JStr e);
          abac = abac_denial (map_option cf_abac facts) subject policy profile
            (resolve_resource_context operation tool (ai_input i) context);
          tool_id = text (prop_of tool ''id''); named = (\<lambda>xs. JStr tool_id \<in> set xs);
          deny = tool_list cf_tool_deny facts (prop_of policy ''toolDeny''); allow = tool_list cf_tool_allow facts (prop_of policy ''toolAllow'');
          pdeny = tool_list cf_profile_deny facts (prop_of profile ''toolDeny''); pallow = tool_list cf_profile_allow facts (prop_of profile ''toolAllow'');
          ceiling = (case facts of Some f \<Rightarrow> cf_max_risk f
            | None \<Rightarrow> max_risk_allowed profile policy subject
                (JStr (if truthy (ai_grant_required i) \<or> truthy policy \<or> truthy tool then ''safe_write'' else ''destructive'')))
      in [(governs ''deny'', ''deny'', text (prop_of gov ''reasonCode'')),
          (governs ''needsApproval'', ''needsApproval'', text (prop_of gov ''reasonCode'')),
          (governs ''allow'', ''allow'', text (js_or (prop_of gov ''reasonCode'') (JStr ''governance_allowed''))),
          (tool \<in> {JUndef, JNull} \<and> prop_of context ''toolExpected'' = JBool True, ''deny'', ''unknown_tool''),
          (abac \<noteq> None, ''deny'', or_else [] abac),
          (truthy tool \<and> prop_of tool ''status'' \<noteq> JStr ''active'', ''deny'', ''tool_inactive''),
          (truthy (ai_grant_required i) \<and> \<not> truthy policy, ''deny'', ''missing_credential''),
          (expired pf policy, ''deny'', ''grant_expired''),
          (uses_exhausted policy, ''deny'', ''grant_max_uses''),
          (origin_refused pf facts policy (ai_request i), ''deny'', ''origin_not_allowed''),
          (source_refused pf facts policy (ai_request i), ''deny'', ''cidr_not_allowed''),
          (prop_of context ''grantRateLimited'' = JBool True \<or> prop_of context ''rateLimited'' = JBool True, ''deny'', ''rate_limited''),
          (prop_of operation ''externalAuth'' = JBool True \<and> prop_of context ''externalAuthVerified'' \<noteq> JBool True, ''deny'', ''external_auth_not_verified''),
          (prop_of operation ''public'' = JBool True, ''allow'', ''allowed_public''),
          (prop_of operation ''externalAuth'' = JBool True \<and> prop_of context ''externalAuthVerified'' = JBool True, ''allow'', ''allowed_external_auth_verified''),
          (missing_capabilities c facts subject i \<noteq> [], ''deny'', ''missing_capabilities''),
          (missing_scopes facts subject i \<noteq> [], ''deny'', ''missing_scopes''),
          (\<not> grant_has_toolset policy tool, ''deny'', ''missing_toolsets''),
          (tool_id \<noteq> [] \<and> named deny, ''deny'', ''tool_denied''),
          (tool_id \<noteq> [] \<and> allow \<noteq> [] \<and> \<not> named allow, ''deny'', ''tool_not_allowed''),
          (tool_id \<noteq> [] \<and> named pdeny, ''deny'', ''profile_tool_denied''),
          (tool_id \<noteq> [] \<and> pallow \<noteq> [] \<and> \<not> named pallow, ''deny'', ''profile_tool_not_allowed''),
          (rank_above (operation_risk operation tool) ceiling, ''deny'', ''risk_exceeds_policy''),
          (needs_approval i \<and> \<not> approved_pending_operation_matches context operation, ''require_approval'', ''approval_receipt_required''),
          ((ai_enforce_confirmation i = JUndef \<or> truthy (ai_enforce_confirmation i)) \<and>
             (truthy (prop_of tool ''destructive'') \<or> truthy (prop_of tool ''requiresApproval'') \<or> truthy (prop_of (prop_of operation ''safety'') ''requiresConfirmation'')) \<and>
             \<not> has_confirmation (ai_input i) (ai_request i), ''require_confirmation'', ''confirmation_required''),
          (truthy (ai_dry_run i), ''dry_run_only'', ''dry_run'')])"

definition first_gate :: "(bool \<times> string \<times> string) list \<Rightarrow> string \<times> string" where
  "first_gate gs = or_else (''allow'', ''allowed'') (map_option snd (find fst gs))"

definition evaluate_policy :: "platform \<Rightarrow> catalog \<Rightarrow> jv \<Rightarrow> compiled_facts option \<Rightarrow> authz_input \<Rightarrow> authz_decision" where
  "evaluate_policy pf c gov facts i =
     (let subject = (case facts of Some f \<Rightarrow> cf_subject f | None \<Rightarrow> subject_of_input c i); (effect, reason) = first_gate (gates pf c gov facts i subject)
      in \<lparr>ad_effect = effect, ad_reason = reason,
          ad_operation_id = js_string (js_or (js_or (prop_of (ai_operation i) ''id'') (prop_of (ai_tool i) ''operationId'')) (JStr [])),
          ad_subject = subject, ad_risk = operation_risk (ai_operation i) (ai_tool i),
          ad_required_capabilities = required_capabilities c i, ad_missing_capabilities = unique_of (map JStr (missing_capabilities c facts subject i)),
          ad_required_scopes = required_scopes_for (ai_operation i) (ai_tool i), ad_missing_scopes = unique_of (map JStr (missing_scopes facts subject i)),
          ad_missing_toolsets =
            (if effect = ''deny'' then unique_of (map JStr (case facts of Some f \<Rightarrow> cf_missing_toolsets f | None \<Rightarrow> toolset_misses (policy_of_input i) (ai_tool i)))
             else [])\<rparr>)"

definition compile_reason :: "compile_error \<Rightarrow> string" where
  "compile_reason e = (case e of MalformedOrigin \<Rightarrow> ''malformed_credential_origin'' | MalformedCidr \<Rightarrow> ''malformed_credential_cidr''
     | MalformedMaxUses \<Rightarrow> ''malformed_credential_max_uses'')"

text \<open>The subject of a malformed credential is resolved with the grant alone.\<close>

definition malformed_decision :: "catalog \<Rightarrow> compile_error \<Rightarrow> authz_input \<Rightarrow> authz_decision" where
  "malformed_decision c e i =
     \<lparr>ad_effect = ''deny'', ad_reason = compile_reason e,
      ad_operation_id = js_string (js_or (js_or (prop_of (ai_operation i) ''id'') (prop_of (ai_tool i) ''operationId'')) (JStr [])),
      ad_subject = resolve_authorization_subject c (ai_subject i) (ai_actor i) (ai_session i) (ai_grant i),
      ad_risk = operation_risk (ai_operation i) (ai_tool i),
      ad_required_capabilities = required_capabilities_for c (ai_operation i) (ai_tool i), ad_missing_capabilities = [],
      ad_required_scopes = required_scopes_for (ai_operation i) (ai_tool i), ad_missing_scopes = [], ad_missing_toolsets = []\<rparr>"

text \<open>\<open>evaluate\<close> of the engine without its cache.\<close>

definition engine_decision :: "platform \<Rightarrow> catalog \<Rightarrow> (authz_input \<Rightarrow> jv \<Rightarrow> jv) \<Rightarrow> authz_input \<Rightarrow> authz_decision" where
  "engine_decision pf c gov i =
     (case compile_facts pf c i of
        Inl e \<Rightarrow> malformed_decision c e i
      | Inr f \<Rightarrow> evaluate_policy pf c (gov i (cf_subject f)) (Some f) i)"

end
