(* ===== verification/JsonSame.thy ===== *)
theory JsonSame imports AuthzEngine CanonicalJson "HOL-Library.Multiset" begin

text \<open>
  Values with one canonical text (\<open>canonicalJsonString\<close>): what the authorization engine reads of
  them is the same. Such values may differ in the order of their properties and in null for undefined.
\<close>

section \<open>Values with one canonical text\<close>

definition same :: "jv \<Rightarrow> jv \<Rightarrow> bool" where
  "same v w \<longleftrightarrow> normal v = normal w"

lemma same_refl [simp]: "same v v"
  by (simp add: same_def)

lemma same_sym: "same v w \<Longrightarrow> same w v"
  by (simp add: same_def)

lemma normal_truthy: "truthy (normal v) = truthy v"
  by (cases v) auto

lemma same_truthy: "same v w \<Longrightarrow> truthy v = truthy w"
  by (metis normal_truthy same_def)

lemma normal_eq_JNull: "normal v = JNull \<longleftrightarrow> v = JUndef \<or> v = JNull"
  by (cases v) auto

lemma normal_eq_JStr: "normal v = JStr s \<longleftrightarrow> v = JStr s"
  by (cases v) auto

lemma normal_eq_JBool: "normal v = JBool b \<longleftrightarrow> v = JBool b"
  by (cases v) auto

lemma normal_eq_JNum: "normal v = JNum n \<longleftrightarrow> v = JNum n"
  by (cases v) auto

lemma js_string_normal: "v \<noteq> JUndef \<Longrightarrow> js_string (normal v) = js_string v"
proof (induction v)
  case (JArr xs)
  let ?f = "\<lambda>x. if x = JUndef \<or> x = JNull then [] else js_string x"
  have "?f (normal x) = ?f x" if "x \<in> set xs" for x
    using JArr.IH [OF that] by (cases x) auto
  then have "map ?f (map normal xs) = map ?f xs" by simp
  then show ?case by (simp only: normal.simps js_string.simps)
qed simp_all

lemma same_js_string: "same v w \<Longrightarrow> truthy v \<Longrightarrow> js_string v = js_string w"
proof -
  assume s: "same v w" and t: "truthy v"
  have "v \<noteq> JUndef" using t by auto
  moreover have "w \<noteq> JUndef" using same_truthy [OF s] t by auto
  ultimately show ?thesis using s js_string_normal [of v] js_string_normal [of w] by (simp add: same_def)
qed

lemma same_or_string: "same v w \<Longrightarrow> js_string (js_or v (JStr s)) = js_string (js_or w (JStr s))"
  using same_truthy [of v w] same_js_string [of v w] by (simp add: js_or_def)

lemma same_js_or: "same v w \<Longrightarrow> same v' w' \<Longrightarrow> same (js_or v v') (js_or w w')"
  using same_truthy [of v w] by (simp add: js_or_def)

lemma same_authz_text: "same v w \<Longrightarrow> authz_text v = authz_text w"
  by (simp add: authz_text_def same_or_string [of v w])

lemma same_JStr: "same v w \<Longrightarrow> v = JStr s \<longleftrightarrow> w = JStr s"
  by (metis normal_eq_JStr same_def)

lemma same_JBool: "same v w \<Longrightarrow> v = JBool b \<longleftrightarrow> w = JBool b"
  by (metis normal_eq_JBool same_def)

lemma same_null: "same v w \<Longrightarrow> v = JUndef \<or> v = JNull \<longleftrightarrow> w = JUndef \<or> w = JNull"
  by (metis normal_eq_JNull same_def)

section \<open>Properties of objects with one text\<close>

lemma map_of_filter_key: "map_of ps k = (case filter (\<lambda>p. fst p = k) ps of [] \<Rightarrow> None | p # _ \<Rightarrow> Some (snd p))"
  by (induction ps) auto

lemma map_of_sort_key: "map_of (sort_key fst ps) k = map_of ps k"
proof -
  have "filter (\<lambda>p. fst p = k) (sort_key fst ps) = filter (\<lambda>p. fst p = k) ps" by (rule sort_key_stable)
  then show ?thesis unfolding map_of_filter_key by simp
qed

lemma map_of_normal: "map_of (sort_key fst (map (\<lambda>(k, x). (k, normal x)) ps)) k = map_option normal (map_of ps k)"
  by (simp add: map_of_sort_key map_of_map)

lemma same_jget: "same (JObj ps) (JObj qs) \<Longrightarrow> same (jget ps k) (jget qs k)"
proof -
  assume "same (JObj ps) (JObj qs)"
  then have "map_option normal (map_of ps k) = map_option normal (map_of qs k)"
    by (metis map_of_normal normal.simps(3) same_def jv.inject(5))
  then show ?thesis by (cases "map_of ps k"; cases "map_of qs k") (auto simp: jget_def same_def)
qed

lemma same_kind: "same v w \<Longrightarrow> (\<exists>ps. v = JObj ps) = (\<exists>qs. w = JObj qs)"
  by (cases v; cases w) (auto simp: same_def)

lemma prop_of_no_object: "\<not> (\<exists>ps. v = JObj ps) \<Longrightarrow> prop_of v k = JUndef"
  by (cases v) (auto simp: prop_of_def jget_def)

lemma same_prop_of:
  assumes "same v w"
  shows "same (prop_of v k) (prop_of w k)"
proof (cases "\<exists>ps. v = JObj ps")
  case True
  then show ?thesis using same_kind [OF assms] same_jget assms by (auto simp: prop_of_def)
next
  case False
  then show ?thesis using same_kind [OF assms] by (simp add: prop_of_no_object)
qed

section \<open>Lists\<close>

lemma same_lists: "list_all2 same vs ws \<longleftrightarrow> map normal vs = map normal ws"
proof (induction vs arbitrary: ws)
  case (Cons v vs)
  then show ?case by (cases ws) (auto simp: same_def)
qed simp

lemma same_list_of: "same v w \<Longrightarrow> list_all2 same (list_of v) (list_of w)"
  by (cases v; cases w) (simp_all add: same_def list_of_def same_lists)

lemma same_strings_from_one: "same v w \<Longrightarrow> list_all2 same (strings_from_one v) (strings_from_one w)"
  by (cases v; cases w) (simp_all add: same_def strings_from_one_def same_lists)

lemma same_unique_of: "list_all2 same vs ws \<Longrightarrow> unique_of vs = unique_of ws"
proof -
  assume "list_all2 same vs ws"
  then have "map authz_text vs = map authz_text ws" by (induction rule: list_all2_induct) (auto intro: same_authz_text)
  then show ?thesis by (simp add: unique_of_def)
qed

lemma same_first_string: "list_all2 same vs ws \<Longrightarrow> first_string vs = first_string ws"
proof -
  assume "list_all2 same vs ws"
  then have "map authz_text vs = map authz_text ws" by (induction rule: list_all2_induct) (auto intro: same_authz_text)
  then show ?thesis by (simp add: first_string_def)
qed

lemma same_strings_from: "list_all2 same vs ws \<Longrightarrow> strings_from vs = strings_from ws"
proof -
  assume "list_all2 same vs ws"
  then have "list_all2 same (concat (map strings_from_one vs)) (concat (map strings_from_one ws))"
    by (induction rule: list_all2_induct) (auto intro: list_all2_appendI same_strings_from_one)
  then show ?thesis by (simp add: strings_from_def same_unique_of)
qed

lemma same_risk_rank: "same v w \<Longrightarrow> risk_rank v = risk_rank w"
  by (simp add: risk_rank_def same_or_string [of v w])

lemma same_foldr_or: "list_all2 same vs ws \<Longrightarrow> same (foldr js_or vs (JStr [])) (foldr js_or ws (JStr []))"
  by (induction rule: list_all2_induct) (auto intro: same_js_or)

lemma same_or_text: "list_all2 same vs ws \<Longrightarrow> or_text vs = or_text ws"
proof -
  assume s: "list_all2 same vs ws"
  have u: "foldr js_or vs (JStr []) \<noteq> JUndef" for vs by (induction vs) (auto simp: js_or_def)
  show ?thesis using same_foldr_or [OF s] js_string_normal [OF u, of vs] js_string_normal [OF u, of ws]
    by (simp add: or_text_def same_def)
qed

section \<open>Objects with one text\<close>

lemma mset_by_keys: "(\<forall>k. filter (\<lambda>p. fst p = k) xs = filter (\<lambda>p. fst p = k) ys) \<Longrightarrow> mset xs = mset ys"
proof (rule multiset_eqI)
  fix p
  assume "\<forall>k. filter (\<lambda>p. fst p = k) xs = filter (\<lambda>p. fst p = k) ys"
  then have "count (mset (filter (\<lambda>q. fst q = fst p) xs)) p = count (mset (filter (\<lambda>q. fst q = fst p) ys)) p" by simp
  then show "count (mset xs) p = count (mset ys) p" by (simp add: mset_filter)
qed

lemma sort_key_by_keys:
  "sort_key fst xs = sort_key fst ys \<longleftrightarrow> (\<forall>k. filter (\<lambda>p. fst p = k) xs = filter (\<lambda>p. fst p = k) ys)"
proof
  assume "sort_key fst xs = sort_key fst ys"
  then show "\<forall>k. filter (\<lambda>p. fst p = k) xs = filter (\<lambda>p. fst p = k) ys" by (metis sort_key_stable)
next
  assume e: "\<forall>k. filter (\<lambda>p. fst p = k) xs = filter (\<lambda>p. fst p = k) ys"
  have flip: "filter (\<lambda>x. k = fst x) zs = filter (\<lambda>x. fst x = k) zs" for k and zs
    by (rule filter_cong) auto
  show "sort_key fst xs = sort_key fst ys"
  proof (rule properties_for_sort_key)
    show "mset (sort_key fst ys) = mset xs" using mset_by_keys [OF e] by simp
    fix p
    show "filter (\<lambda>x. fst p = fst x) (sort_key fst ys) = filter (\<lambda>x. fst p = fst x) xs"
      using e unfolding flip sort_key_stable by simp
  next
    show "sorted (map fst (sort_key fst ys))" by simp
  qed
qed

lemma same_objects:
  "same (JObj ps) (JObj qs) \<longleftrightarrow>
     (\<forall>k. map (normal \<circ> snd) (filter (\<lambda>p. fst p = k) ps) = map (normal \<circ> snd) (filter (\<lambda>p. fst p = k) qs))"
proof -
  let ?n = "map (\<lambda>(k, x). (k, normal x))"
  have by_key: "filter (\<lambda>p. fst p = k) (?n ps) = map (\<lambda>x. (k, x)) (map (normal \<circ> snd) (filter (\<lambda>p. fst p = k) ps))" for k ps
    by (induction ps) auto
  have pair: "map (\<lambda>x. (k, x)) xs = map (\<lambda>x. (k, x)) ys \<longleftrightarrow> xs = ys" for k :: string and xs ys :: "jv list"
    by (intro inj_map_eq_map) (simp add: inj_def)
  have "same (JObj ps) (JObj qs) \<longleftrightarrow> sort_key fst (?n ps) = sort_key fst (?n qs)" by (simp add: same_def)
  then show ?thesis unfolding sort_key_by_keys by_key pair .
qed

lemma keys_by_filter: "k \<in> fst ` set ps \<longleftrightarrow> filter (\<lambda>p. fst p = k) ps \<noteq> []"
  by (auto simp: filter_empty_conv image_iff)

lemma same_spread:
  assumes "same (JObj ps) (JObj ps')" and "same (JObj qs) (JObj qs')"
  shows "same (JObj (spread ps qs)) (JObj (spread ps' qs'))"
proof -
  have part: "filter (\<lambda>p. fst p = k) (spread ps qs) =
      (if k \<in> fst ` set qs then filter (\<lambda>p. fst p = k) qs else filter (\<lambda>p. fst p = k) ps)" for k and ps qs :: "(string \<times> jv) list"
  proof -
    have "filter (\<lambda>p. fst p = k) (filter (\<lambda>p. fst p \<notin> fst ` set qs) ps) = (if k \<in> fst ` set qs then [] else filter (\<lambda>p. fst p = k) ps)"
      by (auto simp: filter_empty_conv intro: filter_cong)
    moreover have "k \<notin> fst ` set qs \<Longrightarrow> filter (\<lambda>p. fst p = k) qs = []" by (simp add: keys_by_filter)
    ultimately show ?thesis by (simp add: spread_def)
  qed
  have "k \<in> fst ` set qs \<longleftrightarrow> k \<in> fst ` set qs'" for k
    using assms(2) unfolding same_objects keys_by_filter by (metis map_is_Nil_conv)
  then show ?thesis using assms by (simp add: same_objects part)
qed

lemma same_as_record: "same v w \<Longrightarrow> same (JObj (as_record v)) (JObj (as_record w))"
  by (cases v; cases w) (simp_all add: same_def)

lemma same_fields: "list_all2 (rel_prod (=) same) ps qs \<Longrightarrow> same (JObj ps) (JObj qs)"
proof -
  assume "list_all2 (rel_prod (=) same) ps qs"
  then have "map (\<lambda>(k, x). (k, normal x)) ps = map (\<lambda>(k, x). (k, normal x)) qs"
    by (induction rule: list_all2_induct) (auto simp: same_def)
  then show ?thesis by (simp add: same_def)
qed

section \<open>Facts with one key\<close>

definition live_keys :: "string set" where
  "live_keys = {''expiresAt'', ''useCount''}"

definition fact_eq :: "string set \<Rightarrow> jv \<Rightarrow> jv \<Rightarrow> bool" where
  "fact_eq D v w \<longleftrightarrow> truthy v = truthy w \<and> (\<exists>ps. v = JObj ps) = (\<exists>qs. w = JObj qs) \<and> (\<forall>k. k \<notin> D \<longrightarrow> same (prop_of v k) (prop_of w k))"

lemma same_fact_eq: "same v w \<Longrightarrow> fact_eq D v w"
  using same_truthy same_kind same_prop_of by (simp add: fact_eq_def)

lemma fact_eq_mono: "fact_eq {} v w \<Longrightarrow> fact_eq D v w"
  by (simp add: fact_eq_def)

lemma fact_eq_js_or: "fact_eq D a b \<Longrightarrow> fact_eq D c d \<Longrightarrow> fact_eq D (js_or a c) (js_or b d)"
  by (auto simp: fact_eq_def js_or_def)

lemma fact_eq_prop: "fact_eq D v w \<Longrightarrow> k \<notin> D \<Longrightarrow> same (prop_of v k) (prop_of w k)"
  by (simp add: fact_eq_def)

lemma alts_same:
  "list_all2 (fact_eq D) src src' \<Longrightarrow> set keys \<inter> D = {} \<Longrightarrow> list_all2 same (alts src keys) (alts src' keys)"
proof (induction rule: list_all2_induct)
  case (Cons s src s' src')
  then have "list_all2 same (map (prop_of s) keys) (map (prop_of s') keys)"
    by (auto simp: list_all2_map1 list_all2_map2 list_all2_same fact_eq_def)
  then show ?case using Cons by (simp add: alts_def list_all2_appendI)
qed (simp add: alts_def)

lemma falsy_no_object: "\<not> truthy v \<Longrightarrow> prop_of v k = JUndef"
  by (cases v) (auto simp: prop_of_def jget_def)

end
