(* ===== verification/AuthzCache.thy ===== *)
theory AuthzCache imports JsonSame begin

text \<open>
  The cache of compiled facts in
  \<open>packages/foundation/src/security/authorization/authorization-engine.ts\<close> (\<open>exactCompiledFactKey\<close>,
  \<open>compiledFactsFor\<close>). The weighted cache comes from a package: which entries it drops when one is
  added is an argument. The counters of the instrumentation and a failing cache are left out.
\<close>

section \<open>The key\<close>

definition identity_keys :: "string list" where
  "identity_keys = [''id'', ''subjectId'', ''userId'', ''operationId'', ''profileId'', ''username'']"

definition revision_keys :: "string list" where
  "revision_keys = [''revision'', ''version'', ''policyFingerprint'', ''generation'', ''sourceRevision'', ''catalogRevision'', ''updatedAt'']"

definition first_fact_field :: "(string \<times> jv) list \<Rightarrow> string list \<Rightarrow> string" where
  "first_fact_field ps keys =
     or_else [] (map_option (\<lambda>k. js_string (jget ps k))
       (find (\<lambda>k. jget ps k \<noteq> JUndef \<and> jget ps k \<noteq> JNull \<and> trim (js_string (jget ps k)) \<noteq> []) keys))"

definition compiled_fact_content :: "string \<Rightarrow> (string \<times> jv) list \<Rightarrow> (string \<times> jv) list" where
  "compiled_fact_content label ps =
     (if label = ''policy'' then filter (\<lambda>p. fst p \<noteq> ''expiresAt'' \<and> fst p \<noteq> ''useCount'') ps else ps)"

definition exact_fact_descriptor :: "string \<Rightarrow> jv \<Rightarrow> jv option" where
  "exact_fact_descriptor label v =
     (case v of
        JUndef \<Rightarrow> Some (JArr [JStr label, JStr ''none'', JStr ''none''])
      | JNull \<Rightarrow> Some (JArr [JStr label, JStr ''none'', JStr ''none''])
      | JObj ps \<Rightarrow>
          (let i = first_fact_field ps identity_keys; r = first_fact_field ps revision_keys
           in if i \<noteq> [] \<and> r \<noteq> [] then Some (JArr [JStr label, JStr i, JStr r, JObj (compiled_fact_content label ps)]) else None)
      | _ \<Rightarrow> None)"

definition or_null :: "jv \<Rightarrow> jv" where
  "or_null v = js_or v JNull"

definition key_descriptors :: "authz_input \<Rightarrow> jv option list" where
  "key_descriptors i =
     [exact_fact_descriptor ''policy'' (or_null (policy_of_input i)), exact_fact_descriptor ''profile'' (or_null (ai_profile i)),
      exact_fact_descriptor ''subject'' (or_null (ai_subject i)), exact_fact_descriptor ''actor'' (or_null (ai_actor i)),
      exact_fact_descriptor ''session-user'' (or_null (prop_of (ai_session i) ''user'')), exact_fact_descriptor ''tool'' (or_null (ai_tool i))]"

definition key_value :: "authz_input \<Rightarrow> jv" where
  "key_value i = JArr (map the (key_descriptors i) @ [JArr [JStr ''grant-required'', JBool (ai_grant_required i = JBool True)]])"

definition exact_compiled_fact_key :: "(string \<Rightarrow> string) \<Rightarrow> authz_input \<Rightarrow> string option" where
  "exact_compiled_fact_key sha i =
     (if None \<in> set (key_descriptors i) then None else Some (sha (canonical_text (key_value i))))"

section \<open>The cached engine\<close>

type_synonym fact_cache = "string \<Rightarrow> compiled_facts option"

text \<open>Adding an entry may drop any entries, the new one included.\<close>

definition cache_set :: "(fact_cache \<Rightarrow> string \<Rightarrow> string \<Rightarrow> bool) \<Rightarrow> fact_cache \<Rightarrow> string \<Rightarrow> compiled_facts \<Rightarrow> fact_cache" where
  "cache_set drops cache k f = (\<lambda>j. if drops cache k j then None else (cache(k \<mapsto> f)) j)"

definition compiled_facts_for ::
    "(fact_cache \<Rightarrow> string \<Rightarrow> string \<Rightarrow> bool) \<Rightarrow> (string \<Rightarrow> string) \<Rightarrow> platform \<Rightarrow> catalog \<Rightarrow> fact_cache \<Rightarrow> authz_input \<Rightarrow>
     (compile_error + compiled_facts) \<times> fact_cache" where
  "compiled_facts_for drops sha pf c cache i =
     (case exact_compiled_fact_key sha i of
        None \<Rightarrow> (compile_facts pf c i, cache)
      | Some k \<Rightarrow>
          (case cache k of
             Some f \<Rightarrow> (Inr f, cache)
           | None \<Rightarrow>
               (case compile_facts pf c i of
                  Inl e \<Rightarrow> (Inl e, cache)
                | Inr f \<Rightarrow> (Inr f, cache_set drops cache k f))))"

definition cached_decision ::
    "(fact_cache \<Rightarrow> string \<Rightarrow> string \<Rightarrow> bool) \<Rightarrow> (string \<Rightarrow> string) \<Rightarrow> platform \<Rightarrow> catalog \<Rightarrow> (authz_input \<Rightarrow> jv \<Rightarrow> jv) \<Rightarrow> fact_cache \<Rightarrow>
     authz_input \<Rightarrow> authz_decision \<times> fact_cache" where
  "cached_decision drops sha pf c gov cache i =
     (case compiled_facts_for drops sha pf c cache i of
        (Inl e, cache') \<Rightarrow> (malformed_decision c e i, cache')
      | (Inr f, cache') \<Rightarrow> (evaluate_policy pf c (gov i (cf_subject f)) (Some f) i, cache'))"

section \<open>What a key keeps of a fact\<close>

lemma jget_content: "k \<notin> (if label = ''policy'' then live_keys else {}) \<Longrightarrow> jget (compiled_fact_content label ps) k = jget ps k"
  by (induction ps) (auto simp: jget_def compiled_fact_content_def live_keys_def)

lemma descriptor_fact_eq:
  assumes "exact_fact_descriptor label (or_null v) = Some a" and "exact_fact_descriptor label (or_null w) = Some b" and "same a b"
  shows "fact_eq (if label = ''policy'' then live_keys else {}) v w"
proof (cases "truthy v")
  case False
  then have a: "a = JArr [JStr label, JStr ''none'', JStr ''none'']" using assms(1) by (simp add: or_null_def js_or_def exact_fact_descriptor_def)
  have "\<not> truthy w"
  proof
    assume "truthy w"
    then show False using assms(2,3) a
      by (cases w) (auto simp: or_null_def js_or_def exact_fact_descriptor_def same_def Let_def split: if_splits)
  qed
  then show ?thesis using False by (cases v; cases w) (auto simp: fact_eq_def falsy_no_object)
next
  case True
  then obtain ps where v: "v = JObj ps" and a: "\<exists>i r. a = JArr [JStr label, JStr i, JStr r, JObj (compiled_fact_content label ps)]"
    using assms(1) by (cases v) (auto simp: or_null_def js_or_def exact_fact_descriptor_def Let_def split: if_splits)
  have "truthy w"
  proof (rule ccontr)
    assume "\<not> truthy w"
    then have "b = JArr [JStr label, JStr ''none'', JStr ''none'']" using assms(2) by (simp add: or_null_def js_or_def exact_fact_descriptor_def)
    then show False using assms(3) a by (auto simp: same_def)
  qed
  then obtain qs where w: "w = JObj qs" and b: "\<exists>i r. b = JArr [JStr label, JStr i, JStr r, JObj (compiled_fact_content label qs)]"
    using assms(2) by (cases w) (auto simp: or_null_def js_or_def exact_fact_descriptor_def Let_def split: if_splits)
  have "same (JObj (compiled_fact_content label ps)) (JObj (compiled_fact_content label qs))" using assms(3) a b by (auto simp: same_def)
  then have "same (jget (compiled_fact_content label ps) k) (jget (compiled_fact_content label qs) k)" for k by (rule same_jget)
  then have "k \<notin> (if label = ''policy'' then live_keys else {}) \<Longrightarrow> same (jget ps k) (jget qs k)" for k
    using jget_content [of k label] by metis
  then show ?thesis by (simp add: v w fact_eq_def prop_of_def)
qed

section \<open>Subjects of facts with one key\<close>

abbreviation "fe \<equiv> fact_eq live_keys"

lemma fe_refl [simp]: "fact_eq D v v"
  by (simp add: fact_eq_def)

lemma fe_truthy: "fact_eq D v w \<Longrightarrow> truthy v = truthy w"
  by (simp add: fact_eq_def)

lemma fe_list: "fe v w \<Longrightarrow> k \<notin> live_keys \<Longrightarrow> list_all2 same (list_of (prop_of v k)) (list_of (prop_of w k))"
  by (intro same_list_of fact_eq_prop)

lemma same_object_or_null: "same v w \<Longrightarrow> same (object_or_null v) (object_or_null w)"
  by (cases v; cases w) (simp_all add: same_def object_or_null_def)

lemma live_keys_iff [simp]: "k \<in> live_keys \<longleftrightarrow> k = ''expiresAt'' \<or> k = ''useCount''"
  by (simp add: live_keys_def)

lemma fe_prop: "fe v w \<Longrightarrow> k \<noteq> ''expiresAt'' \<and> k \<noteq> ''useCount'' \<Longrightarrow> same (prop_of v k) (prop_of w k)"
  by (rule fact_eq_prop) auto

lemma same_subject_scopes:
  assumes "fe subject subject'" and "fe actor actor'" and "fe (prop_of session ''user'') (prop_of session' ''user'')" and "fe grant grant'"
  shows "subject_scopes subject actor session grant = subject_scopes subject' actor' session' grant'"
proof -
  have "fe (prop_of actor ''user'') (prop_of actor' ''user'')" using assms(2) by (simp add: same_fact_eq fact_eq_prop)
  then show ?thesis using assms by (simp add: subject_scopes_def same_unique_of list_all2_appendI fe_list)
qed

lemma same_subject_capabilities:
  assumes "fe subject subject'" and "fe actor actor'" and "fe (prop_of session ''user'') (prop_of session' ''user'')" and "fe grant grant'"
  shows "subject_capabilities c subject actor session grant = subject_capabilities c subject' actor' session' grant'"
proof -
  have strings: "list_all2 same vs ws \<Longrightarrow> normalize_kernel_capabilities c vs = normalize_kernel_capabilities c ws" for vs ws
    using same_strings_from [of vs ws] by (simp add: normalize_kernel_capabilities_def)
  show ?thesis unfolding subject_capabilities_def by (rule strings) (use assms in \<open>simp add: fe_prop same_prop_of\<close>)
qed

lemma same_boundary_fields:
  assumes "list_all2 fe src src'" and "list_all2 same tail tail'"
  shows "boundary_fields src tail = boundary_fields src' tail'"
proof -
  have a: "list_all2 same (alts src keys) (alts src' keys)" if "set keys \<inter> live_keys = {}" for keys
    using assms(1) that by (rule alts_same)
  have "\<forall>p\<in>set list_fields. set (snd p) \<inter> live_keys = {}" by (simp add: list_fields_def live_keys_def)
  then have "map (\<lambda>(k, keys). (k, strs (strings_from (alts src keys)))) list_fields =
      map (\<lambda>(k, keys). (k, strs (strings_from (alts src' keys)))) list_fields"
    using same_strings_from [OF a] by auto
  then show ?thesis
    by (simp add: boundary_fields_def same_first_string a assms(2) list_all2_appendI live_keys_def)
qed

lemma same_subject_attributes:
  assumes "fe user user'" and "fe actor actor'" and "fe subject subject'" and "same metadata metadata'"
  shows "same (subject_attributes user actor subject metadata) (subject_attributes user' actor' subject' metadata')"
  unfolding subject_attributes_def using assms
  by (intro same_spread same_as_record fe_prop) (simp_all add: same_fact_eq)

definition user_of :: "jv \<Rightarrow> jv \<Rightarrow> jv" where
  "user_of actor session = js_or (js_or (prop_of session ''user'') (prop_of actor ''user'')) JNull"

definition metadata_of :: "jv \<Rightarrow> jv \<Rightarrow> jv" where
  "metadata_of subject grant = js_or (js_or (object_or_null (prop_of subject ''metadata'')) (object_or_null (prop_of grant ''metadata''))) (JObj [])"

lemma fe_user_of: "fe actor actor' \<Longrightarrow> fe (prop_of session ''user'') (prop_of session' ''user'') \<Longrightarrow> fe (user_of actor session) (user_of actor' session')"
  unfolding user_of_def by (intro fact_eq_js_or) (simp_all add: same_fact_eq fe_prop)

lemma same_metadata_of: "fe subject subject' \<Longrightarrow> fe grant grant' \<Longrightarrow> same (metadata_of subject grant) (metadata_of subject' grant')"
  unfolding metadata_of_def by (intro same_js_or same_object_or_null) (simp_all add: fe_prop)

lemma same_field: "same v w \<Longrightarrow> rel_prod (=) same (k, v) (k, w)"
  by simp

lemma same_fields_refl [simp]: "list_all2 (rel_prod (=) same) rs rs"
  by (intro list.rel_refl) (simp add: rel_prod_sel)

lemma same_plus: "list_all2 (rel_prod (=) same) ps qs \<Longrightarrow> list_all2 (rel_prod (=) same) rs rs' \<Longrightarrow> list_all2 (rel_prod (=) same) (ps @ rs) (qs @ rs')"
  by (rule list_all2_appendI)

lemma same_or_text_field: "list_all2 same vs ws \<Longrightarrow> same (or_text vs) (or_text ws)"
  using same_or_text [of vs ws] by simp

lemma same_given_subject:
  assumes "fe subject subject'" and "fe actor actor'" and "fe (prop_of session ''user'') (prop_of session' ''user'')" and "fe grant grant'"
    and "fe user user'" and "same metadata metadata'"
  shows "list_all2 (rel_prod (=) same) (given_subject c subject actor session grant user metadata)
    (given_subject c subject' actor' session' grant' user' metadata')"
proof -
  have "subject_scopes subject actor session grant = subject_scopes subject' actor' session' grant'"
    using assms(1-4) by (rule same_subject_scopes)
  moreover have "subject_capabilities c subject actor session grant = subject_capabilities c subject' actor' session' grant'"
    using assms(1-4) by (rule same_subject_capabilities)
  moreover have "truthy grant = truthy grant'" "truthy user = truthy user'" using assms by (auto dest: fe_truthy)
  moreover have "boundary_fields [subject, user, grant, metadata] [prop_of user ''userId''] =
      boundary_fields [subject', user', grant', metadata'] [prop_of user' ''userId'']"
    by (rule same_boundary_fields) (use assms in \<open>simp_all add: fe_prop same_fact_eq\<close>)
  ultimately show ?thesis unfolding given_subject_def using assms
    by (simp add: same_plus same_js_or same_or_text_field fe_prop)
qed

lemma same_grant_subject:
  assumes "fe actor actor'" and "fe (prop_of session ''user'') (prop_of session' ''user'')" and "fe grant grant'" and "same metadata metadata'"
  shows "list_all2 (rel_prod (=) same) (grant_subject c actor session grant metadata) (grant_subject c actor' session' grant' metadata')"
proof -
  have "subject_capabilities c (JObj []) actor session grant = subject_capabilities c (JObj []) actor' session' grant'"
    using assms by (intro same_subject_capabilities) simp_all
  moreover have "boundary_fields [grant, metadata] [] = boundary_fields [grant', metadata'] []"
    by (rule same_boundary_fields) (use assms in \<open>simp_all add: same_fact_eq\<close>)
  moreover have "unique_of (list_of (prop_of grant ''scopes'')) = unique_of (list_of (prop_of grant' ''scopes''))"
    using assms(3) by (intro same_unique_of same_list_of fe_prop) simp_all
  ultimately show ?thesis unfolding grant_subject_def using assms
    by (simp add: same_plus same_js_or same_or_text_field fe_prop same_prop_of)
qed

lemma same_user_subject:
  assumes "fe actor actor'" and "fe (prop_of session ''user'') (prop_of session' ''user'')" and "fe grant grant'" and "fe user user'"
  shows "list_all2 (rel_prod (=) same) (user_subject c actor session grant user) (user_subject c actor' session' grant' user')"
proof -
  have "subject_capabilities c (JObj []) actor session grant = subject_capabilities c (JObj []) actor' session' grant'"
    using assms by (intro same_subject_capabilities) simp_all
  moreover have "boundary_fields [user] [prop_of user ''userId''] = boundary_fields [user'] [prop_of user' ''userId'']"
    by (rule same_boundary_fields) (use assms in \<open>simp_all add: fe_prop\<close>)
  moreover have "unique_of (list_of (prop_of user ''scopes'')) = unique_of (list_of (prop_of user' ''scopes''))"
    using assms(4) by (intro same_unique_of same_list_of fe_prop) simp_all
  ultimately show ?thesis unfolding user_subject_def using assms
    by (simp add: same_plus same_or_text_field fe_prop)
qed

lemma same_actor_subject:
  assumes "fe actor actor'" and "fe (prop_of session ''user'') (prop_of session' ''user'')" and "fe grant grant'"
  shows "list_all2 (rel_prod (=) same) (actor_subject c actor session grant) (actor_subject c actor' session' grant')"
proof -
  have "subject_capabilities c (JObj []) actor session grant = subject_capabilities c (JObj []) actor' session' grant'"
    using assms by (intro same_subject_capabilities) simp_all
  moreover have "boundary_fields [actor] [prop_of actor ''userId''] = boundary_fields [actor'] [prop_of actor' ''userId'']"
    by (rule same_boundary_fields) (use assms in \<open>simp_all add: fe_prop\<close>)
  moreover have "unique_of (list_of (prop_of actor ''scopes'')) = unique_of (list_of (prop_of actor' ''scopes''))"
    using assms(1) by (intro same_unique_of same_list_of fe_prop) simp_all
  ultimately show ?thesis unfolding actor_subject_def using assms
    by (simp add: same_plus same_js_or same_or_text_field fe_prop)
qed

text \<open>Facts with one key give one subject, up to the canonical text.\<close>

lemma same_resolved_subject:
  assumes s: "fe subject subject'" and a: "fe actor actor'" and u: "fe (prop_of session ''user'') (prop_of session' ''user'')" and g: "fe grant grant'"
  shows "same (resolve_authorization_subject c subject actor session grant) (resolve_authorization_subject c subject' actor' session' grant')"
proof -
  let ?u = "user_of actor session" and ?u' = "user_of actor' session'"
  let ?m = "metadata_of subject grant" and ?m' = "metadata_of subject' grant'"
  have fu: "fe ?u ?u'" using a u by (rule fe_user_of)
  have sm: "same ?m ?m'" using s g by (rule same_metadata_of)
  have "rel_prod (=) same (''attributes'', subject_attributes ?u actor subject ?m) (''attributes'', subject_attributes ?u' actor' subject' ?m')"
    using same_subject_attributes [OF fu a s sm] by simp
  then have attributes: "list_all2 (rel_prod (=) same) ps qs \<Longrightarrow>
      same (JObj (ps @ [(''attributes'', subject_attributes ?u actor subject ?m)])) (JObj (qs @ [(''attributes'', subject_attributes ?u' actor' subject' ?m')]))" for ps qs
    by (intro same_fields list_all2_appendI) simp_all
  have obj: "(object_or_null subject \<noteq> JNull) = (object_or_null subject' \<noteq> JNull)"
    using s by (cases subject; cases subject') (auto simp: fact_eq_def object_or_null_def)
  have t: "truthy grant = truthy grant'" "truthy ?u = truthy ?u'" "truthy actor = truthy actor'" using g fu a by (auto dest: fe_truthy)
  show ?thesis
    unfolding resolve_authorization_subject_def Let_def user_of_def [symmetric] metadata_of_def [symmetric] obj t
    by (simp add: attributes same_given_subject [OF s a u g fu sm] same_grant_subject [OF a u g sm] same_user_subject [OF a u g fu]
      same_actor_subject [OF a u g])
qed

section \<open>Facts compiled from requests with one key\<close>

lemma same_map: "list_all2 same vs ws \<Longrightarrow> (\<And>v w. same v w \<Longrightarrow> f v = f w) \<Longrightarrow> map f vs = map f ws"
  by (induction rule: list_all2_induct) auto

lemma same_filter: "list_all2 same vs ws \<Longrightarrow> (\<And>v w. same v w \<Longrightarrow> P v = P w) \<Longrightarrow> list_all2 same (filter P vs) (filter P ws)"
  by (induction rule: list_all2_induct) auto

lemma has_string_normal: "JStr s \<in> set xs \<longleftrightarrow> JStr s \<in> set (map normal xs)"
proof -
  have "normal (JStr s) = JStr s" by simp
  then show ?thesis by (simp add: image_iff eq_commute [of "JStr s"] normal_eq_JStr)
qed

definition names_admin :: "jv \<Rightarrow> bool" where
  "names_admin v = (case v of JArr xs \<Rightarrow> JStr ''auth:admin'' \<in> set xs | JStr s \<Rightarrow> contains ''auth:admin'' s | _ \<Rightarrow> False)"

lemma names_admin_normal: "names_admin (normal v) = names_admin v"
proof (cases v)
  case (JArr xs)
  then show ?thesis using has_string_normal [of "''auth:admin''" xs] by (simp add: names_admin_def)
qed (simp_all add: names_admin_def)

lemma same_boundary_bypass: "same v w \<Longrightarrow> boundary_bypass v = boundary_bypass w"
proof -
  assume s: "same v w"
  have "same (prop_of v ''scopes'') (prop_of w ''scopes'')" using s by (rule same_prop_of)
  then have "names_admin (prop_of v ''scopes'') = names_admin (prop_of w ''scopes'')"
    unfolding same_def using names_admin_normal [of "prop_of v ''scopes''"] names_admin_normal [of "prop_of w ''scopes''"] by simp
  then show ?thesis using same_JStr [OF same_prop_of [OF s, of "''roleId''"], of "''owner''"]
    unfolding boundary_bypass_def names_admin_def by simp
qed

lemma same_effective_capabilities:
  "same v w \<Longrightarrow> list_all2 same (effective_subject_capabilities v) (effective_subject_capabilities w)"
proof -
  assume s: "same v w"
  have "list_all2 same (list_of (prop_of v ''capabilities'')) (list_of (prop_of w ''capabilities''))"
    using s by (intro same_list_of same_prop_of)
  then show ?thesis using same_boundary_bypass [OF s] 
    by (auto simp: effective_subject_capabilities_def Let_def dest: same_authz_text intro!: same_filter)
qed

lemma same_rank_above: "same v w \<Longrightarrow> same v' w' \<Longrightarrow> rank_above v v' = rank_above w w'"
  using same_risk_rank [of v w] same_risk_rank [of v' w'] by (simp add: rank_above_def)

lemma same_lowest: "list_all2 same vs ws \<Longrightarrow> same v w \<Longrightarrow>
    same (foldl (\<lambda>lowest item. if rank_above lowest item then item else lowest) v vs)
      (foldl (\<lambda>lowest item. if rank_above lowest item then item else lowest) w ws)"
proof (induction vs ws arbitrary: v w rule: list_all2_induct)
  case (Cons x xs y ys)
  have "rank_above v x = rank_above w y" using Cons.hyps(1) Cons.prems by (rule same_rank_above [rotated])
  then show ?case using Cons by simp
qed simp

lemma same_max_risk_allowed:
  assumes "fe profile profile'" and "fe grant grant'" and "same subject subject'"
  shows "same (max_risk_allowed profile grant subject r) (max_risk_allowed profile' grant' subject' r)"
proof -
  let ?v = "[prop_of profile ''maxRisk'', prop_of grant ''maxRisk'', prop_of (prop_of grant ''metadata'') ''maxRisk'', prop_of subject ''maxRisk'']"
  let ?w = "[prop_of profile' ''maxRisk'', prop_of grant' ''maxRisk'', prop_of (prop_of grant' ''metadata'') ''maxRisk'', prop_of subject' ''maxRisk'']"
  have "list_all2 same (filter truthy ?v) (filter truthy ?w)"
    by (rule same_filter [OF _ same_truthy]) (use assms in \<open>simp_all add: fe_prop same_prop_of\<close>)
  then show ?thesis unfolding max_risk_allowed_def
    by (cases "filter truthy ?v"; cases "filter truthy ?w") (simp_all only: list.case list_all2_Cons list_all2_Nil list_all2_Nil2 list.distinct same_refl same_lowest)
qed

lemma same_compiled_origins: "fe policy policy' \<Longrightarrow> pf_url pf = pf_url pf' \<Longrightarrow> compile_origins pf policy = compile_origins pf' policy'"
proof -
  assume p: "fe policy policy'" and u: "pf_url pf = pf_url pf'"
  have n: "normalize_origin_entry pf v = normalize_origin_entry pf' w" if "same v w" for v w
    using same_authz_text [OF that] u by (simp add: normalize_origin_entry_def Let_def)
  have "map (normalize_origin_entry pf) vs = map (normalize_origin_entry pf') ws" if "list_all2 same vs ws" for vs ws
    using that by (induction rule: list_all2_induct) (auto intro: n)
  then have "map (normalize_origin_entry pf) (list_of (prop_of policy ''allowedOrigins'')) = map (normalize_origin_entry pf') (list_of (prop_of policy' ''allowedOrigins''))"
    using p by (simp add: fe_list)
  then show ?thesis by (simp add: compile_origins_def)
qed

lemma same_ip_rule: "same v w \<Longrightarrow> compile_ip_rule v = compile_ip_rule w"
  using same_or_string [of v w "[]"] by (simp add: compile_ip_rule_def)

lemma same_compiled_cidrs: "fe policy policy' \<Longrightarrow> compile_cidrs policy = compile_cidrs policy'"
proof -
  assume "fe policy policy'"
  then have "map compile_ip_rule (list_of (prop_of policy ''allowedCidrs'')) = map compile_ip_rule (list_of (prop_of policy' ''allowedCidrs''))"
    by (intro same_map fe_list same_ip_rule) simp_all
  then show ?thesis by (simp add: compile_cidrs_def)
qed

lemma same_to_number: "same v w \<Longrightarrow> v \<noteq> JUndef \<Longrightarrow> w \<noteq> JUndef \<Longrightarrow> to_number v = to_number w"
  using js_string_normal [of v] js_string_normal [of w] by (cases v; cases w) (auto simp: same_def to_number_def)

lemma same_compiled_max_uses: "fe policy policy' \<Longrightarrow> compile_max_uses policy = compile_max_uses policy'"
proof -
  let ?v = "prop_of policy ''maxUses''" and ?w = "prop_of policy' ''maxUses''"
  assume "fe policy policy'"
  then have s: "same ?v ?w" by (simp add: fe_prop)
  show ?thesis
  proof (cases "?v = JUndef \<or> ?v = JNull")
    case True
    then show ?thesis using same_null [OF s] by (auto simp: compile_max_uses_def Let_def)
  next
    case False
    then have n: "?w \<noteq> JUndef" "?w \<noteq> JNull" "?v \<noteq> JUndef" using same_null [OF s] by auto
    then have "js_string ?v = js_string ?w" using s js_string_normal [of ?v] js_string_normal [of ?w] by (simp add: same_def)
    then show ?thesis using same_to_number [OF s] n False by (simp add: compile_max_uses_def Let_def)
  qed
qed

lemma same_compiled_abac:
  assumes "same subject subject'" and "fe grant grant'" and "fe profile profile'"
  shows "compile_abac_facts subject grant profile = compile_abac_facts subject' grant' profile'"
proof -
  let ?v = "policy_sources subject grant profile" and ?w = "policy_sources subject' grant' profile'"
  have src: "list_all2 fe ?v ?w" using assms by (simp add: policy_sources_def same_fact_eq fe_prop)
  have "\<forall>k\<in>set compiled_texts. set [k] \<inter> live_keys = {}" by (simp add: compiled_texts_def live_keys_def)
  then have texts: "\<forall>k\<in>set compiled_texts. first_string (alts ?v [k]) = first_string (alts ?w [k])"
    using same_first_string [OF alts_same [OF src]] by blast
  have "\<forall>k\<in>set compiled_sets. set (boundary_keys k) \<inter> live_keys = {}" by (simp add: compiled_sets_def boundary_keys_def live_keys_def)
  then have sets: "\<forall>k\<in>set compiled_sets. strings_from (alts ?v (boundary_keys k)) = strings_from (alts ?w (boundary_keys k))"
    using same_strings_from [OF alts_same [OF src]] by blast
  show ?thesis using texts sets by (simp add: compile_abac_facts_def Let_def)
qed

definition alike :: "compiled_facts \<Rightarrow> compiled_facts \<Rightarrow> bool" where
  "alike f g \<longleftrightarrow>
     same (cf_subject f) (cf_subject g) \<and> same (cf_max_risk f) (cf_max_risk g) \<and>
     f\<lparr>cf_subject := JNull, cf_max_risk := JNull\<rparr> = g\<lparr>cf_subject := JNull, cf_max_risk := JNull\<rparr>"

definition same_request :: "authz_input \<Rightarrow> authz_input \<Rightarrow> bool" where
  "same_request i j \<longleftrightarrow>
     fe (policy_of_input i) (policy_of_input j) \<and> fe (ai_profile i) (ai_profile j) \<and> fe (ai_subject i) (ai_subject j) \<and>
     fe (ai_actor i) (ai_actor j) \<and> fe (prop_of (ai_session i) ''user'') (prop_of (ai_session j) ''user'') \<and> fe (ai_tool i) (ai_tool j) \<and>
     (ai_grant_required i = JBool True) = (ai_grant_required j = JBool True)"

lemma same_missing_toolsets:
  assumes "fe policy policy'" and "fe tool tool'"
  shows "(if list_of (prop_of policy ''toolsets'') = [] then []
      else filter (\<lambda>t. t \<notin> set (unique_of (list_of (prop_of policy ''toolsets'')))) (unique_of (list_of (prop_of tool ''toolsets'')))) =
    (if list_of (prop_of policy' ''toolsets'') = [] then []
      else filter (\<lambda>t. t \<notin> set (unique_of (list_of (prop_of policy' ''toolsets'')))) (unique_of (list_of (prop_of tool' ''toolsets''))))"
proof -
  have p: "list_all2 same (list_of (prop_of policy ''toolsets'')) (list_of (prop_of policy' ''toolsets''))" using assms(1) by (simp add: fe_list)
  have t: "list_all2 same (list_of (prop_of tool ''toolsets'')) (list_of (prop_of tool' ''toolsets''))" using assms(2) by (simp add: fe_list)
  have "list_of (prop_of policy ''toolsets'') = [] \<longleftrightarrow> list_of (prop_of policy' ''toolsets'') = []" using p by auto
  then show ?thesis unfolding same_unique_of [OF p] same_unique_of [OF t] by simp
qed

lemma same_unique_list: "fe v w \<Longrightarrow> k \<notin> live_keys \<Longrightarrow> unique_of (list_of (prop_of v k)) = unique_of (list_of (prop_of w k))"
  by (intro same_unique_of fe_list)

lemma same_compiled_facts:
  assumes "same_request i j" and "pf_url pf = pf_url pf'"
  shows "rel_sum (=) alike (compile_facts pf c i) (compile_facts pf' c j)"
proof -
  let ?p = "policy_of_input i" and ?q = "policy_of_input j" and ?s = "subject_of_input c i" and ?t = "subject_of_input c j"
  note r = assms(1) [unfolded same_request_def]
  have p: "fe ?p ?q" and pr: "fe (ai_profile i) (ai_profile j)" and tl: "fe (ai_tool i) (ai_tool j)" using r by simp_all
  have s: "same ?s ?t" unfolding subject_of_input_def using r by (intro same_resolved_subject) simp_all
  have o: "compile_origins pf ?p = compile_origins pf' ?q" using p assms(2) by (rule same_compiled_origins)
  have ci: "compile_cidrs ?p = compile_cidrs ?q" using p by (rule same_compiled_cidrs)
  have mu: "compile_max_uses ?p = compile_max_uses ?q" using p by (rule same_compiled_max_uses)
  have ab: "compile_abac_facts ?s ?p (ai_profile i) = compile_abac_facts ?t ?q (ai_profile j)" using s p pr by (rule same_compiled_abac)
  have fs: "fe ?s ?t" using s by (rule same_fact_eq)
  have sc: "unique_of (list_of (prop_of ?s ''scopes'')) = unique_of (list_of (prop_of ?t ''scopes''))" using fs by (rule same_unique_list) simp
  have ca: "unique_of (effective_subject_capabilities ?s) = unique_of (effective_subject_capabilities ?t)"
    using s by (intro same_unique_of same_effective_capabilities)
  have td: "unique_of (list_of (prop_of ?p ''toolDeny'')) = unique_of (list_of (prop_of ?q ''toolDeny''))" using p by (rule same_unique_list) simp
  have ta: "unique_of (list_of (prop_of ?p ''toolAllow'')) = unique_of (list_of (prop_of ?q ''toolAllow''))" using p by (rule same_unique_list) simp
  have pd: "unique_of (list_of (prop_of (ai_profile i) ''toolDeny'')) = unique_of (list_of (prop_of (ai_profile j) ''toolDeny''))" using pr by (rule same_unique_list) simp
  have pa: "unique_of (list_of (prop_of (ai_profile i) ''toolAllow'')) = unique_of (list_of (prop_of (ai_profile j) ''toolAllow''))" using pr by (rule same_unique_list) simp
  note mt = same_missing_toolsets [OF p tl]
  have "(ai_grant_required i = JBool True \<or> truthy ?p \<or> truthy (ai_tool i)) = (ai_grant_required j = JBool True \<or> truthy ?q \<or> truthy (ai_tool j))"
    using r fe_truthy [OF p] fe_truthy [OF tl] by simp
  note risk = this
  show ?thesis
    unfolding compile_facts_def Let_def o ci mu ab sc ca td ta pd pa mt risk
    by (cases "compile_origins pf' ?q"; cases "compile_cidrs ?q"; cases "compile_max_uses ?q")
      (simp_all add: alike_def s same_max_risk_allowed [OF pr p s])
qed

section \<open>Answers from alike facts\<close>

definition same_answer :: "authz_decision \<Rightarrow> authz_decision \<Rightarrow> bool" where
  "same_answer d e \<longleftrightarrow> d\<lparr>ad_subject := JNull\<rparr> = e\<lparr>ad_subject := JNull\<rparr> \<and> canonical_text (ad_subject d) = canonical_text (ad_subject e)"

lemma same_answer_refl [simp]: "same_answer d d"
  by (simp add: same_answer_def)

lemma same_alts: "list_all2 fe src src' \<Longrightarrow> set keys \<inter> live_keys = {} \<Longrightarrow> list_all2 same (alts src keys) (alts src' keys)"
  by (rule alts_same)

lemma same_policy_string: "list_all2 fe src src' \<Longrightarrow> k \<notin> live_keys \<Longrightarrow> policy_string compiled src k = policy_string compiled src' k"
  unfolding policy_string_def by (intro same_first_string) (simp add: same_alts)

lemma same_allowed_values: "list_all2 fe src src' \<Longrightarrow> k \<notin> live_keys \<Longrightarrow> allowed_values compiled src k = allowed_values compiled src' k"
proof -
  assume s: "list_all2 fe src src'" and k: "k \<notin> live_keys"
  have "set (boundary_keys k) \<inter> live_keys = {}" using k by (auto simp: boundary_keys_def)
  then have "list_all2 same (JUndef # alts src (boundary_keys k)) (JUndef # alts src' (boundary_keys k))" using s by (simp add: same_alts)
  then have e: "strings_from (JUndef # alts src (boundary_keys k)) = strings_from (JUndef # alts src' (boundary_keys k))" by (rule same_strings_from)
  show ?thesis unfolding allowed_values_def e by (rule refl)
qed

lemma same_abac_denial:
  assumes "same subject subject'"
  shows "abac_denial compiled subject grant profile resource = abac_denial compiled subject' grant profile resource"
proof -
  have "list_all2 fe (policy_sources subject grant profile) (policy_sources subject' grant profile)"
    using assms by (simp add: policy_sources_def same_fact_eq)
  note v = same_policy_string [OF this] same_allowed_values [OF this]
  show ?thesis
    unfolding abac_denial_def abac_checks_def Let_def same_boundary_bypass [OF assms]
    by (simp add: v)
qed

lemma alike_fields:
  assumes "alike f g"
  shows "cf_scopes f = cf_scopes g" "cf_capabilities f = cf_capabilities g" "cf_missing_toolsets f = cf_missing_toolsets g"
    "cf_origins f = cf_origins g" "cf_cidrs f = cf_cidrs g" "cf_tool_deny f = cf_tool_deny g" "cf_tool_allow f = cf_tool_allow g"
    "cf_profile_deny f = cf_profile_deny g" "cf_profile_allow f = cf_profile_allow g" "cf_abac f = cf_abac g"
  using assms by (cases f; cases g; simp add: alike_def)+

lemma alike_gates:
  assumes "alike f g"
  shows "gates pf c v (Some f) i (cf_subject f) = gates pf c v (Some g) i (cf_subject g)"
    and "missing_capabilities c (Some f) (cf_subject f) i = missing_capabilities c (Some g) (cf_subject g) i"
    and "missing_scopes (Some f) (cf_subject f) i = missing_scopes (Some g) (cf_subject g) i"
proof -
  note e = alike_fields [OF assms]
  have s: "same (cf_subject f) (cf_subject g)" and r: "same (cf_max_risk f) (cf_max_risk g)" using assms by (simp_all add: alike_def)
  show c: "missing_capabilities c (Some f) (cf_subject f) i = missing_capabilities c (Some g) (cf_subject g) i"
    using same_or_string [OF same_prop_of [OF s, of "''type''"], of "[]"] by (simp add: missing_capabilities_def e)
  show m: "missing_scopes (Some f) (cf_subject f) i = missing_scopes (Some g) (cf_subject g) i"
    by (simp add: missing_scopes_def e)
  have k: "rank_above x (cf_max_risk f) = rank_above x (cf_max_risk g)" for x using r by (intro same_rank_above) simp_all
  have o: "origin_refused pf (Some f) p q = origin_refused pf (Some g) p q" for p q by (simp add: origin_refused_def e)
  have i: "source_refused pf (Some f) p q = source_refused pf (Some g) p q" for p q by (simp add: source_refused_def e)
  show "gates pf c v (Some f) i (cf_subject f) = gates pf c v (Some g) i (cf_subject g)"
    unfolding gates_def Let_def c m o i tool_list_def option.case option.map e same_abac_denial [OF s] k by (rule refl)
qed

lemma alike_answer:
  assumes "alike f g"
  shows "same_answer (evaluate_policy pf c v (Some f) i) (evaluate_policy pf c v (Some g) i)"
proof -
  have s: "canonical_text (cf_subject f) = canonical_text (cf_subject g)" using assms by (simp add: alike_def same_def canonical_text_eq)
  show ?thesis
    unfolding evaluate_policy_def Let_def option.case alike_gates [OF assms] alike_fields [OF assms]
    by (simp add: same_answer_def s split: prod.splits)
qed

section \<open>The key decides the facts\<close>

lemma key_value_same:
  assumes "exact_compiled_fact_key sha i = Some k" and "exact_compiled_fact_key sha j = Some k"
    and "inj_on sha {canonical_text (key_value i), canonical_text (key_value j)}"
  shows "same (key_value i) (key_value j) \<and> None \<notin> set (key_descriptors i) \<and> None \<notin> set (key_descriptors j)"
proof -
  have n: "None \<notin> set (key_descriptors i)" "None \<notin> set (key_descriptors j)"
    and k: "sha (canonical_text (key_value i)) = k" "sha (canonical_text (key_value j)) = k"
    using assms(1,2) by (auto simp: exact_compiled_fact_key_def split: if_splits)
  have "canonical_text (key_value i) = canonical_text (key_value j)" using assms(3) k by (auto dest: inj_onD)
  then show ?thesis using n by (simp add: canonical_text_eq same_def)
qed

lemma descriptor_part:
  assumes "exact_fact_descriptor label (or_null v) \<noteq> None" and "exact_fact_descriptor label (or_null w) \<noteq> None"
    and "same (the (exact_fact_descriptor label (or_null v))) (the (exact_fact_descriptor label (or_null w)))"
  shows "fe v w"
  using descriptor_fact_eq [of label v _ w] assms by (auto simp: fact_eq_def split: if_splits)

lemma one_key_same_request:
  assumes "exact_compiled_fact_key sha i = Some k" and "exact_compiled_fact_key sha j = Some k"
    and "inj_on sha {canonical_text (key_value i), canonical_text (key_value j)}"
  shows "same_request i j"
proof -
  note v = key_value_same [OF assms]
  have d: "list_all2 (\<lambda>a b. a \<noteq> None \<and> b \<noteq> None \<and> same (the a) (the b)) (key_descriptors i) (key_descriptors j)"
    using v by (auto simp: key_value_def key_descriptors_def same_def eq_commute [of None])
  have g: "(ai_grant_required i = JBool True) = (ai_grant_required j = JBool True)"
    using v by (simp add: key_value_def key_descriptors_def same_def)
  show ?thesis using d unfolding same_request_def key_descriptors_def list_all2_Cons by (intro conjI g) (auto intro: descriptor_part)
qed

end
