(* ===== verification/AuthzSafety.thy ===== *)
theory AuthzSafety imports AuthzEngine PolicyEnforcement begin

text \<open>
  What the authorization engine guarantees: an allowed request passed every gate, and behind the
  policy enforcement point no high risk request gets through without a valid receipt.
\<close>

section \<open>The chain\<close>

lemma first_gate_append:
  "first_gate (as @ bs) = (case find fst as of None \<Rightarrow> first_gate bs | Some g \<Rightarrow> snd g)"
  by (induction as) (auto simp: first_gate_def or_else_def)

text \<open>When no gate that lets pass applies in a prefix, an allowed result has passed the whole prefix.\<close>

lemma passed_prefix:
  assumes "fst (first_gate (as @ bs)) \<in> S" and "\<And>b e r. (b, e, r) \<in> set as \<Longrightarrow> e \<in> S \<Longrightarrow> \<not> b"
  shows "\<forall>g\<in>set as. \<not> fst g"
proof (cases "find fst as")
  case None
  then show ?thesis unfolding find_None_iff by blast
next
  case (Some g)
  then have "fst g \<and> g \<in> set as" by (rule find_SomeD)
  then show ?thesis using assms Some by (cases g) (auto simp: first_gate_append)
qed

lemma compiled_capability_agrees: "has_compiled_capability (unique_of cs) k = has_capability cs k"
  by (simp add: has_compiled_capability_def has_capability_def Let_def)

section \<open>Every gate\<close>

text \<open>The governance decision does not settle the request.\<close>

definition governance_silent :: "jv \<Rightarrow> bool" where
  "governance_silent gov \<longleftrightarrow> \<not> truthy (prop_of gov ''applicable'')"

definition open_operation :: "jv \<Rightarrow> bool" where
  "open_operation operation \<longleftrightarrow> prop_of operation ''public'' = JBool True \<or> prop_of operation ''externalAuth'' = JBool True"

lemma compile_facts_subject: "compile_facts pf c i = Inr f \<Longrightarrow>
    cf_subject f = subject_of_input c i \<and> cf_abac f = compile_abac_facts (subject_of_input c i) (policy_of_input i) (ai_profile i) \<and>
    cf_scopes f = unique_of (list_of (prop_of (subject_of_input c i) ''scopes'')) \<and>
    cf_capabilities f = unique_of (effective_subject_capabilities (subject_of_input c i))"
  by (auto simp: compile_facts_def Let_def ebind_Inr_iff)

lemma evaluate_effect:
  "ad_effect (evaluate_policy pf c gov facts i) =
     fst (first_gate (gates pf c gov facts i (case facts of Some f \<Rightarrow> cf_subject f | None \<Rightarrow> subject_of_input c i)))"
  "ad_reason (evaluate_policy pf c gov facts i) =
     snd (first_gate (gates pf c gov facts i (case facts of Some f \<Rightarrow> cf_subject f | None \<Rightarrow> subject_of_input c i)))"
  by (simp_all add: evaluate_policy_def Let_def case_prod_unfold)

lemma allowed_gates:
  assumes "ad_allowed (evaluate_policy pf c gov facts i)" and "governance_silent gov" and "\<not> open_operation (ai_operation i)"
    and "s = (case facts of Some f \<Rightarrow> cf_subject f | None \<Rightarrow> subject_of_input c i)"
  shows "\<forall>g\<in>set (butlast (gates pf c gov facts i s)). \<not> fst g"
proof -
  have split: "gates pf c gov facts i s = butlast (gates pf c gov facts i s) @ [last (gates pf c gov facts i s)]"
    by (simp add: gates_def Let_def)
  have "fst (first_gate (gates pf c gov facts i s)) \<in> {''allow'', ''dry_run_only''}"
    using assms(1) unfolding ad_allowed_def evaluate_effect assms(4) .
  then have "fst (first_gate (butlast (gates pf c gov facts i s) @ [last (gates pf c gov facts i s)])) \<in> {''allow'', ''dry_run_only''}"
    using split by simp
  then show ?thesis
  proof (rule passed_prefix)
    fix b e r
    assume "(b, e, r) \<in> set (butlast (gates pf c gov facts i s))" and "e \<in> {''allow'', ''dry_run_only''}"
    then show "\<not> b" using assms(2,3) by (auto simp: gates_def Let_def governance_silent_def open_operation_def)
  qed
qed

text \<open>What an allowed request satisfies, read on the request itself.\<close>

definition authorized :: "platform \<Rightarrow> catalog \<Rightarrow> authz_input \<Rightarrow> bool" where
  "authorized pf c i \<longleftrightarrow>
     (let policy = policy_of_input i; subject = subject_of_input c i; operation = ai_operation i; tool = ai_tool i; context = ai_context i in
      abac_denial None subject policy (ai_profile i) (resolve_resource_context operation tool (ai_input i) context) = None \<and>
      \<not> (truthy tool \<and> prop_of tool ''status'' \<noteq> JStr ''active'') \<and>
      \<not> (truthy (ai_grant_required i) \<and> \<not> truthy policy) \<and>
      \<not> expired pf policy \<and> \<not> uses_exhausted policy \<and>
      \<not> (list_of (prop_of policy ''allowedCidrs'') \<noteq> [] \<and>
         \<not> list_ex (ip_matches_rule (JStr (source_ip pf (ai_request i)))) (list_of (prop_of policy ''allowedCidrs''))) \<and>
      prop_of context ''grantRateLimited'' \<noteq> JBool True \<and> prop_of context ''rateLimited'' \<noteq> JBool True \<and>
      set (required_scopes_for operation tool) \<subseteq> set (unique_of (list_of (prop_of subject ''scopes''))) \<and>
      (js_string (js_or (prop_of subject ''type'') (JStr [])) = ''console-user'' \<or> prop_of context ''skipAuthorization'' = JBool True \<or>
       list_all (has_capability (effective_subject_capabilities subject)) (required_capabilities c i)) \<and>
      grant_has_toolset policy tool \<and>
      \<not> rank_above (operation_risk operation tool)
          (max_risk_allowed (ai_profile i) policy subject
            (JStr (if ai_grant_required i = JBool True \<or> truthy policy \<or> truthy tool then ''safe_write'' else ''destructive''))) \<and>
      \<not> (needs_approval i \<and> \<not> approved_pending_operation_matches context operation))"

lemma compile_facts_rest: "compile_facts pf c i = Inr f \<Longrightarrow>
    cf_max_risk f = max_risk_allowed (ai_profile i) (policy_of_input i) (subject_of_input c i)
      (JStr (if ai_grant_required i = JBool True \<or> truthy (policy_of_input i) \<or> truthy (ai_tool i) then ''safe_write'' else ''destructive'')) \<and>
    map Some (cf_cidrs f) = map compile_ip_rule (list_of (prop_of (policy_of_input i) ''allowedCidrs''))"
proof -
  have the_map: "None \<notin> set rs \<Longrightarrow> map Some (map the rs) = rs" for rs :: "ip_predicate option list"
    by (induction rs) auto
  assume "compile_facts pf c i = Inr f"
  then show ?thesis
    by (auto simp: compile_facts_def Let_def ebind_Inr_iff compile_cidrs_def the_map simp del: map_map split: if_splits)
qed

lemma compiled_source:
  assumes "compile_facts pf c i = Inr f"
  shows "source_refused pf (Some f) policy request \<longleftrightarrow>
    list_of (prop_of (policy_of_input i) ''allowedCidrs'') \<noteq> [] \<and>
    \<not> list_ex (ip_matches_rule (JStr (source_ip pf request))) (list_of (prop_of (policy_of_input i) ''allowedCidrs''))"
proof -
  let ?rules = "list_of (prop_of (policy_of_input i) ''allowedCidrs'')" and ?ip = "JStr (source_ip pf request)"
  have m: "map Some (cf_cidrs f) = map compile_ip_rule ?rules" using compile_facts_rest [OF assms] by simp
  have "list_ex (\<lambda>r. ip_matches_predicate ?ip (Some r)) (cf_cidrs f) = list_ex (ip_matches_predicate ?ip) (map Some (cf_cidrs f))"
    by (simp add: list_ex_iff)
  also have "\<dots> = list_ex (ip_matches_rule ?ip) ?rules" unfolding m by (simp add: list_ex_iff ip_matches_compiled)
  finally show ?thesis using m by (auto simp: source_refused_def Let_def)
qed


section \<open>Behind the enforcement point\<close>

text \<open>The engine input the enforcement point builds; it gives no grant, profile, actor, session or dry run.\<close>

definition pep_input :: "pep_params \<Rightarrow> authz_input" where
  "pep_input p =
     \<lparr>ai_operation = pp_operation p, ai_tool = pp_tool p, ai_grant = JUndef, ai_restriction = JUndef, ai_profile = JUndef,
      ai_subject = pp_subject p, ai_actor = JUndef, ai_session = JUndef, ai_input = pp_input p, ai_request = pp_request p,
      ai_context = pp_context p, ai_dry_run = JUndef, ai_grant_required = JUndef, ai_enforce_confirmation = JUndef\<rparr>"

text \<open>The decision object, in the fields the enforcement point reads; \<open>i\<close> is the random decision id.\<close>

definition decision_object :: "jv \<Rightarrow> pep_params \<Rightarrow> authz_decision \<Rightarrow> jv" where
  "decision_object i p d =
     JObj [(''decisionId'', i), (''traceId'', pp_trace_id p), (''operationId'', JStr (ad_operation_id d)), (''subject'', ad_subject d),
       (''effect'', JStr (ad_effect d)), (''allowed'', JBool (ad_allowed d)), (''reasonCode'', JStr (ad_reason d))]"

definition engine_pep :: "platform \<Rightarrow> catalog \<Rightarrow> (authz_input \<Rightarrow> jv \<Rightarrow> jv) \<Rightarrow> (pep_params \<Rightarrow> jv) \<Rightarrow> (receipt_query \<Rightarrow> jv option) option \<Rightarrow> pep" where
  "engine_pep pf c gov ids receipts =
     \<lparr>pep_engine = (\<lambda>p. Some (decision_object (ids p) p (engine_decision pf c gov (pep_input p)))), pep_receipts = receipts, pep_audit = True\<rparr>"

lemma allow_reason:
  assumes "first_gate gs = (e, r)" and "e = ''allow''"
  shows "r = ''allowed'' \<or> (\<exists>b. b \<and> (b, e, r) \<in> set gs)"
proof (cases "find fst gs")
  case (Some g)
  then have "fst g \<and> g \<in> set gs" by (rule find_SomeD)
  then show ?thesis using assms Some by (cases g) (auto simp: first_gate_def or_else_def)
qed (use assms in \<open>simp add: first_gate_def or_else_def\<close>)

text \<open>The engine's own reasons: it never says that a receipt was validated, and without a dry run it allows by allow only.\<close>

lemma engine_reason:
  assumes "ad_allowed (engine_decision pf c gov i)" and "ai_dry_run i = JUndef"
    and "\<And>i s. js_string (js_or (js_or (prop_of (gov i s) ''reasonCode'') (JStr ''governance_allowed'')) (JStr [])) \<noteq> ''approval_receipt_valid''"
  shows "ad_effect (engine_decision pf c gov i) = ''allow'' \<and> ad_reason (engine_decision pf c gov i) \<noteq> ''approval_receipt_valid''"
proof (cases "compile_facts pf c i")
  case (Inl e)
  then show ?thesis using assms(1) by (simp add: engine_decision_def malformed_decision_def ad_allowed_def)
next
  case (Inr f)
  let ?gs = "gates pf c (gov i (cf_subject f)) (Some f) i (cf_subject f)" and ?d = "engine_decision pf c gov i"
  have d: "ad_effect ?d = fst (first_gate ?gs)" "ad_reason ?d = snd (first_gate ?gs)"
    using evaluate_effect [of pf c "gov i (cf_subject f)" "Some f" i] by (simp_all add: engine_decision_def Inr)
  have "fst (first_gate ?gs) \<noteq> ''dry_run_only''"
  proof (cases "find fst ?gs")
    case (Some g)
    then have "fst g \<and> g \<in> set ?gs" by (rule find_SomeD)
    then show ?thesis using Some assms(2)
      by (cases g) (auto simp: first_gate_def or_else_def gates_def Let_def)
  qed (simp add: first_gate_def or_else_def)
  then have e: "ad_effect ?d = ''allow''" using assms(1) d(1) by (simp add: ad_allowed_def)
  have "ad_reason ?d = ''allowed'' \<or> (\<exists>b. b \<and> (b, ''allow'', ad_reason ?d) \<in> set ?gs)"
    using allow_reason [of ?gs "ad_effect ?d" "ad_reason ?d"] d e by simp
  then have "ad_reason ?d \<in> {''allowed'', ''allowed_public'', ''allowed_external_auth_verified'',
      js_string (js_or (js_or (prop_of (gov i (cf_subject f)) ''reasonCode'') (JStr ''governance_allowed'')) (JStr []))}"
    by (auto simp: gates_def Let_def)
  then show ?thesis using e assms(3) by auto
qed

lemma enforce_engine:
  "enforce (engine_pep pf c gov ids receipts) p =
     (let e = engine_decision pf c gov (pep_input p) in
      Inr (enforce_decision (engine_pep pf c gov ids receipts) p
        \<lparr>pd_allowed = ad_allowed e, pd_effect = ad_effect e, pd_reason_code = JStr (ad_reason e), pd_redacted_reason = JUndef,
         pd_decision_id = ids p, pd_operation_id = JStr (ad_operation_id e), pd_input_hash = JUndef, pd_trace_id = pp_trace_id p,
         pd_subject = ad_subject e\<rparr>))"
  by (simp add: enforce_def engine_pep_def authorization_decision_def decision_object_def jget_def Let_def)

text \<open>
  C4: with the engine behind the enforcement point, no high risk request gets through without a
  receipt: whatever the engine, its governance or an approved pending operation says, the receipt
  store was asked for exactly this decision, operation and subject and found the receipt valid.
\<close>

theorem no_high_risk_without_receipt:
  assumes "enforce (engine_pep pf c gov ids receipts) p = Inr en" and "en_allowed en" and "risky p"
    and "\<And>i s. js_string (js_or (js_or (prop_of (gov i s) ''reasonCode'') (JStr ''governance_allowed'')) (JStr [])) \<noteq> ''approval_receipt_valid''"
  shows "\<exists>validate r. receipts = Some validate \<and> receipt_valid r \<and>
    validate \<lparr>rq_decision_id = ids p, rq_operation_id = JStr (ad_operation_id (engine_decision pf c gov (pep_input p))),
      rq_subject_id = prop_of (ad_subject (engine_decision pf c gov (pep_input p))) ''subjectId'', rq_input_hash = JUndef\<rparr> = Some r"
proof -
  let ?pep = "engine_pep pf c gov ids receipts" and ?e = "engine_decision pf c gov (pep_input p)"
  obtain d where d: "authorization_decision (decision_object (ids p) p ?e) = Inr d"
      and fields: "pd_allowed d = ad_allowed ?e" "pd_effect d = ad_effect ?e" "pd_reason_code d = JStr (ad_reason ?e)"
      and query: "receipt_query_of d = \<lparr>rq_decision_id = ids p, rq_operation_id = JStr (ad_operation_id ?e),
        rq_subject_id = prop_of (ad_subject ?e) ''subjectId'', rq_input_hash = JUndef\<rparr>"
    by (simp add: authorization_decision_def decision_object_def jget_def receipt_query_of_def prop_of_def)
  have "pd_allowed d \<Longrightarrow> pd_effect d = ''allow'' \<and> pd_reason_code d \<noteq> JStr ''approval_receipt_valid''"
    using engine_reason [of pf c gov "pep_input p"] assms(4) fields by (simp add: pep_input_def)
  then obtain validate r where "pep_receipts ?pep = Some validate" "validate (receipt_query_of d) = Some r" "receipt_valid r"
    using receipt_for_high_risk [of ?pep p "decision_object (ids p) p ?e" d en] d assms(1-3) by (auto simp: engine_pep_def)
  then show ?thesis unfolding query by (auto simp: engine_pep_def)
qed

section \<open>A request\<close>

definition demo_platform :: platform where
  "demo_platform = \<lparr>pf_url = (\<lambda>_. None), pf_date = (\<lambda>s. if s = ''2030-01-01'' then Some 2000 else None), pf_now = 1000, pf_proxies = ProxyText JUndef\<rparr>"

definition demo_catalog :: catalog where
  "demo_catalog = \<lparr>kc_operations = [''workspace.info'', ''store.wipe''], kc_tools = []\<rparr>"

definition demo_grant :: "string \<Rightarrow> jv" where
  "demo_grant expiry = JObj [(''id'', JStr ''g1''), (''scopes'', JArr [JStr ''workspace:read'']), (''capabilities'', JArr [JStr ''cap:api:workspace.info'']),
     (''expiresAt'', JStr expiry), (''maxUses'', JNum 2), (''useCount'', JNum 1), (''allowedCidrs'', JArr [JStr ''10.0.0.0/8''])]"

definition demo_request :: "jv \<Rightarrow> authz_input" where
  "demo_request grant =
     \<lparr>ai_operation = JObj [(''id'', JStr ''workspace.info''), (''requiredScopes'', JArr [JStr ''workspace:read''])], ai_tool = JUndef,
      ai_grant = grant, ai_restriction = JUndef, ai_profile = JUndef, ai_subject = JUndef, ai_actor = JUndef, ai_session = JUndef,
      ai_input = JObj [], ai_request = JObj [(''socket'', JObj [(''remoteAddress'', JStr ''10.1.2.3'')])], ai_context = JObj [],
      ai_dry_run = JUndef, ai_grant_required = JBool True, ai_enforce_confirmation = JUndef\<rparr>"


text \<open>A credential whose expiry is no date never expires; the same date in the past refuses.\<close>

lemma unreadable_expiry_never_expires:
  "ad_allowed (engine_decision demo_platform demo_catalog (\<lambda>_ _. JNull) (demo_request (demo_grant ''31.12.1999''))) \<and>
   \<not> ad_allowed (engine_decision (demo_platform\<lparr>pf_now := 3000\<rparr>) demo_catalog (\<lambda>_ _. JNull) (demo_request (demo_grant ''2030-01-01'')))"
  by code_simp

text \<open>
  The path without compiled facts, which the grant store takes, reads a malformed use count limit as
  no limit, where the compiler refuses the credential.
\<close>

definition unlimited_grant :: jv where
  "unlimited_grant = JObj [(''id'', JStr ''g1''), (''scopes'', JArr [JStr ''workspace:read'']), (''capabilities'', JArr [JStr ''cap:api:workspace.info'']),
     (''maxUses'', JStr ''two''), (''useCount'', JNum 9000)]"

lemma malformed_limit_is_no_limit:
  "ad_allowed (evaluate_policy demo_platform demo_catalog JNull None (demo_request unlimited_grant)) \<and>
   ad_reason (engine_decision demo_platform demo_catalog (\<lambda>_ _. JNull) (demo_request unlimited_grant)) = ''malformed_credential_max_uses''"
  by code_simp

text \<open>A risk the table does not know ranks as read only: it passes the lowest ceiling and needs no approval.\<close>

lemma unknown_risk_ranks_lowest:
  "risk_rank (JStr ''critical'') = risk_rank (JStr ''read_only'') \<and> \<not> rank_above (JStr ''critical'') (JStr ''read_only'') \<and>
   \<not> rank_above (JStr ''constructor'') (JStr ''read_only'')"
  by code_simp

text \<open>An applicable allow of governance settles the request before expiry, scopes, capabilities and boundaries are looked at.\<close>

lemma governance_allow_skips_gates:
  assumes "truthy (prop_of gov ''applicable'')" and "prop_of gov ''effect'' = JStr ''allow''"
  shows "ad_allowed (evaluate_policy pf c gov facts i)"
  using assms by (simp add: ad_allowed_def evaluate_effect first_gate_def gates_def Let_def or_else_def)

section \<open>A destructive request\<close>

definition wipe_params :: pep_params where
  "wipe_params =
     \<lparr>pp_operation = JObj [(''id'', JStr ''store.wipe''), (''safety'', JObj [(''risk'', JStr ''destructive'')])], pp_tool = JUndef,
      pp_subject = JObj [(''type'', JStr ''system''), (''id'', JStr ''s1''), (''capabilities'', JArr [JStr ''cap:api:store.wipe''])], pp_resource = JObj [],
      pp_input = JObj [], pp_request = JUndef, pp_context = JObj [(''approvedPendingOperation'', JObj [(''status'', JStr ''approved'')])], pp_trace_id = JStr []\<rparr>"

definition wipe_pep :: "jv \<Rightarrow> pep" where
  "wipe_pep receipt = engine_pep demo_platform demo_catalog (\<lambda>_ _. JNull) (\<lambda>_. JStr ''d1'')
     (Some (\<lambda>q. if rq_operation_id q = JStr ''store.wipe'' then Some receipt else None))"

lemma wipe_decision:
  "ad_effect (engine_decision demo_platform demo_catalog (\<lambda>_ _. JNull) (pep_input wipe_params)) = ''allow''"
  "ad_reason (engine_decision demo_platform demo_catalog (\<lambda>_ _. JNull) (pep_input wipe_params)) = ''allowed''"
  "ad_operation_id (engine_decision demo_platform demo_catalog (\<lambda>_ _. JNull) (pep_input wipe_params)) = ''store.wipe''"
  by code_simp+

lemma wipe_enforced:
  "\<exists>en. enforce (wipe_pep receipt) wipe_params = Inr en \<and> en_allowed en = receipt_valid receipt \<and>
     (if receipt_valid receipt then True else pd_reason_code (en_decision en) = JStr ''approval_receipt_required'')"
proof -
  have "operation_risk_text wipe_params = ''destructive''" by code_simp
  then show ?thesis
    unfolding wipe_pep_def enforce_engine Let_def
    by (simp add: enforce_decision_def Let_def wipe_decision ad_allowed_def is_approval_effect_def receipt_valid_def jget_def
        is_high_risk_def check_approval_receipt_def engine_pep_def receipt_query_of_def or_else_def receipt_required_def)
qed

lemma no_high_risk_without_receipt_witness:
  "\<exists>validate r. Some (\<lambda>q. if rq_operation_id q = JStr ''store.wipe'' then Some (JObj [(''valid'', JBool True)]) else None) = Some validate \<and>
     receipt_valid r \<and>
     validate \<lparr>rq_decision_id = JStr ''d1'',
       rq_operation_id = JStr (ad_operation_id (engine_decision demo_platform demo_catalog (\<lambda>_ _. JNull) (pep_input wipe_params))),
       rq_subject_id = prop_of (ad_subject (engine_decision demo_platform demo_catalog (\<lambda>_ _. JNull) (pep_input wipe_params))) ''subjectId'',
       rq_input_hash = JUndef\<rparr> = Some r"
proof -
  let ?pep = "wipe_pep (JObj [(''valid'', JBool True)])"
  obtain en where en: "enforce ?pep wipe_params = Inr en" "en_allowed en"
    using wipe_enforced [of "JObj [(''valid'', JBool True)]"] by (auto simp: receipt_valid_def jget_def)
  have r: "risky wipe_params" by code_simp
  have t: "js_string (js_or (js_or (prop_of ((\<lambda>_ _. JNull) i s) ''reasonCode'') (JStr ''governance_allowed'')) (JStr [])) \<noteq> ''approval_receipt_valid''"
    for i :: authz_input and s :: jv by code_simp
  show ?thesis using no_high_risk_without_receipt [OF en(1) [unfolded wipe_pep_def] en(2) r t] .
qed

end
