(* ===== verification/AuthzCacheSafety.thy ===== *)
theory AuthzCacheSafety imports AuthzCache AuthzSafety begin

text \<open>
  The engine with its cache answers as the engine without it. SHA-256, the entries the cache drops,
  the clock and governance are arguments.
\<close>

section \<open>Sequences of requests\<close>

text \<open>
  One call of the engine: the entries the cache drops when it stores the facts, the clock, what
  governance answers for a subject, and the input.
\<close>

record engine_call =
  call_drops :: "fact_cache \<Rightarrow> string \<Rightarrow> string \<Rightarrow> bool"
  call_now :: int
  call_gov :: "jv \<Rightarrow> jv"
  call_input :: authz_input

fun cached_run :: "(string \<Rightarrow> string) \<Rightarrow> platform \<Rightarrow> catalog \<Rightarrow> fact_cache \<Rightarrow> engine_call list \<Rightarrow> authz_decision list" where
  "cached_run sha pf c cache [] = []"
| "cached_run sha pf c cache (r # rs) =
     (let (d, cache') = cached_decision (call_drops r) sha (pf\<lparr>pf_now := call_now r\<rparr>) c (\<lambda>_. call_gov r) cache (call_input r)
      in d # cached_run sha pf c cache' rs)"

definition direct_answer :: "platform \<Rightarrow> catalog \<Rightarrow> engine_call \<Rightarrow> authz_decision" where
  "direct_answer pf c r = engine_decision (pf\<lparr>pf_now := call_now r\<rparr>) c (\<lambda>_. call_gov r) (call_input r)"

definition faithful :: "(string \<Rightarrow> string) \<Rightarrow> platform \<Rightarrow> catalog \<Rightarrow> authz_input set \<Rightarrow> fact_cache \<Rightarrow> bool" where
  "faithful sha pf c I cache \<longleftrightarrow>
     (\<forall>k f. cache k = Some f \<longrightarrow>
        (\<exists>t i. i \<in> I \<and> exact_compiled_fact_key sha i = Some k \<and> compile_facts (pf\<lparr>pf_now := t\<rparr>) c i = Inr f))"

lemma faithful_step:
  assumes "faithful sha pf c I cache" and "i \<in> I"
  shows "faithful sha pf c I (snd (compiled_facts_for drops sha (pf\<lparr>pf_now := t\<rparr>) c cache i))"
proof (cases "exact_compiled_fact_key sha i")
  case (Some k)
  show ?thesis
  proof (cases "cache k")
    case None
    have "faithful sha pf c I (cache_set drops cache k f)" if "compile_facts (pf\<lparr>pf_now := t\<rparr>) c i = Inr f" for f
      using assms Some that unfolding faithful_def cache_set_def by (auto split: if_splits)
    then show ?thesis using assms(1) Some None by (simp add: compiled_facts_for_def split: sum.splits)
  qed (use assms Some in \<open>simp add: compiled_facts_for_def\<close>)
qed (use assms in \<open>simp add: compiled_facts_for_def\<close>)

lemma cached_facts:
  assumes "faithful sha pf c I cache" and "i \<in> I" and "inj_on sha ((canonical_text \<circ> key_value) ` I)"
  shows "rel_sum (=) alike (fst (compiled_facts_for drops sha (pf\<lparr>pf_now := t\<rparr>) c cache i)) (compile_facts (pf\<lparr>pf_now := t\<rparr>) c i)"
proof -
  have r: "rel_sum (=) alike x x" for x by (cases x) (simp_all add: alike_def)
  show ?thesis
  proof (cases "exact_compiled_fact_key sha i")
    case None
    then show ?thesis by (simp add: compiled_facts_for_def r)
  next
    case (Some k)
    show ?thesis
    proof (cases "cache k")
      case None
      have "fst (compiled_facts_for drops sha (pf\<lparr>pf_now := t\<rparr>) c cache i) = compile_facts (pf\<lparr>pf_now := t\<rparr>) c i"
        using Some None by (simp add: compiled_facts_for_def split: sum.splits)
      then show ?thesis by (simp add: r)
    next
      case hit: (Some f)
      obtain u j where j: "j \<in> I" "exact_compiled_fact_key sha j = Some k" "compile_facts (pf\<lparr>pf_now := u\<rparr>) c j = Inr f"
        using assms(1) hit unfolding faithful_def by blast
      have "inj_on sha {canonical_text (key_value j), canonical_text (key_value i)}"
        by (rule inj_on_subset [OF assms(3)]) (use assms(2) j(1) in auto)
      with j(2) Some have "same_request j i" by (rule one_key_same_request)
      then have "rel_sum (=) alike (compile_facts (pf\<lparr>pf_now := u\<rparr>) c j) (compile_facts (pf\<lparr>pf_now := t\<rparr>) c i)"
        by (rule same_compiled_facts) simp
      then show ?thesis using j(3) Some hit by (simp add: compiled_facts_for_def)
    qed
  qed
qed

lemma cached_answer:
  assumes "rel_sum (=) alike (fst (compiled_facts_for drops sha pf c cache i)) (compile_facts pf c i)"
    and "\<And>v w. canonical_text v = canonical_text w \<Longrightarrow> gov i v = gov i w"
  shows "same_answer (fst (cached_decision drops sha pf c gov cache i)) (engine_decision pf c gov i)"
proof -
  obtain r cache' where r: "compiled_facts_for drops sha pf c cache i = (r, cache')" by fastforce
  show ?thesis
  proof (cases r)
    case (Inl e)
    then show ?thesis using assms(1) r by (auto simp: cached_decision_def engine_decision_def elim: rel_sum.cases)
  next
    case (Inr f)
    then obtain g where g: "compile_facts pf c i = Inr g" "alike f g" using assms(1) r by (auto elim: rel_sum.cases)
    have "gov i (cf_subject f) = gov i (cf_subject g)" using g(2) by (intro assms(2)) (simp add: alike_def same_def canonical_text_eq)
    then show ?thesis using g r Inr alike_answer [OF g(2)] by (simp add: cached_decision_def engine_decision_def)
  qed
qed

lemma cached_cache: "snd (cached_decision drops sha pf c gov cache i) = snd (compiled_facts_for drops sha pf c cache i)"
  by (simp add: cached_decision_def split: prod.splits sum.splits)

lemma cached_run_answers:
  assumes "faithful sha pf c I cache" and "call_input ` set calls \<subseteq> I" and "inj_on sha ((canonical_text \<circ> key_value) ` I)"
    and "\<forall>r\<in>set calls. \<forall>v w. canonical_text v = canonical_text w \<longrightarrow> call_gov r v = call_gov r w"
  shows "list_all2 same_answer (cached_run sha pf c cache calls) (map (direct_answer pf c) calls)"
  using assms
proof (induction calls arbitrary: cache)
  case (Cons r rs)
  obtain d cache' where x: "cached_decision (call_drops r) sha (pf\<lparr>pf_now := call_now r\<rparr>) c (\<lambda>_. call_gov r) cache (call_input r) = (d, cache')"
    by fastforce
  have i: "call_input r \<in> I" using Cons.prems(2) by simp
  have gov: "canonical_text v = canonical_text w \<Longrightarrow> call_gov r v = call_gov r w" for v w
    using Cons.prems(4) by (meson list.set_intros(1))
  have rest: "\<forall>r\<in>set rs. \<forall>v w. canonical_text v = canonical_text w \<longrightarrow> call_gov r v = call_gov r w"
    using Cons.prems(4) by (meson list.set_intros(2))
  have "same_answer (fst (d, cache')) (direct_answer pf c r)" unfolding direct_answer_def x [symmetric]
    by (rule cached_answer [OF cached_facts [OF Cons.prems(1) i Cons.prems(3)]]) (erule gov)
  moreover have "faithful sha pf c I (snd (d, cache'))"
    unfolding x [symmetric] cached_cache by (rule faithful_step [OF Cons.prems(1) i])
  then have "list_all2 same_answer (cached_run sha pf c cache' rs) (map (direct_answer pf c) rs)"
    using Cons.prems(2,3) by (intro Cons.IH [OF _ _ _ rest]) simp_all
  ultimately show ?case by (simp add: x)
qed simp

text \<open>
  C9: the cache of compiled facts changes no answer. Whatever requests come, at whatever times, and
  whatever entries the cache drops, an engine that starts with an empty cache answers each request as
  one that compiles the facts of every request again; expiry and use counts are read on the request.
  SHA-256 is taken not to collide on the keys, and governance not to tell subjects of one canonical
  text apart.
\<close>

theorem cache_changes_no_answer:
  assumes "inj_on sha ((canonical_text \<circ> key_value) ` call_input ` set calls)"
    and "\<forall>r\<in>set calls. \<forall>v w. canonical_text v = canonical_text w \<longrightarrow> call_gov r v = call_gov r w"
  shows "list_all2 same_answer (cached_run sha pf c (\<lambda>_. None) calls) (map (direct_answer pf c) calls)"
  by (rule cached_run_answers [OF _ subset_refl assms]) (simp add: faithful_def)

definition cached_grant :: jv where
  "cached_grant = JObj ((''revision'', JStr ''r1'') # as_record (demo_grant ''2030-01-01''))"

definition cached_call :: "int \<Rightarrow> engine_call" where
  "cached_call now = \<lparr>call_drops = (\<lambda>_ _ _. False), call_now = now, call_gov = (\<lambda>_. JNull), call_input = demo_request cached_grant\<rparr>"

lemma cache_changes_no_answer_witness:
  "list_all2 same_answer (cached_run (\<lambda>t. t) demo_platform demo_catalog (\<lambda>_. None) [cached_call 1000, cached_call 3000])
     (map (direct_answer demo_platform demo_catalog) [cached_call 1000, cached_call 3000])"
  by (rule cache_changes_no_answer) (simp_all add: cached_call_def inj_on_def)

text \<open>The second of these calls finds the facts of the first and refuses the grant that has expired since.\<close>

lemma cached_facts_still_expire:
  "exact_compiled_fact_key (\<lambda>t. t) (demo_request cached_grant) \<noteq> None \<and>
   map ad_reason (cached_run (\<lambda>t. t) demo_platform demo_catalog (\<lambda>_. None) [cached_call 1000, cached_call 3000]) = [''allowed'', ''grant_expired'']"
  by code_simp

end
