(* ===== verification/CatalogDelivery.thy ===== *)
theory CatalogDelivery imports JsonText "HOL-Library.List_Lexorder" "HOL-Library.Char_ord" begin

text \<open>
  The wire contract of catalog invalidations and their acknowledgement:
  \<open>packages/contracts/src/mcp-catalog-delivery.ts\<close>. Objects are plain, keys are sorted by code unit.
\<close>

section \<open>Bounded text\<close>

text \<open>Code units below 128 take one byte of UTF-8, the others below 256 two.\<close>

definition utf8_length :: "string \<Rightarrow> nat" where
  "utf8_length s = sum_list (map (\<lambda>c. if (of_char c :: nat) < 128 then 1 else 2) s)"

definition delivery_version :: string where
  "delivery_version = ''v0.0.1:mcp-catalog-delivery:wire-1''"

definition list_changed :: string where
  "list_changed = ''notifications/tools/list_changed''"

definition session_max_bytes :: nat where
  "session_max_bytes = 64"

definition max_revision_text :: nat where
  "max_revision_text = 256"

definition max_partition_count :: nat where
  "max_partition_count = 256"

definition invalidation_keys :: "string list" where
  "invalidation_keys = [''schemaVersion'', ''reasonCode'', ''sourceRevision'', ''catalogRevision'', ''audienceRevision'', ''affectedPartitions'']"

definition fact_keys :: "string list" where
  "fact_keys = [''sourceRevision'', ''catalogRevision'', ''audienceRevision'', ''partitionKeys'']"

definition is_safe_integer :: "int \<Rightarrow> bool" where
  "is_safe_integer n \<longleftrightarrow> \<bar>n\<bar> \<le> 9007199254740991"

definition bounded_text :: "nat \<Rightarrow> jv \<Rightarrow> string" where
  "bounded_text max_bytes v =
     (case v of JStr s \<Rightarrow> if trim s \<noteq> [] \<and> utf8_length (trim s) \<le> max_bytes then trim s else [] | _ \<Rightarrow> [])"

definition revision_number :: "jv \<Rightarrow> int option" where
  "revision_number v = (case v of JNum n \<Rightarrow> if is_safe_integer n \<and> 0 \<le> n then Some n else None | _ \<Rightarrow> None)"

definition has_exact_keys :: "jv \<Rightarrow> string list \<Rightarrow> bool" where
  "has_exact_keys v expected = (case v of JObj ps \<Rightarrow> sort (map fst ps) = expected | _ \<Rightarrow> False)"

definition opaque_partition_keys :: "jv \<Rightarrow> string list option" where
  "opaque_partition_keys v =
     (case v of
        JArr xs \<Rightarrow>
          (let keys = map (bounded_text max_revision_text) xs
           in if xs = [] \<or> length xs > max_partition_count \<or> [] \<in> set keys \<or> \<not> distinct keys then None
              else if keys = sort keys then Some keys else None)
      | _ \<Rightarrow> None)"

definition session_char :: "char \<Rightarrow> bool" where
  "session_char c \<longleftrightarrow>
     (let n = of_char c :: nat in 48 \<le> n \<and> n \<le> 57 \<or> 65 \<le> n \<and> n \<le> 90 \<or> 97 \<le> n \<and> n \<le> 122 \<or> c = CHR ''_'' \<or> c = CHR ''-'')"

definition normalize_proxy_session_id :: "jv \<Rightarrow> string" where
  "normalize_proxy_session_id v =
     (case v of
        JStr s \<Rightarrow>
          (if length (trim s) < 20 \<or> utf8_length (trim s) > session_max_bytes \<or> \<not> list_all session_char (trim s) then [] else trim s)
      | _ \<Rightarrow> [])"

section \<open>Facts and invalidations\<close>

record catalog_facts =
  cf_source_revision :: int
  cf_catalog_revision :: string
  cf_audience_revision :: int
  cf_partitions :: "string list"

record catalog_invalidation = catalog_facts +
  ci_reason :: string

definition parse_catalog_invalidation :: "jv \<Rightarrow> catalog_invalidation option" where
  "parse_catalog_invalidation v =
     (if \<not> has_exact_keys v (sort invalidation_keys) \<or> prop_of v ''schemaVersion'' \<noteq> JStr delivery_version then None
      else
        (let catalog = bounded_text max_revision_text (prop_of v ''catalogRevision''); reason = bounded_text 128 (prop_of v ''reasonCode'');
             affected = (case opaque_partition_keys (prop_of v ''affectedPartitions'') of
               Some ks \<Rightarrow> Some ks
             | None \<Rightarrow> if prop_of v ''affectedPartitions'' = JArr [] then Some [] else None)
         in case (revision_number (prop_of v ''sourceRevision''), revision_number (prop_of v ''audienceRevision''), affected) of
              (Some s, Some a, Some ks) \<Rightarrow>
                if catalog = [] \<or> reason = [] then None
                else Some \<lparr>cf_source_revision = s, cf_catalog_revision = catalog, cf_audience_revision = a, cf_partitions = ks, ci_reason = reason\<rparr>
            | _ \<Rightarrow> None))"

definition parse_catalog_facts :: "jv \<Rightarrow> catalog_facts option" where
  "parse_catalog_facts v =
     (if \<not> has_exact_keys v (sort fact_keys) then None
      else
        (let catalog = bounded_text max_revision_text (prop_of v ''catalogRevision'') in
         case (revision_number (prop_of v ''sourceRevision''), revision_number (prop_of v ''audienceRevision''),
               opaque_partition_keys (prop_of v ''partitionKeys'')) of
           (Some s, Some a, Some ks) \<Rightarrow>
             if catalog = [] then None
             else Some \<lparr>cf_source_revision = s, cf_catalog_revision = catalog, cf_audience_revision = a, cf_partitions = ks\<rparr>
         | _ \<Rightarrow> None))"

definition parse_catalog_acknowledgement :: "jv \<Rightarrow> catalog_facts option" where
  "parse_catalog_acknowledgement v = (if has_exact_keys v (sort fact_keys) then parse_catalog_facts v else None)"

text \<open>\<open>[...new Set(xs)].sort()\<close> compares items by their text, undefined items last.\<close>

definition sorted_set :: "jv \<Rightarrow> jv list" where
  "sorted_set v =
     (case v of JArr xs \<Rightarrow> sort_key js_string (filter (\<lambda>x. x \<noteq> JUndef) (dedup xs)) @ filter (\<lambda>x. x = JUndef) (dedup xs) | _ \<Rightarrow> [])"

definition create_catalog_invalidation :: "jv \<Rightarrow> jv \<Rightarrow> jv \<Rightarrow> jv \<Rightarrow> jv \<Rightarrow> catalog_invalidation option" where
  "create_catalog_invalidation reason source catalog audience affected =
     parse_catalog_invalidation (JObj [(''schemaVersion'', JStr delivery_version), (''reasonCode'', reason), (''sourceRevision'', source),
       (''catalogRevision'', catalog), (''audienceRevision'', audience), (''affectedPartitions'', JArr (sorted_set affected))])"

section \<open>The wire form\<close>

text \<open>The object a parsed invalidation or acknowledgement is, as it goes over the wire.\<close>

definition invalidation_value :: "catalog_invalidation \<Rightarrow> jv" where
  "invalidation_value i =
     JObj [(''schemaVersion'', JStr delivery_version), (''reasonCode'', JStr (ci_reason i)), (''sourceRevision'', JNum (cf_source_revision i)),
       (''catalogRevision'', JStr (cf_catalog_revision i)), (''audienceRevision'', JNum (cf_audience_revision i)),
       (''affectedPartitions'', JArr (map JStr (cf_partitions i)))]"

definition facts_value :: "catalog_facts \<Rightarrow> jv" where
  "facts_value f =
     JObj [(''sourceRevision'', JNum (cf_source_revision f)), (''catalogRevision'', JStr (cf_catalog_revision f)),
       (''audienceRevision'', JNum (cf_audience_revision f)), (''partitionKeys'', JArr (map JStr (cf_partitions f)))]"

lemma bounded_text_again: "bounded_text n v \<noteq> [] \<Longrightarrow> bounded_text n (JStr (bounded_text n v)) = bounded_text n v"
  by (auto simp: bounded_text_def split: jv.splits if_splits)

lemma opaque_partition_keys_again:
  assumes "opaque_partition_keys v = Some ks"
  shows "opaque_partition_keys (JArr (map JStr ks)) = Some ks \<and> ks \<noteq> [] \<and> distinct ks \<and> sorted ks \<and>
    (\<forall>k\<in>set ks. k \<noteq> [] \<and> bounded_text max_revision_text (JStr k) = k)"
proof -
  obtain xs where v: "v = JArr xs" using assms by (cases v) (auto simp: opaque_partition_keys_def)
  let ?b = "bounded_text max_revision_text"
  have ks: "ks = map ?b xs" "[] \<notin> set ks" "xs \<noteq> []" "length xs \<le> max_partition_count" "distinct ks" "ks = sort ks"
    using assms by (auto simp: opaque_partition_keys_def v Let_def split: if_splits)
  have again: "k \<noteq> [] \<and> ?b (JStr k) = k" if k: "k \<in> set ks" for k
  proof -
    have "k \<noteq> []" using k ks(2) by metis
    moreover obtain x where "k = ?b x" using k ks(1) by auto
    ultimately show ?thesis using bounded_text_again by metis
  qed
  then have "map ?b (map JStr ks) = ks" by (simp add: map_idI)
  moreover have "sorted ks" using ks(6) by (metis sorted_sort)
  ultimately show ?thesis using ks again by (auto simp: opaque_partition_keys_def Let_def simp del: map_map)
qed

lemma revision_number_again: "revision_number v = Some n \<Longrightarrow> revision_number (JNum n) = Some n"
  by (auto simp: revision_number_def split: jv.splits if_splits)

lemma invalidation_props:
  "prop_of (invalidation_value i) ''schemaVersion'' = JStr delivery_version" "prop_of (invalidation_value i) ''reasonCode'' = JStr (ci_reason i)"
  "prop_of (invalidation_value i) ''sourceRevision'' = JNum (cf_source_revision i)"
  "prop_of (invalidation_value i) ''catalogRevision'' = JStr (cf_catalog_revision i)"
  "prop_of (invalidation_value i) ''audienceRevision'' = JNum (cf_audience_revision i)"
  "prop_of (invalidation_value i) ''affectedPartitions'' = JArr (map JStr (cf_partitions i))"
  by (simp_all add: invalidation_value_def prop_of_def jget_def)

lemma facts_props:
  "prop_of (facts_value f) ''sourceRevision'' = JNum (cf_source_revision f)" "prop_of (facts_value f) ''catalogRevision'' = JStr (cf_catalog_revision f)"
  "prop_of (facts_value f) ''audienceRevision'' = JNum (cf_audience_revision f)" "prop_of (facts_value f) ''partitionKeys'' = JArr (map JStr (cf_partitions f))"
  by (simp_all add: facts_value_def prop_of_def jget_def)

lemma parse_invalidation_again:
  assumes "parse_catalog_invalidation v = Some i"
  shows "parse_catalog_invalidation (invalidation_value i) = Some i \<and>
    sorted (cf_partitions i) \<and> distinct (cf_partitions i) \<and> [] \<notin> set (cf_partitions i)"
proof -
  let ?c = "bounded_text max_revision_text (prop_of v ''catalogRevision'')" and ?r = "bounded_text 128 (prop_of v ''reasonCode'')"
  obtain s a ks where n: "revision_number (prop_of v ''sourceRevision'') = Some s" "revision_number (prop_of v ''audienceRevision'') = Some a"
    and ks: "opaque_partition_keys (prop_of v ''affectedPartitions'') = Some ks \<or> ks = []"
    and t: "?c \<noteq> []" "?r \<noteq> []"
    and i: "i = \<lparr>cf_source_revision = s, cf_catalog_revision = ?c, cf_audience_revision = a, cf_partitions = ks, ci_reason = ?r\<rparr>"
    using assms by (auto simp: parse_catalog_invalidation_def Let_def split: if_splits option.splits)
  have keys: "has_exact_keys (invalidation_value i) (sort invalidation_keys)"
    by (simp add: has_exact_keys_def invalidation_value_def invalidation_keys_def)
  have o: "(case opaque_partition_keys (JArr (map JStr ks)) of Some ks \<Rightarrow> Some ks | None \<Rightarrow> if JArr (map JStr ks) = JArr [] then Some [] else None) = Some ks"
  proof (cases "ks = []")
    case True
    then show ?thesis by (simp add: opaque_partition_keys_def)
  next
    case False
    then have "opaque_partition_keys (JArr (map JStr ks)) = Some ks" using ks opaque_partition_keys_again by auto
    then show ?thesis by (simp only: option.case)
  qed
  have "parse_catalog_invalidation (invalidation_value i) = Some i"
    unfolding parse_catalog_invalidation_def invalidation_props Let_def using keys t
    by (simp only: i catalog_facts.simps catalog_invalidation.simps o n [THEN revision_number_again] t [THEN bounded_text_again]) simp
  then show ?thesis using ks opaque_partition_keys_again i by auto
qed

lemma parse_facts_again:
  assumes "parse_catalog_acknowledgement v = Some f"
  shows "parse_catalog_acknowledgement (facts_value f) = Some f \<and>
    sorted (cf_partitions f) \<and> distinct (cf_partitions f) \<and> [] \<notin> set (cf_partitions f) \<and> cf_partitions f \<noteq> []"
proof -
  let ?c = "bounded_text max_revision_text (prop_of v ''catalogRevision'')"
  obtain s a ks where n: "revision_number (prop_of v ''sourceRevision'') = Some s" "revision_number (prop_of v ''audienceRevision'') = Some a"
    and ks: "opaque_partition_keys (prop_of v ''partitionKeys'') = Some ks" and t: "?c \<noteq> []"
    and f: "f = \<lparr>cf_source_revision = s, cf_catalog_revision = ?c, cf_audience_revision = a, cf_partitions = ks\<rparr>"
    using assms by (auto simp: parse_catalog_acknowledgement_def parse_catalog_facts_def Let_def split: if_splits option.splits)
  have keys: "has_exact_keys (facts_value f) (sort fact_keys)" by (simp add: has_exact_keys_def facts_value_def fact_keys_def)
  note k = opaque_partition_keys_again [OF ks]
  have "parse_catalog_acknowledgement (facts_value f) = Some f"
    unfolding parse_catalog_acknowledgement_def parse_catalog_facts_def facts_props Let_def using keys t k
    by (simp only: f catalog_facts.simps n [THEN revision_number_again] t [THEN bounded_text_again]) simp
  then show ?thesis using k f by auto
qed

text \<open>
  C37: what the parsers accept they write and read again. An invalidation that was parsed or created,
  and an acknowledgement that was parsed, is the same after a trip over the wire, its partition keys
  are in order, without repetition and not blank, and an acknowledgement always names a partition.
\<close>

theorem catalog_wire_roundtrip:
  "(\<forall>v i. parse_catalog_invalidation v = Some i \<longrightarrow> parse_catalog_invalidation (invalidation_value i) = Some i \<and>
      sorted (cf_partitions i) \<and> distinct (cf_partitions i) \<and> [] \<notin> set (cf_partitions i)) \<and>
   (\<forall>v f. parse_catalog_acknowledgement v = Some f \<longrightarrow> parse_catalog_acknowledgement (facts_value f) = Some f \<and>
      sorted (cf_partitions f) \<and> distinct (cf_partitions f) \<and> [] \<notin> set (cf_partitions f) \<and> cf_partitions f \<noteq> [])"
  using parse_invalidation_again parse_facts_again by blast

definition sample_invalidation :: jv where
  "sample_invalidation =
     JObj [(''schemaVersion'', JStr delivery_version), (''reasonCode'', JStr '' grant changed ''), (''sourceRevision'', JNum 3),
       (''catalogRevision'', JStr ''r3''), (''audienceRevision'', JNum 1), (''affectedPartitions'', JArr [JStr ''p1 '', JStr ''p2''])]"

definition sample_acknowledgement :: jv where
  "sample_acknowledgement =
     JObj [(''partitionKeys'', JArr [JStr ''p1'']), (''sourceRevision'', JNum 3), (''audienceRevision'', JNum 1), (''catalogRevision'', JStr ''r3'')]"

lemma catalog_wire_roundtrip_witness:
  "parse_catalog_invalidation (invalidation_value
      \<lparr>cf_source_revision = 3, cf_catalog_revision = ''r3'', cf_audience_revision = 1, cf_partitions = [''p1'', ''p2''], ci_reason = ''grant changed''\<rparr>)
    = parse_catalog_invalidation sample_invalidation \<and>
   parse_catalog_acknowledgement (facts_value
      \<lparr>cf_source_revision = 3, cf_catalog_revision = ''r3'', cf_audience_revision = 1, cf_partitions = [''p1'']\<rparr>)
    = parse_catalog_acknowledgement sample_acknowledgement"
proof -
  have k: "has_exact_keys sample_invalidation (sort invalidation_keys)" "has_exact_keys sample_acknowledgement (sort fact_keys)"
    by (simp_all add: has_exact_keys_def sample_invalidation_def sample_acknowledgement_def invalidation_keys_def fact_keys_def)
  have t: "bounded_text max_revision_text (JStr ''p1 '') = ''p1''" "bounded_text max_revision_text (JStr ''p1'') = ''p1''"
    "bounded_text max_revision_text (JStr ''p2'') = ''p2''"
    "bounded_text max_revision_text (JStr ''r3'') = ''r3''" "bounded_text 128 (JStr '' grant changed '') = ''grant changed''"
    by code_simp+
  have p: "prop_of sample_invalidation ''schemaVersion'' = JStr delivery_version" "prop_of sample_invalidation ''reasonCode'' = JStr '' grant changed ''"
    "prop_of sample_invalidation ''sourceRevision'' = JNum 3" "prop_of sample_invalidation ''catalogRevision'' = JStr ''r3''"
    "prop_of sample_invalidation ''audienceRevision'' = JNum 1" "prop_of sample_invalidation ''affectedPartitions'' = JArr [JStr ''p1 '', JStr ''p2'']"
    "prop_of sample_acknowledgement ''sourceRevision'' = JNum 3" "prop_of sample_acknowledgement ''catalogRevision'' = JStr ''r3''"
    "prop_of sample_acknowledgement ''audienceRevision'' = JNum 1" "prop_of sample_acknowledgement ''partitionKeys'' = JArr [JStr ''p1'']"
    by (simp_all add: sample_invalidation_def sample_acknowledgement_def prop_of_def jget_def)
  have o: "opaque_partition_keys (JArr [JStr ''p1 '', JStr ''p2'']) = Some [''p1'', ''p2'']" "opaque_partition_keys (JArr [JStr ''p1'']) = Some [''p1'']"
    "revision_number (JNum 3) = Some 3" "revision_number (JNum 1) = Some 1"
    by (simp_all add: opaque_partition_keys_def t max_partition_count_def Let_def revision_number_def is_safe_integer_def)
  have i: "parse_catalog_invalidation sample_invalidation = Some
      \<lparr>cf_source_revision = 3, cf_catalog_revision = ''r3'', cf_audience_revision = 1, cf_partitions = [''p1'', ''p2''], ci_reason = ''grant changed''\<rparr>"
    and f: "parse_catalog_acknowledgement sample_acknowledgement = Some
      \<lparr>cf_source_revision = 3, cf_catalog_revision = ''r3'', cf_audience_revision = 1, cf_partitions = [''p1'']\<rparr>"
    by (simp_all only: parse_catalog_invalidation_def parse_catalog_acknowledgement_def parse_catalog_facts_def k p t o Let_def
        simp_thms if_True if_False option.case prod.case list.distinct)
  note w = catalog_wire_roundtrip [THEN conjunct1, rule_format, OF i] catalog_wire_roundtrip [THEN conjunct2, rule_format, OF f]
  show ?thesis unfolding i f using w [THEN conjunct1] by (rule conjI)
qed

end
