(* ===== verification/SseConnections.thy ===== *)
theory SseConnections imports CatalogDelivery begin

text \<open>
  The registry of live notification streams,
  \<open>packages/server-runtime/src/state/sse-connection-state.ts\<close>: admission, the indexes, delivery of
  notifications, and the convergence of subscribers to a new catalog. The module's variables are one
  record; a connection is addressed by a number, a set of connections is their list in insertion
  order. A stream, which the caller hands over, answers each write as the argument of the operation
  says; what is written and closed is a log. SHA-256 with its base64url text is an argument. The two
  timers are operations that may run when the flag for them is set.
\<close>

section \<open>State\<close>

record sse_limits =
  sl_total :: nat
  sl_address :: nat
  sl_grant :: nat
  sl_partition :: nat
  sl_buffered :: int
  sl_notifications :: nat
  sl_cohort :: nat
  sl_ack_timeout :: int

definition sse_connection_limits :: sse_limits where
  "sse_connection_limits = \<lparr>sl_total = 256, sl_address = 32, sl_grant = 16, sl_partition = 16, sl_buffered = 65536,
     sl_notifications = 8, sl_cohort = 512, sl_ack_timeout = 10000\<rparr>"

record pending_convergence =
  pc_source :: int
  pc_audience :: int
  pc_catalog :: string
  pc_partitions :: "string list"

text \<open>
  The acknowledgement timer: set when a notification is written it acts on whatever is pending,
  set after an acknowledgement it acts only if the same convergence is still the pending one.
\<close>

datatype ack_timer = AnyPending | ThisPending pending_convergence

record sse_connection =
  co_address :: string
  co_grant :: string
  co_digest :: string
  co_session :: string
  co_subscription :: jv
  co_private :: bool
  co_capabilities :: "string list"
  co_partitions :: "string list"
  co_notifications :: "(string \<times> string) list"
  co_history :: "pending_convergence list"
  co_pending :: "pending_convergence option"
  co_timer :: "ack_timer option"
  co_applied :: int
  co_fenced :: bool
  co_attached :: bool

record cohort_record =
  cr_outcome :: string
  cr_source :: int
  cr_audience :: int
  cr_catalog :: string
  cr_partition_count :: nat

datatype stream_event = Wrote nat string | Closed nat

record sse_state =
  sse_conns :: "nat \<Rightarrow> sse_connection"
  sse_next :: nat
  sse_active :: "nat list"
  by_address :: "(string \<times> nat) list"
  by_grant :: "(string \<times> nat) list"
  by_digest :: "(string \<times> nat list) list"
  by_partition :: "(string \<times> nat list) list"
  by_session :: "(string \<times> nat list) list"
  sse_cohort :: "(string \<times> cohort_record) list"
  sse_fences :: "(string \<times> int) list"
  heartbeat_on :: bool
  sse_log :: "stream_event list"

definition blank_connection :: sse_connection where
  "blank_connection = \<lparr>co_address = [], co_grant = [], co_digest = [], co_session = [], co_subscription = JUndef, co_private = True,
     co_capabilities = [], co_partitions = [], co_notifications = [], co_history = [], co_pending = None, co_timer = None, co_applied = 0,
     co_fenced = False, co_attached = False\<rparr>"

definition new_sse :: sse_state where
  "new_sse = \<lparr>sse_conns = (\<lambda>_. blank_connection), sse_next = 0, sse_active = [], by_address = [], by_grant = [], by_digest = [], by_partition = [],
     by_session = [], sse_cohort = [], sse_fences = [], heartbeat_on = False, sse_log = []\<rparr>"

definition upd_conn :: "nat \<Rightarrow> (sse_connection \<Rightarrow> sse_connection) \<Rightarrow> sse_state \<Rightarrow> sse_state" where
  "upd_conn i f s = s\<lparr>sse_conns := (sse_conns s)(i := f (sse_conns s i))\<rparr>"

section \<open>Identities and indexes\<close>

definition bounded_identity :: "nat \<Rightarrow> jv \<Rightarrow> string" where
  "bounded_identity max_bytes v =
     (let t = trim (js_string (js_or v (JStr []))) in if t \<noteq> [] \<and> utf8_length t \<le> max_bytes then t else [])"

definition digest_identity :: "(string \<Rightarrow> string) \<Rightarrow> string \<Rightarrow> string" where
  "digest_identity sha v = (let t = bounded_identity 1024 (JStr v) in if t = [] then [] else sha t)"

definition count_for :: "(string \<times> nat) list \<Rightarrow> string \<Rightarrow> nat" where
  "count_for m k = (if k = [] then 0 else or_else 0 (map_of m k))"

definition increment_count :: "string \<Rightarrow> (string \<times> nat) list \<Rightarrow> (string \<times> nat) list" where
  "increment_count k m = jmap_set k (count_for m k + 1) m"

definition decrement_count :: "string \<Rightarrow> (string \<times> nat) list \<Rightarrow> (string \<times> nat) list" where
  "decrement_count k m = (if count_for m k > 1 then jmap_set k (count_for m k - 1) m else jmap_del k m)"

definition bucket :: "(string \<times> nat list) list \<Rightarrow> string \<Rightarrow> nat list" where
  "bucket m k = or_else [] (map_of m k)"

definition add_to_index :: "string \<Rightarrow> nat \<Rightarrow> (string \<times> nat list) list \<Rightarrow> (string \<times> nat list) list" where
  "add_to_index k i m = (if k = [] then m else jmap_set k (if i \<in> set (bucket m k) then bucket m k else bucket m k @ [i]) m)"

definition remove_from_index :: "string \<Rightarrow> nat \<Rightarrow> (string \<times> nat list) list \<Rightarrow> (string \<times> nat list) list" where
  "remove_from_index k i m =
     (if k = [] \<or> map_of m k = None then m
      else if removeAll i (bucket m k) = [] then jmap_del k m else jmap_set k (removeAll i (bucket m k)) m)"

definition normalize_bounded :: "nat \<Rightarrow> jv \<Rightarrow> string list" where
  "normalize_bounded max_bytes v =
     sort (dedup (filter (\<lambda>k. k \<noteq> []) (map (bounded_identity max_bytes) (case v of JArr xs \<Rightarrow> xs | _ \<Rightarrow> [v]))))"

definition normalize_partition_keys :: "jv \<Rightarrow> string list" where
  "normalize_partition_keys = normalize_bounded 256"

definition normalize_capabilities :: "jv \<Rightarrow> string list" where
  "normalize_capabilities = normalize_bounded 128"

section \<open>Convergence records\<close>

definition cohort_key :: "(string \<Rightarrow> string) \<Rightarrow> sse_connection \<Rightarrow> pending_convergence \<Rightarrow> string" where
  "cohort_key sha c p =
     (if co_digest c = [] \<or> co_session c = [] then []
      else sha (co_digest c @ '':'' @ co_session c @ '':'' @ int_text (pc_source p)))"

definition proxy_session_key :: "(string \<Rightarrow> string) \<Rightarrow> string \<Rightarrow> string \<Rightarrow> string" where
  "proxy_session_key sha digest session = (if digest = [] \<or> session = [] then [] else sha (digest @ '':'' @ session))"

text \<open>A new key takes the place of the oldest when the map is full.\<close>

definition bounded_set :: "nat \<Rightarrow> string \<Rightarrow> 'a \<Rightarrow> (string \<times> 'a) list \<Rightarrow> (string \<times> 'a) list" where
  "bounded_set limit k v m =
     jmap_set k v
       (if map_of m k = None \<and> length m \<ge> limit \<and> m \<noteq> [] \<and> fst (hd m) \<noteq> [] then jmap_del (fst (hd m)) m else m)"

definition fence_proxy_session :: "(string \<Rightarrow> string) \<Rightarrow> nat \<Rightarrow> pending_convergence option \<Rightarrow> sse_state \<Rightarrow> sse_state" where
  "fence_proxy_session sha i pending s =
     (let c = sse_conns s i; k = proxy_session_key sha (co_digest c) (co_session c)
      in case pending of
           None \<Rightarrow> s
         | Some p \<Rightarrow> if k = [] then s else s\<lparr>sse_fences := bounded_set (sl_cohort sse_connection_limits) k (pc_source p) (sse_fences s)\<rparr>)"

definition record_outcome :: "(string \<Rightarrow> string) \<Rightarrow> nat \<Rightarrow> string \<Rightarrow> pending_convergence \<Rightarrow> sse_state \<Rightarrow> sse_state" where
  "record_outcome sha i outcome p s =
     (let k = cohort_key sha (sse_conns s i) p
      in if k = [] then s
         else s\<lparr>sse_cohort := bounded_set (sl_cohort sse_connection_limits) k
           \<lparr>cr_outcome = outcome, cr_source = pc_source p, cr_audience = pc_audience p, cr_catalog = pc_catalog p,
            cr_partition_count = length (pc_partitions p)\<rparr> (sse_cohort s)\<rparr>)"

section \<open>Leaving\<close>

definition drop_from_indexes :: "nat \<Rightarrow> sse_state \<Rightarrow> sse_state" where
  "drop_from_indexes i s =
     (let c = sse_conns s i in
      s\<lparr>by_address := decrement_count (co_address c) (by_address s), by_grant := decrement_count (co_grant c) (by_grant s),
        by_digest := remove_from_index (co_digest c) i (by_digest s), by_session := remove_from_index (co_session c) i (by_session s),
        by_partition := fold (\<lambda>k. remove_from_index k i) (co_partitions c) (by_partition s)\<rparr>)"

definition remove_connection :: "(string \<Rightarrow> string) \<Rightarrow> bool \<Rightarrow> nat \<Rightarrow> sse_state \<Rightarrow> sse_state" where
  "remove_connection sha close i s =
     (if i \<notin> set (sse_active s) then s
      else
        (let s1 = drop_from_indexes i (upd_conn i (\<lambda>c. c\<lparr>co_attached := False\<rparr>) (s\<lparr>sse_active := removeAll i (sse_active s)\<rparr>));
             s2 = upd_conn i (\<lambda>c. c\<lparr>co_timer := None\<rparr>) s1;
             s3 = fold (record_outcome sha i (if close then ''fenced'' else ''disconnected'')) (co_history (sse_conns s2 i)) s2;
             s4 = (if sse_active s3 = [] then s3\<lparr>heartbeat_on := False\<rparr> else s3)
         in if close then s4\<lparr>sse_log := sse_log s4 @ [Closed i]\<rparr> else s4))"

section \<open>Writing\<close>

text \<open>
  How a stream takes a write: it is gone already, it takes the text (accepting more or not, with so
  many bytes buffered), or it throws.
\<close>

datatype stream = Gone | Takes bool int | Throws

definition write_connection :: "(string \<Rightarrow> string) \<Rightarrow> (nat \<Rightarrow> stream) \<Rightarrow> string \<Rightarrow> nat \<Rightarrow> sse_state \<Rightarrow> bool \<times> sse_state" where
  "write_connection sha io chunk i s =
     (if i \<notin> set (sse_active s) then (False, s)
      else
        (case io i of
           Gone \<Rightarrow> (False, remove_connection sha False i s)
         | Takes accepted buffered \<Rightarrow>
             (let s' = s\<lparr>sse_log := sse_log s @ [Wrote i chunk]\<rparr>
              in if \<not> accepted \<or> buffered > sl_buffered sse_connection_limits then (False, remove_connection sha True i s') else (True, s'))
         | Throws \<Rightarrow> (False, remove_connection sha True i s)))"

definition heartbeat_chunk :: string where
  "heartbeat_chunk = CHR '':'' # [CHR 0x0A, CHR 0x0A]"

text \<open>A write touches no other connection, so the live set the heartbeat walks is the one it started with.\<close>

definition heartbeat :: "(string \<Rightarrow> string) \<Rightarrow> (nat \<Rightarrow> stream) \<Rightarrow> sse_state \<Rightarrow> sse_state" where
  "heartbeat sha io s =
     (if heartbeat_on s then fold (\<lambda>i s. snd (write_connection sha io heartbeat_chunk i s)) (sse_active s) s else s)"

section \<open>Admission\<close>

definition bind_partitions :: "jv \<Rightarrow> nat \<Rightarrow> sse_state \<Rightarrow> bool \<times> sse_state" where
  "bind_partitions partition_keys i s =
     (if i \<notin> set (sse_active s) then (False, s)
      else
        (let ks = normalize_partition_keys partition_keys;
             s1 = s\<lparr>by_partition := fold (\<lambda>k. remove_from_index k i) (co_partitions (sse_conns s i)) (by_partition s)\<rparr>;
             s2 = upd_conn i (\<lambda>c. c\<lparr>co_partitions := ks\<rparr>) s1
         in (True, s2\<lparr>by_partition := fold (\<lambda>k. add_to_index k i) ks (by_partition s2)\<rparr>)))"

record sse_request =
  sr_address :: jv
  sr_usable :: bool
  sr_grant :: jv
  sr_private :: jv
  sr_partitions :: jv
  sr_capabilities :: jv
  sr_session :: jv
  sr_subscription :: jv

datatype registration = Registered nat | NotRegistered int string

definition normalize_subscription :: "jv \<Rightarrow> jv" where
  "normalize_subscription v = (case v of JNum n \<Rightarrow> JNum n | JStr t \<Rightarrow> JStr t | _ \<Rightarrow> JUndef)"

definition new_connection :: "(string \<Rightarrow> string) \<Rightarrow> sse_request \<Rightarrow> sse_connection" where
  "new_connection sha r =
     blank_connection\<lparr>co_address := bounded_identity 1024 (sr_address r), co_grant := bounded_identity 1024 (sr_grant r),
       co_digest := digest_identity sha (bounded_identity 1024 (sr_grant r)), co_session := normalize_proxy_session_id (sr_session r),
       co_subscription := normalize_subscription (sr_subscription r), co_private := (sr_private r \<noteq> JBool False),
       co_capabilities := normalize_capabilities (sr_capabilities r)\<rparr>"

definition add_connection :: "sse_connection \<Rightarrow> sse_state \<Rightarrow> sse_state" where
  "add_connection c s =
     (let i = sse_next s in
      s\<lparr>sse_conns := (sse_conns s)(i := c), sse_next := i + 1, sse_active := sse_active s @ [i],
        by_address := increment_count (co_address c) (by_address s), by_grant := increment_count (co_grant c) (by_grant s),
        by_digest := add_to_index (co_digest c) i (by_digest s), by_session := add_to_index (co_session c) i (by_session s)\<rparr>)"

definition register_sse :: "(string \<Rightarrow> string) \<Rightarrow> sse_request \<Rightarrow> sse_state \<Rightarrow> registration \<times> sse_state" where
  "register_sse sha r s =
     (let c = new_connection sha r; L = sse_connection_limits; ks = normalize_partition_keys (sr_partitions r) in
      if co_grant c = [] \<or> co_address c = [] \<or> \<not> sr_usable r then (NotRegistered 503 ''mcp_sse_registration_invalid'', s)
      else if length (sse_active s) \<ge> sl_total L then (NotRegistered 429 ''mcp_sse_total_capacity_exceeded'', s)
      else if count_for (by_address s) (co_address c) \<ge> sl_address L then (NotRegistered 429 ''mcp_sse_remote_capacity_exceeded'', s)
      else if count_for (by_grant s) (co_grant c) \<ge> sl_grant L then (NotRegistered 429 ''mcp_sse_grant_capacity_exceeded'', s)
      else if list_ex (\<lambda>k. length (bucket (by_partition s) k) \<ge> sl_partition L) ks
      then (NotRegistered 429 ''mcp_sse_partition_capacity_exceeded'', s)
      else if list_changed \<in> set (co_capabilities c) \<and> co_session c \<noteq> [] \<and>
        map_of (sse_fences s) (proxy_session_key sha (co_digest c) (co_session c)) \<noteq> None
      then (NotRegistered 409 ''mcp_sse_convergence_session_fenced'', s)
      else
        (let i = sse_next s; s1 = snd (bind_partitions (JArr (map JStr ks)) i (add_connection c s))
         in (Registered i, upd_conn i (\<lambda>c. c\<lparr>co_attached := True\<rparr>) (s1\<lparr>heartbeat_on := True\<rparr>))))"

text \<open>The request or the response of an attached connection closes.\<close>

definition stream_closes :: "(string \<Rightarrow> string) \<Rightarrow> nat \<Rightarrow> sse_state \<Rightarrow> sse_state" where
  "stream_closes sha i s = (if co_attached (sse_conns s i) then remove_connection sha False i s else s)"

section \<open>Convergence\<close>

text \<open>The convergence a delivered notification asks for, if it names partitions of the connection and sound revisions.\<close>

definition pending_of :: "sse_connection \<Rightarrow> jv \<Rightarrow> pending_convergence option" where
  "pending_of c payload =
     (let change = prop_of (prop_of payload ''params'') ''change'';
          ks = filter (\<lambda>k. k \<in> set (co_partitions c)) (normalize_partition_keys (js_or (prop_of change ''affectedPartitions'') (JArr [])));
          catalog = bounded_identity 256 (prop_of change ''catalogRevision'')
      in case (prop_of change ''sourceRevision'', prop_of change ''audienceRevision'') of
           (JNum n, JNum m) \<Rightarrow>
             if ks = [] \<or> \<not> is_safe_integer n \<or> \<not> is_safe_integer m \<or> catalog = [] then None
             else Some \<lparr>pc_source = n, pc_audience = m, pc_catalog = catalog, pc_partitions = ks\<rparr>
         | _ \<Rightarrow> None)"

fun put_history :: "pending_convergence \<Rightarrow> pending_convergence list \<Rightarrow> pending_convergence list" where
  "put_history p [] = [p]"
| "put_history p (q # qs) = (if pc_source q = pc_source p \<and> pc_audience q = pc_audience p then p # qs else q # put_history p qs)"

definition schedule_acknowledgement :: "(string \<Rightarrow> string) \<Rightarrow> nat \<Rightarrow> jv \<Rightarrow> sse_state \<Rightarrow> sse_state" where
  "schedule_acknowledgement sha i payload s =
     (case pending_of (sse_conns s i) payload of
        None \<Rightarrow> s
      | Some p \<Rightarrow>
          (let h = put_history p (co_history (sse_conns s i)); over = length h - sl_notifications sse_connection_limits;
               s1 = upd_conn i (\<lambda>c. c\<lparr>co_pending := Some p, co_history := drop over h\<rparr>) s;
               s2 = fold (record_outcome sha i ''fenced'') (take over h) s1
           in upd_conn i (\<lambda>c. c\<lparr>co_timer := Some AnyPending\<rparr>) (record_outcome sha i ''pending'' p s2)))"

definition cut_off :: "(string \<Rightarrow> string) \<Rightarrow> nat \<Rightarrow> pending_convergence option \<Rightarrow> sse_state \<Rightarrow> sse_state" where
  "cut_off sha i pending s =
     remove_connection sha True i (fence_proxy_session sha i pending (upd_conn i (\<lambda>c. c\<lparr>co_fenced := True\<rparr>) s))"

definition ack_timer_fires :: "(string \<Rightarrow> string) \<Rightarrow> nat \<Rightarrow> sse_state \<Rightarrow> sse_state" where
  "ack_timer_fires sha i s =
     (let c = sse_conns s i; s' = upd_conn i (\<lambda>c. c\<lparr>co_timer := None\<rparr>) s
      in case co_timer c of
           None \<Rightarrow> s
         | Some AnyPending \<Rightarrow> if i \<in> set (sse_active s) \<and> co_pending c \<noteq> None then cut_off sha i (co_pending c) s' else s'
         | Some (ThisPending p) \<Rightarrow> if i \<in> set (sse_active s) \<and> co_pending c = Some p then cut_off sha i (Some p) s' else s')"

section \<open>Notifications\<close>

definition enqueue_or_write :: "(string \<Rightarrow> string) \<Rightarrow> (nat \<Rightarrow> stream) \<Rightarrow> string \<Rightarrow> string \<Rightarrow> nat \<Rightarrow> sse_state \<Rightarrow> bool \<times> sse_state" where
  "enqueue_or_write sha io coalesce message i s =
     (if coalesce = [] then write_connection sha io message i s
      else
        (let q = co_notifications (sse_conns s i);
             q' = (if coalesce \<in> fst ` set q then jmap_set coalesce message q
                   else if length q \<ge> sl_notifications sse_connection_limits then tl q @ [(coalesce, message)] else q @ [(coalesce, message)]);
             s' = upd_conn i (\<lambda>c. c\<lparr>co_notifications := tl q'\<rparr>) s
         in case q' of [] \<Rightarrow> (False, s') | (_, m) # _ \<Rightarrow> write_connection sha io m i s'))"

record broadcast_options =
  bo_grant :: jv
  bo_private :: bool
  bo_partitions :: jv
  bo_digests :: jv
  bo_coalesce :: string

text \<open>\<open>{ ...record, key: value }\<close>: a property that is there keeps its place.\<close>

definition with_prop :: "jv \<Rightarrow> string \<Rightarrow> jv \<Rightarrow> jv" where
  "with_prop v k x = JObj (jmap_set k x (as_record v))"

definition partition_scope :: "broadcast_options \<Rightarrow> string list" where
  "partition_scope o' = (case bo_partitions o' of JArr xs \<Rightarrow> normalize_partition_keys (JArr xs) | _ \<Rightarrow> [])"

definition digest_scope :: "broadcast_options \<Rightarrow> string list" where
  "digest_scope o' = (case bo_digests o' of JArr xs \<Rightarrow> dedup (filter (\<lambda>k. k \<noteq> []) (map (bounded_identity 256) xs)) | _ \<Rightarrow> [])"

definition candidates :: "broadcast_options \<Rightarrow> sse_state \<Rightarrow> nat list" where
  "candidates o' s =
     (if partition_scope o' = [] \<and> digest_scope o' = [] then sse_active s
      else dedup (concat (map (bucket (by_partition s)) (partition_scope o')) @ concat (map (bucket (by_digest s)) (digest_scope o'))))"

definition payload_method :: "jv \<Rightarrow> string" where
  "payload_method payload = (case prop_of payload ''method'' of JStr m \<Rightarrow> m | _ \<Rightarrow> [])"

definition wanted :: "broadcast_options \<Rightarrow> jv \<Rightarrow> sse_connection \<Rightarrow> bool" where
  "wanted o' payload c \<longleftrightarrow>
     (let grant = bounded_identity 1024 (bo_grant o') in
      \<not> (grant \<noteq> [] \<and> co_grant c \<noteq> grant) \<and>
      \<not> (grant = [] \<and> \<not> bo_private o' \<and> co_private c \<and> \<not> (partition_scope o' \<noteq> [] \<or> digest_scope o' \<noteq> [])) \<and>
      \<not> (payload_method payload \<noteq> [] \<and> payload_method payload \<notin> set (co_capabilities c)))"

definition affected_partitions :: "jv \<Rightarrow> string list" where
  "affected_partitions payload =
     normalize_partition_keys (js_or (prop_of (prop_of (prop_of payload ''params'') ''change'') ''affectedPartitions'') (JArr []))"

definition scoped_payload :: "sse_connection \<Rightarrow> jv \<Rightarrow> jv option" where
  "scoped_payload c payload =
     (if payload_method payload = list_changed
      then
        (let params = prop_of payload ''params''; affected = affected_partitions payload;
             scoped = filter (\<lambda>k. k \<in> set (co_partitions c)) affected
         in if affected \<noteq> [] \<and> scoped = [] then None
            else Some (with_prop payload ''params'' (with_prop params ''change''
              (with_prop (prop_of params ''change'') ''affectedPartitions'' (JArr (map JStr scoped))))))
      else Some payload)"

definition subscribed_payload :: "sse_connection \<Rightarrow> jv \<Rightarrow> jv" where
  "subscribed_payload c v =
     (if co_subscription c = JUndef then v
      else
        (let params = prop_of v ''params'' in
         with_prop v ''params'' (with_prop params ''_meta''
           (with_prop (prop_of params ''_meta'') ''io.modelcontextprotocol/subscriptionId'' (co_subscription c)))))"

text \<open>What a connection is sent, if anything.\<close>

definition delivered_payload :: "broadcast_options \<Rightarrow> jv \<Rightarrow> sse_connection \<Rightarrow> jv option" where
  "delivered_payload o' payload c =
     (if wanted o' payload c then map_option (subscribed_payload c) (scoped_payload c payload) else None)"

definition event_text :: "jv \<Rightarrow> string" where
  "event_text v = ''event: message'' @ [CHR 0x0A] @ ''data: '' @ or_else ''undefined'' (json_text v) @ [CHR 0x0A, CHR 0x0A]"

definition deliver :: "(string \<Rightarrow> string) \<Rightarrow> (nat \<Rightarrow> stream) \<Rightarrow> broadcast_options \<Rightarrow> jv \<Rightarrow> nat \<Rightarrow> (nat \<times> nat \<times> sse_state) \<Rightarrow> nat \<times> nat \<times> sse_state" where
  "deliver sha io o' payload i mds =
     (let (matched, delivered, s) = mds in
      case delivered_payload o' payload (sse_conns s i) of
        None \<Rightarrow> (matched, delivered, s)
      | Some v \<Rightarrow>
          (case enqueue_or_write sha io (bo_coalesce o') (event_text v) i s of
             (False, s') \<Rightarrow> (matched + 1, delivered, s')
           | (True, s') \<Rightarrow>
               (matched + 1, delivered + 1, if prop_of v ''method'' = JStr list_changed then schedule_acknowledgement sha i v s' else s')))"

definition broadcast_notification :: "(string \<Rightarrow> string) \<Rightarrow> (nat \<Rightarrow> stream) \<Rightarrow> broadcast_options \<Rightarrow> jv \<Rightarrow> sse_state \<Rightarrow> nat \<times> nat \<times> sse_state" where
  "broadcast_notification sha io o' payload s = fold (deliver sha io o' payload) (candidates o' s) (0, 0, s)"

section \<open>Acknowledgement\<close>

definition mark_applied :: "int \<Rightarrow> nat \<Rightarrow> sse_state \<Rightarrow> bool \<times> sse_state" where
  "mark_applied audience i s =
     (if i \<notin> set (sse_active s) \<or> audience < co_applied (sse_conns s i) then (False, s)
      else (True, upd_conn i (\<lambda>c. c\<lparr>co_applied := audience, co_fenced := False\<rparr>) s))"

record catalog_ack =
  ak_grant :: jv
  ak_session :: jv
  ak_source :: int
  ak_audience :: int
  ak_catalog :: jv
  ak_partitions :: jv

definition acknowledged :: "catalog_ack \<Rightarrow> pending_convergence \<Rightarrow> bool" where
  "acknowledged a p \<longleftrightarrow>
     pc_source p = ak_source a \<and> pc_audience p = ak_audience a \<and> pc_catalog p = bounded_identity 256 (ak_catalog a) \<and>
     pc_partitions p = normalize_partition_keys (ak_partitions a)"

definition covered :: "catalog_ack \<Rightarrow> pending_convergence \<Rightarrow> bool" where
  "covered a p \<longleftrightarrow>
     pc_source p \<le> ak_source a \<and> pc_audience p \<le> ak_audience a \<and> pc_partitions p = normalize_partition_keys (ak_partitions a)"

definition acknowledge_one :: "(string \<Rightarrow> string) \<Rightarrow> catalog_ack \<Rightarrow> nat \<Rightarrow> nat \<times> sse_state \<Rightarrow> nat \<times> sse_state" where
  "acknowledge_one sha a i ns =
     (let (n, s) = ns; c = sse_conns s i in
      if co_pending c = None \<or> co_grant c \<noteq> bounded_identity 1024 (ak_grant a) \<or> \<not> list_ex (acknowledged a) (co_history c) then (n, s)
      else
        (let s1 = fold (record_outcome sha i ''applied'') (filter (covered a) (co_history c)) s;
             remaining = filter (\<lambda>p. \<not> covered a p) (co_history c);
             latest = (if remaining = [] then None else Some (last remaining))
         in (n + 1, upd_conn i (\<lambda>c. c\<lparr>co_history := remaining, co_pending := latest, co_timer := map_option ThisPending latest,
               co_applied := ak_audience a, co_fenced := False\<rparr>) s1)))"

definition acknowledge_convergence :: "(string \<Rightarrow> string) \<Rightarrow> catalog_ack \<Rightarrow> sse_state \<Rightarrow> nat \<times> sse_state" where
  "acknowledge_convergence sha a s = fold (acknowledge_one sha a) (bucket (by_session s) (normalize_proxy_session_id (ak_session a))) (0, s)"

section \<open>The other operations\<close>

definition fence_connection :: "(string \<Rightarrow> string) \<Rightarrow> bool \<Rightarrow> nat \<Rightarrow> sse_state \<Rightarrow> bool \<times> sse_state" where
  "fence_connection sha close i s =
     (if i \<notin> set (sse_active s) then (False, s)
      else (let s' = upd_conn i (\<lambda>c. c\<lparr>co_fenced := True\<rparr>) s in (True, if close then remove_connection sha True i s' else s')))"

definition disconnect_by_grant :: "(string \<Rightarrow> string) \<Rightarrow> jv \<Rightarrow> sse_state \<Rightarrow> nat \<times> sse_state" where
  "disconnect_by_grant sha grant s =
     (let g = bounded_identity 1024 grant; is = filter (\<lambda>i. co_grant (sse_conns s i) = g) (sse_active s)
      in if g = [] then (0, s) else (length is, fold (remove_connection sha True) is s))"

record sse_summary =
  su_active :: nat
  su_heartbeat :: bool
  su_addresses :: nat
  su_grants :: nat
  su_digests :: nat
  su_partitions :: nat
  su_cohort :: nat

definition connection_state :: "sse_state \<Rightarrow> sse_summary" where
  "connection_state s = \<lparr>su_active = length (sse_active s), su_heartbeat = heartbeat_on s, su_addresses = length (by_address s),
     su_grants = length (by_grant s), su_digests = length (by_digest s), su_partitions = length (by_partition s), su_cohort = length (sse_cohort s)\<rparr>"

definition convergence_cohort :: "sse_state \<Rightarrow> cohort_record list" where
  "convergence_cohort s = map snd (sse_cohort s)"

definition reset_sse :: "(string \<Rightarrow> string) \<Rightarrow> sse_state \<Rightarrow> sse_state" where
  "reset_sse sha s =
     (fold (remove_connection sha True) (sse_active s) s)\<lparr>by_address := [], by_grant := [], by_digest := [], by_partition := [],
        by_session := [], sse_cohort := [], sse_fences := [], heartbeat_on := False\<rparr>"

end
