(* ===== verification/SseInv.thy ===== *)
theory SseInv imports SseConnections begin

text \<open>
  The invariant of the stream registry, one predicate per part of the state, and its preservation by
  every operation: the counts and the indexes agree with the live connections, the limits hold, and a
  live connection waits for an acknowledgement exactly while its timer runs.
\<close>

section \<open>Indexes\<close>

definition indexed :: "(string \<times> nat list) list \<Rightarrow> nat set \<Rightarrow> (nat \<Rightarrow> string set) \<Rightarrow> bool" where
  "indexed m A K \<longleftrightarrow> jmap_ok m \<and> (\<forall>k. distinct (bucket m k) \<and> set (bucket m k) = {i \<in> A. k \<in> K i}) \<and> (\<forall>k b. map_of m k = Some b \<longrightarrow> b \<noteq> [])"

lemma indexed_cong: "indexed m A K \<Longrightarrow> (\<And>i. i \<in> A \<Longrightarrow> K i = K' i) \<Longrightarrow> indexed m A K'"
  unfolding indexed_def by (metis (mono_tags, lifting) Collect_cong)

lemma bucket_set [simp]: "bucket (jmap_set k b m) k' = (if k' = k then b else bucket m k')"
  by (simp add: bucket_def or_else_def)

lemma bucket_del [simp]: "bucket (jmap_del k m) k' = (if k' = k then [] else bucket m k')"
  by (simp add: bucket_def or_else_def)

lemma indexed_add: "indexed m A K \<Longrightarrow> i \<in> A \<Longrightarrow> k \<noteq> [] \<Longrightarrow> indexed (add_to_index k i m) A (K(i := insert k (K i)))"
proof -
  assume m: "indexed m A K" and i: "i \<in> A" and k: "k \<noteq> []"
  have "i \<in> set (bucket m k) \<longleftrightarrow> k \<in> K i" using m i by (simp add: indexed_def)
  moreover have "bucket m k = [] \<Longrightarrow> k \<notin> K i" using m i by (force simp: indexed_def)
  ultimately show ?thesis using m i k unfolding indexed_def add_to_index_def by auto
qed

lemma indexed_remove: "indexed m A K \<Longrightarrow> [] \<notin> K i \<Longrightarrow> indexed (remove_from_index k i m) A (K(i := K i - {k}))"
proof -
  assume m: "indexed m A K" and blank: "[] \<notin> K i"
  show ?thesis
  proof (cases "k = [] \<or> map_of m k = None")
    case True
    have "i \<in> A \<Longrightarrow> k \<notin> K i"
    proof
      assume "i \<in> A" "k \<in> K i"
      then have "i \<in> set (bucket m k)" using m by (simp add: indexed_def)
      then show False using True \<open>k \<in> K i\<close> blank by (auto simp: bucket_def or_else_def)
    qed
    moreover have "remove_from_index k i m = m" using True by (simp add: remove_from_index_def)
    moreover have "indexed m A (K(i := K i - {k}))" if "i \<in> A \<Longrightarrow> k \<notin> K i"
      by (rule indexed_cong [OF m]) (use that in auto)
    ultimately show ?thesis by simp
  next
    case False
    let ?b = "removeAll i (bucket m k)"
    have b: "set ?b = {j \<in> A. k \<in> K j} - {i}" "distinct ?b"
      using m by (auto simp: indexed_def removeAll_filter_not_eq)
    show ?thesis
    proof (cases "?b = []")
      case True
      then have e: "{j \<in> A. k \<in> K j} - {i} = {}" using b(1) by simp
      have "remove_from_index k i m = jmap_del k m" using False True by (auto simp: remove_from_index_def)
      then show ?thesis using m e by (auto simp: indexed_def)
    next
      case ne: False
      then have "remove_from_index k i m = jmap_set k ?b m" using False by (auto simp: remove_from_index_def)
      then show ?thesis using m b ne by (auto simp: indexed_def)
    qed
  qed
qed

lemma indexed_add_all: "indexed m A K \<Longrightarrow> i \<in> A \<Longrightarrow> [] \<notin> set ks \<Longrightarrow>
    indexed (fold (\<lambda>k. add_to_index k i) ks m) A (K(i := K i \<union> set ks))"
proof (induction ks arbitrary: m K)
  case (Cons k ks)
  have "indexed (add_to_index k i m) A (K(i := insert k (K i)))" using Cons.prems by (intro indexed_add) auto
  note IH = Cons.IH [OF this]
  have e: "(K(i := insert k (K i)))(i := (K(i := insert k (K i))) i \<union> set ks) = K(i := K i \<union> set (k # ks))" by auto
  show ?case using IH Cons.prems unfolding e by simp
qed simp

lemma indexed_remove_all: "indexed m A K \<Longrightarrow> [] \<notin> K i \<Longrightarrow>
    indexed (fold (\<lambda>k. remove_from_index k i) ks m) A (K(i := K i - set ks))"
proof (induction ks arbitrary: m K)
  case (Cons k ks)
  have "indexed (remove_from_index k i m) A (K(i := K i - {k}))" using Cons.prems by (intro indexed_remove)
  note IH = Cons.IH [OF this]
  have e: "(K(i := K i - {k}))(i := (K(i := K i - {k})) i - set ks) = K(i := K i - set (k # ks))" by (auto simp: fun_eq_iff)
  show ?case using IH Cons.prems unfolding e by simp
qed simp

lemma indexed_leave: "indexed m A K \<Longrightarrow> K i = {} \<Longrightarrow> indexed m (A - {i}) K"
  by (auto simp: indexed_def)

lemma indexed_enter: "indexed m A K \<Longrightarrow> K i = {} \<Longrightarrow> indexed m (insert i A) K"
  by (auto simp: indexed_def)

section \<open>Counts\<close>

definition counted :: "(string \<times> nat) list \<Rightarrow> nat list \<Rightarrow> (nat \<Rightarrow> string) \<Rightarrow> bool" where
  "counted m xs f \<longleftrightarrow>
     jmap_ok m \<and> (\<forall>k. map_of m k = (let n = length (filter (\<lambda>i. f i = k) xs) in if n = 0 then None else Some n))"

lemma counted_cong: "counted m xs f \<Longrightarrow> (\<And>i. i \<in> set xs \<Longrightarrow> f i = f' i) \<Longrightarrow> counted m xs f'"
proof -
  assume m: "counted m xs f" and e: "\<And>i. i \<in> set xs \<Longrightarrow> f i = f' i"
  have "filter (\<lambda>i. f i = k) xs = filter (\<lambda>i. f' i = k) xs" for k using e by (intro filter_cong) auto
  then show ?thesis using m by (simp add: counted_def)
qed

lemma counted_count: "counted m xs f \<Longrightarrow> k \<noteq> [] \<Longrightarrow> count_for m k = length (filter (\<lambda>i. f i = k) xs)"
  by (simp add: counted_def count_for_def Let_def or_else_def)

lemma counted_enter: "counted m xs f \<Longrightarrow> f i \<noteq> [] \<Longrightarrow> counted (increment_count (f i) m) (xs @ [i]) f"
  using counted_count [of m xs f "f i"] by (auto simp: counted_def increment_count_def Let_def)

lemma length_filter_removeAll:
  "distinct xs \<Longrightarrow> i \<in> set xs \<Longrightarrow> length (filter P (removeAll i xs)) = length (filter P xs) - (if P i then 1 else 0)"
proof (induction xs)
  case (Cons x xs)
  show ?case
  proof (cases "x = i")
    case True
    then have "removeAll i xs = xs" using Cons.prems by (simp add: removeAll_id)
    then show ?thesis using True by simp
  next
    case False
    then have "length (filter P (removeAll i xs)) = length (filter P xs) - (if P i then 1 else 0)" "i \<in> set xs"
      using Cons by auto
    moreover have "P i \<Longrightarrow> filter P xs \<noteq> []" using \<open>i \<in> set xs\<close> by (auto simp: filter_empty_conv)
    ultimately show ?thesis using False by (cases "filter P xs") auto
  qed
qed simp

lemma counted_leave:
  assumes "counted m xs f" and "distinct xs" and "i \<in> set xs" and "f i \<noteq> []"
  shows "counted (decrement_count (f i) m) (removeAll i xs) f"
proof -
  have c: "count_for m (f i) = length (filter (\<lambda>j. f j = f i) xs)" using counted_count assms(1,4) by blast
  have n: "length (filter (\<lambda>j. f j = k) (removeAll i xs)) = length (filter (\<lambda>j. f j = k) xs) - (if f i = k then 1 else 0)" for k
    using assms(2,3) by (rule length_filter_removeAll)
  show ?thesis using assms(1) unfolding counted_def decrement_count_def c n by (auto simp: Let_def)
qed

section \<open>Bounded records\<close>

definition bounded_map :: "nat \<Rightarrow> (string \<times> 'a) list \<Rightarrow> bool" where
  "bounded_map n m \<longleftrightarrow> jmap_ok m \<and> length m \<le> n \<and> [] \<notin> fst ` set m"

lemma bounded_set_ok: "bounded_map n m \<Longrightarrow> k \<noteq> [] \<Longrightarrow> 0 < n \<Longrightarrow> bounded_map n (bounded_set n k v m)"
proof -
  assume m: "bounded_map n m" and k: "k \<noteq> []" and n: "0 < n"
  show ?thesis
  proof (cases "map_of m k")
    case (Some w)
    then show ?thesis using m k by (simp add: bounded_map_def bounded_set_def length_jmap_set_old)
  next
    case None
    show ?thesis
    proof (cases "length m \<ge> n")
      case True
      then obtain e m' where e: "m = e # m'" using n by (cases m) auto
      have d: "length (jmap_del (fst e) m) \<le> n - 1" "fst e \<noteq> []"
        using m e length_jmap_del [of m "fst e" "snd e"] by (auto simp: bounded_map_def)
      have "map_of (jmap_del (fst e) m) k = None" using None by simp
      then have "length (jmap_set k v (jmap_del (fst e) m)) \<le> n" using d n by (simp add: length_jmap_set_new)
      moreover have "bounded_set n k v m = jmap_set k v (jmap_del (fst e) m)" using True None d e by (simp add: bounded_set_def)
      ultimately show ?thesis using m k by (auto simp: bounded_map_def)
    next
      case False
      then show ?thesis using m k None by (auto simp: bounded_map_def bounded_set_def length_jmap_set_new)
    qed
  qed
qed

lemma map_of_bounded_set [simp]: "map_of (bounded_set n k v m) k = Some v"
  by (simp add: bounded_set_def)

section \<open>The invariant\<close>

abbreviation "active_set s \<equiv> set (sse_active s)"

definition digest_keys :: "sse_connection \<Rightarrow> string set" where
  "digest_keys c = {co_digest c} - {[]}"

definition session_keys :: "sse_connection \<Rightarrow> string set" where
  "session_keys c = {co_session c} - {[]}"

definition registry_ok :: "sse_state \<Rightarrow> bool" where
  "registry_ok s \<longleftrightarrow>
     distinct (sse_active s) \<and> (\<forall>i\<in>active_set s. i < sse_next s) \<and>
     (\<forall>i\<in>active_set s. co_address (sse_conns s i) \<noteq> [] \<and> co_grant (sse_conns s i) \<noteq> [] \<and> [] \<notin> set (co_partitions (sse_conns s i))) \<and>
     counted (by_address s) (sse_active s) (\<lambda>i. co_address (sse_conns s i)) \<and>
     counted (by_grant s) (sse_active s) (\<lambda>i. co_grant (sse_conns s i)) \<and>
     indexed (by_digest s) (active_set s) (\<lambda>i. digest_keys (sse_conns s i)) \<and>
     indexed (by_session s) (active_set s) (\<lambda>i. session_keys (sse_conns s i)) \<and>
     indexed (by_partition s) (active_set s) (\<lambda>i. set (co_partitions (sse_conns s i))) \<and>
     (heartbeat_on s \<longleftrightarrow> sse_active s \<noteq> [])"

definition limits_ok :: "sse_state \<Rightarrow> bool" where
  "limits_ok s \<longleftrightarrow>
     length (sse_active s) \<le> 256 \<and>
     (\<forall>a. length (filter (\<lambda>i. co_address (sse_conns s i) = a) (sse_active s)) \<le> 32) \<and>
     (\<forall>g. length (filter (\<lambda>i. co_grant (sse_conns s i) = g) (sse_active s)) \<le> 16)"

definition waiting_ok :: "sse_connection \<Rightarrow> bool" where
  "waiting_ok c \<longleftrightarrow>
     co_attached c \<and> co_notifications c = [] \<and> (co_pending c = None \<longleftrightarrow> co_timer c = None) \<and> (co_pending c = None \<longrightarrow> co_history c = []) \<and>
     (\<forall>p. co_pending c = Some p \<longrightarrow> p \<in> set (co_history c)) \<and> (\<forall>p. co_timer c = Some (ThisPending p) \<longrightarrow> co_pending c = Some p) \<and>
     length (co_history c) \<le> 8 \<and> distinct (map (\<lambda>p. (pc_source p, pc_audience p)) (co_history c))"

definition records_ok :: "sse_state \<Rightarrow> bool" where
  "records_ok s \<longleftrightarrow> bounded_map 512 (sse_cohort s) \<and> bounded_map 512 (sse_fences s)"

definition log_ok :: "sse_state \<Rightarrow> bool" where
  "log_ok s \<longleftrightarrow> (\<forall>i. Closed i \<in> set (sse_log s) \<longrightarrow> i < sse_next s \<and> i \<notin> active_set s)"

definition sse_ok :: "sse_state \<Rightarrow> bool" where
  "sse_ok s \<longleftrightarrow> registry_ok s \<and> limits_ok s \<and> (\<forall>i\<in>active_set s. waiting_ok (sse_conns s i)) \<and> records_ok s \<and> log_ok s"

lemma new_sse_ok: "sse_ok new_sse"
  by (simp add: sse_ok_def new_sse_def registry_ok_def limits_ok_def records_ok_def log_ok_def counted_def indexed_def bounded_map_def bucket_def
    or_else_def Let_def)

section \<open>Fields\<close>

lemma upd_conn_fields [simp]:
  "sse_conns (upd_conn i f s) = (sse_conns s)(i := f (sse_conns s i))" "sse_next (upd_conn i f s) = sse_next s"
  "sse_active (upd_conn i f s) = sse_active s" "by_address (upd_conn i f s) = by_address s" "by_grant (upd_conn i f s) = by_grant s"
  "by_digest (upd_conn i f s) = by_digest s" "by_partition (upd_conn i f s) = by_partition s" "by_session (upd_conn i f s) = by_session s"
  "sse_cohort (upd_conn i f s) = sse_cohort s" "sse_fences (upd_conn i f s) = sse_fences s" "heartbeat_on (upd_conn i f s) = heartbeat_on s"
  "sse_log (upd_conn i f s) = sse_log s"
  by (simp_all add: upd_conn_def)

text \<open>Everything but the cohort and the fences.\<close>

definition core :: "sse_state \<Rightarrow> sse_state" where
  "core s = s\<lparr>sse_cohort := [], sse_fences := []\<rparr>"

lemma core_fields: "core s = core t \<Longrightarrow>
    sse_conns s = sse_conns t \<and> sse_next s = sse_next t \<and> sse_active s = sse_active t \<and> by_address s = by_address t \<and> by_grant s = by_grant t \<and>
    by_digest s = by_digest t \<and> by_partition s = by_partition t \<and> by_session s = by_session t \<and> heartbeat_on s = heartbeat_on t \<and> sse_log s = sse_log t"
  by (cases s; cases t; simp add: core_def)

lemma record_outcome_core [simp]: "core (record_outcome sha i out p s) = core s"
  by (simp add: record_outcome_def core_def Let_def)

lemma fold_outcome_core [simp]: "core (fold (record_outcome sha i out) ps s) = core s"
  by (induction ps arbitrary: s) simp_all

lemma fence_core [simp]: "core (fence_proxy_session sha i p s) = core s"
  by (simp add: fence_proxy_session_def core_def Let_def split: option.splits)

lemmas outcome_fields [simp] = record_outcome_core [THEN core_fields] fold_outcome_core [THEN core_fields] fence_core [THEN core_fields]

lemma records_simps [simp]:
  "records_ok (s\<lparr>sse_log := l\<rparr>) = records_ok s" "records_ok (s\<lparr>heartbeat_on := b\<rparr>) = records_ok s" "records_ok (s\<lparr>sse_active := xs\<rparr>) = records_ok s"
  "records_ok (upd_conn i f s) = records_ok s" "records_ok (drop_from_indexes i s) = records_ok s"
  by (simp_all add: records_ok_def drop_from_indexes_def Let_def)

lemma record_outcome_ok: "records_ok s \<Longrightarrow> records_ok (record_outcome sha i out p s)"
  by (simp add: records_ok_def record_outcome_def bounded_set_ok sse_connection_limits_def Let_def)

lemma fold_outcome_ok: "records_ok s \<Longrightarrow> records_ok (fold (record_outcome sha i out) ps s)"
  by (induction ps arbitrary: s) (simp_all add: record_outcome_ok)

lemma fence_ok: "records_ok s \<Longrightarrow> records_ok (fence_proxy_session sha i p s)"
  by (simp add: records_ok_def fence_proxy_session_def bounded_set_ok sse_connection_limits_def Let_def split: option.splits)

section \<open>Changes of one connection\<close>

text \<open>What the registry reads of a connection.\<close>

definition place_of :: "sse_connection \<Rightarrow> string \<times> string \<times> string \<times> string \<times> string list" where
  "place_of c = (co_address c, co_grant c, co_digest c, co_session c, co_partitions c)"

lemma place_keys:
  "place_of c = place_of d \<Longrightarrow> co_address c = co_address d" "place_of c = place_of d \<Longrightarrow> co_grant c = co_grant d"
  "place_of c = place_of d \<Longrightarrow> digest_keys c = digest_keys d" "place_of c = place_of d \<Longrightarrow> session_keys c = session_keys d"
  "place_of c = place_of d \<Longrightarrow> co_partitions c = co_partitions d"
  by (simp_all add: place_of_def digest_keys_def session_keys_def)

lemma registry_conns:
  assumes "\<And>j. place_of (f j) = place_of (sse_conns s j)"
  shows "registry_ok (s\<lparr>sse_conns := f\<rparr>) = registry_ok s" and "limits_ok (s\<lparr>sse_conns := f\<rparr>) = limits_ok s"
  using place_keys [OF assms] by (simp_all add: registry_ok_def limits_ok_def)

lemma upd_conn_ok:
  assumes "sse_ok s" and "\<And>c. place_of (f c) = place_of c" and "i \<in> active_set s \<Longrightarrow> waiting_ok (f (sse_conns s i))"
  shows "sse_ok (upd_conn i f s)"
proof -
  have p: "place_of (((sse_conns s)(i := f (sse_conns s i))) j) = place_of (sse_conns s j)" for j using assms(2) by simp
  note registry_conns [where f = "(sse_conns s)(i := f (sse_conns s i))", OF p]
  then show ?thesis using assms(1,3) by (simp add: sse_ok_def upd_conn_def records_ok_def log_ok_def)
qed

lemma core_ok: "core s = core t \<Longrightarrow> sse_ok s \<Longrightarrow> records_ok t \<Longrightarrow> sse_ok t"
  using core_fields [of s t] by (simp add: sse_ok_def registry_ok_def limits_ok_def log_ok_def)

lemma record_outcome_sse_ok: "sse_ok s \<Longrightarrow> sse_ok (record_outcome sha i out p s)"
  by (rule core_ok [of s]) (simp_all add: sse_ok_def record_outcome_ok)

lemma fold_outcome_sse_ok: "sse_ok s \<Longrightarrow> sse_ok (fold (record_outcome sha i out) ps s)"
  by (rule core_ok [of s]) (simp_all add: sse_ok_def fold_outcome_ok)

lemma fence_sse_ok: "sse_ok s \<Longrightarrow> sse_ok (fence_proxy_session sha i p s)"
  by (rule core_ok [of s]) (simp_all add: sse_ok_def fence_ok)

section \<open>Leaving\<close>

definition left_state :: "bool \<Rightarrow> nat \<Rightarrow> sse_state \<Rightarrow> sse_state" where
  "left_state close i s =
     (let s1 = drop_from_indexes i (upd_conn i (\<lambda>c. c\<lparr>co_attached := False, co_timer := None\<rparr>) (s\<lparr>sse_active := removeAll i (sse_active s)\<rparr>));
          s2 = (if removeAll i (sse_active s) = [] then s1\<lparr>heartbeat_on := False\<rparr> else s1)
      in if close then s2\<lparr>sse_log := sse_log s @ [Closed i]\<rparr> else s2)"

lemma drop_fields [simp]:
  "sse_conns (drop_from_indexes i s) = sse_conns s" "sse_next (drop_from_indexes i s) = sse_next s" "sse_active (drop_from_indexes i s) = sse_active s"
  "heartbeat_on (drop_from_indexes i s) = heartbeat_on s" "sse_log (drop_from_indexes i s) = sse_log s"
  "sse_cohort (drop_from_indexes i s) = sse_cohort s" "sse_fences (drop_from_indexes i s) = sse_fences s"
  "by_address (drop_from_indexes i s) = decrement_count (co_address (sse_conns s i)) (by_address s)"
  "by_grant (drop_from_indexes i s) = decrement_count (co_grant (sse_conns s i)) (by_grant s)"
  "by_digest (drop_from_indexes i s) = remove_from_index (co_digest (sse_conns s i)) i (by_digest s)"
  "by_session (drop_from_indexes i s) = remove_from_index (co_session (sse_conns s i)) i (by_session s)"
  "by_partition (drop_from_indexes i s) = fold (\<lambda>k. remove_from_index k i) (co_partitions (sse_conns s i)) (by_partition s)"
  by (simp_all add: drop_from_indexes_def Let_def)

lemma remove_core: "i \<in> active_set s \<Longrightarrow> core (remove_connection sha close i s) = core (left_state close i s)"
proof -
  assume i: "i \<in> active_set s"
  let ?s2 = "upd_conn i (\<lambda>c. c\<lparr>co_timer := None\<rparr>) (drop_from_indexes i (upd_conn i (\<lambda>c. c\<lparr>co_attached := False\<rparr>) (s\<lparr>sse_active := removeAll i (sse_active s)\<rparr>)))"
  let ?s3 = "fold (record_outcome sha i (if close then ''fenced'' else ''disconnected'')) (co_history (sse_conns ?s2 i)) ?s2"
  have c: "core ?s3 = core ?s2" by simp
  have a: "sse_active ?s3 = removeAll i (sse_active s)" using core_fields [OF c] by simp
  have e: "core t = core u \<Longrightarrow> core (t\<lparr>heartbeat_on := b\<rparr>) = core (u\<lparr>heartbeat_on := b\<rparr>)" for t u b
    by (cases t; cases u; simp add: core_def)
  have l: "core t = core u \<Longrightarrow> core (t\<lparr>sse_log := b\<rparr>) = core (u\<lparr>sse_log := b\<rparr>)" for t u b
    by (cases t; cases u; simp add: core_def)
  have two: "core ?s2 = core (drop_from_indexes i (upd_conn i (\<lambda>c. c\<lparr>co_attached := False, co_timer := None\<rparr>) (s\<lparr>sse_active := removeAll i (sse_active s)\<rparr>)))"
    by (simp add: core_def upd_conn_def drop_from_indexes_def Let_def)
  show ?thesis
    unfolding remove_connection_def left_state_def Let_def a
    using i c two by (auto intro!: e l)
qed

lemma remove_inactive: "i \<notin> active_set s \<Longrightarrow> remove_connection sha close i s = s"
  by (simp add: remove_connection_def)

lemma left_fields:
  "sse_conns (left_state close i s) = (sse_conns s)(i := (sse_conns s i)\<lparr>co_attached := False, co_timer := None\<rparr>)"
  "sse_next (left_state close i s) = sse_next s" "sse_active (left_state close i s) = removeAll i (sse_active s)"
  "by_address (left_state close i s) = decrement_count (co_address (sse_conns s i)) (by_address s)"
  "by_grant (left_state close i s) = decrement_count (co_grant (sse_conns s i)) (by_grant s)"
  "by_digest (left_state close i s) = remove_from_index (co_digest (sse_conns s i)) i (by_digest s)"
  "by_session (left_state close i s) = remove_from_index (co_session (sse_conns s i)) i (by_session s)"
  "by_partition (left_state close i s) = fold (\<lambda>k. remove_from_index k i) (co_partitions (sse_conns s i)) (by_partition s)"
  "heartbeat_on (left_state close i s) = (heartbeat_on s \<and> removeAll i (sse_active s) \<noteq> [])"
  "sse_log (left_state close i s) = sse_log s @ (if close then [Closed i] else [])"
  by (simp_all add: left_state_def Let_def)

lemma indexed_gone:
  assumes "indexed m A K" and "[] \<notin> K i" and "K i \<subseteq> set ks"
  shows "indexed (fold (\<lambda>k. remove_from_index k i) ks m) (A - {i}) K"
proof -
  have "indexed (fold (\<lambda>k. remove_from_index k i) ks m) A (K(i := K i - set ks))" using assms(1,2) by (rule indexed_remove_all)
  then have "indexed (fold (\<lambda>k. remove_from_index k i) ks m) (A - {i}) (K(i := K i - set ks))" using assms(3) by (intro indexed_leave) auto
  then show ?thesis by (rule indexed_cong) auto
qed

lemma registry_left: "registry_ok s \<Longrightarrow> i \<in> active_set s \<Longrightarrow> registry_ok (left_state close i s)"
proof -
  assume r: "registry_ok s" and i: "i \<in> active_set s"
  let ?c = "sse_conns s i" and ?t = "left_state close i s"
  have place: "place_of (sse_conns ?t j) = place_of (sse_conns s j)" for j by (simp add: left_fields place_of_def)
  note keys = place_keys [OF place]
  have d: "distinct (sse_active s)" using r by (simp add: registry_ok_def)
  have "counted (by_address ?t) (sse_active ?t) (\<lambda>j. co_address (sse_conns s j))" "counted (by_grant ?t) (sse_active ?t) (\<lambda>j. co_grant (sse_conns s j))"
    unfolding left_fields using r i d
      counted_leave [of "by_address s" "sse_active s" "\<lambda>j. co_address (sse_conns s j)" i]
      counted_leave [of "by_grant s" "sse_active s" "\<lambda>j. co_grant (sse_conns s j)" i]
    by (auto simp: registry_ok_def)
  moreover have "indexed (by_digest ?t) (active_set s - {i}) (\<lambda>j. digest_keys (sse_conns s j))"
    unfolding left_fields using r indexed_gone [of "by_digest s" "active_set s" "\<lambda>j. digest_keys (sse_conns s j)" i "[co_digest ?c]"]
    by (auto simp: registry_ok_def digest_keys_def)
  moreover have "indexed (by_session ?t) (active_set s - {i}) (\<lambda>j. session_keys (sse_conns s j))"
    unfolding left_fields using r indexed_gone [of "by_session s" "active_set s" "\<lambda>j. session_keys (sse_conns s j)" i "[co_session ?c]"]
    by (auto simp: registry_ok_def session_keys_def)
  moreover have "indexed (by_partition ?t) (active_set s - {i}) (\<lambda>j. set (co_partitions (sse_conns s j)))"
    unfolding left_fields using r i indexed_gone [of "by_partition s" "active_set s" "\<lambda>j. set (co_partitions (sse_conns s j))" i "co_partitions ?c"]
    by (auto simp: registry_ok_def)
  moreover have "distinct (sse_active ?t)" using d by (simp add: left_fields removeAll_filter_not_eq)
  moreover have "active_set ?t = active_set s - {i}" by (simp add: left_fields)
  ultimately show ?thesis using r i by (auto simp: registry_ok_def keys) (simp_all add: left_fields)
qed

lemma length_filter_removeAll_le: "length (filter P (removeAll i xs)) \<le> length (filter P xs)"
  by (induction xs) auto

lemma limits_left: "limits_ok s \<Longrightarrow> limits_ok (left_state close i s)"
proof -
  assume l: "limits_ok s"
  have place: "place_of (sse_conns (left_state close i s) j) = place_of (sse_conns s j)" for j by (simp add: left_fields place_of_def)
  note keys = place_keys [OF place]
  have "length (sse_active s) \<le> 256" using l by (simp add: limits_ok_def)
  then have "length (removeAll i (sse_active s)) \<le> 256" by (rule le_trans [OF length_removeAll_less_eq])
  then show ?thesis using l length_filter_removeAll_le [of _ i "sse_active s"]
    unfolding limits_ok_def keys unfolding left_fields by (meson order_trans)
qed

text \<open>The state while one connection is being taken out of it.\<close>

definition sse_ok_but :: "nat \<Rightarrow> sse_state \<Rightarrow> bool" where
  "sse_ok_but i s \<longleftrightarrow>
     registry_ok s \<and> limits_ok s \<and> (\<forall>j\<in>active_set s - {i}. waiting_ok (sse_conns s j)) \<and> records_ok s \<and> log_ok s"

lemma remove_but_ok: "sse_ok_but i s \<Longrightarrow> i \<in> active_set s \<Longrightarrow> sse_ok (remove_connection sha close i s)"
proof -
  assume s: "sse_ok_but i s" and i: "i \<in> active_set s"
  let ?t = "left_state close i s"
  have t: "sse_ok ?t" if "records_ok ?t"
    using s i that registry_left [of s i close] limits_left [of s close i]
    by (auto simp: sse_ok_def sse_ok_but_def log_ok_def left_fields registry_ok_def)
  have "sse_cohort ?t = sse_cohort s \<and> sse_fences ?t = sse_fences s" by (simp add: left_state_def Let_def)
  then have "records_ok ?t" using s by (simp add: sse_ok_but_def records_ok_def)
  moreover have "records_ok (remove_connection sha close i s)"
    using s by (simp add: remove_connection_def Let_def sse_ok_but_def fold_outcome_ok)
  ultimately show ?thesis using core_ok [OF remove_core [OF i, symmetric]] t by blast
qed

lemma remove_connection_ok: "sse_ok s \<Longrightarrow> sse_ok (remove_connection sha close i s)"
  using remove_but_ok [of i s] by (cases "i \<in> active_set s") (simp_all add: sse_ok_def sse_ok_but_def remove_inactive)

lemma fold_remove_ok: "sse_ok s \<Longrightarrow> sse_ok (fold (remove_connection sha close) is s)"
  by (induction "is" arbitrary: s) (simp_all add: remove_connection_ok)

section \<open>Writing\<close>

lemma wrote_ok [simp]: "sse_ok (s\<lparr>sse_log := sse_log s @ [Wrote i t]\<rparr>) = sse_ok s"
  by (simp add: sse_ok_def registry_ok_def limits_ok_def log_ok_def)

lemma write_connection_ok: "sse_ok s \<Longrightarrow> sse_ok (snd (write_connection sha io t i s))"
  by (simp add: write_connection_def remove_connection_ok Let_def split: stream.splits)

lemma heartbeat_ok: "sse_ok s \<Longrightarrow> sse_ok (heartbeat sha io s)"
proof -
  have "sse_ok s \<Longrightarrow> sse_ok (fold (\<lambda>i s. snd (write_connection sha io heartbeat_chunk i s)) is s)" for "is"
    by (induction "is" arbitrary: s) (simp_all add: write_connection_ok)
  then show "sse_ok s \<Longrightarrow> ?thesis" by (simp add: heartbeat_def)
qed

lemma stream_closes_ok: "sse_ok s \<Longrightarrow> sse_ok (stream_closes sha i s)"
  by (simp add: stream_closes_def remove_connection_ok)

section \<open>Admission\<close>

lemma normalize_bounded_clean: "[] \<notin> set (normalize_bounded n v)"
  by (auto simp: normalize_bounded_def)

lemma bind_partitions_ok: "sse_ok s \<Longrightarrow> sse_ok (snd (bind_partitions v i s))"
proof (cases "i \<in> active_set s")
  case True
  assume s: "sse_ok s"
  let ?ks = "normalize_partition_keys v" and ?K = "\<lambda>j. set (co_partitions (sse_conns s j))" and ?t = "snd (bind_partitions v i s)"
  let ?m = "fold (\<lambda>k. remove_from_index k i) (co_partitions (sse_conns s i)) (by_partition s)"
  have r: "registry_ok s" using s by (simp add: sse_ok_def)
  have clean: "[] \<notin> set ?ks" unfolding normalize_partition_keys_def by (rule normalize_bounded_clean)
  have "indexed ?m (active_set s) (?K(i := ?K i - set (co_partitions (sse_conns s i))))"
    using r True by (intro indexed_remove_all) (auto simp: registry_ok_def)
  then have "indexed (fold (\<lambda>k. add_to_index k i) ?ks ?m) (active_set s) ((?K(i := {}))(i := (?K(i := {})) i \<union> set ?ks))"
    using True clean by (intro indexed_add_all) simp_all
  then have p: "indexed (by_partition ?t) (active_set ?t) (\<lambda>j. set (co_partitions (sse_conns ?t j)))"
    using True by (simp add: bind_partitions_def Let_def) (erule indexed_cong, simp)
  have "place_of (sse_conns ?t j) = (case place_of (sse_conns s j) of (a, g, d, x, ps) \<Rightarrow> (a, g, d, x, if j = i then ?ks else ps))" for j
    using True by (simp add: bind_partitions_def place_of_def Let_def)
  then have c: "co_address (sse_conns ?t j) = co_address (sse_conns s j)" "co_grant (sse_conns ?t j) = co_grant (sse_conns s j)"
    "digest_keys (sse_conns ?t j) = digest_keys (sse_conns s j)" "session_keys (sse_conns ?t j) = session_keys (sse_conns s j)" for j
    by (simp_all add: place_of_def digest_keys_def session_keys_def)
  have f: "sse_active ?t = sse_active s" "sse_next ?t = sse_next s" "by_address ?t = by_address s" "by_grant ?t = by_grant s" "by_digest ?t = by_digest s"
    "by_session ?t = by_session s" "heartbeat_on ?t = heartbeat_on s" "sse_log ?t = sse_log s" "sse_cohort ?t = sse_cohort s" "sse_fences ?t = sse_fences s"
    using True by (simp_all add: bind_partitions_def Let_def)
  have "registry_ok ?t" using r p clean True unfolding registry_ok_def c f
    by (auto simp: bind_partitions_def Let_def)
  moreover have "limits_ok ?t" using s unfolding limits_ok_def c f by (simp add: sse_ok_def limits_ok_def)
  moreover have "\<forall>j\<in>active_set ?t. waiting_ok (sse_conns ?t j)" unfolding f using s True
    by (auto simp: bind_partitions_def Let_def sse_ok_def waiting_ok_def)
  ultimately show ?thesis using s unfolding sse_ok_def records_ok_def log_ok_def f by simp
qed (simp add: bind_partitions_def)

lemma add_connection_ok:
  assumes s: "sse_ok s" and w: "waiting_ok c" and p: "co_partitions c = []" and id: "co_address c \<noteq> []" "co_grant c \<noteq> []"
    and room: "length (sse_active s) < 256" "count_for (by_address s) (co_address c) < 32" "count_for (by_grant s) (co_grant c) < 16"
  shows "sse_ok ((add_connection c s)\<lparr>heartbeat_on := True\<rparr>)"
proof -
  let ?i = "sse_next s" and ?t = "(add_connection c s)\<lparr>heartbeat_on := True\<rparr>"
  have r: "registry_ok s" and l: "limits_ok s" using s by (simp_all add: sse_ok_def)
  have new: "?i \<notin> active_set s" using r by (auto simp: registry_ok_def)
  have conns: "sse_conns ?t = (sse_conns s)(?i := c)" and active: "sse_active ?t = sse_active s @ [?i]"
    by (simp_all add: add_connection_def Let_def)
  let ?f = "\<lambda>g. (\<lambda>j. g ((if j = ?i then c else sse_conns s j)))"
  have old: "j \<in> active_set s \<Longrightarrow> ?f g j = g (sse_conns s j)" for g :: "sse_connection \<Rightarrow> 'a" and j using new by auto
  have count: "counted (increment_count (g c) m) (sse_active s @ [?i]) (\<lambda>j. g (((sse_conns s)(?i := c)) j))"
    if "counted m (sse_active s) (\<lambda>j. g (sse_conns s j))" "g c \<noteq> []" for g m
  proof -
    have "counted m (sse_active s) (\<lambda>j. g (((sse_conns s)(?i := c)) j))" using that(1) by (rule counted_cong) (use new in auto)
    from counted_enter [OF this, of ?i] show ?thesis using that(2) by simp
  qed
  have ix: "indexed (add_to_index k ?i m) (insert ?i (active_set s)) (\<lambda>j. K (((sse_conns s)(?i := c)) j))"
    if m: "indexed m (active_set s) (\<lambda>j. K (sse_conns s j))" and K: "K c = {k} - {[]}" for K k m
  proof -
    have "indexed m (active_set s) ((\<lambda>j. K (sse_conns s j))(?i := {}))" using m by (rule indexed_cong) (use new in auto)
    then have e: "indexed m (insert ?i (active_set s)) ((\<lambda>j. K (sse_conns s j))(?i := {}))" by (rule indexed_enter) simp
    show ?thesis
    proof (cases "k = []")
      case True
      then show ?thesis using e K by (simp add: add_to_index_def) (erule indexed_cong, auto)
    next
      case False
      then show ?thesis using indexed_add [OF e, of ?i k] K by simp (erule indexed_cong, auto)
    qed
  qed
  have pt: "indexed (by_partition s) (insert ?i (active_set s)) (\<lambda>j. set (co_partitions (((sse_conns s)(?i := c)) j)))"
    using ix [of "by_partition s" "\<lambda>c. set (co_partitions c)" "[]"] r p by (simp add: registry_ok_def add_to_index_def)
  have "registry_ok ?t"
    using r new id p count [of "by_address s" co_address] count [of "by_grant s" co_grant] ix [of "by_digest s" digest_keys "co_digest c"]
      ix [of "by_session s" session_keys "co_session c"] pt
    by (simp add: registry_ok_def add_connection_def Let_def digest_keys_def session_keys_def less_SucI)
  moreover have "limits_ok ?t"
  proof -
    have same: "filter (\<lambda>j. g (if j = ?i then c else sse_conns s j) = a) (sse_active s) = filter (\<lambda>j. g (sse_conns s j) = a) (sse_active s)"
      for g :: "sse_connection \<Rightarrow> string" and a by (rule filter_cong) (use new in auto)
    have "length (filter (\<lambda>j. co_address (sse_conns s j) = co_address c) (sse_active s)) < 32"
      "length (filter (\<lambda>j. co_grant (sse_conns s j) = co_grant c) (sse_active s)) < 16"
      using r id room counted_count [of "by_address s" "sse_active s" "\<lambda>j. co_address (sse_conns s j)" "co_address c"]
        counted_count [of "by_grant s" "sse_active s" "\<lambda>j. co_grant (sse_conns s j)" "co_grant c"]
      by (simp_all add: registry_ok_def)
    then show ?thesis using l room(1) unfolding limits_ok_def conns active by (simp add: same [of co_address] same [of co_grant])
  qed
  moreover have "\<forall>j\<in>active_set ?t. waiting_ok (sse_conns ?t j)" unfolding conns active using s w new by (auto simp: sse_ok_def)
  moreover have "records_ok ?t" using s by (simp add: sse_ok_def records_ok_def add_connection_def Let_def)
  moreover have "log_ok ?t" using s new by (auto simp: sse_ok_def log_ok_def add_connection_def Let_def)
  ultimately show ?thesis by (simp add: sse_ok_def)
qed

lemma attach_first:
  "upd_conn (sse_next s) (\<lambda>c. c\<lparr>co_attached := True\<rparr>) (snd (bind_partitions v (sse_next s) (add_connection c s))\<lparr>heartbeat_on := True\<rparr>) =
   snd (bind_partitions v (sse_next s) ((add_connection (c\<lparr>co_attached := True\<rparr>) s)\<lparr>heartbeat_on := True\<rparr>))"
  by (cases s; cases c; simp add: bind_partitions_def add_connection_def upd_conn_def Let_def)

lemma register_sse_ok: "sse_ok s \<Longrightarrow> sse_ok (snd (register_sse sha r s))"
proof -
  assume s: "sse_ok s"
  let ?c = "new_connection sha r"
  have w: "waiting_ok (?c\<lparr>co_attached := True\<rparr>)" by (simp add: waiting_ok_def new_connection_def blank_connection_def)
  have "co_partitions ?c = []" by (simp add: new_connection_def blank_connection_def)
  then have "sse_ok ((add_connection (?c\<lparr>co_attached := True\<rparr>) s)\<lparr>heartbeat_on := True\<rparr>)"
    if "co_grant ?c \<noteq> []" "co_address ?c \<noteq> []" "length (sse_active s) < 256" "count_for (by_address s) (co_address ?c) < 32"
      "count_for (by_grant s) (co_grant ?c) < 16"
    using add_connection_ok [OF s w] that by simp
  note new = bind_partitions_ok [OF this]
  show ?thesis unfolding register_sse_def Let_def attach_first
    using s new by (simp add: sse_connection_limits_def not_le)
qed

section \<open>Convergence\<close>

abbreviation "revisions \<equiv> \<lambda>p. (pc_source p, pc_audience p)"

lemma put_history_revisions:
  "revisions p \<in> revisions ` set h \<Longrightarrow> map revisions (put_history p h) = map revisions h"
  "revisions p \<notin> revisions ` set h \<Longrightarrow> put_history p h = h @ [p]"
  by (induction h) auto

lemma put_history_ok:
  assumes "distinct (map revisions h)" and "length h \<le> 8" and "h' = put_history p h"
  shows "p \<in> set (drop (length h' - 8) h')" and "distinct (map revisions (drop (length h' - 8) h'))" and "length (drop (length h' - 8) h') \<le> 8"
proof -
  have mem: "p \<in> set (put_history p h)" by (induction h) auto
  show "length (drop (length h' - 8) h') \<le> 8" by simp
  show "p \<in> set (drop (length h' - 8) h')"
  proof (cases "revisions p \<in> revisions ` set h")
    case True
    then have "map revisions h' = map revisions h" unfolding assms(3) by (rule put_history_revisions)
    then have "length h' \<le> 8" using assms(2) by (metis length_map)
    then show ?thesis using mem by (simp add: assms(3))
  next
    case False
    then have "h' = h @ [p]" unfolding assms(3) by (rule put_history_revisions)
    then show ?thesis using assms(2) by (cases "length h = 8") auto
  qed
  have "distinct (map revisions h')"
    using put_history_revisions [of p h] assms(1) unfolding assms(3) by (cases "revisions p \<in> revisions ` set h") auto
  then show "distinct (map revisions (drop (length h' - 8) h'))" by (simp add: drop_map [symmetric])
qed

lemma schedule_ack_ok: "sse_ok s \<Longrightarrow> sse_ok (schedule_acknowledgement sha i payload s)"
proof (cases "pending_of (sse_conns s i) payload")
  case (Some p)
  assume s: "sse_ok s"
  let ?c = "sse_conns s i"
  let ?h = "put_history p (co_history ?c)"
  let ?over = "length ?h - 8"
  let ?f = "\<lambda>c. c\<lparr>co_pending := Some p, co_history := drop ?over ?h\<rparr>" and ?g = "\<lambda>c. c\<lparr>co_timer := Some AnyPending\<rparr>"
  let ?out = "\<lambda>s. record_outcome sha i ''pending'' p (fold (record_outcome sha i ''fenced'') (take ?over ?h) s)"
  have core_upd: "core t = core u \<Longrightarrow> core (upd_conn i f t) = core (upd_conn i f u)" for t u f
    by (cases t; cases u; simp add: core_def upd_conn_def)
  have twice: "upd_conn i ?g (upd_conn i ?f s) = upd_conn i (\<lambda>c. ?g (?f c)) s"
    by (simp add: upd_conn_def)
  have e: "schedule_acknowledgement sha i payload s = upd_conn i ?g (?out (upd_conn i ?f s))"
    using Some by (simp add: schedule_acknowledgement_def Let_def sse_connection_limits_def)
  have "core (upd_conn i ?g (?out (upd_conn i ?f s))) = core (upd_conn i ?g (upd_conn i ?f s))" by (rule core_upd) simp
  moreover have "sse_ok (upd_conn i (\<lambda>c. ?g (?f c)) s)"
  proof (rule upd_conn_ok [OF s])
    assume "i \<in> active_set s"
    then have "waiting_ok ?c" using s by (simp add: sse_ok_def)
    then show "waiting_ok (?g (?f ?c))" using put_history_ok [OF _ _ refl, of "co_history ?c" p] by (auto simp: waiting_ok_def)
  qed (simp add: place_of_def)
  moreover have "records_ok (upd_conn i ?g (?out (upd_conn i ?f s)))"
    using s by (simp add: sse_ok_def record_outcome_ok fold_outcome_ok)
  ultimately show ?thesis unfolding e twice [symmetric] by (metis core_ok)
qed (simp add: schedule_acknowledgement_def)

lemma fenced_ok: "sse_ok s \<Longrightarrow> sse_ok (upd_conn i (\<lambda>c. c\<lparr>co_fenced := b\<rparr>) s)"
  by (rule upd_conn_ok) (auto simp: place_of_def waiting_ok_def sse_ok_def)

lemma upd_conn_but: "sse_ok s \<Longrightarrow> (\<And>c. place_of (f c) = place_of c) \<Longrightarrow> sse_ok_but i (upd_conn i f s)"
proof -
  assume s: "sse_ok s" and f: "\<And>c. place_of (f c) = place_of c"
  have p: "place_of (((sse_conns s)(i := f (sse_conns s i))) j) = place_of (sse_conns s j)" for j using f by simp
  note registry_conns [where f = "(sse_conns s)(i := f (sse_conns s i))", OF p]
  then show ?thesis using s by (simp add: sse_ok_def sse_ok_but_def upd_conn_def records_ok_def log_ok_def)
qed

lemma cut_off_but: "sse_ok s \<Longrightarrow> i \<in> active_set s \<Longrightarrow> sse_ok (cut_off sha i p (upd_conn i (\<lambda>c. c\<lparr>co_timer := t\<rparr>) s))"
proof -
  assume s: "sse_ok s" and i: "i \<in> active_set s"
  let ?f = "\<lambda>c. c\<lparr>co_timer := t, co_fenced := True\<rparr>"
  let ?u = "upd_conn i (\<lambda>c. c\<lparr>co_fenced := True\<rparr>) (upd_conn i (\<lambda>c. c\<lparr>co_timer := t\<rparr>) s)"
  have u: "?u = upd_conn i ?f s" by (simp add: upd_conn_def)
  have "sse_ok_but i ?u" unfolding u by (rule upd_conn_but [OF s]) (simp add: place_of_def)
  then have "sse_ok_but i (fence_proxy_session sha i p ?u)"
    using core_fields [OF fence_core [of sha i p ?u]] fence_ok [of ?u sha i p] by (simp add: sse_ok_but_def registry_ok_def limits_ok_def log_ok_def)
  then show ?thesis unfolding cut_off_def by (rule remove_but_ok) (use i in simp)
qed

lemma ack_timer_ok: "sse_ok s \<Longrightarrow> sse_ok (ack_timer_fires sha i s)"
proof -
  assume s: "sse_ok s"
  let ?c = "sse_conns s i" and ?s = "upd_conn i (\<lambda>c. c\<lparr>co_timer := None\<rparr>) s"
  have "sse_ok ?s" if "i \<notin> active_set s" using that by (intro upd_conn_ok [OF s]) (simp_all add: place_of_def)
  moreover have "i \<in> active_set s \<Longrightarrow> waiting_ok ?c" using s by (simp add: sse_ok_def)
  ultimately show ?thesis using s cut_off_but [OF s, where t = None]
    by (cases "i \<in> active_set s") (auto simp: ack_timer_fires_def Let_def waiting_ok_def split: option.splits ack_timer.splits)
qed

lemma cut_off_ok: "sse_ok s \<Longrightarrow> sse_ok (cut_off sha i p s)"
  by (simp add: cut_off_def remove_connection_ok fence_sse_ok fenced_ok)

section \<open>Delivery\<close>

text \<open>
  The queue of pending notifications is empty between operations, so a notification with a coalescing
  key is written at once like any other: nothing is ever coalesced.
\<close>

lemma nothing_coalesced:
  "i \<in> active_set s \<Longrightarrow> waiting_ok (sse_conns s i) \<Longrightarrow> enqueue_or_write sha io coalesce t i s = write_connection sha io t i s"
proof -
  assume "waiting_ok (sse_conns s i)"
  then have q: "co_notifications (sse_conns s i) = []" by (simp add: waiting_ok_def)
  then have "(sse_conns s i)\<lparr>co_notifications := []\<rparr> = sse_conns s i" by (cases "sse_conns s i") simp
  then have "upd_conn i (\<lambda>c. c\<lparr>co_notifications := []\<rparr>) s = s" by (cases s) (simp add: upd_conn_def)
  then show ?thesis using q by (simp add: enqueue_or_write_def Let_def sse_connection_limits_def)
qed

lemma enqueue_or_write_ok: "sse_ok s \<Longrightarrow> sse_ok (snd (enqueue_or_write sha io coalesce t i s))"
proof (cases "i \<in> active_set s")
  case True
  assume s: "sse_ok s"
  then have "waiting_ok (sse_conns s i)" using True by (simp add: sse_ok_def)
  then show ?thesis using write_connection_ok [OF s] nothing_coalesced [OF True] by simp
next
  case False
  assume s: "sse_ok s"
  have u: "sse_ok (upd_conn i (\<lambda>c. c\<lparr>co_notifications := q\<rparr>) s)" for q
    using False by (intro upd_conn_ok [OF s]) (simp_all add: place_of_def)
  then show ?thesis using s by (simp add: enqueue_or_write_def Let_def write_connection_ok split: list.splits prod.splits)
qed

lemma deliver_ok: "sse_ok s \<Longrightarrow> sse_ok (snd (snd (deliver sha io o' payload i (m, d, s))))"
proof (cases "delivered_payload o' payload (sse_conns s i)")
  case (Some v)
  assume s: "sse_ok s"
  obtain b s' where w: "enqueue_or_write sha io (bo_coalesce o') (event_text v) i s = (b, s')" by fastforce
  then have "sse_ok s'" using enqueue_or_write_ok [OF s, of sha io "bo_coalesce o'" "event_text v" i] by simp
  then show ?thesis using w Some by (cases b) (simp_all add: deliver_def schedule_ack_ok)
qed (simp add: deliver_def)

lemma fold_deliver_ok: "sse_ok (snd (snd mds)) \<Longrightarrow> sse_ok (snd (snd (fold (deliver sha io o' payload) is mds)))"
proof (induction "is" arbitrary: mds)
  case (Cons i "is")
  then show ?case using deliver_ok [of "snd (snd mds)" sha io o' payload i "fst mds" "fst (snd mds)"] by simp
qed simp

lemma broadcast_ok: "sse_ok s \<Longrightarrow> sse_ok (snd (snd (broadcast_notification sha io o' payload s)))"
  by (simp add: broadcast_notification_def fold_deliver_ok)

section \<open>Acknowledgement and the other operations\<close>

lemma mark_applied_ok: "sse_ok s \<Longrightarrow> sse_ok (snd (mark_applied n i s))"
proof -
  assume s: "sse_ok s"
  then have "sse_ok (upd_conn i (\<lambda>c. c\<lparr>co_applied := n, co_fenced := False\<rparr>) s)"
    by (intro upd_conn_ok) (auto simp: place_of_def waiting_ok_def sse_ok_def)
  then show ?thesis using s by (simp add: mark_applied_def)
qed

lemma acknowledge_one_ok: "sse_ok s \<Longrightarrow> sse_ok (snd (acknowledge_one sha a i (n, s)))"
proof -
  assume s: "sse_ok s"
  let ?c = "sse_conns s i"
  let ?remaining = "filter (\<lambda>p. \<not> covered a p) (co_history ?c)"
  let ?latest = "if ?remaining = [] then None else Some (last ?remaining)"
  let ?s1 = "fold (record_outcome sha i ''applied'') (filter (covered a) (co_history ?c)) s"
  let ?f = "\<lambda>c. c\<lparr>co_history := ?remaining, co_pending := ?latest, co_timer := map_option ThisPending ?latest, co_applied := ak_audience a, co_fenced := False\<rparr>"
  have s1: "sse_ok ?s1" using s by (rule fold_outcome_sse_ok)
  have "sse_ok (upd_conn i ?f ?s1)"
  proof (rule upd_conn_ok [OF s1])
    assume "i \<in> active_set ?s1"
    then have w: "waiting_ok ?c" using s by (simp add: sse_ok_def)
    have "distinct (map revisions ?remaining)" using w by (intro distinct_map_filter) (simp add: waiting_ok_def)
    moreover have "length (co_history ?c) \<le> 8" using w by (simp add: waiting_ok_def)
    then have "length ?remaining \<le> 8" by (rule le_trans [OF length_filter_le])
    moreover have "?remaining \<noteq> [] \<Longrightarrow> last ?remaining \<in> set ?remaining" by (rule last_in_set)
    ultimately show "waiting_ok (?f (sse_conns ?s1 i))" using w by (simp add: waiting_ok_def)
  qed (simp add: place_of_def)
  then show ?thesis using s by (simp add: acknowledge_one_def Let_def)
qed

lemma acknowledge_ok: "sse_ok s \<Longrightarrow> sse_ok (snd (acknowledge_convergence sha a s))"
proof -
  have "sse_ok (snd ns) \<Longrightarrow> sse_ok (snd (fold (acknowledge_one sha a) is ns))" for "is" ns
  proof (induction "is" arbitrary: ns)
    case (Cons i "is")
    then show ?case using acknowledge_one_ok [of "snd ns" sha a i "fst ns"] by simp
  qed simp
  then show "sse_ok s \<Longrightarrow> ?thesis" by (simp add: acknowledge_convergence_def)
qed

lemma fence_connection_ok: "sse_ok s \<Longrightarrow> sse_ok (snd (fence_connection sha close i s))"
  by (simp add: fence_connection_def Let_def remove_connection_ok fenced_ok)

lemma disconnect_ok: "sse_ok s \<Longrightarrow> sse_ok (snd (disconnect_by_grant sha g s))"
  by (simp add: disconnect_by_grant_def Let_def fold_remove_ok)

lemma remove_active: "sse_active (remove_connection sha close i s) = removeAll i (sse_active s)"
  using core_fields [OF remove_core [of i s sha close]] by (cases "i \<in> active_set s") (simp_all add: left_fields remove_inactive)

lemma fold_remove_active: "sse_active (fold (remove_connection sha close) is s) = filter (\<lambda>j. j \<notin> set is) (sse_active s)"
  by (induction "is" arbitrary: s) (auto simp: remove_active removeAll_filter_not_eq intro: filter_cong)

lemma reset_ok: "sse_ok s \<Longrightarrow> sse_ok (reset_sse sha s)"
proof -
  assume s: "sse_ok s"
  let ?t = "fold (remove_connection sha True) (sse_active s) s"
  have "sse_active ?t = []" by (simp add: fold_remove_active filter_empty_conv)
  moreover have "sse_ok ?t" using s by (rule fold_remove_ok)
  ultimately show ?thesis
    by (simp add: reset_sse_def sse_ok_def registry_ok_def limits_ok_def records_ok_def log_ok_def counted_def indexed_def bounded_map_def bucket_def
      or_else_def Let_def)
qed

section \<open>Reachable states\<close>

inductive sse_step :: "(string \<Rightarrow> string) \<Rightarrow> sse_state \<Rightarrow> sse_state \<Rightarrow> bool" for sha where
  step_register: "sse_step sha s (snd (register_sse sha r s))"
| step_write: "sse_step sha s (snd (write_connection sha io t i s))"
| step_close: "sse_step sha s (remove_connection sha True i s)"
| step_stream_closes: "sse_step sha s (stream_closes sha i s)"
| step_heartbeat: "sse_step sha s (heartbeat sha io s)"
| step_bind: "sse_step sha s (snd (bind_partitions v i s))"
| step_broadcast: "sse_step sha s (snd (snd (broadcast_notification sha io o' payload s)))"
| step_mark: "sse_step sha s (snd (mark_applied n i s))"
| step_ack_timer: "sse_step sha s (ack_timer_fires sha i s)"
| step_acknowledge: "sse_step sha s (snd (acknowledge_convergence sha a s))"
| step_fence: "sse_step sha s (snd (fence_connection sha close i s))"
| step_disconnect: "sse_step sha s (snd (disconnect_by_grant sha g s))"
| step_reset: "sse_step sha s (reset_sse sha s)"

inductive_cases sse_step_cases: "sse_step sha s s'"

inductive sse_reachable :: "(string \<Rightarrow> string) \<Rightarrow> sse_state \<Rightarrow> bool" for sha where
  reach_new: "sse_reachable sha new_sse"
| reach_step: "sse_reachable sha s \<Longrightarrow> sse_step sha s s' \<Longrightarrow> sse_reachable sha s'"

lemmas sse_ops_ok = register_sse_ok write_connection_ok remove_connection_ok stream_closes_ok heartbeat_ok bind_partitions_ok broadcast_ok mark_applied_ok
  ack_timer_ok acknowledge_ok fence_connection_ok disconnect_ok reset_ok

lemma sse_step_ok: "sse_step sha s s' \<Longrightarrow> sse_ok s \<Longrightarrow> sse_ok s'"
  by (erule sse_step_cases) (simp_all add: sse_ops_ok)

lemma sse_reachable_ok: "sse_reachable sha s \<Longrightarrow> sse_ok s"
  by (induction rule: sse_reachable.induct) (auto intro: new_sse_ok sse_step_ok)

end
