(* ===== verification/SseSafety.thy ===== *)
theory SseSafety imports SseInv begin

text \<open>
  What the stream registry guarantees in every reachable state: admission stays within its limits and
  the indexes are exact, a broadcast reaches only whom it concerns and tells each subscriber only of
  its own partitions, a subscriber that does not acknowledge a new catalog is cut off and stays out,
  and one that does is settled.
\<close>

section \<open>What a delivery changes\<close>

definition fixed_of :: "sse_connection \<Rightarrow> (string \<times> string \<times> string \<times> string \<times> string list) \<times> bool \<times> string list \<times> jv" where
  "fixed_of c = (place_of c, co_private c, co_capabilities c, co_subscription c)"

lemma delivered_payload_cong: "fixed_of c = fixed_of d \<Longrightarrow> delivered_payload o' payload c = delivered_payload o' payload d"
  by (simp add: fixed_of_def place_of_def delivered_payload_def wanted_def scoped_payload_def subscribed_payload_def Let_def)

lemma remove_conns: "sse_conns (remove_connection sha close i s) j =
    (if j = i \<and> i \<in> active_set s then (sse_conns s i)\<lparr>co_attached := False, co_timer := None\<rparr> else sse_conns s j)"
  using core_fields [OF remove_core [of i s sha close]] by (cases "i \<in> active_set s") (simp_all add: left_fields remove_inactive)

lemma remove_log: "sse_log (remove_connection sha close i s) = sse_log s @ (if close \<and> i \<in> active_set s then [Closed i] else [])"
  using core_fields [OF remove_core [of i s sha close]] by (cases "i \<in> active_set s") (simp_all add: left_fields remove_inactive)

lemma write_effect:
  assumes "write_connection sha io t i s = (b, s')"
  shows "\<exists>es. sse_log s' = sse_log s @ es \<and> set es \<subseteq> {Wrote i t, Closed i} \<and> (Wrote i t \<in> set es \<longrightarrow> i \<in> active_set s)"
    and "fixed_of (sse_conns s' j) = fixed_of (sse_conns s j)" and "active_set s' \<subseteq> active_set s"
  using assms
  by (auto simp: write_connection_def remove_log remove_conns remove_active fixed_of_def place_of_def Let_def split: stream.splits if_splits)

lemma schedule_effect:
  "sse_log (schedule_acknowledgement sha i v s) = sse_log s" "sse_active (schedule_acknowledgement sha i v s) = sse_active s"
  "fixed_of (sse_conns (schedule_acknowledgement sha i v s) j) = fixed_of (sse_conns s j)"
  by (simp_all add: schedule_acknowledgement_def fixed_of_def place_of_def Let_def split: option.splits)

text \<open>What a broadcast may write: to a live connection, the text of what that connection is to be sent.\<close>

definition proper_write :: "broadcast_options \<Rightarrow> jv \<Rightarrow> sse_state \<Rightarrow> nat set \<Rightarrow> stream_event \<Rightarrow> bool" where
  "proper_write o' payload s A e \<longleftrightarrow>
     (\<forall>i t. e = Wrote i t \<longrightarrow> i \<in> A \<and> i \<in> active_set s \<and> (\<exists>v. delivered_payload o' payload (sse_conns s i) = Some v \<and> t = event_text v))"

lemma deliver_effect:
  assumes s: "sse_ok s" and d: "deliver sha io o' payload i (m, n, s) = (m', n', s')"
  shows "\<exists>es. sse_log s' = sse_log s @ es \<and> (\<forall>e\<in>set es. proper_write o' payload s {i} e)"
    and "fixed_of (sse_conns s' j) = fixed_of (sse_conns s j)" and "active_set s' \<subseteq> active_set s"
proof -
  have "(\<exists>es. sse_log s' = sse_log s @ es \<and> (\<forall>e\<in>set es. proper_write o' payload s {i} e)) \<and>
      fixed_of (sse_conns s' j) = fixed_of (sse_conns s j) \<and> active_set s' \<subseteq> active_set s"
  proof (cases "delivered_payload o' payload (sse_conns s i)")
    case None
    then show ?thesis using d by (simp add: deliver_def proper_write_def)
  next
    case (Some v)
    obtain b u where w: "enqueue_or_write sha io (bo_coalesce o') (event_text v) i s = (b, u)" by fastforce
    have u: "sse_log s' = sse_log u" "sse_active s' = sse_active u" "fixed_of (sse_conns s' j) = fixed_of (sse_conns u j)"
      using d w Some by (cases b; auto simp: deliver_def schedule_effect)+
    show ?thesis
    proof (cases "i \<in> active_set s")
      case True
      then have "write_connection sha io (event_text v) i s = (b, u)"
        using w nothing_coalesced [OF True] s by (simp add: sse_ok_def)
      note e = write_effect [OF this]
      show ?thesis using e(1) e(2) [of j] e(3) u Some True by (auto simp: proper_write_def)
    next
      case False
      then have "sse_log u = sse_log s" "sse_active u = sse_active s" "fixed_of (sse_conns u j) = fixed_of (sse_conns s j)"
        using w by (auto simp: enqueue_or_write_def write_connection_def fixed_of_def place_of_def Let_def split: if_splits list.splits prod.splits)
      then show ?thesis using u by (auto simp: proper_write_def)
    qed
  qed
  then show "\<exists>es. sse_log s' = sse_log s @ es \<and> (\<forall>e\<in>set es. proper_write o' payload s {i} e)"
    and "fixed_of (sse_conns s' j) = fixed_of (sse_conns s j)" and "active_set s' \<subseteq> active_set s" by simp_all
qed

lemma proper_write_mono:
  "proper_write o' payload u A e \<Longrightarrow> (\<And>j. fixed_of (sse_conns u j) = fixed_of (sse_conns s j)) \<Longrightarrow> active_set u \<subseteq> active_set s \<Longrightarrow> A \<subseteq> B \<Longrightarrow>
   proper_write o' payload s B e"
  unfolding proper_write_def using delivered_payload_cong by (metis subsetD)

lemma fold_deliver_effect:
  "sse_ok (snd (snd mds)) \<Longrightarrow>
   \<exists>es. sse_log (snd (snd (fold (deliver sha io o' payload) is mds))) = sse_log (snd (snd mds)) @ es \<and>
     (\<forall>e\<in>set es. proper_write o' payload (snd (snd mds)) (set is) e)"
proof (induction "is" arbitrary: mds)
  case (Cons i "is")
  obtain m n s where mds: "mds = (m, n, s)" by (cases mds)
  obtain m' n' u where d: "deliver sha io o' payload i (m, n, s) = (m', n', u)" by (cases "deliver sha io o' payload i (m, n, s)")
  have s: "sse_ok s" using Cons.prems mds by simp
  note e = deliver_effect [OF s d]
  have "sse_ok u" using deliver_ok [OF s, of sha io o' payload i m n] d by simp
  then obtain es where es: "sse_log (snd (snd (fold (deliver sha io o' payload) is (m', n', u)))) = sse_log u @ es"
    "\<forall>e\<in>set es. proper_write o' payload u (set is) e" using Cons.IH [of "(m', n', u)"] by auto
  obtain es1 where es1: "sse_log u = sse_log s @ es1" "\<forall>e\<in>set es1. proper_write o' payload s {i} e" using e(1) by blast
  have "proper_write o' payload s (set (i # is)) x" if "x \<in> set es1" for x
    by (rule proper_write_mono [of o' payload s "{i}"]) (use es1(2) that in auto)
  moreover have "proper_write o' payload s (set (i # is)) x" if "x \<in> set es" for x
    by (rule proper_write_mono [of o' payload u "set is"]) (use es(2) that e(2,3) in auto)
  ultimately have "\<forall>e\<in>set (es1 @ es). proper_write o' payload s (set (i # is)) e" by auto
  then show ?case using es(1) es1(1) d mds by auto
qed simp

section \<open>Whom a broadcast concerns\<close>

lemma prop_of_with [simp]: "prop_of (with_prop v k x) k' = (if k' = k then x else prop_of v k')"
  by (simp add: with_prop_def prop_of_def jget_def)

lemma subscribed_change: "prop_of (prop_of (subscribed_payload c v) ''params'') ''change'' = prop_of (prop_of v ''params'') ''change''"
  by (simp add: subscribed_payload_def Let_def)

lemma delivered_partitions:
  assumes "delivered_payload o' payload c = Some v" and "payload_method payload = list_changed"
  shows "\<exists>ks. prop_of (prop_of (prop_of v ''params'') ''change'') ''affectedPartitions'' = JArr (map JStr ks) \<and>
    set ks = set (affected_partitions payload) \<inter> set (co_partitions c) \<and> (affected_partitions payload \<noteq> [] \<longrightarrow> ks \<noteq> [])"
proof -
  let ?ks = "filter (\<lambda>k. k \<in> set (co_partitions c)) (affected_partitions payload)"
  obtain u where "scoped_payload c payload = Some u" "v = subscribed_payload c u"
    using assms(1) by (auto simp: delivered_payload_def split: if_splits)
  then have "prop_of (prop_of (prop_of v ''params'') ''change'') ''affectedPartitions'' = JArr (map JStr ?ks)" "affected_partitions payload \<noteq> [] \<longrightarrow> ?ks \<noteq> []"
    using assms(2) by (auto simp: scoped_payload_def subscribed_change Let_def split: if_splits)
  then show ?thesis by (intro exI [of _ ?ks]) auto
qed

lemma candidate_scope:
  assumes "sse_ok s" and "i \<in> set (candidates o' s)"
  shows "i \<in> active_set s \<and> (partition_scope o' \<noteq> [] \<or> digest_scope o' \<noteq> [] \<longrightarrow>
    set (co_partitions (sse_conns s i)) \<inter> set (partition_scope o') \<noteq> {} \<or> co_digest (sse_conns s i) \<in> set (digest_scope o'))"
proof -
  have p: "set (bucket (by_partition s) k) = {i \<in> active_set s. k \<in> set (co_partitions (sse_conns s i))}"
    and d: "set (bucket (by_digest s) k) = {i \<in> active_set s. k \<in> digest_keys (sse_conns s i)}" for k
    using assms(1) by (simp_all add: sse_ok_def registry_ok_def indexed_def)
  show ?thesis using assms(2) by (auto simp: candidates_def p d digest_keys_def split: if_splits)
qed

text \<open>
  C12: a broadcast reaches only whom it concerns. Whatever it writes goes to a live connection of the
  grant it is scoped to, to a private connection only if it is scoped or meant for private ones, to
  the partitions and digests it names, and to those that negotiated its method; and a change of the
  catalog tells a connection of exactly the affected partitions it is bound to, never of others.
\<close>

theorem broadcast_isolates_audiences:
  assumes "sse_reachable sha s" and "broadcast_notification sha io o' payload s = (m, n, s')"
    and "Wrote i t \<in> set (drop (length (sse_log s)) (sse_log s'))"
  shows "\<exists>v. t = event_text v \<and> i \<in> active_set s \<and>
    (bounded_identity 1024 (bo_grant o') \<noteq> [] \<longrightarrow> co_grant (sse_conns s i) = bounded_identity 1024 (bo_grant o')) \<and>
    (partition_scope o' \<noteq> [] \<or> digest_scope o' \<noteq> [] \<longrightarrow>
      set (co_partitions (sse_conns s i)) \<inter> set (partition_scope o') \<noteq> {} \<or> co_digest (sse_conns s i) \<in> set (digest_scope o')) \<and>
    (co_private (sse_conns s i) \<longrightarrow> bounded_identity 1024 (bo_grant o') \<noteq> [] \<or> bo_private o' \<or> partition_scope o' \<noteq> [] \<or> digest_scope o' \<noteq> []) \<and>
    (payload_method payload \<noteq> [] \<longrightarrow> payload_method payload \<in> set (co_capabilities (sse_conns s i))) \<and>
    (payload_method payload = list_changed \<longrightarrow>
      (\<exists>ks. prop_of (prop_of (prop_of v ''params'') ''change'') ''affectedPartitions'' = JArr (map JStr ks) \<and>
        set ks = set (affected_partitions payload) \<inter> set (co_partitions (sse_conns s i))))"
proof -
  have s: "sse_ok s" using assms(1) by (rule sse_reachable_ok)
  obtain es where "sse_log s' = sse_log s @ es" "\<forall>e\<in>set es. proper_write o' payload s (set (candidates o' s)) e"
    using fold_deliver_effect [of "(0, 0, s)" sha io o' payload "candidates o' s"] s assms(2) by (auto simp: broadcast_notification_def)
  then have "proper_write o' payload s (set (candidates o' s)) (Wrote i t)" using assms(3) by simp
  then obtain v where c: "i \<in> set (candidates o' s)" and v: "delivered_payload o' payload (sse_conns s i) = Some v" "t = event_text v"
    by (auto simp: proper_write_def)
  have "wanted o' payload (sse_conns s i)" using v(1) by (auto simp: delivered_payload_def split: if_splits)
  then show ?thesis using candidate_scope [OF s c] v(2) delivered_partitions [OF v(1)]
    by (intro exI [of _ v]) (auto simp: wanted_def Let_def)
qed

section \<open>Admission\<close>

text \<open>
  C15: the registry is exact and within its limits. However streams come, go, are written to, time out
  or are disconnected, at most 256 are live, 32 of one address and 16 of one grant; the counters and
  the three indexes say exactly which ones; the heartbeat runs exactly while one is live; the records
  of outcomes and fences stay bounded; and no live stream has been closed.
\<close>

theorem sse_registry_exact:
  assumes "sse_reachable sha s"
  shows "distinct (sse_active s) \<and> length (sse_active s) \<le> 256 \<and>
    (\<forall>a. count_for (by_address s) a = length (filter (\<lambda>i. co_address (sse_conns s i) = a) (sse_active s)) \<and> count_for (by_address s) a \<le> 32) \<and>
    (\<forall>g. count_for (by_grant s) g = length (filter (\<lambda>i. co_grant (sse_conns s i) = g) (sse_active s)) \<and> count_for (by_grant s) g \<le> 16) \<and>
    (\<forall>k. k \<noteq> [] \<longrightarrow>
      set (bucket (by_digest s) k) = {i \<in> active_set s. co_digest (sse_conns s i) = k} \<and>
      set (bucket (by_session s) k) = {i \<in> active_set s. co_session (sse_conns s i) = k} \<and>
      set (bucket (by_partition s) k) = {i \<in> active_set s. k \<in> set (co_partitions (sse_conns s i))}) \<and>
    (heartbeat_on s \<longleftrightarrow> sse_active s \<noteq> []) \<and> length (sse_cohort s) \<le> 512 \<and> length (sse_fences s) \<le> 512 \<and>
    (\<forall>i\<in>active_set s. Closed i \<notin> set (sse_log s))"
proof -
  have s: "sse_ok s" using assms by (rule sse_reachable_ok)
  then have r: "registry_ok s" and l: "limits_ok s" by (simp_all add: sse_ok_def)
  have none: "filter (\<lambda>i. co_address (sse_conns s i) = []) (sse_active s) = []" "filter (\<lambda>i. co_grant (sse_conns s i) = []) (sse_active s) = []"
    using r by (auto simp: registry_ok_def filter_empty_conv)
  have a: "count_for (by_address s) a = length (filter (\<lambda>i. co_address (sse_conns s i) = a) (sse_active s))" for a
    using r none counted_count [of "by_address s" "sse_active s" "\<lambda>i. co_address (sse_conns s i)" a]
    by (cases "a = []") (simp_all add: registry_ok_def count_for_def)
  have g: "count_for (by_grant s) g = length (filter (\<lambda>i. co_grant (sse_conns s i) = g) (sse_active s))" for g
    using r none counted_count [of "by_grant s" "sse_active s" "\<lambda>i. co_grant (sse_conns s i)" g]
    by (cases "g = []") (simp_all add: registry_ok_def count_for_def)
  show ?thesis using s l r unfolding a g
    by (auto simp: sse_ok_def registry_ok_def limits_ok_def records_ok_def log_ok_def bounded_map_def indexed_def digest_keys_def session_keys_def)
qed

section \<open>Convergence\<close>

lemma fences_after_cut:
  assumes "proxy_session_key sha (co_digest (sse_conns s i)) (co_session (sse_conns s i)) = k" and "k \<noteq> []" and "i \<in> active_set s"
  shows "map_of (sse_fences (cut_off sha i (Some p) s)) k = Some (pc_source p)"
proof -
  let ?u = "upd_conn i (\<lambda>c. c\<lparr>co_fenced := True\<rparr>) s"
  have "map_of (sse_fences (fence_proxy_session sha i (Some p) ?u)) k = Some (pc_source p)"
    using assms(1,2) by (simp add: fence_proxy_session_def Let_def)
  moreover have "sse_fences (fold (record_outcome sha i out) ps t) = sse_fences t" for out ps t
    by (induction ps arbitrary: t) (simp_all add: record_outcome_def Let_def)
  then have "sse_fences (remove_connection sha True i t) = sse_fences t" for t
    by (simp add: remove_connection_def Let_def)
  ultimately show ?thesis by (simp add: cut_off_def)
qed

lemma fence_conns [simp]: "sse_conns (fence_proxy_session sha i p s) = sse_conns s" "sse_active (fence_proxy_session sha i p s) = sse_active s"
  "sse_log (fence_proxy_session sha i p s) = sse_log s"
  using core_fields [OF fence_core [of sha i p s]] by simp_all


lemma fold_acknowledge_other:
  "i \<notin> set is \<Longrightarrow> sse_conns (snd (fold (acknowledge_one sha a) is ns)) i = sse_conns (snd ns) i"
proof (induction "is" arbitrary: ns)
  case (Cons j "is")
  obtain n s where "ns = (n, s)" by (cases ns)
  then have "sse_conns (snd (acknowledge_one sha a j ns)) i = sse_conns s i" using Cons.prems by (simp add: acknowledge_one_def Let_def)
  then show ?case using Cons \<open>ns = (n, s)\<close> by simp
qed simp

lemma acknowledge_active: "sse_active (snd (fold (acknowledge_one sha a) is ns)) = sse_active (snd ns)"
proof (induction "is" arbitrary: ns)
  case (Cons j "is")
  obtain n s where "ns = (n, s)" by (cases ns)
  then have "sse_active (snd (acknowledge_one sha a j ns)) = sse_active s" by (simp add: acknowledge_one_def Let_def)
  then show ?case using Cons \<open>ns = (n, s)\<close> by simp
qed simp

lemma acknowledge_conn:
  assumes "sse_ok s" and "i \<in> active_set s" and "co_session (sse_conns s i) \<noteq> []"
    and "normalize_proxy_session_id (ak_session a) = co_session (sse_conns s i)" and "bounded_identity 1024 (ak_grant a) = co_grant (sse_conns s i)"
    and "p \<in> set (co_history (sse_conns s i))" and "acknowledged a p"
  shows "sse_conns (snd (acknowledge_convergence sha a s)) i =
    (let h = filter (\<lambda>q. \<not> covered a q) (co_history (sse_conns s i)); latest = (if h = [] then None else Some (last h)) in
     (sse_conns s i)\<lparr>co_history := h, co_pending := latest, co_timer := map_option ThisPending latest, co_applied := ak_audience a, co_fenced := False\<rparr>)"
proof -
  let ?b = "bucket (by_session s) (co_session (sse_conns s i))"
  have b: "distinct ?b" "i \<in> set ?b" using assms(1-3) by (simp_all add: sse_ok_def registry_ok_def indexed_def session_keys_def)
  then obtain xs ys where xy: "?b = xs @ i # ys" "i \<notin> set xs" "i \<notin> set ys" by (metis distinct.simps(2) distinct_append split_list disjoint_iff list.set_intros(1))
  obtain n u where u: "fold (acknowledge_one sha a) xs (0, s) = (n, u)" by fastforce
  have c: "sse_conns u i = sse_conns s i" using fold_acknowledge_other [OF xy(2), of sha a "(0, s)"] u by simp
  have "co_pending (sse_conns s i) \<noteq> None" using assms(1,2,6) by (auto simp: sse_ok_def waiting_ok_def)
  then obtain q where "co_pending (sse_conns s i) = Some q" by auto
  moreover have "list_ex (acknowledged a) (co_history (sse_conns s i))" using assms(6,7) by (auto simp: list_ex_iff)
  ultimately have "sse_conns (snd (acknowledge_one sha a i (n, u))) i =
      (let h = filter (\<lambda>q. \<not> covered a q) (co_history (sse_conns s i)); latest = (if h = [] then None else Some (last h)) in
       (sse_conns s i)\<lparr>co_history := h, co_pending := latest, co_timer := map_option ThisPending latest, co_applied := ak_audience a, co_fenced := False\<rparr>)"
    using assms(5) by (simp add: acknowledge_one_def c Let_def)
  then show ?thesis
    using fold_acknowledge_other [OF xy(3), of sha a "acknowledge_one sha a i (n, u)"]
    by (simp add: acknowledge_convergence_def assms(4) xy(1) u)
qed

text \<open>The acknowledgement of parsed facts, as the adapter hands it on with the caller's grant and session.\<close>

definition ack_of_facts :: "jv \<Rightarrow> jv \<Rightarrow> catalog_facts \<Rightarrow> catalog_ack" where
  "ack_of_facts grant session f =
     \<lparr>ak_grant = grant, ak_session = session, ak_source = cf_source_revision f, ak_audience = cf_audience_revision f,
      ak_catalog = JStr (cf_catalog_revision f), ak_partitions = JArr (map JStr (cf_partitions f))\<rparr>"

lemma bounded_identity_text: "bounded_text n (JStr t) = t \<Longrightarrow> bounded_identity n (JStr t) = t"
  by (auto simp: bounded_text_def bounded_identity_def js_or_def Let_def split: if_splits)

lemma parsed_keys_normal:
  "(\<And>k. k \<in> set ks \<Longrightarrow> k \<noteq> [] \<and> bounded_text max_revision_text (JStr k) = k) \<Longrightarrow> sorted ks \<Longrightarrow> distinct ks \<Longrightarrow>
   normalize_partition_keys (JArr (map JStr ks)) = ks"
proof -
  assume k: "\<And>k. k \<in> set ks \<Longrightarrow> k \<noteq> [] \<and> bounded_text max_revision_text (JStr k) = k" and s: "sorted ks" "distinct ks"
  have "map (bounded_identity 256) (map JStr ks) = ks" using k bounded_identity_text by (auto simp: max_revision_text_def intro!: map_idI)
  moreover have "filter (\<lambda>k. k \<noteq> []) ks = ks" using k by (simp add: filter_id_conv)
  ultimately show ?thesis using s by (simp add: normalize_partition_keys_def normalize_bounded_def dedup_distinct sorted_sort_id)
qed

text \<open>
  C32: an acknowledgement settles. If the facts a subscriber sends parse and are those of a convergence
  it owes, its connection stays, owes it no longer, nor any earlier one of the same partitions, and
  its timer runs on only if it still owes another.
\<close>

theorem acknowledgement_settles:
  assumes "sse_reachable sha s" and "i \<in> active_set s" and "p \<in> set (co_history (sse_conns s i))"
    and "parse_catalog_acknowledgement v = Some f" and "pc_source p = cf_source_revision f" and "pc_audience p = cf_audience_revision f"
    and "pc_catalog p = cf_catalog_revision f" and "pc_partitions p = cf_partitions f"
    and "co_session (sse_conns s i) \<noteq> []" and "normalize_proxy_session_id session = co_session (sse_conns s i)"
    and "bounded_identity 1024 grant = co_grant (sse_conns s i)"
  defines "s' \<equiv> snd (acknowledge_convergence sha (ack_of_facts grant session f) s)"
  shows "i \<in> active_set s' \<and> p \<notin> set (co_history (sse_conns s' i)) \<and>
    (\<forall>q\<in>set (co_history (sse_conns s i)). q \<notin> set (co_history (sse_conns s' i)) \<longleftrightarrow>
      pc_partitions q = pc_partitions p \<and> pc_source q \<le> pc_source p \<and> pc_audience q \<le> pc_audience p) \<and>
    (co_timer (sse_conns s' i) \<noteq> None \<longleftrightarrow> co_history (sse_conns s' i) \<noteq> []) \<and> co_applied (sse_conns s' i) = pc_audience p"
proof -
  let ?a = "ack_of_facts grant session f" and ?c = "sse_conns s i"
  note ok = sse_reachable_ok [OF assms(1)] and f = parse_facts_again [OF assms(4)]
  have ks: "opaque_partition_keys (prop_of v ''partitionKeys'') = Some (cf_partitions f)" and cat: "cf_catalog_revision f \<noteq> []"
    "cf_catalog_revision f = bounded_text max_revision_text (prop_of v ''catalogRevision'')"
    using assms(4) by (auto simp: parse_catalog_acknowledgement_def parse_catalog_facts_def Let_def split: if_splits option.splits)
  have "bounded_text 256 (JStr (cf_catalog_revision f)) = cf_catalog_revision f"
    using cat bounded_text_again [of max_revision_text "prop_of v ''catalogRevision''"] by (simp add: max_revision_text_def)
  then have c: "bounded_identity 256 (JStr (cf_catalog_revision f)) = cf_catalog_revision f" by (rule bounded_identity_text)
  have k: "normalize_partition_keys (JArr (map JStr (cf_partitions f))) = cf_partitions f"
    using opaque_partition_keys_again [OF ks] by (intro parsed_keys_normal) auto
  have "acknowledged ?a p" using assms(5-8) c k by (simp add: acknowledged_def ack_of_facts_def)
  note e = acknowledge_conn [OF ok assms(2,9) _ _ assms(3) this]
  have "sse_conns s' i = (let h = filter (\<lambda>q. \<not> covered ?a q) (co_history ?c); latest = (if h = [] then None else Some (last h)) in
     ?c\<lparr>co_history := h, co_pending := latest, co_timer := map_option ThisPending latest, co_applied := ak_audience ?a, co_fenced := False\<rparr>)"
    unfolding s'_def by (rule e) (use assms(10,11) in \<open>simp_all add: ack_of_facts_def\<close>)
  then have h: "co_history (sse_conns s' i) = filter (\<lambda>q. \<not> covered ?a q) (co_history ?c)"
    and t: "co_timer (sse_conns s' i) \<noteq> None \<longleftrightarrow> co_history (sse_conns s' i) \<noteq> []" and ap: "co_applied (sse_conns s' i) = ak_audience ?a"
    by (simp_all add: Let_def)
  have cov: "covered ?a q \<longleftrightarrow> pc_partitions q = pc_partitions p \<and> pc_source q \<le> pc_source p \<and> pc_audience q \<le> pc_audience p" for q
    using assms(5,6,8) k by (auto simp: covered_def ack_of_facts_def)
  have "ak_audience ?a = pc_audience p" using assms(6) by (simp add: ack_of_facts_def)
  moreover have "active_set s' = active_set s" unfolding s'_def acknowledge_convergence_def acknowledge_active by simp
  ultimately show ?thesis using assms(2,3) t ap unfolding h cov by auto
qed

section \<open>A subscriber\<close>

definition demo_sse_request :: sse_request where
  "demo_sse_request =
     \<lparr>sr_address = JStr ''10.0.0.1'', sr_usable = True, sr_grant = JStr ''g1'', sr_private = JUndef, sr_partitions = JArr [JStr ''p2'', JStr ''p1''],
      sr_capabilities = JArr [JStr list_changed], sr_session = JStr ''session-0123456789-abc'', sr_subscription = JNum 7\<rparr>"

definition demo_invalidation :: jv where
  "demo_invalidation =
     JObj [(''method'', JStr list_changed),
       (''params'', JObj [(''change'', JObj [(''sourceRevision'', JNum 3), (''audienceRevision'', JNum 1), (''catalogRevision'', JStr ''r3''),
          (''affectedPartitions'', JArr [JStr ''p1'', JStr ''p3''])])])]"

definition demo_options :: broadcast_options where
  "demo_options = \<lparr>bo_grant = JUndef, bo_private = False, bo_partitions = JArr [JStr ''p1'', JStr ''p3''], bo_digests = JUndef, bo_coalesce = ''c''\<rparr>"

definition demo_registered :: sse_state where
  "demo_registered = snd (register_sse (\<lambda>t. t) demo_sse_request new_sse)"

definition demo_notified :: sse_state where
  "demo_notified = snd (snd (broadcast_notification (\<lambda>t. t) (\<lambda>_. Takes True 100) demo_options demo_invalidation demo_registered))"

lemma demo_stream_reachable: "sse_reachable (\<lambda>t. t) demo_registered" "sse_reachable (\<lambda>t. t) demo_notified"
proof -
  show r: "sse_reachable (\<lambda>t. t) demo_registered"
    unfolding demo_registered_def by (rule reach_step [OF reach_new step_register])
  show "sse_reachable (\<lambda>t. t) demo_notified"
    unfolding demo_notified_def by (rule reach_step [OF r step_broadcast])
qed

lemma demo_state:
  "sse_active demo_notified = [0]" "co_pending (sse_conns demo_notified 0) = Some \<lparr>pc_source = 3, pc_audience = 1, pc_catalog = ''r3'', pc_partitions = [''p1'']\<rparr>"
  "co_history (sse_conns demo_notified 0) = [\<lparr>pc_source = 3, pc_audience = 1, pc_catalog = ''r3'', pc_partitions = [''p1'']\<rparr>]"
  "co_session (sse_conns demo_notified 0) = ''session-0123456789-abc''" "co_grant (sse_conns demo_notified 0) = ''g1''"
  "co_digest (sse_conns demo_notified 0) = ''g1''"
  by code_simp+

lemma sse_registry_exact_witness:
  "sse_active demo_notified = [0] \<and> length (sse_active demo_notified) \<le> 256 \<and> Closed 0 \<notin> set (sse_log demo_notified) \<and> heartbeat_on demo_notified"
  using sse_registry_exact [OF demo_stream_reachable(2)] demo_state(1) by auto

definition demo_event :: jv where
  "demo_event =
     JObj [(''method'', JStr list_changed),
       (''params'', JObj [(''change'', JObj [(''sourceRevision'', JNum 3), (''audienceRevision'', JNum 1), (''catalogRevision'', JStr ''r3''),
          (''affectedPartitions'', JArr [JStr ''p1''])]), (''_meta'', JObj [(''io.modelcontextprotocol/subscriptionId'', JNum 7)])])]"

lemma demo_delivery:
  "broadcast_notification (\<lambda>t. t) (\<lambda>_. Takes True 100) demo_options demo_invalidation demo_registered = (1, 1, demo_notified) \<and>
   drop (length (sse_log demo_registered)) (sse_log demo_notified) = [Wrote 0 (event_text demo_event)]"
proof -
  let ?b = "broadcast_notification (\<lambda>t. t) (\<lambda>_. Takes True 100) demo_options demo_invalidation demo_registered"
  have "fst ?b = 1" "fst (snd ?b) = 1" by code_simp+
  then have "?b = (1, 1, demo_notified)" by (simp add: demo_notified_def prod_eq_iff)
  moreover have "drop (length (sse_log demo_registered)) (sse_log demo_notified) = [Wrote 0 (event_text demo_event)]" by code_simp
  ultimately show ?thesis by simp
qed

lemma broadcast_isolates_audiences_witness:
  "\<exists>v. event_text demo_event = event_text v \<and> 0 \<in> active_set demo_registered \<and>
    (\<exists>ks. prop_of (prop_of (prop_of v ''params'') ''change'') ''affectedPartitions'' = JArr (map JStr ks) \<and>
      set ks = set (affected_partitions demo_invalidation) \<inter> set (co_partitions (sse_conns demo_registered 0)))"
proof -
  have m: "payload_method demo_invalidation = list_changed" by code_simp
  have w: "Wrote 0 (event_text demo_event) \<in> set (drop (length (sse_log demo_registered)) (sse_log demo_notified))"
    using demo_delivery by simp
  show ?thesis using broadcast_isolates_audiences [OF demo_stream_reachable(1) conjunct1 [OF demo_delivery] w] m by blast
qed


definition demo_ack :: jv where
  "demo_ack = JObj [(''sourceRevision'', JNum 3), (''catalogRevision'', JStr ''r3''), (''audienceRevision'', JNum 1), (''partitionKeys'', JArr [JStr ''p1''])]"

definition demo_facts :: catalog_facts where
  "demo_facts = \<lparr>cf_source_revision = 3, cf_catalog_revision = ''r3'', cf_audience_revision = 1, cf_partitions = [''p1'']\<rparr>"

lemma acknowledgement_settles_witness:
  "co_timer (sse_conns (snd (acknowledge_convergence (\<lambda>t. t) (ack_of_facts (JStr ''g1'') (JStr ''session-0123456789-abc'') demo_facts) demo_notified)) 0) = None"
proof -
  let ?s = "snd (acknowledge_convergence (\<lambda>t. t) (ack_of_facts (JStr ''g1'') (JStr ''session-0123456789-abc'') demo_facts) demo_notified)"
  let ?p = "\<lparr>pc_source = 3, pc_audience = 1, pc_catalog = ''r3'', pc_partitions = [''p1'']\<rparr>"
  have f: "parse_catalog_acknowledgement demo_ack = Some demo_facts" by code_simp
  have a: "0 \<in> active_set demo_notified" "?p \<in> set (co_history (sse_conns demo_notified 0))" by (simp_all add: demo_state)
  have n: "normalize_proxy_session_id (JStr ''session-0123456789-abc'') = co_session (sse_conns demo_notified 0)"
    "bounded_identity 1024 (JStr ''g1'') = co_grant (sse_conns demo_notified 0)" unfolding demo_state by code_simp+
  have c: "co_session (sse_conns demo_notified 0) \<noteq> []" by (simp add: demo_state)
  have "co_history (sse_conns ?s 0) = []" by code_simp
  then show ?thesis using acknowledgement_settles [OF demo_stream_reachable(2) a f _ _ _ _ c n] by (simp add: demo_facts_def)
qed

text \<open>Binding a live connection to other partitions looks at no limit: however many share a partition, one more joins them.\<close>

lemma rebinding_ignores_limit:
  assumes "sse_reachable sha s" and "i \<in> active_set s" and "k \<in> set (normalize_partition_keys v)"
  shows "set (bucket (by_partition (snd (bind_partitions v i s))) k) = insert i (set (bucket (by_partition s) k))"
proof -
  let ?t = "snd (bind_partitions v i s)"
  have s: "sse_ok s" using assms(1) by (rule sse_reachable_ok)
  have "set (bucket (by_partition ?t) k) = {j \<in> active_set ?t. k \<in> set (co_partitions (sse_conns ?t j))}"
    using bind_partitions_ok [OF s, of v i] by (simp add: sse_ok_def registry_ok_def indexed_def)
  moreover have "set (bucket (by_partition s) k) = {j \<in> active_set s. k \<in> set (co_partitions (sse_conns s j))}"
    using s by (simp add: sse_ok_def registry_ok_def indexed_def)
  moreover have "active_set ?t = active_set s"
    "co_partitions (sse_conns ?t j) = (if j = i then normalize_partition_keys v else co_partitions (sse_conns s j))" for j
    using assms(2) by (simp_all add: bind_partitions_def Let_def)
  ultimately show ?thesis using assms(2,3) by auto
qed

end
