(* ===== verification/GovernanceRules.thy ===== *)
theory GovernanceRules imports AuthzSubject begin

text \<open>
  The rules of organisation governance: what
  \<open>packages/foundation/src/security/authorization/authorization-governance-store-support.ts\<close> makes of
  policies, approvals and requests. Policies and requests come as values of unknown type; what was
  normalised is a record. Random ids, the time and \<open>Date.parse\<close> are arguments.
\<close>

section \<open>Helpers\<close>

text \<open>\<open>a || b || ... || d\<close>.\<close>

definition either_of :: "jv list \<Rightarrow> jv \<Rightarrow> jv" where
  "either_of vs d = foldr js_or vs d"

definition unique_strings :: "jv \<Rightarrow> string list" where
  "unique_strings v = unique_of (list_of v)"

definition id_char :: "char \<Rightarrow> bool" where
  "id_char c \<longleftrightarrow>
     (let n = of_char c :: nat in 48 \<le> n \<and> n \<le> 57 \<or> 65 \<le> n \<and> n \<le> 90 \<or> 97 \<le> n \<and> n \<le> 122 \<or> c \<in> {CHR ''_'', CHR ''.'', CHR '':'', CHR ''-''})"

text \<open>A run of other characters becomes one dash; the flag says that the dash of the run is written.\<close>

fun dash_runs :: "bool \<Rightarrow> string \<Rightarrow> string" where
  "dash_runs dashed [] = []"
| "dash_runs dashed (c # cs) =
     (if id_char c then c # dash_runs False cs else if dashed then dash_runs True cs else CHR ''-'' # dash_runs True cs)"

definition normalize_id :: "string \<Rightarrow> jv \<Rightarrow> string \<Rightarrow> string" where
  "normalize_id uuid v prefix =
     (if authz_text v \<noteq> [] then take 160 (dash_runs False (authz_text v)) else prefix @ ''_'' @ uuid)"

section \<open>Policies\<close>

record gov_policy =
  gp_type :: string
  gp_id :: string
  gp_actions :: "string list"
  gp_providers :: "string list"
  gp_label :: string

text \<open>\<open>String(a || b || "*").trim() || "*"\<close>.\<close>

definition text_or_star :: "jv list \<Rightarrow> string" where
  "text_or_star vs = str_or (trim (js_string (either_of vs (JStr ''*'')))) ''*''"

definition normalize_policy :: "jv \<Rightarrow> gov_policy" where
  "normalize_policy v =
     (let entry = object_or_null v; resource = object_or_null (prop_of entry ''resource'')
      in \<lparr>gp_type = text_or_star [prop_of entry ''resourceType'', prop_of entry ''type'', prop_of resource ''type''],
          gp_id = text_or_star [prop_of entry ''resourceId'', prop_of entry ''id'', prop_of entry ''repoId'', prop_of entry ''repositoryRef'', prop_of resource ''id''],
          gp_actions = unique_strings (either_of [prop_of entry ''actions'', prop_of entry ''action'', prop_of entry ''scopes''] (JArr [])),
          gp_providers = unique_strings (either_of [prop_of entry ''targetProviders'', prop_of entry ''providers'', prop_of entry ''provider'', prop_of entry ''targets''] (JArr [])),
          gp_label = authz_text (prop_of entry ''label'')\<rparr>)"

definition normalize_policy_list :: "jv \<Rightarrow> gov_policy list" where
  "normalize_policy_list v =
     (let xs = (case v of JArr xs \<Rightarrow> xs | _ \<Rightarrow> list_of (either_of [prop_of v ''policies'', prop_of v ''resourcePolicies''] (JArr [])))
      in filter (\<lambda>p. gp_actions p \<noteq> []) (map normalize_policy xs))"

text \<open>A normalised policy as the object it is.\<close>

definition policy_value :: "gov_policy \<Rightarrow> jv" where
  "policy_value p = JObj [(''resourceType'', JStr (gp_type p)), (''resourceId'', JStr (gp_id p)), (''actions'', strs (gp_actions p)),
     (''targetProviders'', strs (gp_providers p)), (''label'', JStr (gp_label p))]"

section \<open>User policies and approvals\<close>

record user_policy =
  up_user :: string
  up_enabled :: bool
  up_roles :: "string list"
  up_teams :: "string list"
  up_departments :: "string list"
  up_policies :: "gov_policy list"
  up_created :: string
  up_updated :: string

definition user_policy_value :: "user_policy \<Rightarrow> jv" where
  "user_policy_value p = JObj [(''userId'', JStr (up_user p)), (''enabled'', JBool (up_enabled p)), (''roleIds'', strs (up_roles p)),
     (''teamIds'', strs (up_teams p)), (''departmentIds'', strs (up_departments p)), (''resourcePolicies'', JArr (map policy_value (up_policies p))),
     (''createdAt'', JStr (up_created p)), (''updatedAt'', JStr (up_updated p))]"

definition normalize_user_policy :: "string \<Rightarrow> string \<Rightarrow> jv \<Rightarrow> jv \<Rightarrow> user_policy" where
  "normalize_user_policy uuid timestamp input fallback =
     \<lparr>up_user = normalize_id uuid (either_of [prop_of input ''userId'', prop_of input ''subjectId'', prop_of input ''id''] (prop_of fallback ''userId'')) ''user'',
      up_enabled = (prop_of input ''enabled'' \<noteq> JBool False),
      up_roles = unique_strings (either_of [prop_of input ''roleIds'', prop_of input ''roles'', prop_of fallback ''roleIds''] (JArr [])),
      up_teams = unique_strings (either_of [prop_of input ''teamIds'', prop_of input ''teams'', prop_of fallback ''teamIds''] (JArr [])),
      up_departments = unique_strings (either_of [prop_of input ''departmentIds'', prop_of input ''departments'', prop_of fallback ''departmentIds''] (JArr [])),
      up_policies = normalize_policy_list (either_of [prop_of input ''resourcePolicies'', prop_of fallback ''resourcePolicies''] (JArr [])),
      up_created = js_string (either_of [prop_of fallback ''createdAt'', prop_of input ''createdAt''] (JStr timestamp)),
      up_updated = timestamp\<rparr>"

record approval =
  ap_id :: string
  ap_user :: string
  ap_agent :: string
  ap_type :: string
  ap_resource :: string
  ap_actions :: "string list"
  ap_providers :: "string list"
  ap_teams :: "string list"
  ap_departments :: "string list"
  ap_layers :: "string list"
  ap_kind :: string
  ap_effect :: string
  ap_expires :: string
  ap_revoked :: string
  ap_reason :: string
  ap_created :: string
  ap_updated :: string

definition approval_value :: "approval \<Rightarrow> jv" where
  "approval_value a = JObj [(''approvalId'', JStr (ap_id a)), (''userId'', JStr (ap_user a)), (''agentId'', JStr (ap_agent a)),
     (''resourceType'', JStr (ap_type a)), (''resourceId'', JStr (ap_resource a)), (''actions'', strs (ap_actions a)),
     (''targetProviders'', strs (ap_providers a)), (''teamIds'', strs (ap_teams a)), (''departmentIds'', strs (ap_departments a)),
     (''approvalLayers'', strs (ap_layers a)), (''grantKind'', JStr (ap_kind a)), (''effect'', JStr (ap_effect a)), (''expiresAt'', JStr (ap_expires a)),
     (''revokedAt'', JStr (ap_revoked a)), (''reason'', JStr (ap_reason a)), (''createdAt'', JStr (ap_created a)), (''updatedAt'', JStr (ap_updated a))]"

text \<open>\<open>String(a || b || "").trim()\<close>.\<close>

definition text_of :: "jv list \<Rightarrow> string" where
  "text_of vs = trim (js_string (either_of vs (JStr [])))"

definition normalize_approval :: "string \<Rightarrow> string \<Rightarrow> jv \<Rightarrow> jv \<Rightarrow> approval" where
  "normalize_approval uuid timestamp input fallback =
     (let i = prop_of input; f = prop_of fallback in
      \<lparr>ap_id = normalize_id uuid (either_of [i ''approvalId'', i ''id''] (f ''approvalId'')) ''approval'',
       ap_user = text_of [i ''userId'', i ''subjectId'', f ''userId''],
       ap_agent = text_of [i ''agentId'', f ''agentId''],
       ap_type = text_or_star [i ''resourceType'', f ''resourceType''],
       ap_resource = text_or_star [i ''resourceId'', i ''repoId'', i ''repositoryRef'', f ''resourceId''],
       ap_actions = unique_strings (either_of [i ''actions'', i ''action'', f ''actions''] (JArr [])),
       ap_providers = unique_strings (either_of [i ''targetProviders'', i ''provider'', i ''providers'', f ''targetProviders''] (JArr [])),
       ap_teams = unique_strings (either_of [i ''teamIds'', i ''teams'', f ''teamIds''] (JArr [])),
       ap_departments = unique_strings (either_of [i ''departmentIds'', i ''departments'', f ''departmentIds''] (JArr [])),
       ap_layers = unique_strings (either_of [i ''approvalLayers'', i ''approvalLayer'', i ''layers'', f ''approvalLayers''] (JArr [])),
       ap_kind = text_of [i ''grantKind'', i ''kind'', f ''grantKind'', JStr ''once''],
       ap_effect = text_of [i ''effect'', f ''effect'', JStr ''allow''],
       ap_expires = text_of [i ''expiresAt'', f ''expiresAt''],
       ap_revoked = text_of [i ''revokedAt'', f ''revokedAt''],
       ap_reason = text_of [i ''reason'', f ''reason''],
       ap_created = js_string (either_of [f ''createdAt'', i ''createdAt''] (JStr timestamp)),
       ap_updated = timestamp\<rparr>)"

text \<open>Rows are read back through the same normalisation of lists; the JSON text of a list reads as the list.\<close>

definition user_policy_from_row :: "user_policy \<Rightarrow> user_policy" where
  "user_policy_from_row r =
     r\<lparr>up_roles := unique_strings (strs (up_roles r)), up_teams := unique_strings (strs (up_teams r)),
       up_departments := unique_strings (strs (up_departments r)), up_policies := normalize_policy_list (JArr (map policy_value (up_policies r)))\<rparr>"

definition approval_from_row :: "approval \<Rightarrow> approval" where
  "approval_from_row r =
     r\<lparr>ap_type := str_or (ap_type r) ''*'', ap_resource := str_or (ap_resource r) ''*'', ap_actions := unique_strings (strs (ap_actions r)),
       ap_providers := unique_strings (strs (ap_providers r)), ap_teams := unique_strings (strs (ap_teams r)),
       ap_departments := unique_strings (strs (ap_departments r)), ap_layers := unique_strings (strs (ap_layers r)),
       ap_kind := str_or (ap_kind r) ''once'', ap_effect := str_or (ap_effect r) ''allow''\<rparr>"

section \<open>The request\<close>

record gov_request =
  gq_operation :: string
  gq_type :: string
  gq_resource :: string
  gq_provider :: string
  gq_action :: string
  gq_scope_action :: string
  gq_discovery :: bool
  gq_agent :: string
  gq_user :: string
  gq_teams :: "string list"
  gq_departments :: "string list"
  gq_applies :: bool
  gq_write :: bool

definition write_words :: "string list" where
  "write_words = [''prepare'', ''upload'', ''write'', ''create'', ''update'', ''delete'', ''move'', ''push'', ''approve'', ''requestChanges'', ''comment'',
     ''submit'', ''maintain'', ''rebase'', ''merge'', ''abandon'', ''restore'', ''review'']"

definition word_char :: "char \<Rightarrow> bool" where
  "word_char c \<longleftrightarrow> (let n = of_char c :: nat in 48 \<le> n \<and> n \<le> 57 \<or> 65 \<le> n \<and> n \<le> 90 \<or> 97 \<le> n \<and> n \<le> 122 \<or> c = CHR ''_'')"

definition dotted_word :: "string \<Rightarrow> bool" where
  "dotted_word t \<longleftrightarrow>
     (case t of
        [] \<Rightarrow> False
      | c # r \<Rightarrow> c = CHR ''.'' \<and>
          list_ex (\<lambda>w. is_prefix w r \<and> (drop (length w) r = [] \<or> \<not> word_char (hd (drop (length w) r)))) write_words)"

text \<open>\<open>WRITE_ACTION_RE.test(s)\<close>.\<close>

definition write_action :: "string \<Rightarrow> bool" where
  "write_action s \<longleftrightarrow>
     list_ex (\<lambda>n. dotted_word (drop n s)) [0..<length s] \<or>
     list_ex (\<lambda>w. contains w s) ['':write'', '':maintain'', '':approve'', '':review'', '':admin'']"

definition small_char :: "char \<Rightarrow> char" where
  "small_char c = (let n = (of_char c :: nat) in if 65 \<le> n \<and> n \<le> 90 then char_of (n + 32) else c)"

definition infer_scope_action :: "string \<Rightarrow> string \<Rightarrow> string" where
  "infer_scope_action operation action =
     (if is_prefix ''repo:'' action then action
      else if contains ''approve'' (map small_char operation) then ''repo:approve''
      else if contains ''review.comment'' operation \<or> contains ''review.requestChanges'' operation then ''repo:review''
      else if list_ex (\<lambda>w. contains w operation) [''upload'', ''git_upload'', ''submit'', ''maintain'', ''abandon'', ''rebase'', ''merge'', ''revert'']
      then ''repo:maintain''
      else if list_ex (\<lambda>w. contains w operation) [''prepare'', ''write'', ''create'', ''update'', ''delete'', ''push'', ''link''] then ''repo:write''
      else ''repo:read'')"

record gov_input =
  gi_operation :: jv
  gi_tool :: jv
  gi_input :: jv
  gi_context :: jv
  gi_subject :: jv
  gi_grant :: jv
  gi_required :: bool

definition discovery_operations :: "string list" where
  "discovery_operations = [''operation_permission.catalog'', ''operation_permission.tools.list'', ''operation_permission.toolsets.list'']"

definition user_subject_id :: "jv \<Rightarrow> jv" where
  "user_subject_id subject = (if prop_of subject ''type'' = JStr ''console-user'' then prop_of subject ''subjectId'' else JStr [])"

definition infer_request :: "gov_input \<Rightarrow> gov_request" where
  "infer_request g =
     (let i = prop_of (gi_input g); c = prop_of (gi_context g); ir = prop_of (object_or_null (i ''resource'')); cr = prop_of (object_or_null (c ''resource''));
          o' = prop_of (gi_operation g); or' = prop_of (object_or_null (o' ''resource'')); oc = prop_of (object_or_null (o' ''resourceContext''));
          t = prop_of (gi_tool g); tr = prop_of (object_or_null (t ''resource'')); tc = prop_of (object_or_null (t ''resourceContext''));
          m = prop_of (prop_of (gi_grant g) ''metadata''); s = prop_of (gi_subject g);
          operation = text_of [o' ''id'', t ''operationId'', i ''operationId''];
          action = str_or (str_or (first_string [i ''requestedAction'', c ''requestedAction'', i ''action'', JStr operation]) operation) ''read'';
          type = first_string [i ''resourceType'', i ''resource-type'', ir ''resourceType'', ir ''type'', c ''resourceType'', cr ''resourceType'',
            oc ''resourceType'', or' ''resourceType'', or' ''type'', tc ''resourceType'', tr ''resourceType'', tr ''type'']
      in \<lparr>gq_operation = operation, gq_type = type,
          gq_resource = first_string [i ''resourceId'', ir ''resourceId'', ir ''id'', c ''resourceId'', cr ''resourceId'', JStr ''*''],
          gq_provider = first_string [i ''targetProvider'', i ''provider'', ir ''targetProvider'', c ''targetProvider'', cr ''targetProvider''],
          gq_action = action, gq_scope_action = infer_scope_action operation action, gq_discovery = (operation \<in> set discovery_operations),
          gq_agent = first_string [i ''agentId'', i ''agentProfileId'', c ''agentId'', c ''profileId'', c ''agentProfileId'', m ''agentId'', m ''agentProfileId'',
            s ''agentProfileId''],
          gq_user = first_string [i ''boundUserId'', i ''userId'', c ''boundUserId'', c ''userId'', m ''boundUserId'', m ''userId'', user_subject_id (gi_subject g)],
          gq_teams = unique_of (list_of (s ''teamIds'') @ map JStr (strings_from [i ''teamIds'', c ''teamIds'', m ''teamIds''])),
          gq_departments = unique_of (list_of (s ''departmentIds'') @ map JStr (strings_from [i ''departmentIds'', c ''departmentIds'', m ''departmentIds''])),
          gq_applies = (type \<noteq> []), gq_write = (write_action action \<or> write_action operation)\<rparr>)"

section \<open>Matching\<close>

definition policy_matches :: "gov_policy \<Rightarrow> gov_request \<Rightarrow> bool" where
  "policy_matches p q \<longleftrightarrow>
     (let type = str_or (gp_type p) ''*''; i = str_or (gp_id p) ''*''; actions = unique_strings (strs (gp_actions p)); providers = unique_strings (strs (gp_providers p))
      in (type = ''*'' \<or> type = trim (gq_type q)) \<and> (i = ''*'' \<or> i = trim (gq_resource q)) \<and>
         (''*'' \<in> set actions \<or> trim (gq_action q) \<in> set actions \<or> gq_scope_action q \<in> set actions) \<and>
         (providers = [] \<or> ''*'' \<in> set providers \<or> trim (gq_provider q) \<in> set providers))"

definition policies_match :: "jv list \<Rightarrow> gov_request \<Rightarrow> bool" where
  "policies_match ps q \<longleftrightarrow> list_ex (\<lambda>p. policy_matches p q) (normalize_policy_list (JArr ps))"

record gov_role =
  gr_enabled :: bool
  gr_policies :: "jv list"

definition active_role_policies :: "(string \<Rightarrow> gov_role option) \<Rightarrow> string list \<Rightarrow> jv list" where
  "active_role_policies get_role ids =
     concat (map (\<lambda>i. case get_role i of Some r \<Rightarrow> if gr_enabled r then gr_policies r else [] | None \<Rightarrow> []) (unique_strings (strs ids)))"

text \<open>A time that \<open>Date.parse\<close> cannot read compares as NaN.\<close>

definition past :: "(string \<Rightarrow> int option) \<Rightarrow> int \<Rightarrow> string \<Rightarrow> bool" where
  "past parse now t \<longleftrightarrow> t \<noteq> [] \<and> (case parse t of Some ms \<Rightarrow> ms \<le> now | None \<Rightarrow> False)"

definition approval_policy :: "approval \<Rightarrow> gov_policy" where
  "approval_policy a = \<lparr>gp_type = ap_type a, gp_id = ap_resource a, gp_actions = ap_actions a, gp_providers = ap_providers a, gp_label = []\<rparr>"

definition active_approval :: "(string \<Rightarrow> int option) \<Rightarrow> int \<Rightarrow> approval \<Rightarrow> gov_request \<Rightarrow> string \<Rightarrow> string \<Rightarrow> string \<Rightarrow> bool" where
  "active_approval parse now a q user agent layer \<longleftrightarrow>
     ap_effect a \<noteq> ''deny'' \<and> ap_revoked a = [] \<and> \<not> past parse now (ap_expires a) \<and>
     \<not> (ap_user a \<noteq> [] \<and> user \<noteq> [] \<and> ap_user a \<noteq> user) \<and>
     \<not> (ap_agent a \<noteq> [] \<and> agent \<noteq> [] \<and> ap_agent a \<noteq> agent) \<and>
     (let teams = unique_strings (strs (ap_teams a)) in teams = [] \<or> list_ex (\<lambda>t. t \<in> set (unique_strings (strs (gq_teams q)))) teams) \<and>
     (let departments = unique_strings (strs (ap_departments a))
      in departments = [] \<or> list_ex (\<lambda>d. d \<in> set (unique_strings (strs (gq_departments q)))) departments) \<and>
     (let layers = unique_strings (strs (ap_layers a)) in layers = [] \<or> layer = [] \<or> ''*'' \<in> set layers \<or> layer \<in> set layers) \<and>
     policy_matches (approval_policy a) q"

end
