(* ===== verification/GovernanceStore.thy ===== *)
theory GovernanceStore imports GovernanceRules AuthzEngine "HOL-Library.List_Lexorder" "HOL-Library.Char_ord" begin

text \<open>
  The governance store, \<open>packages/foundation/src/security/authorization/authorization-governance-store.ts\<close>:
  its tables of user policies and approvals, the evaluation of a request, and how an approved pending
  operation becomes an approval (\<open>packages/capabilities/src/operation-permission-core/runtime-pending.ts\<close>).
  A table is the list of its rows in the order they came, with keys of their own; JSON columns hold
  what was written. Roles, teams, departments, agent groups and bindings come from the tag store, a
  port: what it answers is an argument. The clock stands still during one evaluation.
\<close>

section \<open>The store\<close>

text \<open>A team with its departments, or a department with its teams.\<close>

record gov_unit =
  un_id :: string
  un_enabled :: bool
  un_policies :: "jv list"
  un_roles :: "string list"
  un_members :: "string list"
  un_links :: "string list"

record gov_group =
  gg_enabled :: bool
  gg_policies :: "jv list"

record gov_binding =
  gb_enabled :: bool
  gb_user :: string
  gb_groups :: "string list"
  gb_policies :: "jv list"

text \<open>The lists of teams, departments and groups are those without the disabled ones.\<close>

record tag_port =
  tp_role :: "string \<Rightarrow> gov_role option"
  tp_team :: "string \<Rightarrow> gov_unit option"
  tp_department :: "string \<Rightarrow> gov_unit option"
  tp_group :: "string \<Rightarrow> gov_group option"
  tp_binding :: "string \<Rightarrow> gov_binding option"
  tp_teams :: "gov_unit list"
  tp_departments :: "gov_unit list"
  tp_groups :: "gov_group list"
  tp_bindings :: "gov_binding list"

record gov_event =
  ge_entity :: string
  ge_id :: string
  ge_event :: string
  ge_time :: string

record gov_db =
  gd_users :: "user_policy list"
  gd_approvals :: "approval list"
  gd_events :: "gov_event list"

definition empty_db :: gov_db where
  "empty_db = \<lparr>gd_users = [], gd_approvals = [], gd_events = []\<rparr>"

definition append_event :: "string \<Rightarrow> string \<Rightarrow> string \<Rightarrow> string \<Rightarrow> gov_db \<Rightarrow> gov_db" where
  "append_event entity i event time db =
     db\<lparr>gd_events := gd_events db @ [\<lparr>ge_entity = entity, ge_id = i, ge_event = event, ge_time = time\<rparr>]\<rparr>"

definition get_user_policy :: "gov_db \<Rightarrow> jv \<Rightarrow> user_policy option" where
  "get_user_policy db v = map_option user_policy_from_row (find (\<lambda>r. up_user r = js_string (js_or v (JStr []))) (gd_users db))"

definition upsert_user_policy :: "string \<Rightarrow> string \<Rightarrow> jv \<Rightarrow> gov_db \<Rightarrow> user_policy \<times> gov_db" where
  "upsert_user_policy uuid timestamp input db =
     (let existing = get_user_policy db (js_or (prop_of input ''userId'') (prop_of input ''id''));
          p = normalize_user_policy uuid timestamp input (case existing of Some e \<Rightarrow> user_policy_value e | None \<Rightarrow> JObj []);
          rows = (if list_ex (\<lambda>r. up_user r = up_user p) (gd_users db)
            then map (\<lambda>r. if up_user r = up_user p then p\<lparr>up_created := up_created r\<rparr> else r) (gd_users db) else gd_users db @ [p])
      in (p, append_event ''user-policy'' (up_user p) (if existing \<noteq> None then ''update'' else ''create'') timestamp (db\<lparr>gd_users := rows\<rparr>)))"

definition get_approval :: "gov_db \<Rightarrow> jv \<Rightarrow> approval option" where
  "get_approval db v = map_option approval_from_row (find (\<lambda>r. ap_id r = js_string (js_or v (JStr []))) (gd_approvals db))"

definition upsert_approval :: "string \<Rightarrow> string \<Rightarrow> jv \<Rightarrow> gov_db \<Rightarrow> approval \<times> gov_db" where
  "upsert_approval uuid timestamp input db =
     (let existing = get_approval db (js_or (prop_of input ''approvalId'') (prop_of input ''id''));
          a = normalize_approval uuid timestamp input (case existing of Some e \<Rightarrow> approval_value e | None \<Rightarrow> JObj []);
          rows = (if list_ex (\<lambda>r. ap_id r = ap_id a) (gd_approvals db)
            then map (\<lambda>r. if ap_id r = ap_id a then a\<lparr>ap_created := ap_created r\<rparr> else r) (gd_approvals db) else gd_approvals db @ [a])
      in (a, append_event ''approval'' (ap_id a) (if existing \<noteq> None then ''update'' else ''create'') timestamp (db\<lparr>gd_approvals := rows\<rparr>)))"

text \<open>Newest first; rows of one creation time come in an order of the database's own.\<close>

definition list_approvals :: "gov_db \<Rightarrow> string \<Rightarrow> string \<Rightarrow> bool \<Rightarrow> approval list" where
  "list_approvals db user agent include_revoked =
     map approval_from_row (rev (sort_key ap_created
       (filter (\<lambda>r. (user \<noteq> [] \<longrightarrow> ap_user r = user) \<and> (agent \<noteq> [] \<longrightarrow> ap_agent r = agent) \<and> (\<not> include_revoked \<longrightarrow> ap_revoked r = []))
         (gd_approvals db))))"

definition revoke_approval :: "string \<Rightarrow> string \<Rightarrow> jv \<Rightarrow> jv \<Rightarrow> gov_db \<Rightarrow> approval option \<times> gov_db" where
  "revoke_approval uuid timestamp v reason db =
     (case get_approval db v of
        None \<Rightarrow> (None, db)
      | Some a \<Rightarrow>
          (let input = JObj (spread (as_record (approval_value a))
                 [(''revokedAt'', JStr timestamp), (''reason'', JStr (js_string (js_or reason (JStr (ap_reason a)))))]);
               (updated, db') = upsert_approval uuid timestamp input db
           in (Some updated, append_event ''approval'' (ap_id a) ''revoked'' timestamp db')))"

definition policy_revision :: "(nat \<times> string) option \<Rightarrow> gov_db \<Rightarrow> nat \<times> string" where
  "policy_revision tag_revision db =
     (let own = fold (\<lambda>e t. max (ge_time e) t) (gd_events db) []
      in case tag_revision of Some (n, t) \<Rightarrow> (length (gd_events db) + n, max own t) | None \<Rightarrow> (length (gd_events db), own))"

definition has_governance_policies :: "tag_port \<Rightarrow> gov_db \<Rightarrow> bool" where
  "has_governance_policies tp db \<longleftrightarrow>
     tp_departments tp \<noteq> [] \<or> tp_teams tp \<noteq> [] \<or> list_ex up_enabled (gd_users db) \<or> list_ex gb_enabled (tp_bindings tp) \<or>
     tp_groups tp \<noteq> [] \<or> list_ex (\<lambda>a. ap_revoked a = []) (gd_approvals db)"

section \<open>Evaluation\<close>

record required_approval =
  ra_user :: string
  ra_agent :: string
  ra_type :: string
  ra_resource :: string
  ra_actions :: "string list"
  ra_providers :: "string list"
  ra_teams :: "string list"
  ra_departments :: "string list"
  ra_layers :: "string list"

definition approval_kinds :: "string list" where
  "approval_kinds = [''once'', ''timed'', ''permanent'']"

text \<open>What the evaluation works out before it decides.\<close>

record gov_view =
  vw_request :: gov_request
  vw_user :: string
  vw_policy :: "user_policy option"
  vw_binding :: "gov_binding option"
  vw_departments :: "gov_unit list"
  vw_teams :: "gov_unit list"
  vw_department_explicit :: bool
  vw_department_allowed :: bool
  vw_team_explicit :: bool
  vw_team_allowed :: bool
  vw_user_explicit :: bool
  vw_user_allowed :: bool
  vw_agent_bound :: bool
  vw_agent_allowed :: bool
  vw_approvals :: "approval list"

definition unit_policies :: "tag_port \<Rightarrow> gov_unit \<Rightarrow> jv list" where
  "unit_policies tp u = un_policies u @ active_role_policies (tp_role tp) (un_roles u)"

definition enabled_units :: "(string \<Rightarrow> gov_unit option) \<Rightarrow> string list \<Rightarrow> gov_unit list" where
  "enabled_units get ids = filter un_enabled (map (the \<circ> get) (filter (\<lambda>i. get i \<noteq> None) ids))"

definition active_user_policy :: "user_policy option \<Rightarrow> (user_policy \<Rightarrow> 'a list) \<Rightarrow> 'a list" where
  "active_user_policy p f = (case p of Some u \<Rightarrow> if up_enabled u then f u else [] | None \<Rightarrow> [])"

definition effective_teams :: "tag_port \<Rightarrow> user_policy option \<Rightarrow> string \<Rightarrow> gov_request \<Rightarrow> string list" where
  "effective_teams tp p user q =
     unique_of (map JStr (gq_teams q @ active_user_policy p up_teams @
       (if user \<noteq> [] then map un_id (filter (\<lambda>t. user \<in> set (un_members t)) (tp_teams tp)) else [])))"

definition effective_departments :: "tag_port \<Rightarrow> user_policy option \<Rightarrow> string \<Rightarrow> gov_request \<Rightarrow> string list \<Rightarrow> string list" where
  "effective_departments tp p user q teams =
     unique_of (map JStr (gq_departments q @ active_user_policy p up_departments @
       concat (map un_links (enabled_units (tp_team tp) teams)) @
       (if user \<noteq> [] then map un_id (filter (\<lambda>d. user \<in> set (un_members d)) (tp_departments tp)) else []) @
       map un_id (filter (\<lambda>d. list_ex (\<lambda>t. t \<in> set teams) (un_links d)) (tp_departments tp))))"

definition active_approvals :: "(string \<Rightarrow> int option) \<Rightarrow> int \<Rightarrow> gov_db \<Rightarrow> gov_request \<Rightarrow> string \<Rightarrow> string \<Rightarrow> approval list" where
  "active_approvals parse now db q user agent =
     filter (\<lambda>a. active_approval parse now a q user agent []) (list_approvals db user agent False)"

definition layer_approved :: "(string \<Rightarrow> int option) \<Rightarrow> int \<Rightarrow> gov_db \<Rightarrow> gov_request \<Rightarrow> string \<Rightarrow> string \<Rightarrow> string \<Rightarrow> bool" where
  "layer_approved parse now db q user agent layer \<longleftrightarrow>
     list_ex (\<lambda>a. ap_effect a = ''allow'') (filter (\<lambda>a. active_approval parse now a q user agent layer) (active_approvals parse now db q user agent))"

definition direct_user :: "gov_request \<Rightarrow> jv \<Rightarrow> bool" where
  "direct_user q subject \<longleftrightarrow> gq_agent q = [] \<and> prop_of subject ''type'' = JStr ''console-user''"

definition group_policies :: "tag_port \<Rightarrow> gov_binding option \<Rightarrow> jv list" where
  "group_policies tp b =
     (case b of None \<Rightarrow> []
      | Some x \<Rightarrow> concat (map gg_policies (filter gg_enabled (map (the \<circ> tp_group tp) (filter (\<lambda>i. tp_group tp i \<noteq> None) (gb_groups x))))))"

definition governance_view :: "(string \<Rightarrow> int option) \<Rightarrow> int \<Rightarrow> tag_port \<Rightarrow> gov_db \<Rightarrow> gov_input \<Rightarrow> gov_view" where
  "governance_view parse now tp db g =
     (let r = infer_request g; subject = gi_subject g; user = first_string [JStr (gq_user r), user_subject_id subject]; agent = gq_agent r;
          p = (if user \<noteq> [] then get_user_policy db (JStr user) else None);
          teams = effective_teams tp p user r; departments = effective_departments tp p user r teams;
          tu = enabled_units (tp_team tp) teams; du = enabled_units (tp_department tp) departments;
          q = r\<lparr>gq_teams := teams, gq_departments := departments\<rparr>;
          approved = layer_approved parse now db q user agent;
          department_explicit = policies_match (concat (map (unit_policies tp) du)) q; team_explicit = policies_match (concat (map (unit_policies tp) tu)) q;
          user_policies = active_user_policy p (\<lambda>u. map policy_value (up_policies u) @ active_role_policies (tp_role tp) (up_roles u));
          user_explicit = (active_user_policy p (\<lambda>_. [()]) \<noteq> [] \<and> policies_match user_policies q);
          binding = (if agent \<noteq> [] then tp_binding tp agent else None); direct = direct_user q subject;
          bound = (direct \<or> (case binding of Some b \<Rightarrow> gb_enabled b \<and> (user = [] \<or> gb_user b = [] \<or> gb_user b = user) | None \<Rightarrow> False))
      in \<lparr>vw_request = q, vw_user = user, vw_policy = p, vw_binding = binding, vw_departments = du, vw_teams = tu,
          vw_department_explicit = department_explicit, vw_department_allowed = (departments = [] \<or> department_explicit \<or> approved ''department''),
          vw_team_explicit = team_explicit, vw_team_allowed = (teams = [] \<or> team_explicit \<or> approved ''team''),
          vw_user_explicit = user_explicit, vw_user_allowed = (user_explicit \<or> approved ''user''), vw_agent_bound = bound,
          vw_agent_allowed = (direct \<or> bound \<and> (policies_match (case binding of Some b \<Rightarrow> gb_policies b | None \<Rightarrow> []) q \<or>
            policies_match (group_policies tp binding) q \<or> approved ''agent'')),
          vw_approvals = active_approvals parse now db q user agent\<rparr>)"

text \<open>The units of the snapshot whose own rules allow the request.\<close>

definition matched_units :: "tag_port \<Rightarrow> gov_unit list \<Rightarrow> gov_request \<Rightarrow> string list" where
  "matched_units tp us q = map un_id (filter (\<lambda>u. policies_match (unit_policies tp u) q) us)"

record gov_decision =
  gx_applicable :: bool
  gx_effect :: string
  gx_reason :: string
  gx_layer :: string
  gx_required :: "required_approval option"

definition required_for :: "gov_view \<Rightarrow> string \<Rightarrow> required_approval" where
  "required_for v layer =
     (let q = vw_request v in
      \<lparr>ra_user = vw_user v, ra_agent = gq_agent q, ra_type = gq_type q, ra_resource = gq_resource q,
       ra_actions = filter (\<lambda>s. s \<noteq> []) [gq_action q, gq_scope_action q], ra_providers = (if gq_provider q \<noteq> [] then [gq_provider q] else []),
       ra_teams = gq_teams q, ra_departments = gq_departments q, ra_layers = [layer]\<rparr>)"

definition needs_approval_of :: "gov_view \<Rightarrow> string \<Rightarrow> gov_decision" where
  "needs_approval_of v layer =
     \<lparr>gx_applicable = True, gx_effect = ''needsApproval'', gx_reason = layer @ ''_approval_required'', gx_layer = layer, gx_required = Some (required_for v layer)\<rparr>"

definition plain_decision :: "bool \<Rightarrow> string \<Rightarrow> string \<Rightarrow> string \<Rightarrow> gov_decision" where
  "plain_decision applicable effect reason layer =
     \<lparr>gx_applicable = applicable, gx_effect = effect, gx_reason = reason, gx_layer = layer, gx_required = None\<rparr>"

definition decide_view :: "gov_view \<Rightarrow> gov_decision" where
  "decide_view v =
     (let q = vw_request v in
      if vw_user v = [] \<and> gq_agent q \<noteq> [] \<and> vw_binding v = None \<and> gq_discovery q \<and> \<not> gq_write q
      then plain_decision True ''allow'' ''agent_readonly_discovery_allowed'' []
      else if \<not> vw_department_allowed v then needs_approval_of v ''department''
      else if \<not> vw_team_allowed v then needs_approval_of v ''team''
      else if \<not> vw_user_allowed v then needs_approval_of v ''user''
      else if \<not> vw_agent_bound v then plain_decision True ''deny'' ''agent_not_bound_to_user'' ''agent''
      else if gq_write q \<and> \<not> vw_agent_allowed v then needs_approval_of v ''agent''
      else plain_decision True ''allow'' ''governance_allowed'' [])"

definition evaluate_governance :: "(string \<Rightarrow> int option) \<Rightarrow> int \<Rightarrow> tag_port \<Rightarrow> gov_db \<Rightarrow> gov_input \<Rightarrow> gov_decision" where
  "evaluate_governance parse now tp db g =
     (if \<not> gq_applies (infer_request g) \<or> (\<not> has_governance_policies tp db \<and> \<not> gi_required g)
      then plain_decision False ''allow'' ''governance_not_applicable'' []
      else decide_view (governance_view parse now tp db g))"

section \<open>The engine's port\<close>

definition decision_value :: "gov_decision \<Rightarrow> jv" where
  "decision_value d =
     JObj ([(''applicable'', JBool (gx_applicable d)), (''effect'', JStr (gx_effect d)), (''reasonCode'', JStr (gx_reason d))] @
       (if gx_layer d = [] then [] else [(''deniedLayer'', JStr (gx_layer d))]))"

definition gov_input_of :: "bool \<Rightarrow> authz_input \<Rightarrow> jv \<Rightarrow> gov_input" where
  "gov_input_of required i subject =
     \<lparr>gi_operation = ai_operation i, gi_tool = ai_tool i, gi_input = ai_input i, gi_context = ai_context i, gi_subject = subject,
      gi_grant = ai_grant i, gi_required = required\<rparr>"

definition governance_port :: "platform \<Rightarrow> bool \<Rightarrow> tag_port \<Rightarrow> gov_db \<Rightarrow> authz_input \<Rightarrow> jv \<Rightarrow> jv" where
  "governance_port pf required tp db i subject =
     decision_value (evaluate_governance (pf_date pf) (pf_now pf) tp db (gov_input_of required i subject))"

section \<open>Approving a pending operation\<close>

text \<open>The record of an approval, from the facts the pending operation holds.\<close>

definition approval_from_pending :: "string \<Rightarrow> string \<Rightarrow> string \<Rightarrow> string \<Rightarrow> required_approval \<Rightarrow> jv option" where
  "approval_from_pending pending_id pending_agent expires reason ra =
     (if unique_of (map JStr (ra_layers ra)) = [] then None
      else Some (JObj [(''approvalId'', JStr (''pending-'' @ pending_id)), (''userId'', JStr (ra_user ra)),
        (''agentId'', JStr (str_or (ra_agent ra) pending_agent)), (''resourceType'', JStr (str_or (ra_type ra) ''*'')),
        (''resourceId'', JStr (str_or (ra_resource ra) ''*'')), (''actions'', strs (unique_of (map JStr (ra_actions ra)))),
        (''targetProviders'', strs (unique_of (map JStr (ra_providers ra)))), (''teamIds'', strs (unique_of (map JStr (ra_teams ra)))),
        (''departmentIds'', strs (unique_of (map JStr (ra_departments ra)))), (''approvalLayers'', strs (unique_of (map JStr (ra_layers ra)))),
        (''grantKind'', JStr ''once''), (''effect'', JStr ''allow''), (''expiresAt'', JStr expires), (''reason'', JStr reason)]))"

text \<open>Every approval a decision asks for offers the kind \<open>once\<close>, which is the one taken.\<close>

lemma once_is_taken: "''once'' \<in> set (unique_of (map JStr approval_kinds))"
  by code_simp

record approver =
  av_user :: string
  av_agents :: "string list"
  av_teams :: "string list"
  av_departments :: "string list"

fun nested_items :: "jv \<Rightarrow> jv list" where
  "nested_items (JArr xs) = concat (map nested_items xs)"
| "nested_items v = [v]"

definition nested_strings :: "jv list \<Rightarrow> string list" where
  "nested_strings vs = unique_of (nested_items (JArr vs))"

definition normalized_approver :: "jv \<Rightarrow> approver" where
  "normalized_approver v =
     (let s = prop_of (js_or (prop_of v ''user'') v) in
      \<lparr>av_user = first_string [s ''userId'', s ''subjectId'', s ''id''],
       av_agents = nested_strings [s ''agentId'', s ''agentProfileId'', s ''profileId'', s ''agentIds'', s ''agentProfileIds''],
       av_teams = nested_strings [s ''teamIds'', s ''teams''], av_departments = nested_strings [s ''departmentIds'', s ''departments'']\<rparr>)"

definition agent_bound_to :: "tag_port \<Rightarrow> string \<Rightarrow> string \<Rightarrow> bool" where
  "agent_bound_to tp agent user \<longleftrightarrow>
     agent \<noteq> [] \<and> user \<noteq> [] \<and> (case tp_binding tp agent of Some b \<Rightarrow> gb_enabled b \<and> gb_user b \<noteq> [] \<and> gb_user b = user | None \<Rightarrow> False)"

definition intersects :: "string list \<Rightarrow> string list \<Rightarrow> bool" where
  "intersects xs ys \<longleftrightarrow> list_ex (\<lambda>x. x \<in> set (unique_of (map JStr ys))) (unique_of (map JStr xs))"

definition layer_mismatch :: "tag_port \<Rightarrow> required_approval \<Rightarrow> approver \<Rightarrow> string \<Rightarrow> bool" where
  "layer_mismatch tp ra av layer \<longleftrightarrow>
     (layer = ''user'' \<and> (ra_user ra = [] \<or> av_user av \<noteq> ra_user ra)) \<or>
     (layer = ''team'' \<and> (ra_teams ra = [] \<or> \<not> intersects (av_teams av) (ra_teams ra))) \<or>
     (layer = ''department'' \<and> (ra_departments ra = [] \<or> \<not> intersects (av_departments av) (ra_departments ra))) \<or>
     (layer = ''agent'' \<and> \<not> (ra_user ra \<noteq> [] \<and> av_user av = ra_user ra) \<and> \<not> (ra_agent ra \<noteq> [] \<and> ra_agent ra \<in> set (av_agents av)) \<and>
       \<not> agent_bound_to tp (ra_agent ra) (av_user av))"

definition approver_refusal :: "tag_port \<Rightarrow> required_approval \<Rightarrow> approver \<Rightarrow> string option" where
  "approver_refusal tp ra av =
     (let layers = unique_of (map JStr (ra_layers ra)) in
      if layers = [] then None
      else if av_user av = [] then Some ''approver_session_user_missing''
      else map_option (\<lambda>l. l @ ''_approver_mismatch'') (find (layer_mismatch tp ra av) layers))"

end
