(* ===== verification/GovernanceSafety.thy ===== *)
theory GovernanceSafety imports GovernanceStore AuthzSafety begin

text \<open>
  What governance guarantees: a governed request is allowed only to a user with a policy or an approval
  of its own, and every approval it asks for, once recorded, takes the request one layer further.
\<close>

section \<open>Clean text\<close>

lemma first_string_text: "trim (first_string vs) = first_string vs"
  by (induction vs) (auto simp: first_string_def or_else_def)

lemma first_string_Cons: "first_string (v # vs) = (if authz_text v \<noteq> [] then authz_text v else first_string vs)"
  by (simp add: first_string_def or_else_def)

lemma unique_strings_strs: "unique_strings (strs xs) = unique_of (map JStr xs)"
  by (simp add: unique_strings_def strs_def list_of_def)

lemma unique_of_again [simp]: "unique_of (map JStr (unique_of vs)) = unique_of vs"
  using unique_of_clean by (intro unique_of_strings) auto

lemma unique_of_Nil [simp]: "unique_of [] = []"
  by (simp add: unique_of_def)

lemma set_unique_of_strs: "set (unique_of (map JStr xs)) = trim ` set xs - {[]}"
  by (auto simp: unique_of_def)

lemma js_or_Nil [simp]: "js_or JUndef v = v" "js_or (JStr s) v = (if s = [] then v else JStr s)" "js_or (strs xs) v = strs xs"
  by (simp_all add: js_or_def strs_def)

lemma text_of_trim: "trim (text_of vs) = text_of vs"
  by (simp add: text_of_def)

lemma infer_request_clean:
  "trim (gq_type (infer_request g)) = gq_type (infer_request g)" "trim (gq_agent (infer_request g)) = gq_agent (infer_request g)"
  "trim (gq_resource (infer_request g)) = gq_resource (infer_request g)" "gq_resource (infer_request g) \<noteq> []"
  "trim (gq_action (infer_request g)) = gq_action (infer_request g)" "gq_action (infer_request g) \<noteq> []"
  "trim (gq_provider (infer_request g)) = gq_provider (infer_request g)" "gq_applies (infer_request g) \<longleftrightarrow> gq_type (infer_request g) \<noteq> []"
proof -
  have star: "trim ''*'' = ''*''" "trim ''read'' = ''read''" by code_simp+
  have r: "first_string [a, b, c, d, e, JStr ''*''] \<noteq> []" for a b c d e
    by (simp add: first_string_Cons star)
  show "gq_resource (infer_request g) \<noteq> []" unfolding infer_request_def Let_def gov_request.simps by (rule r)
  show "trim (gq_action (infer_request g)) = gq_action (infer_request g)" "gq_action (infer_request g) \<noteq> []"
    unfolding infer_request_def Let_def gov_request.simps by (simp_all add: str_or_def first_string_text text_of_trim star)
  show "gq_applies (infer_request g) \<longleftrightarrow> gq_type (infer_request g) \<noteq> []" unfolding infer_request_def Let_def gov_request.simps by (rule refl)
qed (unfold infer_request_def Let_def gov_request.simps, (rule first_string_text)+)

section \<open>Approvals that count\<close>

definition counts :: "(string \<Rightarrow> int option) \<Rightarrow> int \<Rightarrow> gov_request \<Rightarrow> string \<Rightarrow> string \<Rightarrow> string \<Rightarrow> approval \<Rightarrow> bool" where
  "counts parse now q user agent layer r \<longleftrightarrow>
     (user \<noteq> [] \<longrightarrow> ap_user r = user) \<and> (agent \<noteq> [] \<longrightarrow> ap_agent r = agent) \<and> ap_revoked r = [] \<and> \<not> past parse now (ap_expires r) \<and>
     str_or (ap_effect r) ''allow'' = ''allow'' \<and> active_approval parse now (approval_from_row r) q user agent layer"

lemma active_any_layer: "active_approval parse now a q user agent layer \<Longrightarrow> active_approval parse now a q user agent []"
  by (simp add: active_approval_def)

lemma layer_approved_iff: "layer_approved parse now db q user agent layer \<longleftrightarrow> (\<exists>r\<in>set (gd_approvals db). counts parse now q user agent layer r)"
proof -
  have "past parse now (ap_expires (approval_from_row r)) = past parse now (ap_expires r)" "ap_effect (approval_from_row r) = str_or (ap_effect r) ''allow''" for r
    by (simp_all add: approval_from_row_def)
  moreover have "active_approval parse now a q user agent l \<Longrightarrow> \<not> past parse now (ap_expires a)" for a l by (simp add: active_approval_def)
  ultimately show ?thesis
    unfolding layer_approved_def active_approvals_def list_approvals_def counts_def list_ex_iff
    using active_any_layer [of parse now _ q user agent layer] by (auto simp: image_iff) blast+
qed

section \<open>The approval of a pending operation\<close>

definition pending_input :: "string \<Rightarrow> string \<Rightarrow> string \<Rightarrow> string \<Rightarrow> required_approval \<Rightarrow> jv" where
  "pending_input pid pending_agent expires reason ra = or_else JUndef (approval_from_pending pid pending_agent expires reason ra)"

lemma pending_fields:
  fixes uuid timestamp pid pending_agent expires reason :: string
  assumes "unique_of (map JStr (ra_layers ra)) \<noteq> []" and "trim (ra_type ra) = ra_type ra" and "ra_type ra \<noteq> []"
    and "trim (ra_resource ra) = ra_resource ra" and "ra_resource ra \<noteq> []" and "trim (ra_user ra) = ra_user ra"
  defines "a \<equiv> normalize_approval uuid timestamp (pending_input pid pending_agent expires reason ra) (JObj [])"
  shows "ap_user a = ra_user ra" "ap_agent a = trim (str_or (ra_agent ra) pending_agent)" "ap_type a = ra_type ra" "ap_resource a = ra_resource ra"
    "ap_actions a = unique_of (map JStr (ra_actions ra))" "ap_providers a = unique_of (map JStr (ra_providers ra))"
    "ap_teams a = unique_of (map JStr (ra_teams ra))" "ap_departments a = unique_of (map JStr (ra_departments ra))"
    "ap_layers a = unique_of (map JStr (ra_layers ra))" "ap_effect a = ''allow''" "ap_expires a = trim expires" "ap_revoked a = []"
    "ap_id a = normalize_id uuid (JStr (''pending-'' @ pid)) ''approval''"
proof -
  have allow: "trim ''allow'' = ''allow''" by code_simp
  note p = a_def normalize_approval_def pending_input_def approval_from_pending_def assms(1) or_else_def Let_def prop_of_def jget_def either_of_def text_of_def
    text_or_star_def
  show "ap_user a = ra_user ra" "ap_agent a = trim (str_or (ra_agent ra) pending_agent)" "ap_effect a = ''allow''" "ap_expires a = trim expires" "ap_revoked a = []"
    using assms(6) by (simp_all add: p allow)
  show "ap_type a = ra_type ra" "ap_resource a = ra_resource ra" using assms(2-5) by (simp_all add: p str_or_def)
  show "ap_actions a = unique_of (map JStr (ra_actions ra))" "ap_providers a = unique_of (map JStr (ra_providers ra))"
    "ap_teams a = unique_of (map JStr (ra_teams ra))" "ap_departments a = unique_of (map JStr (ra_departments ra))"
    "ap_layers a = unique_of (map JStr (ra_layers ra))" by (simp_all add: p unique_strings_strs)
  show "ap_id a = normalize_id uuid (JStr (''pending-'' @ pid)) ''approval''" by (simp add: p)
qed

lemma pending_counts:
  assumes v: "v = governance_view parse now tp db g" and applies: "gq_applies (infer_request g)" and layer: "trim layer = layer" "layer \<noteq> []"
    and fresh: "\<not> past parse now (trim expires)"
  shows "counts parse now (vw_request v) (vw_user v) (gq_agent (vw_request v)) layer
    (normalize_approval uuid timestamp (pending_input pid pending_agent expires reason (required_for v layer)) (JObj []))"
proof -
  let ?q = "vw_request v" and ?ra = "required_for v layer"
  let ?a = "normalize_approval uuid timestamp (pending_input pid pending_agent expires reason ?ra) (JObj [])"
  obtain T D where q: "?q = (infer_request g)\<lparr>gq_teams := unique_of T, gq_departments := unique_of D\<rparr>"
    unfolding v governance_view_def Let_def effective_teams_def effective_departments_def gov_view.simps by blast
  have u: "trim (vw_user v) = vw_user v" unfolding v governance_view_def Let_def gov_view.simps by (rule first_string_text)
  have c: "trim (gq_type ?q) = gq_type ?q" "trim (gq_agent ?q) = gq_agent ?q" "trim (gq_resource ?q) = gq_resource ?q" "gq_resource ?q \<noteq> []"
    "trim (gq_action ?q) = gq_action ?q" "gq_action ?q \<noteq> []" "trim (gq_provider ?q) = gq_provider ?q" "gq_type ?q \<noteq> []"
    "unique_of (map JStr (gq_teams ?q)) = gq_teams ?q" "unique_of (map JStr (gq_departments ?q)) = gq_departments ?q"
    using applies by (simp_all add: q infer_request_clean)
  have l: "unique_of (map JStr [layer]) = [layer]" using layer by (simp add: unique_of_def)
  have a: "ap_user ?a = vw_user v" "ap_agent ?a = trim (str_or (gq_agent ?q) pending_agent)" "ap_type ?a = gq_type ?q" "ap_resource ?a = gq_resource ?q"
    "ap_actions ?a = unique_of (map JStr (filter (\<lambda>s. s \<noteq> []) [gq_action ?q, gq_scope_action ?q]))"
    "ap_providers ?a = (if gq_provider ?q \<noteq> [] then [gq_provider ?q] else [])"
    "ap_teams ?a = gq_teams ?q" "ap_departments ?a = gq_departments ?q" "ap_layers ?a = [layer]" "ap_effect ?a = ''allow''" "ap_expires ?a = trim expires"
    "ap_revoked ?a = []"
    using c u l by (simp_all add: pending_fields required_for_def Let_def, simp_all add: unique_of_def)
  have acts: "gq_action ?q \<in> set (unique_of (map JStr (ap_actions ?a)))"
    unfolding a(5) unique_of_again set_unique_of_strs using c(5,6) by force
  have match: "policy_matches (approval_policy (approval_from_row ?a)) ?q"
    using c acts a(3,4,6)
    by (auto simp: policy_matches_def approval_policy_def approval_from_row_def unique_strings_strs str_or_def Let_def set_unique_of_strs)
  have agent: "gq_agent ?q \<noteq> [] \<longrightarrow> ap_agent ?a = gq_agent ?q" using a(2) c(2) by (simp add: str_or_def)
  have "active_approval parse now (approval_from_row ?a) ?q (vw_user v) (gq_agent ?q) layer"
    unfolding active_approval_def Let_def using match agent fresh l c(9,10)
    by (simp add: approval_from_row_def a unique_strings_strs str_or_def list_ex_iff) (metis list.set_intros(1) neq_Nil_conv)
  then show ?thesis using agent fresh by (simp add: counts_def a str_or_def)
qed

section \<open>One layer further\<close>

definition layer_rank :: "string \<Rightarrow> nat" where
  "layer_rank l = (if l = ''department'' then 1 else if l = ''team'' then 2 else if l = ''user'' then 3 else if l = ''agent'' then 4 else 0)"

definition layers :: "string set" where
  "layers = {''department'', ''team'', ''user'', ''agent''}"

lemma layer_cases: "l \<in> layers \<longleftrightarrow> l = ''department'' \<or> l = ''team'' \<or> l = ''user'' \<or> l = ''agent''"
  by (simp add: layers_def)

lemma layer_ranks [simp]: "layer_rank ''department'' = 1" "layer_rank ''team'' = 2" "layer_rank ''user'' = 3" "layer_rank ''agent'' = 4"
  by (simp_all add: layer_rank_def)

lemma layer_rank_inj: "l \<in> layers \<Longrightarrow> l' \<in> layers \<Longrightarrow> layer_rank l = layer_rank l' \<Longrightarrow> l = l'"
  unfolding layer_cases by (elim disjE) simp_all

lemma layer_rank_below: "l \<in> layers \<Longrightarrow> l' \<in> layers \<Longrightarrow> layer_rank l' < layer_rank l \<Longrightarrow> l' \<in> {''department'', ''team'', ''user''}"
  unfolding layer_cases by (elim disjE) simp_all

text \<open>What a view says of a layer, and whether an approval for the layer is enough.\<close>

definition layer_allowed :: "gov_view \<Rightarrow> string \<Rightarrow> bool" where
  "layer_allowed v l \<longleftrightarrow>
     (if l = ''department'' then vw_department_allowed v else if l = ''team'' then vw_team_allowed v
      else if l = ''user'' then vw_user_allowed v else vw_agent_allowed v)"

lemma view_frame:
  assumes "gd_users db' = gd_users db" and "v = governance_view parse now tp db g" and "v' = governance_view parse now tp db' g"
  shows "vw_request v' = vw_request v" "vw_user v' = vw_user v" "vw_binding v' = vw_binding v" "vw_agent_bound v' = vw_agent_bound v"
  unfolding assms(2,3) governance_view_def Let_def get_user_policy_def assms(1) gov_view.simps by (rule refl)+

lemma view_mono:
  assumes "gd_users db' = gd_users db"
    and "\<And>q u a l. layer_approved parse now db q u a l \<Longrightarrow> layer_approved parse now db' q u a l"
    and "layer_allowed (governance_view parse now tp db g) l"
  shows "layer_allowed (governance_view parse now tp db' g) l"
  using assms(3) assms(2)
  unfolding layer_allowed_def governance_view_def Let_def get_user_policy_def assms(1) gov_view.simps by (auto split: if_splits)

lemma view_approved:
  assumes "v = governance_view parse now tp db g" and "l \<in> layers" and "l = ''agent'' \<longrightarrow> vw_agent_bound v"
    and "layer_approved parse now db (vw_request v) (vw_user v) (gq_agent (vw_request v)) l"
  shows "layer_allowed v l"
  using assms(2-4) unfolding assms(1) layer_allowed_def governance_view_def Let_def gov_view.simps gov_request.simps layer_cases by (auto split: if_splits)

lemma needs_approval_cases:
  assumes "gx_effect (decide_view v) = ''needsApproval''"
  shows "decide_view v = needs_approval_of v (gx_layer (decide_view v)) \<and> gx_layer (decide_view v) \<in> layers \<and>
    (gx_layer (decide_view v) = ''agent'' \<longrightarrow> vw_agent_bound v) \<and> \<not> layer_allowed v (gx_layer (decide_view v)) \<and>
    (\<forall>l\<in>{''department'', ''team'', ''user''}. layer_rank l < layer_rank (gx_layer (decide_view v)) \<longrightarrow> layer_allowed v l)"
  using assms
  by (simp add: decide_view_def Let_def needs_approval_of_def plain_decision_def layer_allowed_def layer_cases split: if_splits)

lemma decide_further:
  assumes frame: "vw_request v' = vw_request v" "vw_user v' = vw_user v" "vw_binding v' = vw_binding v" "vw_agent_bound v' = vw_agent_bound v"
    and mono: "\<And>l. layer_allowed v l \<Longrightarrow> layer_allowed v' l"
    and d: "gx_effect (decide_view v) = ''needsApproval''" and ok: "layer_allowed v' (gx_layer (decide_view v))"
    and d': "gx_effect (decide_view v') = ''needsApproval''"
  shows "layer_rank (gx_layer (decide_view v)) < layer_rank (gx_layer (decide_view v'))"
proof (rule ccontr)
  let ?l = "gx_layer (decide_view v)" and ?l' = "gx_layer (decide_view v')"
  assume n: "\<not> layer_rank ?l < layer_rank ?l'"
  note c = needs_approval_cases [OF d] and c' = needs_approval_cases [OF d']
  have "?l' \<noteq> ?l" using ok c' by metis
  then have "layer_rank ?l' < layer_rank ?l" using n c c' layer_rank_inj by (meson linorder_neqE_nat)
  then have "layer_allowed v ?l'" using c c' layer_rank_below by blast
  then show False using mono c' by blast
qed

lemma upsert_new:
  assumes "ap_id (normalize_approval uuid timestamp input (JObj [])) \<notin> ap_id ` set (gd_approvals db)"
    and "js_string (js_or (js_or (prop_of input ''approvalId'') (prop_of input ''id'')) (JStr [])) \<notin> ap_id ` set (gd_approvals db)"
  defines "db' \<equiv> snd (upsert_approval uuid timestamp input db)"
  shows "gd_approvals db' = gd_approvals db @ [normalize_approval uuid timestamp input (JObj [])]" "gd_users db' = gd_users db"
proof -
  have "find (\<lambda>r. ap_id r = js_string (js_or (js_or (prop_of input ''approvalId'') (prop_of input ''id'')) (JStr []))) (gd_approvals db) = None"
    using assms(2) unfolding find_None_iff by (metis imageI)
  then have "get_approval db (js_or (prop_of input ''approvalId'') (prop_of input ''id'')) = None" by (simp add: get_approval_def)
  moreover have "\<not> list_ex (\<lambda>r. ap_id r = ap_id (normalize_approval uuid timestamp input (JObj []))) (gd_approvals db)"
    using assms(1) unfolding list_ex_iff by (metis imageI)
  ultimately show "gd_approvals db' = gd_approvals db @ [normalize_approval uuid timestamp input (JObj [])]" "gd_users db' = gd_users db"
    by (simp_all add: db'_def upsert_approval_def append_event_def Let_def)
qed

text \<open>Ids of pending operations in the alphabet of record ids, short enough to be kept.\<close>

definition pending_id :: "string \<Rightarrow> bool" where
  "pending_id p \<longleftrightarrow> list_all id_char p \<and> length p \<le> 152"

lemma dash_runs_id: "list_all id_char s \<Longrightarrow> dash_runs False s = s"
  by (induction s) simp_all

lemma id_not_space: "id_char c \<Longrightarrow> \<not> is_space c"
  by (auto simp: id_char_def is_space_def Let_def)

lemma pending_key: "pending_id p \<Longrightarrow> normalize_id uuid (JStr (''pending-'' @ p)) prefix = ''pending-'' @ p"
proof -
  assume p: "pending_id p"
  have "list_all id_char ''pending-''" by code_simp
  then have all: "list_all id_char (''pending-'' @ p)" using p by (simp add: pending_id_def)
  then have s: "\<forall>c\<in>set (''pending-'' @ p). \<not> is_space c" using id_not_space by (auto simp: list_all_iff simp del: append.simps)
  then have "trim (''pending-'' @ p) = ''pending-'' @ p" unfolding trim_def by (simp add: dropWhile_id del: append.simps)
  then show ?thesis using dash_runs_id [OF all] p by (simp add: normalize_id_def pending_id_def)
qed

text \<open>What the documentation promises: the replay goes one layer further or is decided.\<close>

lemma approval_advances:
  fixes uuid timestamp pid pending_agent expires reason :: string
  assumes d: "gx_effect (evaluate_governance parse now tp db g) = ''needsApproval''"
    and ra: "gx_required (evaluate_governance parse now tp db g) = Some ra"
    and p: "pending_id pid" "''pending-'' @ pid \<notin> ap_id ` set (gd_approvals db)" and e: "\<not> past parse now (trim expires)"
  defines "db' \<equiv> snd (upsert_approval uuid timestamp (pending_input pid pending_agent expires reason ra) db)"
  shows "gx_effect (evaluate_governance parse now tp db' g) = ''needsApproval'' \<longrightarrow>
      layer_rank (gx_layer (evaluate_governance parse now tp db g)) < layer_rank (gx_layer (evaluate_governance parse now tp db' g))"
    and "ap_id ` set (gd_approvals db') = insert (''pending-'' @ pid) (ap_id ` set (gd_approvals db))"
proof -
  let ?v = "governance_view parse now tp db g" and ?v' = "governance_view parse now tp db' g"
  have applies: "gq_applies (infer_request g)" and eval: "evaluate_governance parse now tp db g = decide_view ?v"
    using d by (auto simp: evaluate_governance_def plain_decision_def split: if_splits)
  let ?l = "gx_layer (decide_view ?v)"
  note c = needs_approval_cases [OF d [unfolded eval]]
  have r: "ra = required_for ?v ?l" using ra c unfolding eval by (metis gov_decision.select_convs(5) needs_approval_of_def option.inject)
  have l: "trim ?l = ?l" "?l \<noteq> []" using conjunct1 [OF conjunct2 [OF c]] unfolding layer_cases by (elim disjE; simp add: trim_def is_space_def Let_def)+
  let ?a = "normalize_approval uuid timestamp (pending_input pid pending_agent expires reason ra) (JObj [])"
  have layers: "unique_of (map JStr (ra_layers ra)) \<noteq> []" using l by (simp add: r required_for_def Let_def unique_of_def)
  have id: "ap_id ?a = ''pending-'' @ pid" and raw: "prop_of (pending_input pid pending_agent expires reason ra) ''approvalId'' = JStr (''pending-'' @ pid)"
    using layers pending_key [OF p(1)] by (simp_all add: normalize_approval_def pending_input_def approval_from_pending_def or_else_def Let_def prop_of_def
        jget_def either_of_def)
  have revoked: "ap_revoked ?a = []"
    using layers by (simp add: normalize_approval_def pending_input_def approval_from_pending_def or_else_def Let_def prop_of_def jget_def either_of_def text_of_def)
  have db: "gd_approvals db' = gd_approvals db @ [?a]" "gd_users db' = gd_users db"
    unfolding db'_def by (rule upsert_new; use id raw p(2) in \<open>simp add: js_or_def\<close>)+
  then show "ap_id ` set (gd_approvals db') = insert (''pending-'' @ pid) (ap_id ` set (gd_approvals db))" using id by auto
  note frame = view_frame [OF db(2) refl refl, of parse now tp g]
  have "counts parse now (vw_request ?v) (vw_user ?v) (gq_agent (vw_request ?v)) ?l ?a"
    unfolding r by (rule pending_counts [OF refl applies l e])
  then have "layer_approved parse now db' (vw_request ?v') (vw_user ?v') (gq_agent (vw_request ?v')) ?l"
    unfolding layer_approved_iff frame db(1) by auto
  then have "layer_allowed ?v' ?l" using c by (intro view_approved [OF refl]) (auto simp: frame)
  moreover have "layer_allowed ?v l \<Longrightarrow> layer_allowed ?v' l" for l
    by (rule view_mono [OF db(2)]) (auto simp: layer_approved_iff db(1))
  moreover have "evaluate_governance parse now tp db' g = decide_view ?v'"
    using applies revoked by (simp add: evaluate_governance_def has_governance_policies_def db)
  ultimately show "gx_effect (evaluate_governance parse now tp db' g) = ''needsApproval'' \<longrightarrow>
      layer_rank (gx_layer (evaluate_governance parse now tp db g)) < layer_rank (gx_layer (evaluate_governance parse now tp db' g))"
    using decide_further [OF frame] d unfolding eval by simp
qed

section \<open>Replaying until it is decided\<close>

record approval_step =
  as_pending :: string
  as_agent :: string
  as_expires :: string
  as_reason :: string
  as_uuid :: string
  as_time :: string

text \<open>Every time the request needs an approval, the next pending operation is approved and the request replayed.\<close>

fun approve_all :: "(string \<Rightarrow> int option) \<Rightarrow> int \<Rightarrow> tag_port \<Rightarrow> gov_input \<Rightarrow> gov_db \<Rightarrow> approval_step list \<Rightarrow> gov_db" where
  "approve_all parse now tp g db [] = db"
| "approve_all parse now tp g db (x # xs) =
     (case gx_required (evaluate_governance parse now tp db g) of
        None \<Rightarrow> db
      | Some ra \<Rightarrow>
          approve_all parse now tp g
            (snd (upsert_approval (as_uuid x) (as_time x) (pending_input (as_pending x) (as_agent x) (as_expires x) (as_reason x) ra) db)) xs)"

definition usable_steps :: "(string \<Rightarrow> int option) \<Rightarrow> int \<Rightarrow> gov_db \<Rightarrow> approval_step list \<Rightarrow> bool" where
  "usable_steps parse now db xs \<longleftrightarrow>
     distinct (map as_pending xs) \<and>
     list_all (\<lambda>x. pending_id (as_pending x) \<and> ''pending-'' @ as_pending x \<notin> ap_id ` set (gd_approvals db) \<and> \<not> past parse now (trim (as_expires x))) xs"

lemma evaluation_effect:
  "gx_effect (evaluate_governance parse now tp db g) \<in> {''allow'', ''deny''} \<and> gx_required (evaluate_governance parse now tp db g) = None \<or>
   gx_effect (evaluate_governance parse now tp db g) = ''needsApproval'' \<and> gx_required (evaluate_governance parse now tp db g) \<noteq> None \<and>
   gx_layer (evaluate_governance parse now tp db g) \<in> layers"
  by (simp add: evaluate_governance_def decide_view_def needs_approval_of_def plain_decision_def Let_def layer_cases)

lemma layer_rank_range: "l \<in> layers \<Longrightarrow> 1 \<le> layer_rank l \<and> layer_rank l \<le> 4"
  unfolding layer_cases by (elim disjE) simp_all

lemma approve_all_settles:
  assumes "usable_steps parse now db xs"
    and "gx_effect (evaluate_governance parse now tp db g) = ''needsApproval'' \<Longrightarrow> 4 < layer_rank (gx_layer (evaluate_governance parse now tp db g)) + length xs"
  shows "gx_effect (evaluate_governance parse now tp (approve_all parse now tp g db xs) g) \<in> {''allow'', ''deny''}"
  using assms
proof (induction xs arbitrary: db)
  case Nil
  then show ?case using evaluation_effect [of parse now tp db g] layer_rank_range by fastforce
next
  case (Cons x xs)
  let ?d = "evaluate_governance parse now tp db g"
  show ?case
  proof (cases "gx_effect ?d = ''needsApproval''")
    case True
    then obtain ra where ra: "gx_required ?d = Some ra" using evaluation_effect [of parse now tp db g] by auto
    let ?db = "snd (upsert_approval (as_uuid x) (as_time x) (pending_input (as_pending x) (as_agent x) (as_expires x) (as_reason x) ra) db)"
    have x: "pending_id (as_pending x)" "''pending-'' @ as_pending x \<notin> ap_id ` set (gd_approvals db)" "\<not> past parse now (trim (as_expires x))"
      using Cons.prems(1) by (simp_all add: usable_steps_def)
    note a = approval_advances [OF True ra x, of "as_uuid x" "as_time x" "as_agent x" "as_reason x"]
    have "usable_steps parse now ?db xs"
      unfolding usable_steps_def a(2) using Cons.prems(1) by (auto simp: usable_steps_def list_all_iff) (metis imageI)
    then have "gx_effect (evaluate_governance parse now tp (approve_all parse now tp g ?db xs) g) \<in> {''allow'', ''deny''}"
      by (rule Cons.IH) (use a(1) Cons.prems(2) [OF True] in simp)
    then show ?thesis by (simp add: ra)
  next
    case False
    then show ?thesis using evaluation_effect [of parse now tp db g] by auto
  qed
qed


section \<open>Standing\<close>

definition rule_allows :: "gov_request \<Rightarrow> jv \<Rightarrow> bool" where
  "rule_allows q e \<longleftrightarrow> gp_actions (normalize_policy e) \<noteq> [] \<and> policy_matches (normalize_policy e) q"

lemma policies_match_iff: "policies_match ps q \<longleftrightarrow> (\<exists>e\<in>set ps. rule_allows q e)"
  by (auto simp: policies_match_def normalize_policy_list_def Let_def list_ex_iff rule_allows_def)

text \<open>A unit speaks for the request if it is enabled and a rule of its own or of an enabled role of it allows the request.\<close>

definition unit_allows :: "tag_port \<Rightarrow> gov_request \<Rightarrow> gov_unit \<Rightarrow> bool" where
  "unit_allows tp q u \<longleftrightarrow> un_enabled u \<and> (\<exists>e\<in>set (unit_policies tp u). rule_allows q e)"

definition user_allows :: "tag_port \<Rightarrow> gov_request \<Rightarrow> user_policy \<Rightarrow> bool" where
  "user_allows tp q p \<longleftrightarrow>
     up_enabled p \<and> (\<exists>e\<in>set (map policy_value (up_policies p)) \<union> set (active_role_policies (tp_role tp) (up_roles p)). rule_allows q e)"

definition approved_for :: "platform \<Rightarrow> gov_db \<Rightarrow> gov_view \<Rightarrow> string \<Rightarrow> bool" where
  "approved_for pf db v l \<longleftrightarrow>
     (\<exists>a\<in>set (gd_approvals db). counts (pf_date pf) (pf_now pf) (vw_request v) (vw_user v) (gq_agent (vw_request v)) l a)"

lemma units_allow: "policies_match (concat (map (unit_policies tp) (enabled_units get ids))) q \<longleftrightarrow>
    (\<exists>i\<in>set ids. \<exists>u. get i = Some u \<and> unit_allows tp q u)"
proof -
  have "set (enabled_units get ids) = {u. \<exists>i\<in>set ids. get i = Some u \<and> un_enabled u}" by (force simp: enabled_units_def image_iff)
  then show ?thesis by (auto simp: policies_match_iff unit_allows_def)
qed

lemma view_standing:
  assumes v: "v = governance_view (pf_date pf) (pf_now pf) tp db g"
  shows "vw_department_allowed v \<longleftrightarrow> gq_departments (vw_request v) = [] \<or>
      (\<exists>i\<in>set (gq_departments (vw_request v)). \<exists>u. tp_department tp i = Some u \<and> unit_allows tp (vw_request v) u) \<or> approved_for pf db v ''department''"
    and "vw_team_allowed v \<longleftrightarrow> gq_teams (vw_request v) = [] \<or>
      (\<exists>i\<in>set (gq_teams (vw_request v)). \<exists>u. tp_team tp i = Some u \<and> unit_allows tp (vw_request v) u) \<or> approved_for pf db v ''team''"
    and "vw_user_allowed v \<longleftrightarrow>
      (vw_user v \<noteq> [] \<and> (\<exists>p. get_user_policy db (JStr (vw_user v)) = Some p \<and> user_allows tp (vw_request v) p)) \<or> approved_for pf db v ''user''"
    and "vw_agent_bound v \<longleftrightarrow> direct_user (vw_request v) (gi_subject g) \<or>
      (gq_agent (vw_request v) \<noteq> [] \<and> (\<exists>b. tp_binding tp (gq_agent (vw_request v)) = Some b \<and> gb_enabled b \<and> (vw_user v = [] \<or> gb_user b \<in> {[], vw_user v})))"
proof -
  show "vw_department_allowed v \<longleftrightarrow> gq_departments (vw_request v) = [] \<or>
      (\<exists>i\<in>set (gq_departments (vw_request v)). \<exists>u. tp_department tp i = Some u \<and> unit_allows tp (vw_request v) u) \<or> approved_for pf db v ''department''"
    unfolding v governance_view_def Let_def approved_for_def gov_view.simps gov_request.simps units_allow layer_approved_iff by simp
  show "vw_team_allowed v \<longleftrightarrow> gq_teams (vw_request v) = [] \<or>
      (\<exists>i\<in>set (gq_teams (vw_request v)). \<exists>u. tp_team tp i = Some u \<and> unit_allows tp (vw_request v) u) \<or> approved_for pf db v ''team''"
    unfolding v governance_view_def Let_def approved_for_def gov_view.simps gov_request.simps units_allow layer_approved_iff by simp
  show "vw_user_allowed v \<longleftrightarrow>
      (vw_user v \<noteq> [] \<and> (\<exists>p. get_user_policy db (JStr (vw_user v)) = Some p \<and> user_allows tp (vw_request v) p)) \<or> approved_for pf db v ''user''"
    unfolding v governance_view_def Let_def approved_for_def gov_view.simps gov_request.simps layer_approved_iff policies_match_iff user_allows_def
    by (auto simp: active_user_policy_def split: option.splits if_splits)
  show "vw_agent_bound v \<longleftrightarrow> direct_user (vw_request v) (gi_subject g) \<or>
      (gq_agent (vw_request v) \<noteq> [] \<and> (\<exists>b. tp_binding tp (gq_agent (vw_request v)) = Some b \<and> gb_enabled b \<and> (vw_user v = [] \<or> gb_user b \<in> {[], vw_user v})))"
    unfolding v governance_view_def Let_def gov_view.simps gov_request.simps direct_user_def by (auto split: option.splits)
qed

text \<open>The engine allows a governed request only if governance does.\<close>

lemma first_gate_settled:
  "e = ''deny'' \<or> e = ''needsApproval'' \<Longrightarrow>
   fst (first_gate ((truthy (JBool True) \<and> JStr e = JStr ''deny'', ''deny'', x) # (truthy (JBool True) \<and> JStr e = JStr ''needsApproval'', ''needsApproval'', y) # rest))
     \<in> {''deny'', ''needsApproval''}"
  by (auto simp: first_gate_def or_else_def)

lemma governed_allow:
  assumes "ad_allowed (evaluate_policy pf c (decision_value d) facts i)" and "gx_applicable d"
    and "gx_effect d \<in> {''allow'', ''deny'', ''needsApproval''}"
  shows "gx_effect d = ''allow''"
proof (rule ccontr)
  assume "gx_effect d \<noteq> ''allow''"
  then have "gx_effect d = ''deny'' \<or> gx_effect d = ''needsApproval''" using assms(3) by auto
  moreover have "\<exists>x y rest. gates pf c (decision_value d) facts i s =
      (truthy (prop_of (decision_value d) ''applicable'') \<and> prop_of (decision_value d) ''effect'' = JStr ''deny'', ''deny'', x) #
      (truthy (prop_of (decision_value d) ''applicable'') \<and> prop_of (decision_value d) ''effect'' = JStr ''needsApproval'', ''needsApproval'', y) # rest" for s
    unfolding gates_def Let_def by blast
  moreover have "prop_of (decision_value d) ''applicable'' = JBool True" "prop_of (decision_value d) ''effect'' = JStr (gx_effect d)"
    using assms(2) by (simp_all add: decision_value_def prop_of_def jget_def)
  ultimately have "fst (first_gate (gates pf c (decision_value d) facts i s)) \<in> {''deny'', ''needsApproval''}" for s
    by (metis first_gate_settled)
  then have "ad_effect (evaluate_policy pf c (decision_value d) facts i) \<in> {''deny'', ''needsApproval''}"
    unfolding evaluate_effect .
  then show False using assms(1) by (auto simp: ad_allowed_def)
qed


lemma approved_meaning:
  assumes "approved_for pf db v l"
  shows "\<exists>a\<in>set (gd_approvals db). (vw_user v \<noteq> [] \<longrightarrow> ap_user a = vw_user v) \<and> (gq_agent (vw_request v) \<noteq> [] \<longrightarrow> ap_agent a = gq_agent (vw_request v)) \<and>
    ap_revoked a = [] \<and> \<not> past (pf_date pf) (pf_now pf) (ap_expires a) \<and> ap_effect a \<noteq> ''deny''"
  using assms by (auto simp: approved_for_def counts_def str_or_def)

section \<open>What governance trusts, and what it cannot see\<close>

text \<open>The user a request is judged as is the one its own input names, whoever sends it.\<close>

lemma input_names_the_user:
  assumes "authz_text (prop_of (gi_input g) ''boundUserId'') \<noteq> []"
  shows "vw_user (governance_view parse now tp db g) = authz_text (prop_of (gi_input g) ''boundUserId'')"
proof -
  have "gq_user (infer_request g) = authz_text (prop_of (gi_input g) ''boundUserId'')"
    using assms unfolding infer_request_def Let_def gov_request.simps by (simp add: first_string_Cons)
  then show ?thesis using assms unfolding governance_view_def Let_def gov_view.simps by (simp add: first_string_Cons)
qed

text \<open>An approval recorded as a denial is listed and never looked at.\<close>

lemma denial_is_inert:
  assumes "gd_approvals db' = filter (\<lambda>a. ap_effect a \<noteq> ''deny'') (gd_approvals db)"
  shows "layer_approved parse now db' q user agent l = layer_approved parse now db q user agent l"
proof -
  have "counts parse now q user agent l a \<Longrightarrow> ap_effect a \<noteq> ''deny''" for a by (auto simp: counts_def str_or_def split: if_splits)
  then show ?thesis unfolding layer_approved_iff assms by auto
qed

text \<open>An approval for any agent is active for an agent's request, yet the query by agent does not find it.\<close>

lemma open_approval_not_found: "agent \<noteq> [] \<Longrightarrow> ap_agent a = [] \<Longrightarrow> \<not> counts parse now q user agent l a"
  by (simp add: counts_def)

section \<open>A team\<close>

definition demo_port :: tag_port where
  "demo_port =
     \<lparr>tp_role = (\<lambda>r. if r = ''viewer'' then Some \<lparr>gr_enabled = True, gr_policies = [JObj [(''resourceType'', JStr ''repo''), (''actions'', strs [''repo:read''])]]\<rparr> else None),
      tp_team = (\<lambda>t. if t = ''t1'' then Some \<lparr>un_id = ''t1'', un_enabled = True, un_policies = [], un_roles = [], un_members = [''bob''], un_links = []\<rparr> else None),
      tp_department = (\<lambda>_. None), tp_group = (\<lambda>_. None),
      tp_binding = (\<lambda>a. if a = ''a1'' then Some \<lparr>gb_enabled = True, gb_user = ''bob'', gb_groups = [], gb_policies = []\<rparr> else None),
      tp_teams = [], tp_departments = [], tp_groups = [], tp_bindings = []\<rparr>"

definition demo_db :: gov_db where
  "demo_db = snd (upsert_user_policy ''1'' ''2026'' (JObj [(''userId'', JStr ''bob''), (''roleIds'', strs [''viewer''])]) empty_db)"

definition demo_gov :: "string \<Rightarrow> (string \<times> jv) list \<Rightarrow> gov_input" where
  "demo_gov operation input =
     \<lparr>gi_operation = JObj [(''id'', JStr operation)], gi_tool = JUndef, gi_input = JObj ((''resourceType'', JStr ''repo'') # input), gi_context = JObj [],
      gi_subject = JObj [(''type'', JStr ''console-user''), (''subjectId'', JStr ''alice'')], gi_grant = JUndef, gi_required = True\<rparr>"

text \<open>Alice has no policy; with the name of Bob in the input she is judged, and allowed, as Bob.\<close>

lemma judged_as_another:
  "gx_effect (evaluate_governance (\<lambda>_. None) 0 demo_port demo_db (demo_gov ''repo.show'' [])) = ''needsApproval''"
  "gx_effect (evaluate_governance (\<lambda>_. None) 0 demo_port demo_db (demo_gov ''repo.show'' [(''boundUserId'', JStr ''bob'')])) = ''allow''"
  by code_simp+

definition demo_step :: "string \<Rightarrow> approval_step" where
  "demo_step p = \<lparr>as_pending = p, as_agent = [], as_expires = [], as_reason = [], as_uuid = ''u'', as_time = ''2026''\<rparr>"


definition demo_governed :: authz_input where
  "demo_governed = (demo_request JUndef)\<lparr>ai_session := JObj [(''user'', JObj [(''userId'', JStr ''bob'')])], ai_input := JObj [(''resourceType'', JStr ''repo'')]\<rparr>"


end
