(* ===== verification/GovernanceRevocation.thy ===== *)
theory GovernanceRevocation imports GovernanceSafety begin

text \<open>
  Approvals that were revoked stay revoked, whatever the store is asked to do next, as long as its
  callers name a record by the id it is kept under.
\<close>

section \<open>Record ids\<close>

definition id_ok :: "string \<Rightarrow> bool" where
  "id_ok i \<longleftrightarrow> i \<noteq> [] \<and> list_all id_char i \<and> length i \<le> 160"

definition uuid_ok :: "string \<Rightarrow> bool" where
  "uuid_ok u \<longleftrightarrow> list_all id_char u \<and> length u \<le> 100"

definition ids_ok :: "gov_db \<Rightarrow> bool" where
  "ids_ok db \<longleftrightarrow> (\<forall>r\<in>set (gd_approvals db). id_ok (ap_id r))"

lemma dash_runs_chars: "list_all id_char (dash_runs b s)"
proof (induction b s rule: dash_runs.induct)
  case (2 dashed c cs)
  then show ?case by (auto simp: id_char_def)
qed simp

lemma dash_runs_nonempty: "s \<noteq> [] \<Longrightarrow> dash_runs False s \<noteq> []"
  by (cases s) auto

lemma list_all_take: "list_all P s \<Longrightarrow> list_all P (take n s)"
  by (auto simp: list_all_iff dest: in_set_takeD)

lemma normalize_id_ok: "uuid_ok uuid \<Longrightarrow> id_ok (normalize_id uuid v ''approval'')"
proof (cases "authz_text v = []")
  case True
  assume u: "uuid_ok uuid"
  have "list_all id_char ''approval_''" by code_simp
  then have "list_all id_char (''approval_'' @ uuid)" using u by (simp add: uuid_ok_def)
  then show ?thesis using True u by (simp add: id_ok_def normalize_id_def uuid_ok_def)
next
  case False
  then show ?thesis using dash_runs_nonempty [OF False] dash_runs_chars list_all_take [OF dash_runs_chars] by (simp add: id_ok_def normalize_id_def)
qed

lemma id_trim: "list_all id_char i \<Longrightarrow> trim i = i"
  using id_not_space by (auto simp: trim_def list_all_iff dropWhile_id)

lemma normalize_id_again: "id_ok i \<Longrightarrow> normalize_id uuid (JStr i) prefix = i"
  using id_trim [of i] dash_runs_id [of i] by (simp add: normalize_id_def id_ok_def)

section \<open>Rows\<close>

definition raw_id :: "jv \<Rightarrow> string" where
  "raw_id input = js_string (js_or (js_or (prop_of input ''approvalId'') (prop_of input ''id'')) (JStr []))"

lemma normalize_id_falsy: "\<not> truthy v \<Longrightarrow> normalize_id uuid v prefix = prefix @ ''_'' @ uuid"
  by (simp add: normalize_id_def authz_text_def js_or_def)

lemma approval_revoked: "ap_revoked (normalize_approval uuid timestamp input f) = text_of [prop_of input ''revokedAt'', prop_of f ''revokedAt'']"
  by (simp add: normalize_approval_def Let_def)

lemma approval_id:
  assumes "truthy (js_or (prop_of input ''approvalId'') (prop_of input ''id'')) \<or> f = JObj []"
  shows "ap_id (normalize_approval uuid timestamp input f) = normalize_id uuid (js_or (prop_of input ''approvalId'') (prop_of input ''id'')) ''approval''"
proof -
  let ?a = "prop_of input ''approvalId''" and ?i = "prop_of input ''id''"
  have e: "ap_id (normalize_approval uuid timestamp input f) = normalize_id uuid (js_or ?a (js_or ?i (prop_of f ''approvalId''))) ''approval''"
    by (simp add: normalize_approval_def Let_def either_of_def)
  show ?thesis
  proof (cases "truthy (js_or ?a ?i)")
    case True
    then have "js_or ?a (js_or ?i (prop_of f ''approvalId'')) = js_or ?a ?i" by (auto simp: js_or_def split: if_splits)
    then show ?thesis using e by simp
  next
    case False
    then have "\<not> truthy (js_or ?a (js_or ?i (prop_of f ''approvalId'')))"
      using assms by (auto simp: js_or_def prop_of_def jget_def split: if_splits)
    then show ?thesis using e False normalize_id_falsy by simp
  qed
qed

lemma from_row_keeps: "ap_id (approval_from_row r) = ap_id r" "ap_revoked (approval_from_row r) = ap_revoked r" "ap_reason (approval_from_row r) = ap_reason r"
  by (simp_all add: approval_from_row_def)

lemma get_approval_Some:
  assumes "get_approval db v = Some e"
  shows "\<exists>r\<in>set (gd_approvals db). e = approval_from_row r \<and> ap_id r = js_string (js_or v (JStr []))"
proof -
  obtain r where "find (\<lambda>r. ap_id r = js_string (js_or v (JStr []))) (gd_approvals db) = Some r" "e = approval_from_row r"
    using assms by (auto simp: get_approval_def)
  then show ?thesis by (auto simp: find_Some_iff)
qed

lemma list_ex_image: "list_ex (\<lambda>r. f r = x) rs \<longleftrightarrow> x \<in> f ` set rs"
  by (auto simp: list_ex_iff)

lemma upsert_rows:
  "gd_approvals (snd (upsert_approval uuid timestamp input db)) =
     (let a = fst (upsert_approval uuid timestamp input db) in
      if ap_id a \<in> ap_id ` set (gd_approvals db)
      then map (\<lambda>r. if ap_id r = ap_id a then a\<lparr>ap_created := ap_created r\<rparr> else r) (gd_approvals db) else gd_approvals db @ [a])"
  by (simp add: upsert_approval_def append_event_def Let_def list_ex_image)

lemma upsert_row_ids:
  "ap_id ` set (gd_approvals (snd (upsert_approval uuid timestamp input db))) =
     insert (ap_id (fst (upsert_approval uuid timestamp input db))) (ap_id ` set (gd_approvals db))"
proof -
  have "ap_id ` set (map (\<lambda>r. if ap_id r = ap_id a then a\<lparr>ap_created := ap_created r\<rparr> else r) rs) = ap_id ` set rs" for a :: approval and rs
    by (induction rs) auto
  then show ?thesis unfolding upsert_rows Let_def by auto
qed

lemma upsert_row_cases:
  assumes "r \<in> set (gd_approvals (snd (upsert_approval uuid timestamp input db)))" and "a = fst (upsert_approval uuid timestamp input db)"
  shows "r \<in> set (gd_approvals db) \<and> ap_id r \<noteq> ap_id a \<or> ap_id r = ap_id a \<and> ap_revoked r = ap_revoked a"
  using assms(1) unfolding upsert_rows Let_def assms(2) [symmetric] by (auto split: if_splits) (metis imageI)

lemma upsert_normalizes: "\<exists>f. fst (upsert_approval uuid timestamp input db) = normalize_approval uuid timestamp input f"
  by (auto simp: upsert_approval_def Let_def)

lemma upsert_id:
  assumes "ids_ok db"
  shows "ap_id (fst (upsert_approval uuid timestamp input db)) = normalize_id uuid (js_or (prop_of input ''approvalId'') (prop_of input ''id'')) ''approval''"
proof -
  let ?v = "js_or (prop_of input ''approvalId'') (prop_of input ''id'')"
  have "truthy ?v \<or> get_approval db ?v = None"
  proof (rule disjCI)
    assume n: "get_approval db ?v \<noteq> None"
    then obtain e where "get_approval db ?v = Some e" by auto
    from get_approval_Some [OF this] obtain r where "r \<in> set (gd_approvals db)" "ap_id r = js_string (js_or ?v (JStr []))" by auto
    then have "js_string (js_or ?v (JStr [])) \<noteq> []" using assms by (auto simp: ids_ok_def id_ok_def)
    then show "truthy ?v" by (auto simp: js_or_def split: if_splits)
  qed
  then show ?thesis by (auto simp: upsert_approval_def Let_def intro!: approval_id)
qed

lemma upsert_ids_ok: "ids_ok db \<Longrightarrow> uuid_ok uuid \<Longrightarrow> ids_ok (snd (upsert_approval uuid timestamp input db))"
proof -
  assume "ids_ok db" "uuid_ok uuid"
  then have "\<forall>i\<in>ap_id ` set (gd_approvals (snd (upsert_approval uuid timestamp input db))). id_ok i"
    unfolding upsert_row_ids upsert_id [OF \<open>ids_ok db\<close>] using normalize_id_ok by (auto simp: ids_ok_def)
  then show ?thesis by (simp add: ids_ok_def)
qed

section \<open>Revocation\<close>

definition revoked :: "gov_db \<Rightarrow> string \<Rightarrow> bool" where
  "revoked db i \<longleftrightarrow> i \<in> ap_id ` set (gd_approvals db) \<and> (\<forall>r\<in>set (gd_approvals db). ap_id r = i \<longrightarrow> trim (ap_revoked r) \<noteq> [])"

lemma revoked_upsert:
  assumes "a = fst (upsert_approval uuid timestamp input db)" and "revoked db i \<or> ap_id a = i" and "ap_id a = i \<Longrightarrow> trim (ap_revoked a) \<noteq> []"
  shows "revoked (snd (upsert_approval uuid timestamp input db)) i"
  unfolding revoked_def
proof
  show "i \<in> ap_id ` set (gd_approvals (snd (upsert_approval uuid timestamp input db)))"
    unfolding upsert_row_ids using assms(1,2) by (auto simp: revoked_def)
  show "\<forall>r\<in>set (gd_approvals (snd (upsert_approval uuid timestamp input db))). ap_id r = i \<longrightarrow> trim (ap_revoked r) \<noteq> []"
  proof (intro ballI impI)
    fix r
    assume r: "r \<in> set (gd_approvals (snd (upsert_approval uuid timestamp input db)))" "ap_id r = i"
    from upsert_row_cases [OF r(1) assms(1)] show "trim (ap_revoked r) \<noteq> []"
    proof
      assume "r \<in> set (gd_approvals db) \<and> ap_id r \<noteq> ap_id a"
      then show ?thesis using r(2) assms(2) by (auto simp: revoked_def)
    next
      assume "ap_id r = ap_id a \<and> ap_revoked r = ap_revoked a"
      then show ?thesis using r(2) assms(3) by simp
    qed
  qed
qed

text \<open>
  The caller names an existing record by its own id, and gives no time of revocation that is blank
  but not empty.
\<close>

definition names_its_record :: "string \<Rightarrow> jv \<Rightarrow> gov_db \<Rightarrow> bool" where
  "names_its_record uuid input db \<longleftrightarrow>
     (let i = normalize_id uuid (js_or (prop_of input ''approvalId'') (prop_of input ''id'')) ''approval''
      in i \<in> ap_id ` set (gd_approvals db) \<longrightarrow> raw_id input = i) \<and>
     (truthy (prop_of input ''revokedAt'') \<longrightarrow> authz_text (prop_of input ''revokedAt'') \<noteq> [])"

lemma upsert_keeps_revoked:
  assumes "ids_ok db" and "revoked db i" and "names_its_record uuid input db"
  shows "revoked (snd (upsert_approval uuid timestamp input db)) i"
proof -
  let ?a = "fst (upsert_approval uuid timestamp input db)" and ?v = "js_or (prop_of input ''approvalId'') (prop_of input ''id'')"
  have "trim (ap_revoked ?a) \<noteq> []" if "ap_id ?a = i"
  proof -
    have i: "i \<in> ap_id ` set (gd_approvals db)" using assms(2) by (simp add: revoked_def)
    then have raw: "js_string (js_or ?v (JStr [])) = i" using assms(3) that upsert_id [OF assms(1)] by (simp add: names_its_record_def raw_id_def Let_def)
    then have "get_approval db ?v \<noteq> None" using i by (auto simp: get_approval_def find_None_iff image_iff)
    then obtain e where e: "get_approval db ?v = Some e" by auto
    then have rev: "trim (ap_revoked e) \<noteq> []" using get_approval_Some [OF e] raw assms(2) from_row_keeps by (auto simp: revoked_def)
    then have "ap_revoked e \<noteq> []" by auto
    have "prop_of (approval_value e) ''revokedAt'' = JStr (ap_revoked e)" by (simp add: approval_value_def prop_of_def jget_def)
    then have "ap_revoked ?a = text_of [prop_of input ''revokedAt'', JStr (ap_revoked e)]"
      by (simp add: upsert_approval_def e Let_def approval_revoked)
    then show ?thesis using rev \<open>ap_revoked e \<noteq> []\<close> assms(3)
      by (cases "truthy (prop_of input ''revokedAt'')") (auto simp: text_of_def either_of_def js_or_def names_its_record_def authz_text_def)
  qed
  then show ?thesis using assms(2) by (intro revoked_upsert [OF refl]) auto
qed

text \<open>The record \<open>revokeApproval\<close> writes.\<close>

definition revoking_input :: "string \<Rightarrow> jv \<Rightarrow> approval \<Rightarrow> jv" where
  "revoking_input timestamp reason a =
     JObj (spread (as_record (approval_value a)) [(''revokedAt'', JStr timestamp), (''reason'', JStr (js_string (js_or reason (JStr (ap_reason a)))))])"

lemma revoking_props: "prop_of (revoking_input t reason a) ''approvalId'' = JStr (ap_id a)" "prop_of (revoking_input t reason a) ''revokedAt'' = JStr t"
  by (simp_all add: revoking_input_def approval_value_def spread_def prop_of_def jget_def)

lemma revoke_as_upsert:
  "revoke_approval uuid timestamp v reason db =
     (case get_approval db v of None \<Rightarrow> (None, db)
      | Some a \<Rightarrow> (Some (fst (upsert_approval uuid timestamp (revoking_input timestamp reason a) db)),
          append_event ''approval'' (ap_id a) ''revoked'' timestamp (snd (upsert_approval uuid timestamp (revoking_input timestamp reason a) db))))"
  by (simp add: revoke_approval_def revoking_input_def Let_def case_prod_unfold split: option.splits)

lemma event_rows [simp]: "gd_approvals (append_event e i k t db) = gd_approvals db" "ids_ok (append_event e i k t db) = ids_ok db"
    "revoked (append_event e i k t db) j = revoked db j"
  by (simp_all add: append_event_def ids_ok_def revoked_def)

lemma revoke_facts:
  fixes reason :: jv and uuid :: string
  assumes "ids_ok db" and "get_approval db v = Some a" and "trim timestamp \<noteq> []"
  defines "input \<equiv> revoking_input timestamp reason a"
  shows "names_its_record uuid input db" "ap_id (fst (upsert_approval uuid timestamp input db)) = ap_id a"
    "revoked (snd (upsert_approval uuid timestamp input db)) (ap_id a)"
proof -
  have a: "ap_id a \<in> ap_id ` set (gd_approvals db)" "id_ok (ap_id a)"
    using get_approval_Some [OF assms(2)] assms(1) from_row_keeps by (auto simp: ids_ok_def)
  then have n: "js_or (prop_of input ''approvalId'') (prop_of input ''id'') = JStr (ap_id a)" "normalize_id uuid (JStr (ap_id a)) ''approval'' = ap_id a"
    by (simp_all add: input_def revoking_props id_ok_def normalize_id_again [unfolded id_ok_def])
  then show "names_its_record uuid input db"
    using a(2) assms(3) by (simp add: names_its_record_def raw_id_def id_ok_def) (simp add: input_def revoking_props)
  show i: "ap_id (fst (upsert_approval uuid timestamp input db)) = ap_id a" using upsert_id [OF assms(1)] n by simp
  obtain f where "fst (upsert_approval uuid timestamp input db) = normalize_approval uuid timestamp input f" using upsert_normalizes by blast
  moreover have "timestamp \<noteq> []" using assms(3) by auto
  ultimately have "ap_revoked (fst (upsert_approval uuid timestamp input db)) = trim timestamp"
    by (simp add: approval_revoked text_of_def either_of_def input_def revoking_props)
  then show "revoked (snd (upsert_approval uuid timestamp input db)) (ap_id a)"
    using i assms(3) by (intro revoked_upsert [OF refl]) auto
qed

lemma user_policy_rows: "gd_approvals (snd (upsert_user_policy uuid timestamp input db)) = gd_approvals db"
  by (simp add: upsert_user_policy_def append_event_def Let_def)

inductive gov_step :: "gov_db \<Rightarrow> gov_db \<Rightarrow> bool" where
  gov_user: "gov_step db (snd (upsert_user_policy uuid timestamp input db))"
| gov_upsert: "uuid_ok uuid \<Longrightarrow> names_its_record uuid input db \<Longrightarrow> gov_step db (snd (upsert_approval uuid timestamp input db))"
| gov_revoke: "uuid_ok uuid \<Longrightarrow> trim timestamp \<noteq> [] \<Longrightarrow> gov_step db (snd (revoke_approval uuid timestamp v reason db))"

inductive_cases gov_step_cases: "gov_step db db'"

lemma gov_step_keeps: "gov_step db db' \<Longrightarrow> ids_ok db \<Longrightarrow> ids_ok db' \<and> (\<forall>i. revoked db i \<longrightarrow> revoked db' i)"
proof (induction rule: gov_step.induct)
  case (gov_user db uuid timestamp input)
  then show ?case using user_policy_rows by (simp add: ids_ok_def revoked_def)
next
  case (gov_upsert uuid input db timestamp)
  then show ?case using upsert_ids_ok upsert_keeps_revoked by blast
next
  case (gov_revoke uuid timestamp db v reason)
  then show ?case
    using upsert_ids_ok upsert_keeps_revoked revoke_facts(1)
    by (cases "get_approval db v") (auto simp: revoke_as_upsert)
qed


section \<open>An approval\<close>

definition demo_approved :: gov_db where
  "demo_approved = snd (upsert_approval ''u'' ''2026'' (JObj [(''approvalId'', JStr ''a-1''), (''userId'', JStr ''bob''), (''actions'', strs [''*''])]) empty_db)"

definition demo_revoked :: gov_db where
  "demo_revoked = snd (revoke_approval ''u'' ''2026'' (JStr ''a-1'') JUndef demo_approved)"


text \<open>Under another spelling that is normalised to the same id, the record is not found, and replaced by one that is not revoked.\<close>

lemma other_spelling_revives:
  "map ap_revoked (gd_approvals demo_revoked) = [''2026'']"
  "map ap_revoked (gd_approvals (snd (upsert_approval ''u'' ''2027'' (JObj [(''approvalId'', JStr ''a 1''), (''effect'', JStr ''allow'')]) demo_revoked))) = [[]]"
  by code_simp+

end
