(* ===== verification/RedactionTrie.thy ===== *)
theory RedactionTrie imports CanonicalJson begin

text \<open>
  Redaction of audit, trace and proof records by path,
  \<open>packages/foundation/src/security/redaction/redaction-trie.ts\<close>. Values are plain data, so there is no
  buffer among them; a question mark in a path pattern, the one operator of regular expressions that
  the code leaves as it is, does not occur. SHA-256 is an argument; the time of a record is left out.
\<close>

section \<open>Paths\<close>

text \<open>A star stands for one or more characters other than a dot.\<close>

fun glob :: "string \<Rightarrow> string \<Rightarrow> bool" where
  "glob [] s = (s = [])"
| "glob (c # p) [] = False"
| "glob (c # p) (d # s) =
     (if c = CHR ''*'' then d \<noteq> CHR ''.'' \<and> (glob p s \<or> glob (c # p) s) else c = d \<and> glob p s)"

record wildcard =
  wc_pattern :: string
  wc_secret :: bool

record trie_options =
  to_redact :: "string list option"
  to_secret :: "string list option"
  to_max_string :: "int option"
  to_max_array :: "int option"
  to_max_object :: "int option"
  to_annotated :: "string list option"

record redaction_trie =
  rt_wildcards :: "wildcard list"
  rt_max_array :: int
  rt_max_object :: int
  rt_max_string :: int
  rt_redact :: "string list"
  rt_annotated :: "string list"
  rt_secret :: "string list"

definition new_trie :: "trie_options \<Rightarrow> redaction_trie" where
  "new_trie o' =
     (let redact = dedup (or_else [] (to_redact o')); secret = dedup (or_else [] (to_secret o')); starred = filter (\<lambda>p. CHR ''*'' \<in> set p)
      in \<lparr>rt_wildcards = map (\<lambda>p. \<lparr>wc_pattern = p, wc_secret = False\<rparr>) (starred redact) @ map (\<lambda>p. \<lparr>wc_pattern = p, wc_secret = True\<rparr>) (starred secret),
          rt_max_array = or_else 50 (to_max_array o'), rt_max_object = or_else 50 (to_max_object o'), rt_max_string = or_else 256 (to_max_string o'),
          rt_redact = redact, rt_annotated = dedup (or_else [] (to_annotated o')), rt_secret = secret\<rparr>)"

definition should_redact :: "redaction_trie \<Rightarrow> string \<Rightarrow> bool" where
  "should_redact T path \<longleftrightarrow>
     path \<in> set (rt_redact T) \<or> path \<in> set (rt_secret T) \<or> path \<in> set (rt_annotated T) \<or> list_ex (\<lambda>w. glob (wc_pattern w) path) (rt_wildcards T)"

definition is_secret :: "redaction_trie \<Rightarrow> string \<Rightarrow> bool" where
  "is_secret T path \<longleftrightarrow> path \<in> set (rt_secret T) \<or> list_ex (\<lambda>w. wc_secret w \<and> glob (wc_pattern w) path) (rt_wildcards T)"

section \<open>Secrets in plain sight\<close>

definition alnum :: "char \<Rightarrow> bool" where
  "alnum c \<longleftrightarrow> (let n = of_char c :: nat in 48 \<le> n \<and> n \<le> 57 \<or> 65 \<le> n \<and> n \<le> 90 \<or> 97 \<le> n \<and> n \<le> 122)"

definition tail_of :: "string \<Rightarrow> (char \<Rightarrow> bool) \<Rightarrow> nat \<Rightarrow> string \<Rightarrow> bool" where
  "tail_of prefix ok n s \<longleftrightarrow> is_prefix prefix s \<and> list_all ok (drop (length prefix) s) \<and> n \<le> length (drop (length prefix) s)"

text \<open>Three runs of at least ten characters between two dots.\<close>

definition three_parts :: "string \<Rightarrow> bool" where
  "three_parts s \<longleftrightarrow>
     (let part = takeWhile (\<lambda>c. c \<noteq> CHR ''.''); rest = dropWhile (\<lambda>c. c \<noteq> CHR ''.''); r1 = rest s; r2 = rest (tl r1);
          ok = (\<lambda>t. 10 \<le> length t \<and> list_all (\<lambda>c. alnum c \<or> c = CHR ''_'' \<or> c = CHR ''-'') t)
      in r1 \<noteq> [] \<and> r2 \<noteq> [] \<and> ok (part s) \<and> ok (part (tl r1)) \<and> ok (tl r2))"

definition looks_like_secret :: "string \<Rightarrow> bool" where
  "looks_like_secret v \<longleftrightarrow>
     tail_of ''sk-'' alnum 20 v \<or> (is_prefix ''eyJ'' v \<and> three_parts (drop 3 v)) \<or> tail_of ''ghp_'' alnum 36 v \<or>
     list_ex (\<lambda>c. tail_of (''xox'' @ [c, CHR ''-'']) (\<lambda>d. alnum d \<or> d = CHR ''-'') 10 v) ''bprs'' \<or> tail_of ''pk.'' alnum 30 v"

definition secret_ref :: "(string \<Rightarrow> string) \<Rightarrow> jv \<Rightarrow> string" where
  "secret_ref sha v =
     ''secretRef:sha256:'' @ sha (canonical_text (JStr (case v of JStr s \<Rightarrow> s | _ \<Rightarrow> or_else ''undefined'' (json_text v))))"

section \<open>Redaction\<close>

text \<open>\<open>xs.slice(0, n)\<close>.\<close>

definition js_slice :: "int \<Rightarrow> 'a list \<Rightarrow> 'a list" where
  "js_slice n xs = (if 0 \<le> n then take (nat n) xs else take (length xs - nat (- n)) xs)"

definition redact_text :: "(string \<Rightarrow> string) \<Rightarrow> redaction_trie \<Rightarrow> string \<Rightarrow> string \<Rightarrow> string" where
  "redact_text sha T path s =
     (if looks_like_secret s \<and> \<not> is_secret T path then secret_ref sha (JStr s)
      else if int (length s) > rt_max_string T
      then js_slice (rt_max_string T) s @ ''...[truncated '' @ int_text (int (length s) - rt_max_string T) @ '' chars]'' else s)"

definition item_path :: "string \<Rightarrow> nat \<Rightarrow> string" where
  "item_path path i = path @ ''['' @ digits i @ '']''"

definition child_path :: "string \<Rightarrow> string \<Rightarrow> string" where
  "child_path path k = (if path \<noteq> [] then path @ CHR ''.'' # k else k)"

lemma slice_size: "(i, x) \<in> set (enumerate n (js_slice m xs)) \<Longrightarrow> size x < Suc (size_list size xs)"
proof -
  assume "(i, x) \<in> set (enumerate n (js_slice m xs))"
  then have "x \<in> snd ` set (enumerate n (js_slice m xs))" by force
  then have "x \<in> set (js_slice m xs)" unfolding set_map [symmetric] by simp
  then have "x \<in> set xs" by (auto simp: js_slice_def split: if_splits dest: in_set_takeD)
  then show ?thesis by (induction xs) auto
qed

lemma slice_pair_size:
  assumes "(k, x) \<in> set (js_slice m ps)"
  shows "size x < Suc (size_list (size_prod (\<lambda>_. 0) size) ps)"
proof -
  have "(k, x) \<in> set ps" using assms by (auto simp: js_slice_def split: if_splits dest: in_set_takeD)
  then show ?thesis by (induction ps) auto
qed

text \<open>Assigning to \<open>__proto__\<close> makes no property.\<close>

function redact :: "(string \<Rightarrow> string) \<Rightarrow> redaction_trie \<Rightarrow> jv \<Rightarrow> string \<Rightarrow> nat \<Rightarrow> jv" where
  "redact sha T v path depth =
     (if depth > 50 then JStr ''[max_depth_exceeded]''
      else case v of
        JUndef \<Rightarrow> v | JNull \<Rightarrow> v | JBool _ \<Rightarrow> v | JNum _ \<Rightarrow> v
      | JStr s \<Rightarrow>
          if should_redact T path then JStr (if is_secret T path then secret_ref sha v else ''[redacted]'') else JStr (redact_text sha T path s)
      | JArr xs \<Rightarrow>
          if should_redact T path then JStr (if is_secret T path then secret_ref sha v else ''[redacted]'')
          else JArr (map (\<lambda>(i, x). redact sha T x (item_path path i) (Suc depth)) (enumerate 0 (js_slice (rt_max_array T) xs)))
      | JObj ps \<Rightarrow>
          if should_redact T path then JStr (if is_secret T path then secret_ref sha v else ''[redacted]'')
          else JObj (filter (\<lambda>p. fst p \<noteq> ''__proto__'')
            (map (\<lambda>(k, x). (k, redact sha T x (child_path path k) (Suc depth))) (js_slice (rt_max_object T) ps))))"
  by pat_completeness auto
termination
  by (relation "measure (\<lambda>(sha, T, v, path, depth). size v)") (auto simp: slice_size slice_pair_size)

declare redact.simps [simp del]

section \<open>Audit records\<close>

record audit_record =
  au_input :: jv
  au_input_hash :: string
  au_redacted_hash :: string
  au_version :: string
  au_operation :: string

definition temporary_trie :: "redaction_trie \<Rightarrow> string list \<Rightarrow> redaction_trie" where
  "temporary_trie T extra = new_trie \<lparr>to_redact = Some (rt_redact T @ extra), to_secret = Some (rt_secret T), to_max_string = Some (rt_max_string T),
     to_max_array = None, to_max_object = None, to_annotated = None\<rparr>"

definition create_audit_record :: "(string \<Rightarrow> string) \<Rightarrow> redaction_trie \<Rightarrow> jv \<Rightarrow> string \<Rightarrow> string list \<Rightarrow> audit_record" where
  "create_audit_record sha T input operation extra =
     (let redacted = redact sha (if extra = [] then T else temporary_trie T extra) input [] 0
      in \<lparr>au_input = redacted, au_input_hash = sha (canonical_text input), au_redacted_hash = sha (canonical_text redacted),
          au_version = ''v1.0.0'', au_operation = operation\<rparr>)"

definition default_trie :: redaction_trie where
  "default_trie = new_trie
     \<lparr>to_redact = Some [''password'', ''token'', ''secret'', ''apiKey'', ''api_key'', ''privateKey'', ''private_key'', ''accessToken'', ''access_token'',
        ''refreshToken'', ''refresh_token'', ''authorization'', ''cookie'', ''set-cookie''],
      to_secret = Some [''headers.authorization'', ''headers.cookie'', ''headers.set-cookie'', ''headers.x-api-key'', ''headers.x-meshrix-token'',
        ''query.token'', ''query.code'', ''query.oauth_code'', ''input.password'', ''input.token'', ''input.secret'', ''input.apiKey'',
        ''input.privateKey'', ''input.oauthCode'', ''input.credential'', ''input.credentials'', ''request.headers.authorization'',
        ''request.headers.cookie'', ''request.query.token'', ''*.authorization'', ''*.password'', ''*.secret'', ''*.token'', ''*.apiKey'', ''*.private_key''],
      to_max_string = Some 256, to_max_array = Some 50, to_max_object = Some 50, to_annotated = None\<rparr>"

section \<open>What a redacted record shows\<close>

text \<open>A value the redaction looks into: a string, a list or an object.\<close>

fun hideable :: "jv \<Rightarrow> bool" where
  "hideable (JStr s) = True"
| "hideable (JArr xs) = True"
| "hideable (JObj ps) = True"
| "hideable _ = False"

text \<open>
  Two values that may differ below the redacted paths (there up to the digest of a secret), in long
  strings after the limit, in list items and properties beyond the limits, and below the maximal depth.
\<close>

inductive alike :: "(string \<Rightarrow> string) \<Rightarrow> redaction_trie \<Rightarrow> string \<Rightarrow> nat \<Rightarrow> jv \<Rightarrow> jv \<Rightarrow> bool" for sha T where
  alike_same: "alike sha T path d v v"
| alike_deep: "50 < d \<Longrightarrow> alike sha T path d v w"
| alike_hidden: "should_redact T path \<Longrightarrow> hideable v \<Longrightarrow> hideable w \<Longrightarrow> (is_secret T path \<longrightarrow> secret_ref sha v = secret_ref sha w) \<Longrightarrow> alike sha T path d v w"
| alike_long: "length s = length t \<Longrightarrow> rt_max_string T < int (length s) \<Longrightarrow> js_slice (rt_max_string T) s = js_slice (rt_max_string T) t \<Longrightarrow>
    \<not> looks_like_secret s \<Longrightarrow> \<not> looks_like_secret t \<Longrightarrow> \<not> should_redact T path \<Longrightarrow> alike sha T path d (JStr s) (JStr t)"
| alike_list: "length (js_slice (rt_max_array T) xs) = length (js_slice (rt_max_array T) ys) \<Longrightarrow>
    (\<forall>i<length (js_slice (rt_max_array T) xs).
       alike sha T (item_path path i) (Suc d) (js_slice (rt_max_array T) xs ! i) (js_slice (rt_max_array T) ys ! i)) \<Longrightarrow>
    \<not> should_redact T path \<Longrightarrow> alike sha T path d (JArr xs) (JArr ys)"
| alike_object: "map fst (js_slice (rt_max_object T) ps) = map fst (js_slice (rt_max_object T) qs) \<Longrightarrow>
    (\<forall>i<length (js_slice (rt_max_object T) ps).
       alike sha T (child_path path (fst (js_slice (rt_max_object T) ps ! i))) (Suc d) (snd (js_slice (rt_max_object T) ps ! i)) (snd (js_slice (rt_max_object T) qs ! i))) \<Longrightarrow>
    \<not> should_redact T path \<Longrightarrow> alike sha T path d (JObj ps) (JObj qs)"

lemma alike_redact: "alike sha T path d v w \<Longrightarrow> redact sha T v path d = redact sha T w path d"
proof (induction rule: alike.induct)
  case (alike_hidden path v w d)
  then show ?case by (cases v; cases w) (simp_all add: redact.simps)
next
  case (alike_long s t path d)
  then show ?case by (simp add: redact.simps redact_text_def)
next
  case (alike_list xs ys path d)
  let ?xs = "js_slice (rt_max_array T) xs" and ?ys = "js_slice (rt_max_array T) ys"
  have "map (\<lambda>(i, x). redact sha T x (item_path path i) (Suc d)) (enumerate 0 ?xs) =
      map (\<lambda>(i, x). redact sha T x (item_path path i) (Suc d)) (enumerate 0 ?ys)"
    by (rule nth_equalityI) (use alike_list in \<open>simp_all add: nth_enumerate_eq\<close>)
  then show ?case using alike_list.hyps(2) by (simp add: redact.simps)
next
  case (alike_object ps qs path d)
  let ?ps = "js_slice (rt_max_object T) ps" and ?qs = "js_slice (rt_max_object T) qs"
  have len: "length ?ps = length ?qs" using alike_object.hyps(1) by (metis length_map)
  have keys: "fst (?ps ! i) = fst (?qs ! i)" if "i < length ?qs" for i using alike_object.hyps(1) len that by (metis nth_map)
  have "map (\<lambda>(k, x). (k, redact sha T x (child_path path k) (Suc d))) ?ps = map (\<lambda>(k, x). (k, redact sha T x (child_path path k) (Suc d))) ?qs"
    by (rule nth_equalityI) (use alike_object keys len in \<open>simp_all add: case_prod_unfold\<close>)
  then show ?case using alike_object.hyps(2) by (simp add: redact.simps)
qed (simp_all add: redact.simps)


definition demo_login :: "string \<Rightarrow> jv" where
  "demo_login secret = JObj [(''user'', JStr ''ada''), (''password'', JStr secret)]"

lemma demo_alike: "alike (\<lambda>t. t) default_trie [] 0 (demo_login ''hunter2'') (demo_login ''correct horse'')"
proof -
  have r: "should_redact default_trie ''password''" "\<not> is_secret default_trie ''password''" "\<not> should_redact default_trie []" by code_simp+
  have s: "js_slice (rt_max_object default_trie) xs = take 50 xs" for xs :: "(string \<times> jv) list"
    by (simp add: js_slice_def default_trie_def new_trie_def Let_def or_else_def)
  have p: "alike (\<lambda>t. t) default_trie ''password'' 1 (JStr ''hunter2'') (JStr ''correct horse'')"
    by (rule alike_hidden) (use r in simp_all)
  show ?thesis unfolding demo_login_def
    by (rule alike_object) (use p r alike_same in \<open>auto simp: s less_Suc_eq child_path_def\<close>)
qed


section \<open>What it does show\<close>

text \<open>Numbers and booleans are kept before any path is looked at.\<close>

lemma numbers_are_shown: "d \<le> 50 \<Longrightarrow> redact sha T (JNum n) path d = JNum n"
  by (simp add: redact.simps)

text \<open>The patterns of the default reach two levels, so a password further down stays.\<close>

lemma deep_password_shown:
  "redact sha default_trie (JObj [(''a'', JObj [(''b'', JObj [(''password'', JStr ''hunter2'')])])]) [] 0 =
    JObj [(''a'', JObj [(''b'', JObj [(''password'', JStr ''hunter2'')])])]"
  by code_simp

text \<open>With additional paths the schema's annotations are forgotten.\<close>

definition annotated_trie :: redaction_trie where
  "annotated_trie = new_trie \<lparr>to_redact = None, to_secret = None, to_max_string = None, to_max_array = None, to_max_object = None,
     to_annotated = Some [''ssn'']\<rparr>"

lemma additional_path_forgets_annotations:
  "au_input (create_audit_record (\<lambda>t. t) annotated_trie (JObj [(''ssn'', JStr ''078'')]) [] []) = JObj [(''ssn'', JStr ''[redacted]'')]"
  "au_input (create_audit_record (\<lambda>t. t) annotated_trie (JObj [(''ssn'', JStr ''078'')]) [] [''email'']) = JObj [(''ssn'', JStr ''078'')]"
  by code_simp+

end
