(* ===== verification/Spec2Isabelle.thy ===== *)
theory Spec2Isabelle
  imports Prelude WaitQueue MinHeap DeadlineScheduler LockContract MemoryLockSafety
    WorkQueueMachine WorkQueuePolicy PushDispatcher FallbackCoordinator
    UriPath RadixTrie RouteIndex
    EventPage EventBusSafety
    MetadataRedaction ReplaySafety
    TrafficSafety CanonicalJson TagSafety PolicyEnforcement AuthzCacheSafety SseSafety GovernanceRevocation RedactionTrie
begin

text \<open>
  A verification library for LicoMesh, a control plane that runs operations, tools and workflows for
  agents. It covers the code that decides: who holds a lock, what a queue does next, which operation
  a path names, which events a subscriber sees, whom a notification reaches, whether a workflow may
  move, whether a request to an upstream service is admitted, whether a caller is allowed to do what
  it asks for, and what is left of a value in a record. The sources
  are TypeScript; every path below is under \<open>src/packages/\<close>.

  \<^bold>\<open>How the parts interact.\<close> A request is routed by the operation route index over the radix trie.
  The policy enforcement point asks the authorization engine, which compiles and caches the facts of
  the credential, and checks tag policy, addresses and resource boundaries; a high risk decision
  needs an approval receipt. Governance, the port the engine asks first, may settle a request or send it
  for approval. Admitted calls to upstream services pass the traffic controller. Work
  runs through the work queue (state machine, dispatcher, fallback under a lock of the lock manager),
  workflows move by the state machine engine, and what happened is published on the event bus. A change
  of the catalog goes out to the subscribers of the partitions it affects, which have to acknowledge it.

  \<^bold>\<open>Representation.\<close> A class or a closure over variables is a record, its methods are functions from
  the record to the record and the answer, its callbacks and timers are further operations. Promises
  are outcome fields that a later operation sets; an \<open>await\<close> cuts a method in two operations, so every
  interleaving is a sequence of steps and safety is proved of all reachable states. Objects shared by
  reference live in stores addressed by numbers. Values of unknown type are the JSON universe \<open>jv\<close>
  (Prelude), with truthiness, \<open>||\<close>, \<open>String(x)\<close> and property access written out; a \<open>throw\<close> is \<open>Inl\<close> of
  an error type. Numbers are integers, rationals where the code divides, words where it works bitwise.

  \<^bold>\<open>Theories.\<close>

  \<^item> \<^bold>\<open>Prelude\<close>, \<^bold>\<open>JsNumber\<close>, \<^bold>\<open>JsonText\<close>: values, strings, numbers and JSON text, with the lemmas on lists and
    maps the components share.
  \<^item> \<^bold>\<open>Locks\<close>, \<open>foundation/src/concurrency/lock-manager-contract.ts\<close> and \<open>lock-manager.ts\<close>: WaitQueue (intrusive
    list, refines a list), MinHeap (array heap), DeadlineScheduler (lazy deletion, one timer), LockContract
    (arguments and errors), MemoryLock (the manager), MemoryLockInv (its invariant) and MemoryLockSafety
    (mutual exclusion, fencing order, FIFO hand-over, no stranded waiter). The locales \<open>fifo_store\<close> and
    \<open>min_queue\<close> state what the manager and the schedulers rely on; the model's own operations interpret them.
  \<^item> \<^bold>\<open>Work queue\<close>, \<open>foundation/src/work-queue/\<close> and \<open>workflow/state-machine/work-queue/state-machine.ts\<close>:
    WorkQueueMachine (transition table), WorkQueuePolicy (priorities, ageing, capacity, backoff, UUIDv7),
    PushDispatcher (worker credit, leases), FallbackCoordinator (attempt loop under a lock).
  \<^item> \<^bold>\<open>Routing\<close>, \<open>server-runtime/src/routing/\<close>: UriPath (normalisation with percent decoding on bytes), RadixTrie
    (insertion and backtracking lookup, refines search in the route table), RouteIndex (operations, conflicts).
  \<^item> \<^bold>\<open>Events\<close>, \<open>protocols/pubsub/event-bus.ts\<close>: EventPage (bounds of a page), EventBus (waiters, deadlines,
    ring), EventBusInv (invariant), EventBusSafety (no waiter oversleeps, complete pages).
  \<^item> \<^bold>\<open>Workflow engine\<close>, \<open>foundation/src/workflow/state-machine/\<close>: Machine (data), MachineSchema and MachineTopology
    (\<open>verification/\<close>), StateMachineGuards (\<open>guards/\<close>), TransitionSelector and StateMachineCore (\<open>engine/\<close>),
    MachineReplay (\<open>transition.ts\<close>, \<open>replay.ts\<close>, sequence checks), StateMachineSafety, MetadataRedaction and
    ReplaySafety (progress, evidence, redaction, replay and hash chain).
  \<^item> \<^bold>\<open>Upstream traffic\<close>, \<open>agents/src/upstream-gateway/endpoint-traffic.ts\<close>: EndpointTraffic, TrafficSafety (limits,
    exact accounting, rate, rotation).
  \<^item> \<^bold>\<open>Digests\<close>, \<open>contracts/src/serialization/canonical-json.ts\<close>: CanonicalJson (what a canonical text identifies),
    JsonSame (what readers of such values cannot tell apart).
  \<^item> \<^bold>\<open>Authorization\<close>, \<open>foundation/src/security/\<close>: ClientIp (\<open>trusted-client-ip.ts\<close>), AddressRules (CIDR on 32-bit
    words), TagPolicy and TagSafety (\<open>tag-tree.ts\<close>, \<open>universal-tag-policy.ts\<close>), AuthzCommon, AuthzSubject,
    AuthzBoundaries, AuthzEngine, AuthzCache (\<open>authorization-*.ts\<close>), PolicyEnforcement (\<open>pdp/\<close>), AuthzSafety and
    AuthzCacheSafety (an allowed request passed every gate; no high risk without a receipt; the cache
    changes no answer).

  \<^item> \<^bold>\<open>Governance\<close>, \<open>authorization-governance-store*.ts\<close> and the approvals of
    \<open>capabilities/src/operation-permission-core/runtime-pending.ts\<close>: GovernanceRules (policies, requests,
    approvals), GovernanceStore (tables, evaluation, the port of the engine), GovernanceSafety (an allowed
    request has standing in every layer; four approvals settle a request) and GovernanceRevocation
    (revocation is permanent).
  \<^item> \<^bold>\<open>Redaction\<close>, \<open>foundation/src/security/redaction/redaction-trie.ts\<close>: RedactionTrie (what is hidden
    leaves no trace in the record).
  \<^item> \<^bold>\<open>Notification streams\<close>, \<open>contracts/src/mcp-catalog-delivery.ts\<close> and
    \<open>server-runtime/src/state/sse-connection-state.ts\<close>: CatalogDelivery (wire contract), SseConnections (the
    registry), SseInv (its invariant), SseSafety (limits, isolation of audiences, convergence to a new
    catalog). A step is an operation of the registry or a timer that fires.

  \<^bold>\<open>Recursion and bounds.\<close> Loops over data are structural; loops on a condition have a termination proof
  (the heap by its length, reachability by the states not yet visited, the walk up the tags by the
  tags not yet seen). Only the drain of the deadline scheduler runs on fuel, because its callbacks may
  schedule again; with callbacks that leave the scheduler alone one unit per heap entry and one more
  are proved enough, and the lock manager runs it on exactly that. The attempt loop of the fallback
  coordinator is proved to end within its configured attempts.

  \<^bold>\<open>Parameters.\<close> What the sources take from elsewhere is an argument: clock and timers, random bytes,
  SHA-256, URL and date parsing, ISO dates and base64, the governance store of the engine (of which the
  modelled store is one instance), the tag store, how a stream takes a write, the ports of the
  enforcement point, event and queue stores, handlers of user code, the generated lists of operation
  and tool ids, and which entries the weighted cache drops. Hypotheses about them are stated in the
  theorem that needs them (no collision of SHA-256 on the texts compared, a store that returns the
  events it was given) and shown to hold for a concrete function by its witness.

  \<^bold>\<open>Not modelled.\<close> SQL and file stores and the durable lock managers (their behaviour is that of an
  external database), transport, process control, cryptography, module loading, the console, build
  tools, generated tables and schemas. Messages for people, time stamps and log records are left out of
  the models. Strings are sequences of code units below 256; upper case mapping beyond ASCII and
  fractions in numbers that the code only compares are outside the models and noted where they arise.

  \<^bold>\<open>Remaining plan.\<close> The tag store behind governance, claiming and replay of pending operations,
  audience projection, the production ingress contract and the proof substrate.
\<close>

end
